(* ===== verification/Keel_Prelude.thy ===== *)
theory Keel_Prelude
  imports Main "HOL-Library.Word" "HOL-Library.AList" "HOL-Library.List_Lexorder"
    "HOL-Library.Char_ord" "HOL-Library.Sublist" "HOL-Library.Multiset"
begin

text \<open>
  What the components share: the integer widths of the Rust code, its \<open>Result\<close> type,
  the part of \<open>std\<close>'s string and collection API the sources call, and the lemmas and
  collections that carry the component proofs.

  Strings are the UTF-8 bytes of the Rust string (\<open>len()\<close> counts bytes). A \<open>HashMap\<close>
  is an association list with distinct keys whose order is the map's (unspecified) iteration
  order: every lemma about a table holds for any order of its entries. Integers that stay small
  are \<open>nat\<close> with the bound written at the parser; addresses, hashes and the counters whose
  overflow can be observed are words, which wrap as a release build of the workspace does.
\<close>

unbundle bit_operations_syntax

named_theorems keel_defs \<open>definitions that proofs about one component unfold\<close>

named_theorems inv_intros \<open>operations that keep a component's invariant\<close>

type_synonym u8 = "8 word"
type_synonym u16 = "16 word"
type_synonym u32 = "32 word"
type_synonym u64 = "64 word"

text \<open>\<open>Instant\<close> and \<open>Duration\<close> in nanoseconds; \<open>saturating_duration_since\<close> is the
  truncated subtraction of \<open>nat\<close>.\<close>

type_synonym instant = nat
type_synonym duration = nat

definition from_secs :: "nat \<Rightarrow> duration" where
  "from_secs s = s * 1000000000"

definition as_secs :: "duration \<Rightarrow> nat" where
  "as_secs d = d div 1000000000"

definition saturating_duration_since :: "instant \<Rightarrow> instant \<Rightarrow> duration" where
  "saturating_duration_since now earlier = now - earlier"

lemma as_secs_from_secs [simp]: "as_secs (from_secs s) = s"
  by (simp add: as_secs_def from_secs_def)

section \<open>Result\<close>

datatype ('a, 'e) result = Ok 'a | Err 'e

primrec is_ok :: "('a, 'e) result \<Rightarrow> bool" where
  "is_ok (Ok x) = True"
| "is_ok (Err e) = False"

primrec ok :: "('a, 'e) result \<Rightarrow> 'a option" where
  "ok (Ok x) = Some x"
| "ok (Err e) = None"

primrec map_err :: "('e \<Rightarrow> 'f) \<Rightarrow> ('a, 'e) result \<Rightarrow> ('a, 'f) result" where
  "map_err f (Ok x) = Ok x"
| "map_err f (Err e) = Err (f e)"

primrec and_then :: "('a, 'e) result \<Rightarrow> ('a \<Rightarrow> ('b, 'e) result) \<Rightarrow> ('b, 'e) result" where
  "and_then (Ok x) f = f x"
| "and_then (Err e) f = Err e"

primrec ok_or :: "'e \<Rightarrow> 'a option \<Rightarrow> ('a, 'e) result" where
  "ok_or e None = Err e"
| "ok_or e (Some x) = Ok x"

lemma is_ok_iff: "is_ok r \<longleftrightarrow> (\<exists>x. r = Ok x)"
  by (cases r) auto

lemma and_then_Ok_iff [simp]: "and_then r f = Ok y \<longleftrightarrow> (\<exists>x. r = Ok x \<and> f x = Ok y)"
  by (cases r) auto

lemma map_err_Ok_iff [simp]: "map_err f r = Ok y \<longleftrightarrow> r = Ok y"
  by (cases r) auto

lemma ok_or_Ok_iff [simp]: "ok_or e x = Ok y \<longleftrightarrow> x = Some y"
  by (cases x) auto

lemma ok_or_Err_iff [simp]: "ok_or e x = Err e' \<longleftrightarrow> x = None \<and> e' = e"
  by (cases x) auto

lemma ok_Some_iff [simp]: "ok r = Some x \<longleftrightarrow> r = Ok x"
  by (cases r) auto

text \<open>Code that both changes a state and can fail: the state is threaded, the \<open>?\<close> operator is
  \<open>bindE\<close>. An error keeps the state reached so far, as the Rust code does.\<close>

type_synonym ('s, 'a, 'e) eff = "'s \<Rightarrow> ('a, 'e) result \<times> 's"

definition returnE :: "'a \<Rightarrow> ('s, 'a, 'e) eff" where
  "returnE x = (\<lambda>s. (Ok x, s))"

definition failE :: "'e \<Rightarrow> ('s, 'a, 'e) eff" where
  "failE e = (\<lambda>s. (Err e, s))"

definition liftE :: "('a, 'e) result \<Rightarrow> ('s, 'a, 'e) eff" where
  "liftE r = (\<lambda>s. (r, s))"

definition bindE :: "('s, 'a, 'e) eff \<Rightarrow> ('a \<Rightarrow> ('s, 'b, 'e) eff) \<Rightarrow> ('s, 'b, 'e) eff" where
  "bindE m f = (\<lambda>s. case m s of (Ok x, s') \<Rightarrow> f x s' | (Err e, s') \<Rightarrow> (Err e, s'))"

definition mapE :: "('e \<Rightarrow> 'f) \<Rightarrow> ('s, 'a, 'e) eff \<Rightarrow> ('s, 'a, 'f) eff" where
  "mapE f m = (\<lambda>s. case m s of (r, s') \<Rightarrow> (map_err f r, s'))"

text \<open>\<open>let _ = m\<close>: the result of \<open>m\<close> is discarded, its effect stays.\<close>

definition ignoreE :: "('s, 'a, 'e) eff \<Rightarrow> ('s, unit, 'f) eff" where
  "ignoreE m = (\<lambda>s. (Ok (), snd (m s)))"

fun forE :: "'x list \<Rightarrow> ('x \<Rightarrow> ('s, unit, 'e) eff) \<Rightarrow> ('s, unit, 'e) eff" where
  "forE [] f = returnE ()"
| "forE (x # xs) f = bindE (f x) (\<lambda>_. forE xs f)"

lemmas eff_defs = returnE_def failE_def liftE_def bindE_def mapE_def ignoreE_def

lemma bindE_Ok_iff:
  "bindE m f s = (Ok y, t) \<longleftrightarrow> (\<exists>x u. m s = (Ok x, u) \<and> f x u = (Ok y, t))"
  by (auto simp: bindE_def split: prod.splits result.splits)

lemma bindE_Err_iff:
  "bindE m f s = (Err e, t) \<longleftrightarrow>
     m s = (Err e, t) \<or> (\<exists>x u. m s = (Ok x, u) \<and> f x u = (Err e, t))"
  by (auto simp: bindE_def split: prod.splits result.splits)

lemma snd_bindE:
  "snd (bindE m f s) = (case fst (m s) of Ok x \<Rightarrow> snd (f x (snd (m s))) | Err e \<Rightarrow> snd (m s))"
  by (auto simp: bindE_def split: prod.splits result.splits)

text \<open>An invariant of the state that every step of a sequence keeps is kept by the sequence,
  whether it ends in \<open>Ok\<close> or in an error.\<close>

definition keeps :: "('s \<Rightarrow> bool) \<Rightarrow> ('s, 'a, 'e) eff \<Rightarrow> bool" where
  "keeps P m \<longleftrightarrow> (\<forall>s. P s \<longrightarrow> P (snd (m s)))"

lemma keepsD: "keeps P m \<Longrightarrow> P s \<Longrightarrow> P (snd (m s))"
  by (simp add: keeps_def)

lemma keepsI: "(\<And>s. P s \<Longrightarrow> P (snd (m s))) \<Longrightarrow> keeps P m"
  by (simp add: keeps_def)

lemma keeps_returnE [inv_intros]: "keeps P (returnE x)"
  by (simp add: keeps_def returnE_def)

lemma keeps_failE [inv_intros]: "keeps P (failE e)"
  by (simp add: keeps_def failE_def)

lemma keeps_liftE [inv_intros]: "keeps P (liftE r)"
  by (simp add: keeps_def liftE_def)

lemma keeps_bindE [inv_intros]:
  "keeps P m \<Longrightarrow> (\<And>x. keeps P (f x)) \<Longrightarrow> keeps P (bindE m f)"
  by (simp add: keeps_def snd_bindE split: result.splits)

lemma keeps_mapE [inv_intros]: "keeps P m \<Longrightarrow> keeps P (mapE f m)"
  by (simp add: keeps_def mapE_def split: prod.splits) (metis snd_conv)

lemma keeps_ignoreE [inv_intros]: "keeps P m \<Longrightarrow> keeps P (ignoreE m)"
  by (simp add: keeps_def ignoreE_def)

lemma keeps_forE [inv_intros]: "(\<And>x. x \<in> set xs \<Longrightarrow> keeps P (f x)) \<Longrightarrow> keeps P (forE xs f)"
  by (induction xs) (auto intro!: inv_intros)

section \<open>Strings\<close>

definition is_ascii_digit :: "char \<Rightarrow> bool" where
  "is_ascii_digit c \<longleftrightarrow> 48 \<le> (of_char c :: nat) \<and> (of_char c :: nat) \<le> 57"

definition is_ascii_lowercase :: "char \<Rightarrow> bool" where
  "is_ascii_lowercase c \<longleftrightarrow> 97 \<le> (of_char c :: nat) \<and> (of_char c :: nat) \<le> 122"

definition is_ascii_uppercase :: "char \<Rightarrow> bool" where
  "is_ascii_uppercase c \<longleftrightarrow> 65 \<le> (of_char c :: nat) \<and> (of_char c :: nat) \<le> 90"

definition is_ascii_alphanumeric :: "char \<Rightarrow> bool" where
  "is_ascii_alphanumeric c \<longleftrightarrow>
     is_ascii_digit c \<or> is_ascii_lowercase c \<or> is_ascii_uppercase c"

definition to_ascii_uppercase_char :: "char \<Rightarrow> char" where
  "to_ascii_uppercase_char c =
     (if is_ascii_lowercase c then char_of ((of_char c :: nat) - 32) else c)"

definition to_ascii_uppercase :: "string \<Rightarrow> string" where
  "to_ascii_uppercase s = map to_ascii_uppercase_char s"

definition to_ascii_lowercase_char :: "char \<Rightarrow> char" where
  "to_ascii_lowercase_char c =
     (if is_ascii_uppercase c then char_of ((of_char c :: nat) + 32) else c)"

definition to_ascii_lowercase :: "string \<Rightarrow> string" where
  "to_ascii_lowercase s = map to_ascii_lowercase_char s"

text \<open>\<open>s.split(c)\<close> (a string with \<open>n\<close> separators has \<open>n + 1\<close> pieces),
  \<open>split_once\<close>, \<open>strip_prefix\<close>, \<open>strip_suffix\<close>, \<open>trim_start_matches\<close>.\<close>

fun split_char :: "char \<Rightarrow> string \<Rightarrow> string list" where
  "split_char c [] = [[]]"
| "split_char c (x # xs) =
     (if x = c then [] # split_char c xs
      else (case split_char c xs of [] \<Rightarrow> [[x]] | p # ps \<Rightarrow> (x # p) # ps))"

fun split_once :: "char \<Rightarrow> string \<Rightarrow> (string \<times> string) option" where
  "split_once c [] = None"
| "split_once c (x # xs) =
     (if x = c then Some ([], xs)
      else map_option (\<lambda>(a, b). (x # a, b)) (split_once c xs))"

definition rsplit_once :: "char \<Rightarrow> string \<Rightarrow> (string \<times> string) option" where
  "rsplit_once c s = map_option (\<lambda>(a, b). (rev b, rev a)) (split_once c (rev s))"

fun strip_prefix :: "string \<Rightarrow> string \<Rightarrow> string option" where
  "strip_prefix [] s = Some s"
| "strip_prefix (p # ps) [] = None"
| "strip_prefix (p # ps) (x # xs) = (if p = x then strip_prefix ps xs else None)"

definition strip_suffix :: "string \<Rightarrow> string \<Rightarrow> string option" where
  "strip_suffix p s = map_option rev (strip_prefix (rev p) (rev s))"

definition trim_start_matches :: "char \<Rightarrow> string \<Rightarrow> string" where
  "trim_start_matches c s = dropWhile (\<lambda>x. x = c) s"

fun contains_str :: "string \<Rightarrow> string \<Rightarrow> bool" where
  "contains_str p [] = (p = [])"
| "contains_str p (x # xs) = (prefix p (x # xs) \<or> contains_str p xs)"

lemma strip_prefix_Some_iff: "strip_prefix p s = Some r \<longleftrightarrow> s = p @ r"
  by (induction p s rule: strip_prefix.induct) auto

lemma strip_prefix_append [simp]: "strip_prefix p (p @ r) = Some r"
  by (simp add: strip_prefix_Some_iff)

lemma strip_suffix_Some_iff: "strip_suffix p s = Some r \<longleftrightarrow> s = r @ p"
proof -
  have "strip_suffix p s = Some r \<longleftrightarrow> strip_prefix (rev p) (rev s) = Some (rev r)"
    by (auto simp: strip_suffix_def)
  also have "\<dots> \<longleftrightarrow> rev s = rev (r @ p)"
    by (simp add: strip_prefix_Some_iff)
  finally show ?thesis
    by (simp only: rev_is_rev_conv)
qed

lemma split_char_ne [simp]: "split_char c s \<noteq> []"
  by (induction s) (auto split: list.splits)

lemma split_once_None_iff: "split_once c s = None \<longleftrightarrow> c \<notin> set s"
  by (induction s) auto

lemma split_once_Some_iff:
  "split_once c s = Some (a, b) \<longleftrightarrow> s = a @ c # b \<and> c \<notin> set a"
proof (induction s arbitrary: a)
  case Nil
  then show ?case by simp
next
  case (Cons x xs)
  then show ?case by (cases a) auto
qed

lemma rsplit_once_Some_iff:
  "rsplit_once c s = Some (a, b) \<longleftrightarrow> s = a @ c # b \<and> c \<notin> set b"
proof -
  have "rsplit_once c s = Some (a, b) \<longleftrightarrow> split_once c (rev s) = Some (rev b, rev a)"
    by (auto simp: rsplit_once_def)
  also have "\<dots> \<longleftrightarrow> rev s = rev b @ c # rev a \<and> c \<notin> set b"
    by (simp add: split_once_Some_iff)
  also have "rev s = rev b @ c # rev a \<longleftrightarrow> rev s = rev (a @ c # b)"
    by simp
  also have "\<dots> \<longleftrightarrow> s = a @ c # b"
    by (simp only: rev_is_rev_conv)
  finally show ?thesis .
qed

lemma contains_str_iff: "contains_str p s \<longleftrightarrow> sublist p s"
  by (induction s) (auto simp: sublist_Cons_right)

section \<open>Decimal numbers\<close>

definition digit_char :: "nat \<Rightarrow> char" where
  "digit_char d = char_of (48 + d)"

definition digit_val :: "char \<Rightarrow> nat" where
  "digit_val c = of_char c - 48"

fun show_nat :: "nat \<Rightarrow> string" where
  "show_nat n = (if n < 10 then [digit_char n] else show_nat (n div 10) @ [digit_char (n mod 10)])"

declare show_nat.simps [simp del]

definition digits_val :: "string \<Rightarrow> nat" where
  "digits_val s = foldl (\<lambda>a c. 10 * a + digit_val c) 0 s"

text \<open>\<open>str::parse\<close> for an unsigned type with maximum \<open>m\<close>: an optional \<open>+\<close>, then one or
  more digits whose value does not exceed \<open>m\<close>.\<close>

definition parse_uint :: "nat \<Rightarrow> string \<Rightarrow> nat option" where
  "parse_uint m s =
     (let ds = (case s of [] \<Rightarrow> [] | c # cs \<Rightarrow> if c = CHR ''+'' then cs else s)
      in if ds \<noteq> [] \<and> list_all is_ascii_digit ds \<and> digits_val ds \<le> m
         then Some (digits_val ds) else None)"

abbreviation u16_max :: nat where "u16_max \<equiv> 65535"
abbreviation u32_max :: nat where "u32_max \<equiv> 4294967295"
abbreviation u64_max :: nat where "u64_max \<equiv> 18446744073709551615"

lemma is_ascii_digit_digit_char [simp]: "d < 10 \<Longrightarrow> is_ascii_digit (digit_char d)"
  by (simp add: is_ascii_digit_def digit_char_def)

lemma digit_val_digit_char [simp]: "d < 10 \<Longrightarrow> digit_val (digit_char d) = d"
  by (simp add: digit_val_def digit_char_def)

lemma digits_val_snoc [simp]: "digits_val (s @ [c]) = 10 * digits_val s + digit_val c"
  by (simp add: digits_val_def)

lemma digits_val_Nil [simp]: "digits_val [] = 0"
  by (simp add: digits_val_def)

lemma show_nat_ne [simp]: "show_nat n \<noteq> []"
  by (subst show_nat.simps) simp

lemma show_nat_digits: "list_all is_ascii_digit (show_nat n)"
proof (induction n rule: show_nat.induct)
  case (1 n)
  then show ?case
    by (subst show_nat.simps) auto
qed

lemma digits_val_show_nat [simp]: "digits_val (show_nat n) = n"
proof (induction n rule: show_nat.induct)
  case (1 n)
  show ?case
  proof (cases "n < 10")
    case True
    then show ?thesis
      by (subst show_nat.simps) (simp add: digits_val_def)
  next
    case False
    with 1 show ?thesis
      by (subst show_nat.simps) simp
  qed
qed

lemma show_nat_inj [simp]: "show_nat m = show_nat n \<longleftrightarrow> m = n"
  by (metis digits_val_show_nat)

lemma digit_not_special:
  "is_ascii_digit c \<Longrightarrow> c \<noteq> CHR ''+'' \<and> c \<noteq> CHR ''-'' \<and> c \<noteq> CHR ''.'' \<and> c \<noteq> CHR ''/'' \<and> c \<noteq> CHR '':''"
  by (auto simp: is_ascii_digit_def)

lemma show_nat_notin:
  "CHR ''-'' \<notin> set (show_nat n)" "CHR ''+'' \<notin> set (show_nat n)"
  "CHR ''.'' \<notin> set (show_nat n)" "CHR ''/'' \<notin> set (show_nat n)"
  using show_nat_digits [of n] digit_not_special by (auto simp: list_all_iff)

lemma length_show_nat: "n < 10 ^ Suc k \<Longrightarrow> length (show_nat n) \<le> Suc k"
proof (induction k arbitrary: n)
  case 0
  then show ?case by (subst show_nat.simps) simp
next
  case (Suc k)
  then have "n div 10 < 10 ^ Suc k" by simp
  with Suc.IH [of "n div 10"] show ?case by (subst show_nat.simps) simp
qed

lemma parse_uint_show_nat [simp]: "n \<le> m \<Longrightarrow> parse_uint m (show_nat n) = Some n"
proof -
  assume "n \<le> m"
  moreover have "(case show_nat n of [] \<Rightarrow> [] | c # cs \<Rightarrow> if c = CHR ''+'' then cs else show_nat n)
      = show_nat n"
    using show_nat_notin(2) [of n] by (auto split: list.splits)
  ultimately show ?thesis
    using show_nat_digits [of n] by (simp add: parse_uint_def)
qed

lemma parse_uint_bound: "parse_uint m s = Some n \<Longrightarrow> n \<le> m"
  by (auto simp: parse_uint_def Let_def split: if_splits)

section \<open>Tables\<close>

text \<open>\<open>HashMap::get\<close>, \<open>insert\<close>, \<open>remove\<close> on an association list with distinct keys.\<close>

type_synonym ('k, 'v) hmap = "('k \<times> 'v) list"

abbreviation hm_get :: "('k, 'v) hmap \<Rightarrow> 'k \<Rightarrow> 'v option" where
  "hm_get \<equiv> map_of"

abbreviation hm_insert :: "'k \<Rightarrow> 'v \<Rightarrow> ('k, 'v) hmap \<Rightarrow> ('k, 'v) hmap" where
  "hm_insert \<equiv> AList.update"

abbreviation hm_remove :: "'k \<Rightarrow> ('k, 'v) hmap \<Rightarrow> ('k, 'v) hmap" where
  "hm_remove \<equiv> AList.delete"

definition hm_wf :: "('k, 'v) hmap \<Rightarrow> bool" where
  "hm_wf m \<longleftrightarrow> distinct (map fst m)"

lemma hm_wf_Nil [simp, inv_intros]: "hm_wf []"
  by (simp add: hm_wf_def)

lemma hm_wf_insert [simp, inv_intros]: "hm_wf m \<Longrightarrow> hm_wf (hm_insert k v m)"
  by (simp add: hm_wf_def distinct_update)

lemma hm_wf_remove [simp, inv_intros]: "hm_wf m \<Longrightarrow> hm_wf (hm_remove k m)"
  by (simp add: hm_wf_def distinct_delete)

lemma hm_get_insert [simp]: "hm_get (hm_insert k v m) = (hm_get m)(k \<mapsto> v)"
  by (rule update_conv')

lemma hm_get_remove [simp]: "hm_get (hm_remove k m) = (hm_get m)(k := None)"
  by (rule delete_conv')

lemma hm_get_iff: "hm_wf m \<Longrightarrow> (k, v) \<in> set m \<longleftrightarrow> hm_get m k = Some v"
  by (simp add: hm_wf_def)

lemma hm_get_perm: "hm_wf m \<Longrightarrow> mset m' = mset m \<Longrightarrow> hm_get m' = hm_get m"
  by (metis hm_wf_def mset_eq_setD mset_map mset_eq_imp_distinct_iff map_of_inject_set)

text \<open>A table that promises the laws of a map: what the components that keep one rely on.\<close>

locale table =
  fixes empty :: 't
    and lookup :: "'t \<Rightarrow> 'k \<Rightarrow> 'v option"
    and upd :: "'k \<Rightarrow> 'v \<Rightarrow> 't \<Rightarrow> 't"
    and del :: "'k \<Rightarrow> 't \<Rightarrow> 't"
  assumes lookup_empty: "lookup empty k = None"
    and lookup_upd: "lookup (upd k v t) j = (if j = k then Some v else lookup t j)"
    and lookup_del: "lookup (del k t) j = (if j = k then None else lookup t j)"
begin

lemma upd_upd_same: "lookup (upd k v (upd k w t)) j = lookup (upd k v t) j"
  by (simp add: lookup_upd)

lemma upd_upd_commute:
  "k \<noteq> l \<Longrightarrow> lookup (upd k v (upd l w t)) j = lookup (upd l w (upd k v t)) j"
  by (simp add: lookup_upd)

lemma del_upd_same: "lookup (del k (upd k v t)) j = lookup (del k t) j"
  by (simp add: lookup_upd lookup_del)

lemma del_idem: "lookup (del k (del k t)) j = lookup (del k t) j"
  by (simp add: lookup_del)

end

interpretation hm: table "[]" hm_get hm_insert hm_remove
  by unfold_locales auto

section \<open>Worker threads\<close>

text \<open>A thread that owns a state and answers one command at a time, in the order of its channel;
  \<open>None\<close> is a panic, after which nothing is answered.\<close>

fun serve :: "('t \<Rightarrow> 'c \<Rightarrow> 's \<Rightarrow> ('r \<times> 's) option) \<Rightarrow> ('t \<times> 'c) list \<Rightarrow> 's \<Rightarrow> ('r list \<times> 's) option" where
  "serve handle [] s = Some ([], s)"
| "serve handle ((now, c) # cs) s =
     (case handle now c s of None \<Rightarrow> None
      | Some (r, s') \<Rightarrow> map_option (\<lambda>(rs, s''). (r # rs, s'')) (serve handle cs s'))"

lemma serve_append:
  "serve handle (cs @ ds) s = (case serve handle cs s of None \<Rightarrow> None
     | Some (rs, s') \<Rightarrow> map_option (\<lambda>(qs, s''). (rs @ qs, s'')) (serve handle ds s'))"
proof (induction cs arbitrary: s)
  case Nil
  then show ?case by (cases "serve handle ds s") auto
next
  case (Cons c cs)
  then show ?case
    by (cases c) (auto simp: option.map_comp comp_def split_def split: option.splits prod.splits)
qed

text \<open>What the clients of such a thread rely on: it answers every command and keeps its invariant.\<close>

locale server =
  fixes handle :: "'t \<Rightarrow> 'c \<Rightarrow> 's \<Rightarrow> ('r \<times> 's) option"
    and inv :: "'s \<Rightarrow> bool"
  assumes answers: "inv s \<Longrightarrow> \<exists>r s'. handle now c s = Some (r, s')"
    and preserves: "inv s \<Longrightarrow> handle now c s = Some (r, s') \<Longrightarrow> inv s'"
begin

lemma serve_total:
  assumes "inv s"
  shows "\<exists>rs s'. serve handle cs s = Some (rs, s') \<and> length rs = length cs \<and> inv s'"
  using assms
proof (induction cs arbitrary: s)
  case (Cons c cs)
  obtain now cmd where c: "c = (now, cmd)" by (cases c)
  obtain r s1 where h: "handle now cmd s = Some (r, s1)"
    using answers [OF Cons.prems] by blast
  with Cons.IH [OF preserves [OF Cons.prems h]] show ?case by (auto simp: c)
qed simp

end

text \<open>The same for a thread that only promises to answer the commands its clients may send.\<close>

locale guarded_server =
  fixes handle :: "'t \<Rightarrow> 'c \<Rightarrow> 's \<Rightarrow> ('r \<times> 's) option"
    and inv :: "'s \<Rightarrow> bool"
    and allowed :: "'c \<Rightarrow> bool"
  assumes answers: "inv s \<Longrightarrow> allowed c \<Longrightarrow> \<exists>r s'. handle now c s = Some (r, s') \<and> inv s'"
begin

lemma serve_total:
  assumes "inv s" "\<forall>(now, c) \<in> set cs. allowed c"
  shows "\<exists>rs s'. serve handle cs s = Some (rs, s') \<and> length rs = length cs \<and> inv s'"
  using assms
proof (induction cs arbitrary: s)
  case (Cons c cs)
  obtain now cmd where c: "c = (now, cmd)" by (cases c)
  with Cons.prems obtain r s1 where h: "handle now cmd s = Some (r, s1)" "inv s1"
    using answers [of s cmd now] by auto
  with Cons.IH [of s1] Cons.prems(2) show ?case by (auto simp: c)
qed simp

end

sublocale server \<subseteq> all: guarded_server handle inv "\<lambda>_. True"
  using answers preserves by unfold_locales blast

end
