(* ===== verification/Ag_Backoff.thy ===== *)
theory Ag_Backoff
  imports Keel_Prelude
begin

text \<open>
  \<open>keel-agentd/src/backoff.rs\<close>: the delay between two attempts to start a jail. Every attempt
  arms a cooldown and doubles the next one, up to five minutes; an attempt a minute or more after the
  last one starts over.
\<close>

definition INITIAL_DELAY :: duration where
  "INITIAL_DELAY = from_secs 1"

definition MAX_DELAY :: duration where
  "MAX_DELAY = from_secs 300"

definition RESET_UPTIME_THRESHOLD :: duration where
  "RESET_UPTIME_THRESHOLD = from_secs 60"

record backoff_state =
  bo_current_delay :: duration
  bo_next_retry_at :: "instant option"
  bo_last_started_at :: "instant option"

record backoff_status =
  bs_retry_in_secs :: "nat option"
  bs_current_delay_secs :: "nat option"

definition backoff_new :: backoff_state where
  "backoff_new = \<lparr>bo_current_delay = INITIAL_DELAY, bo_next_retry_at = None, bo_last_started_at = None\<rparr>"

definition can_retry :: "backoff_state \<Rightarrow> instant \<Rightarrow> bool" where
  "can_retry b now = (case bo_next_retry_at b of Some t \<Rightarrow> now \<ge> t | None \<Rightarrow> True)"

definition record_attempt :: "instant \<Rightarrow> backoff_state \<Rightarrow> backoff_state" where
  "record_attempt now b =
     (let delay = (case bo_last_started_at b of
            Some started \<Rightarrow> if saturating_duration_since now started \<ge> RESET_UPTIME_THRESHOLD
                         then INITIAL_DELAY else bo_current_delay b
          | None \<Rightarrow> bo_current_delay b)
      in \<lparr>bo_current_delay = min (delay * 2) MAX_DELAY, bo_next_retry_at = Some (now + delay),
          bo_last_started_at = Some now\<rparr>)"

definition backoff_status_of :: "backoff_state \<Rightarrow> instant \<Rightarrow> backoff_status" where
  "backoff_status_of b now =
     (case bo_next_retry_at b of
        Some t \<Rightarrow> \<lparr>bs_retry_in_secs = Some (as_secs (saturating_duration_since t now)),
          bs_current_delay_secs = Some (as_secs (bo_current_delay b))\<rparr>
      | None \<Rightarrow> \<lparr>bs_retry_in_secs = None, bs_current_delay_secs = None\<rparr>)"

lemmas backoff_defs = INITIAL_DELAY_def MAX_DELAY_def RESET_UPTIME_THRESHOLD_def from_secs_def

text \<open>The delay stays between one second and five minutes, and a cooldown is at most that long.\<close>

definition backoff_inv :: "backoff_state \<Rightarrow> bool" where
  "backoff_inv b \<longleftrightarrow> INITIAL_DELAY \<le> bo_current_delay b \<and> bo_current_delay b \<le> MAX_DELAY \<and>
     (case bo_last_started_at b of None \<Rightarrow> bo_next_retry_at b = None
      | Some s \<Rightarrow> (\<exists>t. bo_next_retry_at b = Some t \<and> s + INITIAL_DELAY \<le> t \<and> t \<le> s + MAX_DELAY))"

lemma backoff_inv_new [inv_intros]: "backoff_inv backoff_new"
  by (simp add: backoff_inv_def backoff_new_def backoff_defs)

lemma backoff_inv_record [inv_intros]: "backoff_inv b \<Longrightarrow> backoff_inv (record_attempt now b)"
  by (auto simp: backoff_inv_def record_attempt_def backoff_defs Let_def split: option.splits)

text \<open>Attempts at the earliest possible moments: \<open>n\<close> of them in a row.\<close>

fun attempts :: "nat \<Rightarrow> instant \<Rightarrow> backoff_state" where
  "attempts 0 t0 = record_attempt t0 backoff_new"
| "attempts (Suc n) t0 =
     (let b = attempts n t0 in case bo_next_retry_at b of Some t \<Rightarrow> record_attempt t b | None \<Rightarrow> b)"

lemma attempts_props:
  assumes "n < 7"
  shows "bo_current_delay (attempts n t0) = min (2 ^ Suc n * INITIAL_DELAY) MAX_DELAY \<and>
    (\<exists>s. bo_last_started_at (attempts n t0) = Some s \<and>
      bo_next_retry_at (attempts n t0) = Some (s + 2 ^ n * INITIAL_DELAY))"
  using assms
proof (induction n)
  case 0
  then show ?case by (simp add: record_attempt_def backoff_new_def backoff_defs)
next
  case (Suc n)
  then obtain s where s: "bo_current_delay (attempts n t0) = min (2 ^ Suc n * INITIAL_DELAY) MAX_DELAY"
      "bo_last_started_at (attempts n t0) = Some s" "bo_next_retry_at (attempts n t0) = Some (s + 2 ^ n * INITIAL_DELAY)"
    by auto
  have e: "attempts (Suc n) t0 = record_attempt (s + 2 ^ n * INITIAL_DELAY) (attempts n t0)" using s by simp
  have "n \<in> {0, 1, 2, 3, 4, 5}" using Suc.prems by auto
  then show ?case
    unfolding e using s
    by (elim insertE emptyE) (simp_all add: record_attempt_def backoff_defs saturating_duration_since_def)
qed

text \<open>The histories the reconciler produces: an attempt only when \<open>can_retry\<close> allows it.\<close>

inductive polite :: "backoff_state \<Rightarrow> bool" where
  polite_new: "polite backoff_new"
| polite_attempt: "polite b \<Longrightarrow> can_retry b now \<Longrightarrow> polite (record_attempt now b)"

definition cooldowns :: "duration set" where
  "cooldowns = {k * INITIAL_DELAY | k. k \<in> {1, 2, 4, 8, 16, 32, 64}}"

lemma cooldowns_double: "d \<in> cooldowns \<Longrightarrow> d < RESET_UPTIME_THRESHOLD \<Longrightarrow> min (d * 2) MAX_DELAY \<in> cooldowns"
  by (auto simp: cooldowns_def backoff_defs)

lemma polite_props:
  "polite b \<Longrightarrow> (case bo_last_started_at b of None \<Rightarrow> b = backoff_new
     | Some s \<Rightarrow> (\<exists>d \<in> cooldowns. bo_next_retry_at b = Some (s + d) \<and> bo_current_delay b = min (d * 2) MAX_DELAY))"
proof (induction rule: polite.induct)
  case polite_new
  then show ?case by (simp add: backoff_new_def)
next
  case (polite_attempt b now)
  have one: "INITIAL_DELAY \<in> cooldowns" by (auto simp: cooldowns_def)
  show ?case
  proof (cases "bo_last_started_at b")
    case None
    with polite_attempt.IH one show ?thesis
      by (auto simp: record_attempt_def backoff_new_def)
  next
    case (Some s)
    with polite_attempt.IH obtain d where d: "d \<in> cooldowns" "bo_next_retry_at b = Some (s + d)"
      "bo_current_delay b = min (d * 2) MAX_DELAY" by auto
    show ?thesis
    proof (cases "d < RESET_UPTIME_THRESHOLD")
      case True
      with cooldowns_double [OF d(1)] one Some d show ?thesis
        by (auto simp: record_attempt_def Let_def)
    next
      case False
      then have "RESET_UPTIME_THRESHOLD \<le> now - s"
        using polite_attempt.hyps(2) d(2) by (auto simp: can_retry_def)
      with one Some show ?thesis by (auto simp: record_attempt_def saturating_duration_since_def Let_def)
    qed
  qed
qed

section \<open>Properties\<close>

text \<open>After an attempt nothing is retried for at least a second, and it may be retried after at
  most five minutes, whatever the history; the status shown for it agrees.\<close>

lemma backoff_cooldown:
  assumes "backoff_inv b"
  shows "(\<forall>t. t < now + INITIAL_DELAY \<longrightarrow> \<not> can_retry (record_attempt now b) t) \<and>
    (\<forall>t. now + MAX_DELAY \<le> t \<longrightarrow> can_retry (record_attempt now b) t) \<and>
    (\<exists>k. bs_retry_in_secs (backoff_status_of (record_attempt now b) now) = Some k \<and> 1 \<le> k \<and> k \<le> 300) \<and>
    backoff_inv (record_attempt now b)"
proof -
  obtain t where t: "bo_next_retry_at (record_attempt now b) = Some t" "now + INITIAL_DELAY \<le> t" "t \<le> now + MAX_DELAY"
    using backoff_inv_record [OF assms, of now]
    by (auto simp: backoff_inv_def record_attempt_def Let_def)
  have "1 \<le> as_secs (t - now) \<and> as_secs (t - now) \<le> 300"
    using t(2,3) by (simp add: as_secs_def backoff_defs) linarith
  with t show ?thesis
    using backoff_inv_record [OF assms]
    by (auto simp: can_retry_def backoff_status_of_def saturating_duration_since_def)
qed

text \<open>Attempts made as early as allowed are one, two, four, ... seconds apart: the cooldown after
  the \<open>n\<close>-th of them is twice the one before for the first seven, as long as the doubling has not
  outgrown the reset threshold of a minute.\<close>

lemma backoff_doubles:
  assumes "n < 7"
  shows "\<exists>s. bo_last_started_at (attempts n t0) = Some s \<and>
    bo_next_retry_at (attempts n t0) = Some (s + 2 ^ n * INITIAL_DELAY)"
  using attempts_props [OF assms] by blast

text \<open>When attempts are made only once the cooldown is over, as the reconciler does, no cooldown is
  ever longer than 64 seconds: a cooldown of a minute or more makes the next attempt start over at one
  second, so the maximum of five minutes is never reached.\<close>

lemma backoff_never_reaches_max:
  assumes "polite b" "bo_last_started_at b = Some s" "bo_next_retry_at b = Some t"
  shows "t \<le> s + 64 * INITIAL_DELAY \<and> 64 * INITIAL_DELAY < MAX_DELAY"
  using polite_props [OF assms(1)] assms(2,3) by (auto simp: backoff_defs cooldowns_def)

end
