(* ===== verification/Keel_Act.thy ===== *)
theory Keel_Act
  imports Keel_Prelude
begin

text \<open>
  Code that changes a state, can fail and can panic. An \<open>outcome\<close> is a value, an error that the
  caller sees, or a panic, which no caller catches; the state reached so far stays in all three
  cases, as files and jails do when a thread dies.
\<close>

datatype ('a, 'e) outcome = Val 'a | Exn 'e | Panic

type_synonym ('s, 'a, 'e) act = "'s \<Rightarrow> ('a, 'e) outcome \<times> 's"

definition returnA :: "'a \<Rightarrow> ('s, 'a, 'e) act" where
  "returnA x = (\<lambda>s. (Val x, s))"

definition failA :: "'e \<Rightarrow> ('s, 'a, 'e) act" where
  "failA e = (\<lambda>s. (Exn e, s))"

definition panicA :: "('s, 'a, 'e) act" where
  "panicA = (\<lambda>s. (Panic, s))"

definition bindA :: "('s, 'a, 'e) act \<Rightarrow> ('a \<Rightarrow> ('s, 'b, 'e) act) \<Rightarrow> ('s, 'b, 'e) act" where
  "bindA m f = (\<lambda>s. case m s of (Val x, s') \<Rightarrow> f x s' | (Exn e, s') \<Rightarrow> (Exn e, s') | (Panic, s') \<Rightarrow> (Panic, s'))"

definition getA :: "('s \<Rightarrow> 'a) \<Rightarrow> ('s, 'a, 'e) act" where
  "getA f = (\<lambda>s. (Val (f s), s))"

definition modifyA :: "('s \<Rightarrow> 's) \<Rightarrow> ('s, unit, 'e) act" where
  "modifyA f = (\<lambda>s. (Val (), f s))"

text \<open>A pure check (\<open>?\<close> on a \<open>Result\<close>), and the same with \<open>.expect\<close>, which panics on an
  error.\<close>

definition checkA :: "('e \<Rightarrow> 'f) \<Rightarrow> ('a, 'e) result \<Rightarrow> ('s, 'a, 'f) act" where
  "checkA f r = (\<lambda>s. (case r of Ok x \<Rightarrow> Val x | Err e \<Rightarrow> Exn (f e), s))"

definition expectA :: "('a, 'e) result \<Rightarrow> ('s, 'a, 'f) act" where
  "expectA r = (\<lambda>s. (case r of Ok x \<Rightarrow> Val x | Err e \<Rightarrow> Panic, s))"

text \<open>\<open>map_err\<close>; \<open>match m { Ok(()) | Err(e) if p(e) => {} , Err(e) => return Err(e) }\<close>; \<open>let _ = m\<close>;
  keeping the result as a value.\<close>

definition map_exnA :: "('e \<Rightarrow> 'f) \<Rightarrow> ('s, 'a, 'e) act \<Rightarrow> ('s, 'a, 'f) act" where
  "map_exnA f m = (\<lambda>s. case m s of (Val x, s') \<Rightarrow> (Val x, s') | (Exn e, s') \<Rightarrow> (Exn (f e), s') | (Panic, s') \<Rightarrow> (Panic, s'))"

definition tolerateA :: "('e \<Rightarrow> bool) \<Rightarrow> ('s, unit, 'e) act \<Rightarrow> ('s, unit, 'e) act" where
  "tolerateA p m = (\<lambda>s. case m s of (Exn e, s') \<Rightarrow> (if p e then Val () else Exn e, s') | r \<Rightarrow> r)"

definition ignoreA :: "('s, 'a, 'e) act \<Rightarrow> ('s, unit, 'f) act" where
  "ignoreA m = (\<lambda>s. case m s of (Panic, s') \<Rightarrow> (Panic, s') | (_, s') \<Rightarrow> (Val (), s'))"

definition resultA :: "('s, 'a, 'e) act \<Rightarrow> ('s, ('a, 'e) result, 'f) act" where
  "resultA m = (\<lambda>s. case m s of (Val x, s') \<Rightarrow> (Val (Ok x), s') | (Exn e, s') \<Rightarrow> (Val (Err e), s') | (Panic, s') \<Rightarrow> (Panic, s'))"

fun forA :: "'x list \<Rightarrow> ('x \<Rightarrow> ('s, unit, 'e) act) \<Rightarrow> ('s, unit, 'e) act" where
  "forA [] f = returnA ()"
| "forA (x # xs) f = bindA (f x) (\<lambda>_. forA xs f)"

text \<open>An action on a part of the state.\<close>

definition zoomA :: "('s \<Rightarrow> 'p) \<Rightarrow> ('p \<Rightarrow> 's \<Rightarrow> 's) \<Rightarrow> ('p, 'a, 'e) act \<Rightarrow> ('s, 'a, 'e) act" where
  "zoomA get put m = (\<lambda>s. case m (get s) of (r, p) \<Rightarrow> (r, put p s))"

lemmas act_defs = returnA_def failA_def panicA_def bindA_def getA_def modifyA_def checkA_def expectA_def
  map_exnA_def tolerateA_def ignoreA_def resultA_def zoomA_def

section \<open>What an action keeps\<close>

definition keepsA :: "('s \<Rightarrow> bool) \<Rightarrow> ('s, 'a, 'e) act \<Rightarrow> bool" where
  "keepsA P m \<longleftrightarrow> (\<forall>s. P s \<longrightarrow> P (snd (m s)))"

lemma keepsAD: "keepsA P m \<Longrightarrow> P s \<Longrightarrow> P (snd (m s))"
  by (simp add: keepsA_def)

lemma keepsAE: "keepsA P m \<Longrightarrow> m s = (r, s') \<Longrightarrow> P s \<Longrightarrow> P s'"
  by (metis keepsA_def snd_conv)

lemma keepsA_basic [inv_intros]:
  "keepsA P (returnA x)" "keepsA P (failA e)" "keepsA P panicA" "keepsA P (getA f)"
  "keepsA P (checkA g r)" "keepsA P (expectA r)"
  by (simp_all add: keepsA_def act_defs)

lemma keepsA_bindA [inv_intros]:
  assumes "keepsA P m" "\<And>x. keepsA P (f x)"
  shows "keepsA P (bindA m f)"
  using assms by (auto simp: keepsA_def bindA_def split: prod.splits outcome.splits)

lemma keepsA_wrappers [inv_intros]:
  "keepsA P m \<Longrightarrow> keepsA P (map_exnA f m)" "keepsA P u \<Longrightarrow> keepsA P (tolerateA p u)"
  "keepsA P m \<Longrightarrow> keepsA P (ignoreA m)" "keepsA P m \<Longrightarrow> keepsA P (resultA m)"
  by (auto simp: keepsA_def act_defs split: prod.splits outcome.splits)

lemma keepsA_if [inv_intros]:
  "(c \<Longrightarrow> keepsA P m) \<Longrightarrow> (\<not> c \<Longrightarrow> keepsA P n) \<Longrightarrow> keepsA P (if c then m else n)"
  by simp

lemma keepsA_forA [inv_intros]: "(\<And>x. x \<in> set xs \<Longrightarrow> keepsA P (f x)) \<Longrightarrow> keepsA P (forA xs f)"
  by (induction xs) (auto intro!: inv_intros)

lemma keepsA_modifyA: "(\<And>s. P s \<Longrightarrow> P (f s)) \<Longrightarrow> keepsA P (modifyA f)"
  by (simp add: keepsA_def modifyA_def)

lemma keepsA_zoomA: "(\<And>s p. P s \<Longrightarrow> P (put p s)) \<Longrightarrow> keepsA P (zoomA get put m)"
  by (simp add: keepsA_def zoomA_def split: prod.splits)

text \<open>No panic.\<close>

definition safeA :: "('s \<Rightarrow> bool) \<Rightarrow> ('s, 'a, 'e) act \<Rightarrow> bool" where
  "safeA P m \<longleftrightarrow> (\<forall>s. P s \<longrightarrow> fst (m s) \<noteq> Panic \<and> P (snd (m s)))"

lemma safeA_basic [inv_intros]:
  "safeA P (returnA x)" "safeA P (failA e)" "safeA P (getA f)" "safeA P (checkA g r)"
  by (auto simp: safeA_def act_defs split: result.splits)

lemma safeA_bindA [inv_intros]:
  assumes "safeA P m" "\<And>x. safeA P (f x)"
  shows "safeA P (bindA m f)"
  unfolding safeA_def bindA_def
proof (intro allI impI)
  fix s assume "P s"
  with assms(1) have m: "fst (m s) \<noteq> Panic" "P (snd (m s))" by (auto simp: safeA_def)
  obtain o' s' where e: "m s = (o', s')" by (metis surj_pair)
  with m assms(2) show "fst (case m s of (Val x, s') \<Rightarrow> f x s' | (Exn e, s') \<Rightarrow> (Exn e, s') | (Panic, s') \<Rightarrow> (Panic, s')) \<noteq> Panic \<and>
      P (snd (case m s of (Val x, s') \<Rightarrow> f x s' | (Exn e, s') \<Rightarrow> (Exn e, s') | (Panic, s') \<Rightarrow> (Panic, s')))"
    by (cases o') (auto simp: safeA_def)
qed

lemma safeA_wrappers [inv_intros]:
  "safeA P m \<Longrightarrow> safeA P (map_exnA f m)" "safeA P u \<Longrightarrow> safeA P (tolerateA p u)"
  "safeA P m \<Longrightarrow> safeA P (ignoreA m)" "safeA P m \<Longrightarrow> safeA P (resultA m)"
  unfolding safeA_def map_exnA_def tolerateA_def ignoreA_def resultA_def
  by (simp_all split: prod.splits outcome.splits) (metis fst_conv snd_conv outcome.simps)+

lemma safeA_if [inv_intros]:
  "(c \<Longrightarrow> safeA P m) \<Longrightarrow> (\<not> c \<Longrightarrow> safeA P n) \<Longrightarrow> safeA P (if c then m else n)"
  by simp

lemma safeA_forA [inv_intros]: "(\<And>x. x \<in> set xs \<Longrightarrow> safeA P (f x)) \<Longrightarrow> safeA P (forA xs f)"
  by (induction xs) (auto intro!: inv_intros)

end
