(* ===== verification/Keel_F64.thy ===== *)
theory Keel_F64
  imports Keel_Prelude Complex_Main "HOL-Library.Log_Nat"
begin

text \<open>
  Rust's \<open>f64\<close> as far as the sources use it: IEEE 754 binary64 with round-to-nearest,
  ties-to-even. A finite value is the rational it denotes, so the two zeroes are one value;
  the sources only compare, add, subtract, multiply, divide by a positive number and take
  \<open>min\<close>, none of which tells the zeroes apart. \<open>fl_round\<close> is the rounding of an exact
  result; its lemmas (exactness on representable values, monotonicity) are what the scheduler
  and the resource conversions rest on.
\<close>

datatype f64 = NaN | PInf | NInf | Fin rat

text \<open>The exponent \<open>e\<close> with \<open>2 powi e \<le> x < 2 powi (e + 1)\<close>, for a positive \<open>x\<close>.\<close>

definition ilog2 :: "rat \<Rightarrow> int" where
  "ilog2 x = (let (n, d) = quotient_of x; b = bitlen n - bitlen d
              in if x < 2 powi b then b - 1 else b)"

definition round_half_even :: "rat \<Rightarrow> int" where
  "round_half_even x =
     (let f = \<lfloor>x\<rfloor>; r = x - of_int f
      in if r < 1 / 2 then f else if r > 1 / 2 then f + 1 else if even f then f else f + 1)"

text \<open>The exponent of the last place of the binary64 number nearest to a positive \<open>x\<close>:
  53 significant bits, not below \<open>2 powi (-1074)\<close>.\<close>

definition ulp_exp :: "rat \<Rightarrow> int" where
  "ulp_exp x = max (ilog2 x - 52) (- 1074)"

definition round_pos :: "rat \<Rightarrow> rat" where
  "round_pos x = of_int (round_half_even (x / 2 powi ulp_exp x)) * 2 powi ulp_exp x"

definition fl_round :: "rat \<Rightarrow> f64" where
  "fl_round x =
     (if x = 0 then Fin 0
      else let r = round_pos \<bar>x\<bar>
           in if r < 2 ^ 1024 then Fin (if x < 0 then - r else r)
              else if x < 0 then NInf else PInf)"

fun f64_neg :: "f64 \<Rightarrow> f64" where
  "f64_neg NaN = NaN"
| "f64_neg PInf = NInf"
| "f64_neg NInf = PInf"
| "f64_neg (Fin x) = Fin (- x)"

fun f64_add :: "f64 \<Rightarrow> f64 \<Rightarrow> f64" where
  "f64_add NaN y = NaN"
| "f64_add x NaN = NaN"
| "f64_add PInf NInf = NaN"
| "f64_add NInf PInf = NaN"
| "f64_add PInf y = PInf"
| "f64_add x PInf = PInf"
| "f64_add NInf y = NInf"
| "f64_add x NInf = NInf"
| "f64_add (Fin x) (Fin y) = fl_round (x + y)"

definition f64_sub :: "f64 \<Rightarrow> f64 \<Rightarrow> f64" where
  "f64_sub x y = f64_add x (f64_neg y)"

fun f64_mul :: "f64 \<Rightarrow> f64 \<Rightarrow> f64" where
  "f64_mul (Fin x) (Fin y) = fl_round (x * y)"
| "f64_mul NaN y = NaN"
| "f64_mul x NaN = NaN"
| "f64_mul (Fin x) y = (if x = 0 then NaN else if x > 0 then y else f64_neg y)"
| "f64_mul x (Fin y) = (if y = 0 then NaN else if y > 0 then x else f64_neg x)"
| "f64_mul x y = (if x = y then PInf else NInf)"

text \<open>Division, for a divisor that is not zero (the sources test this before they divide; the
  sign of a zero divisor is the one thing this model does not hold).\<close>

fun f64_div :: "f64 \<Rightarrow> f64 \<Rightarrow> f64" where
  "f64_div (Fin x) (Fin y) = (if y = 0 then NaN else fl_round (x / y))"
| "f64_div NaN y = NaN"
| "f64_div x NaN = NaN"
| "f64_div (Fin x) y = Fin 0"
| "f64_div x (Fin y) = (if y < 0 then f64_neg x else x)"
| "f64_div x y = NaN"

fun f64_less :: "f64 \<Rightarrow> f64 \<Rightarrow> bool" where
  "f64_less NaN y = False"
| "f64_less x NaN = False"
| "f64_less (Fin x) (Fin y) = (x < y)"
| "f64_less NInf NInf = False"
| "f64_less NInf y = True"
| "f64_less x NInf = False"
| "f64_less PInf y = False"
| "f64_less x PInf = True"

text \<open>IEEE equality: NaN is not equal to itself.\<close>

definition f64_eq :: "f64 \<Rightarrow> f64 \<Rightarrow> bool" where
  "f64_eq x y \<longleftrightarrow> x \<noteq> NaN \<and> y \<noteq> NaN \<and> x = y"

text \<open>\<open>f64::min\<close>: the other operand when one is NaN.\<close>

definition f64_min :: "f64 \<Rightarrow> f64 \<Rightarrow> f64" where
  "f64_min x y = (if x = NaN then y else if y = NaN then x else if f64_less y x then y else x)"

definition f64_of_nat :: "nat \<Rightarrow> f64" where
  "f64_of_nat n = fl_round (of_nat n)"

fun is_finite :: "f64 \<Rightarrow> bool" where
  "is_finite (Fin x) = True"
| "is_finite x = False"

text \<open>\<open>f64::round\<close> (half away from zero) and the saturating cast \<open>as u32\<close>.\<close>

definition round_half_away :: "rat \<Rightarrow> int" where
  "round_half_away x = (if x < 0 then - \<lfloor>- x + 1 / 2\<rfloor> else \<lfloor>x + 1 / 2\<rfloor>)"

fun f64_round_u32 :: "f64 \<Rightarrow> nat" where
  "f64_round_u32 NaN = 0"
| "f64_round_u32 PInf = u32_max"
| "f64_round_u32 NInf = 0"
| "f64_round_u32 (Fin x) = nat (max 0 (min (round_half_away x) 4294967295))"

section \<open>Parsing\<close>

text \<open>\<open>str::parse::<f64>\<close>: an optional sign, then \<open>inf\<close>, \<open>infinity\<close>, \<open>nan\<close> (any
  case) or a decimal number with at least one digit in its mantissa and an optional exponent; the
  value is rounded once.\<close>

definition strip_sign :: "string \<Rightarrow> bool \<times> string" where
  "strip_sign s = (case s of [] \<Rightarrow> (False, [])
     | c # cs \<Rightarrow> if c = CHR ''-'' then (True, cs) else if c = CHR ''+'' then (False, cs)
                 else (False, s))"

definition parse_exp :: "string \<Rightarrow> int option" where
  "parse_exp s = (case s of [] \<Rightarrow> Some 0
     | c # cs \<Rightarrow>
         if c = CHR ''e'' \<or> c = CHR ''E'' then
           (let (neg, ds) = strip_sign cs
            in if ds \<noteq> [] \<and> list_all is_ascii_digit ds
               then Some (if neg then - int (digits_val ds) else int (digits_val ds)) else None)
         else None)"

definition parse_decimal :: "string \<Rightarrow> rat option" where
  "parse_decimal s =
     (let ip = takeWhile is_ascii_digit s; r1 = dropWhile is_ascii_digit s;
          (fp, r2) = (case r1 of [] \<Rightarrow> ([], [])
             | c # cs \<Rightarrow> if c = CHR ''.''
                         then (takeWhile is_ascii_digit cs, dropWhile is_ascii_digit cs)
                         else ([], r1))
      in if ip = [] \<and> fp = [] then None
         else map_option (\<lambda>e. of_nat (digits_val (ip @ fp)) * 10 powi (e - int (length fp)))
                (parse_exp r2))"

definition parse_f64 :: "string \<Rightarrow> f64 option" where
  "parse_f64 s =
     (let (neg, body) = strip_sign s; low = to_ascii_lowercase body
      in if low = ''inf'' \<or> low = ''infinity'' then Some (if neg then NInf else PInf)
         else if low = ''nan'' then Some NaN
         else map_option (\<lambda>x. fl_round (if neg then - x else x)) (parse_decimal body))"

section \<open>Rounding\<close>

lemma bitlen_powi_bounds:
  assumes "0 < (n :: int)"
  shows "(2 :: rat) powi (bitlen n - 1) \<le> of_int n" and "of_int n < (2 :: rat) powi bitlen n"
proof -
  have pos: "0 < bitlen n" using assms by (simp add: bitlen_eq_zero_iff bitlen_nonneg less_le)
  have b: "2 ^ nat (bitlen n - 1) \<le> n" "n < 2 ^ nat (bitlen n)"
    using bitlen_bounds [OF assms] by auto
  have "(2 :: rat) powi (bitlen n - 1) = of_int (2 ^ nat (bitlen n - 1))"
    using pos by (simp add: power_int_def)
  also have "\<dots> \<le> of_int n" using b(1) by (simp only: of_int_le_iff)
  finally show "(2 :: rat) powi (bitlen n - 1) \<le> of_int n" .
  have "of_int n < (of_int (2 ^ nat (bitlen n)) :: rat)" using b(2) by (simp only: of_int_less_iff)
  also have "\<dots> = 2 powi bitlen n" using pos by (simp add: power_int_def)
  finally show "of_int n < (2 :: rat) powi bitlen n" .
qed

lemma ilog2_bounds:
  assumes "0 < x"
  shows "2 powi ilog2 x \<le> x" and "x < 2 powi (ilog2 x + 1)"
proof -
  obtain n d where q: "quotient_of x = (n, d)" by (cases "quotient_of x") auto
  then have d: "0 < d" and x: "x = of_int n / of_int d"
    by (simp_all add: quotient_of_denom_pos quotient_of_div)
  have n: "0 < n" using assms d x by (simp add: zero_less_divide_iff)
  define b where "b = bitlen n - bitlen d"
  note nb = bitlen_powi_bounds [OF n] and db = bitlen_powi_bounds [OF d]
  have dpos: "0 < (of_int d :: rat)" using d by simp
  have "2 powi (b - 1) = 2 powi (bitlen n - 1) / (2 :: rat) powi bitlen d"
    by (simp add: b_def power_int_diff power_int_add field_simps)
  also have "\<dots> \<le> of_int n / of_int d"
    using nb db dpos n by (intro frac_le) auto
  finally have lo: "2 powi (b - 1) \<le> x" by (simp add: x)
  have "x < 2 powi bitlen n / 2 powi (bitlen d - 1)"
    unfolding x using nb db dpos n by (intro frac_less) auto
  also have "\<dots> = 2 powi (b + 1)"
    by (simp add: b_def power_int_diff power_int_add field_simps)
  finally have hi: "x < 2 powi (b + 1)" .
  have il: "ilog2 x = (if x < 2 powi b then b - 1 else b)"
    by (simp add: ilog2_def q b_def)
  show "2 powi ilog2 x \<le> x" using lo by (simp add: il)
  show "x < 2 powi (ilog2 x + 1)" using hi by (simp add: il)
qed

lemma powi2_mono: "i \<le> j \<Longrightarrow> (2 :: rat) powi i \<le> 2 powi j"
  by (rule power_int_increasing) auto

lemma powi2_less_D: "(2 :: rat) powi i < 2 powi j \<Longrightarrow> i < j"
  using powi2_mono by (meson leD leI)

lemma ilog2_mono:
  assumes "0 < x" "x \<le> y"
  shows "ilog2 x \<le> ilog2 y"
proof -
  have "2 powi ilog2 x < (2 :: rat) powi (ilog2 y + 1)"
    using ilog2_bounds(1) [of x] ilog2_bounds(2) [of y] assms by linarith
  then show ?thesis using powi2_less_D by fastforce
qed

lemma round_half_even_int [simp]: "round_half_even (of_int i) = i"
  by (simp add: round_half_even_def)

lemma round_half_even_mono:
  assumes "x \<le> y"
  shows "round_half_even x \<le> round_half_even y"
proof (cases "\<lfloor>x\<rfloor> = \<lfloor>y\<rfloor>")
  case True
  with assms show ?thesis by (auto simp: round_half_even_def Let_def)
next
  case False
  with assms have "\<lfloor>x\<rfloor> + 1 \<le> \<lfloor>y\<rfloor>" using floor_mono [OF assms] by linarith
  moreover have "round_half_even x \<le> \<lfloor>x\<rfloor> + 1" "\<lfloor>y\<rfloor> \<le> round_half_even y"
    by (auto simp: round_half_even_def Let_def)
  ultimately show ?thesis by linarith
qed

lemma ulp_exp_mono: "0 < x \<Longrightarrow> x \<le> y \<Longrightarrow> ulp_exp x \<le> ulp_exp y"
  using ilog2_mono [of x y] by (simp add: ulp_exp_def)

text \<open>A positive number keeps within its binade: below the next power of two before rounding
  means at most that power after.\<close>

lemma round_pos_le_powi:
  assumes "0 < x" "x \<le> of_int m * 2 powi ulp_exp x"
  shows "round_pos x \<le> of_int m * 2 powi ulp_exp x"
proof -
  have "x / 2 powi ulp_exp x \<le> of_int m"
    using assms by (simp add: divide_le_eq)
  then have "round_half_even (x / 2 powi ulp_exp x) \<le> m"
    using round_half_even_mono [of _ "of_int m"] by fastforce
  then show ?thesis
    by (simp add: round_pos_def)
qed

lemma round_pos_ge_powi:
  assumes "0 < x" "of_int m * 2 powi ulp_exp x \<le> x"
  shows "of_int m * 2 powi ulp_exp x \<le> round_pos x"
proof -
  have "of_int m \<le> x / 2 powi ulp_exp x"
    using assms by (simp add: le_divide_eq)
  then have "m \<le> round_half_even (x / 2 powi ulp_exp x)"
    using round_half_even_mono [of "of_int m"] by fastforce
  then show ?thesis
    by (simp add: round_pos_def)
qed

lemma round_pos_nonneg: "0 < x \<Longrightarrow> 0 \<le> round_pos x"
  using round_pos_ge_powi [of x 0] by simp

lemma round_pos_mono:
  assumes "0 < x" "x \<le> y"
  shows "round_pos x \<le> round_pos y"
proof (cases "ulp_exp x = ulp_exp y")
  case True
  have "x / 2 powi ulp_exp x \<le> y / 2 powi ulp_exp x"
    using assms by (simp add: divide_right_mono)
  from round_half_even_mono [OF this] show ?thesis
    by (simp add: round_pos_def True)
next
  case False
  with assms have lt: "ulp_exp x < ulp_exp y" using ulp_exp_mono by force
  then have uy: "ulp_exp y = ilog2 y - 52" by (auto simp: ulp_exp_def)
  have ux: "ilog2 x + 1 \<le> ulp_exp x + 53" by (auto simp: ulp_exp_def)
  have p53: "(2 :: rat) powi (ulp_exp x + 53) = of_int (2 ^ 53) * 2 powi ulp_exp x"
    by (simp add: power_int_add)
  have "x \<le> 2 powi (ulp_exp x + 53)"
    using ilog2_bounds(2) [OF assms(1)] powi2_mono [OF ux] by linarith
  then have "round_pos x \<le> 2 powi (ulp_exp x + 53)"
    unfolding p53 using assms(1) by (rule round_pos_le_powi [rotated])
  also have "\<dots> \<le> 2 powi (ulp_exp y + 52)"
    using lt by (intro powi2_mono) linarith
  also have "\<dots> = of_int (2 ^ 52) * 2 powi ulp_exp y"
    by (simp add: power_int_add)
  also have "\<dots> \<le> round_pos y"
  proof (rule round_pos_ge_powi)
    show "0 < y" using assms by linarith
    show "of_int (2 ^ 52) * 2 powi ulp_exp y \<le> y"
      using ilog2_bounds(1) [OF \<open>0 < y\<close>] by (simp add: uy power_int_diff)
  qed
  finally show ?thesis .
qed

text \<open>A number with at most 53 significant bits in range is not changed.\<close>

text \<open>A number on the grid of its own binade is not rounded.\<close>

lemma round_pos_on_grid:
  assumes "x = of_int n * 2 powi ulp_exp x"
  shows "round_pos x = x"
proof -
  have "x / 2 powi ulp_exp x = of_int n"
    using assms by (metis nonzero_mult_div_cancel_right power_int_eq_0_iff zero_neq_numeral)
  then have "round_half_even (x / 2 powi ulp_exp x) = n"
    by (metis round_half_even_int)
  then have "round_pos x = of_int n * 2 powi ulp_exp x"
    by (simp only: round_pos_def)
  then show ?thesis
    by (simp only: flip: assms)
qed

lemma round_pos_exact:
  assumes "0 < x" "x = of_int m * 2 powi q" "\<bar>m\<bar> \<le> 2 ^ 53" "- 1074 \<le> q"
  shows "round_pos x = x"
proof (cases "ulp_exp x \<le> q")
  case True
  define k where "k = nat (q - ulp_exp x)"
  have "2 powi q = (2 :: rat) powi (ulp_exp x + int k)"
    using True by (simp add: k_def)
  also have "\<dots> = 2 ^ k * 2 powi ulp_exp x"
    by (simp add: power_int_add)
  finally have "x = of_int (m * 2 ^ k) * 2 powi ulp_exp x"
    unfolding of_int_mult mult.assoc using assms(2) by simp
  then show ?thesis
    by (rule round_pos_on_grid)
next
  case False
  with assms(4) have u: "ulp_exp x = ilog2 x - 52" "q + 1 \<le> ilog2 x - 52"
    by (auto simp: ulp_exp_def)
  have p53: "(2 :: rat) powi (q + 53) = 2 ^ 53 * 2 powi q"
    by (simp add: power_int_add)
  have "(of_int m :: rat) \<le> of_int (2 ^ 53)"
    using assms(3) by (simp only: of_int_le_iff)
  then have "x \<le> 2 powi (q + 53)"
    unfolding p53 assms(2) by (intro mult_right_mono) auto
  moreover have "2 powi (q + 53) \<le> (2 :: rat) powi ilog2 x"
    using u by (intro powi2_mono) linarith
  ultimately have eq: "x = 2 powi ilog2 x"
    using ilog2_bounds(1) [OF assms(1)] by linarith
  have "x = of_int (2 ^ 52) * 2 powi ulp_exp x"
    by (subst eq) (simp add: u(1) power_int_diff)
  then show ?thesis
    by (rule round_pos_on_grid)
qed

lemma fl_round_0 [simp]: "fl_round 0 = Fin 0"
  by (simp add: fl_round_def)

lemma fl_round_not_NaN [simp]: "fl_round x \<noteq> NaN"
  by (simp add: fl_round_def Let_def)

lemma fl_round_exact:
  assumes "x = of_int m * 2 powi q" "\<bar>m\<bar> \<le> 2 ^ 53" "- 1074 \<le> q" "\<bar>x\<bar> < 2 ^ 1024"
  shows "fl_round x = Fin x"
proof (cases "x = 0")
  case False
  have "\<bar>x\<bar> = of_int \<bar>m\<bar> * 2 powi q" by (simp add: assms(1) abs_mult)
  then have "round_pos \<bar>x\<bar> = \<bar>x\<bar>"
    using round_pos_exact [of "\<bar>x\<bar>" "\<bar>m\<bar>" q] assms False by simp
  then show ?thesis using assms(4) by (auto simp: fl_round_def Let_def)
qed simp

lemma fl_round_int:
  assumes "\<bar>i\<bar> \<le> 2 ^ 53"
  shows "fl_round (of_int i) = Fin (of_int i)"
proof (rule fl_round_exact [where q = 0])
  have "\<bar>of_int i :: rat\<bar> = of_int \<bar>i\<bar>" by simp
  also have "\<dots> \<le> of_int (2 ^ 53)" using assms by (simp only: of_int_le_iff)
  also have "\<dots> < 2 ^ 1024" by simp
  finally show "\<bar>of_int i :: rat\<bar> < 2 ^ 1024" .
qed (use assms in auto)

lemma f64_of_nat_exact: "n \<le> 2 ^ 53 \<Longrightarrow> f64_of_nat n = Fin (of_nat n)"
  using fl_round_int [of "int n"] by (simp add: f64_of_nat_def)

section \<open>Order\<close>

text \<open>On values that are not NaN the comparison is a strict linear order.\<close>

definition f64_le :: "f64 \<Rightarrow> f64 \<Rightarrow> bool" where
  "f64_le x y \<longleftrightarrow> f64_less x y \<or> f64_eq x y"

lemma f64_less_irrefl [simp]: "\<not> f64_less x x"
  by (cases x) auto

lemma f64_less_trans: "f64_less x y \<Longrightarrow> f64_less y z \<Longrightarrow> f64_less x z"
  by (cases x; cases y; cases z) auto

lemma f64_less_linear: "x \<noteq> NaN \<Longrightarrow> y \<noteq> NaN \<Longrightarrow> f64_less x y \<or> x = y \<or> f64_less y x"
  by (cases x; cases y) auto

lemma f64_less_not_NaN: "f64_less x y \<Longrightarrow> x \<noteq> NaN \<and> y \<noteq> NaN"
  by (cases x; cases y) auto

lemma f64_le_refl: "x \<noteq> NaN \<Longrightarrow> f64_le x x"
  by (simp add: f64_le_def f64_eq_def)

lemma f64_le_trans: "f64_le x y \<Longrightarrow> f64_le y z \<Longrightarrow> f64_le x z"
  by (auto simp: f64_le_def f64_eq_def dest: f64_less_trans)

lemma f64_le_less: "f64_le x y \<Longrightarrow> \<not> f64_less y x"
  by (auto simp: f64_le_def f64_eq_def dest: f64_less_trans)

lemma f64_le_Fin [simp]: "f64_le (Fin x) (Fin y) \<longleftrightarrow> x \<le> y"
  by (auto simp: f64_le_def f64_eq_def)

lemma fl_round_mono:
  assumes "x \<le> y"
  shows "f64_le (fl_round x) (fl_round y)"
proof -
  consider "0 < x" | "y < 0" | "x \<le> 0" "0 \<le> y" by linarith
  then show ?thesis
  proof cases
    case 1
    with assms round_pos_mono [of x y] show ?thesis
      by (auto simp: fl_round_def Let_def f64_le_def f64_eq_def)
  next
    case 2
    with assms round_pos_mono [of "- y" "- x"] show ?thesis
      by (auto simp: fl_round_def Let_def f64_le_def f64_eq_def)
  next
    case 3
    with round_pos_nonneg [of y] round_pos_nonneg [of "- x"] show ?thesis
      by (auto simp: fl_round_def Let_def f64_le_def f64_eq_def)
  qed
qed

lemma f64_min_not_NaN: "x \<noteq> NaN \<Longrightarrow> y \<noteq> NaN \<Longrightarrow> f64_min x y \<noteq> NaN"
  by (simp add: f64_min_def)

lemma f64_min_mono:
  assumes "f64_le x x'" "f64_le y y'"
  shows "f64_le (f64_min x y) (f64_min x' y')"
  using assms by (cases x; cases y; cases x'; cases y') (auto simp: f64_min_def f64_le_def f64_eq_def)

lemma f64_sub_Fin [simp]: "f64_sub (Fin x) (Fin y) = fl_round (x - y)"
  by (simp add: f64_sub_def)

lemma f64_div_not_NaN: "x \<noteq> NaN \<Longrightarrow> y \<noteq> 0 \<Longrightarrow> f64_div x (Fin y) \<noteq> NaN"
  by (cases x) auto

lemma f64_div_mono: "0 < c \<Longrightarrow> f64_le x y \<Longrightarrow> f64_le (f64_div x (Fin c)) (f64_div y (Fin c))"
proof -
  assume c: "0 < c" and le: "f64_le x y"
  have inf: "f64_le (fl_round a) PInf" "f64_le NInf (fl_round a)" for a
    by (cases "fl_round a"; use fl_round_not_NaN [of a] in \<open>auto simp: f64_le_def f64_eq_def\<close>)+
  have inf': "f64_le PInf PInf" "f64_le NInf NInf" "f64_le NInf PInf"
    by (auto simp: f64_le_def f64_eq_def)
  show ?thesis
    using c le inf inf' by (cases x; cases y)
      (auto intro!: fl_round_mono divide_right_mono simp: f64_le_def [of NaN] f64_le_def [of _ NaN]
        f64_le_def [of PInf "Fin _"] f64_le_def [of PInf NInf] f64_le_def [of "Fin _" NInf] f64_eq_def)
qed

end
