(* ===== verification/Keel_Ipnet.thy ===== *)
theory Keel_Ipnet
  imports Keel_Prelude
begin

text \<open>
  IPv4 addresses (\<open>std::net\<close>) and the interface of the \<open>ipnet\<close> crate. An address is its
  32-bit value. An \<open>Ipv4Net\<close> is what its constructor takes and its accessors return, an address
  and a prefix length; what the crate computes from it is not part of the repository, so those
  functions are parameters, collected in the record \<open>ipnet_api\<close>, and the locale
  \<open>ipnet_crate\<close> states the documented behaviour the sources rely on. The record
  \<open>ipnet_ref\<close> satisfies the locale, so no theorem about it is empty.
\<close>

record ipv4net =
  net_addr :: u32
  net_prefix_len :: nat

record ipv6net =
  net6_addr :: "128 word"
  net6_prefix_len :: nat

datatype ipnet = V4 ipv4net | V6 ipv6net

datatype ipaddr = IpV4 u32 | IpV6 "128 word"

fun ipnet_addr :: "ipnet \<Rightarrow> ipaddr" where
  "ipnet_addr (V4 n) = IpV4 (net_addr n)"
| "ipnet_addr (V6 n) = IpV6 (net6_addr n)"

record ipnet_api =
  api_network :: "ipv4net \<Rightarrow> u32"
  api_hosts :: "ipv4net \<Rightarrow> u32 list"
  api_contains :: "ipnet \<Rightarrow> ipaddr \<Rightarrow> bool"
  api_parse_ipnet :: "string \<Rightarrow> (ipnet, string) result"
  api_parse_ipv4net :: "string \<Rightarrow> (ipv4net, string) result"
  api_show_ipv4net :: "ipv4net \<Rightarrow> string"

section \<open>Membership\<close>

definition host_bits :: "ipv4net \<Rightarrow> nat" where
  "host_bits n = 32 - net_prefix_len n"

text \<open>An address belongs to a network when it has the network's prefix.\<close>

definition in_net :: "ipv4net \<Rightarrow> u32 \<Rightarrow> bool" where
  "in_net n a \<longleftrightarrow> drop_bit (host_bits n) a = drop_bit (host_bits n) (net_addr n)"

definition first_addr :: "ipv4net \<Rightarrow> u32" where
  "first_addr n = push_bit (host_bits n) (drop_bit (host_bits n) (net_addr n))"

lemma host_bits_le [simp]: "host_bits n \<le> 32"
  by (simp add: host_bits_def)

lemma unat_drop_bit_u32: "unat (drop_bit k (a :: u32)) = unat a div 2 ^ k"
  by (simp only: unat_drop_bit_eq) (simp only: drop_bit_eq_div)

lemma in_net_iff: "in_net n a \<longleftrightarrow> unat a div 2 ^ host_bits n = unat (net_addr n) div 2 ^ host_bits n"
  by (metis in_net_def unat_drop_bit_u32 word_unat_eq_iff)

lemma unat_first_addr:
  "unat (first_addr n) = unat (net_addr n) div 2 ^ host_bits n * 2 ^ host_bits n"
proof -
  have "unat (net_addr n) div 2 ^ host_bits n * 2 ^ host_bits n \<le> unat (net_addr n)"
    by (simp add: div_times_less_eq_dividend)
  also have "\<dots> < 2 ^ 32" using unsigned_less [of "net_addr n"] by simp
  finally have "unat (net_addr n) div 2 ^ host_bits n * 2 ^ host_bits n mod 2 ^ 32
      = unat (net_addr n) div 2 ^ host_bits n * 2 ^ host_bits n" by simp
  moreover have "unat (first_addr n) =
      take_bit 32 (push_bit (host_bits n) (unat (net_addr n) div 2 ^ host_bits n))"
    by (simp only: first_addr_def unsigned_push_bit_eq unat_drop_bit_u32) simp
  ultimately show ?thesis
    by (simp only: push_bit_eq_mult take_bit_eq_mod)
qed

text \<open>Adding an offset below the network's size neither overflows nor leaves the network.\<close>

lemma first_addr_offset:
  assumes "i < 2 ^ host_bits n"
  shows "unat (first_addr n + of_nat i) = unat (first_addr n) + i"
    and "in_net n (first_addr n + of_nat i)"
proof -
  let ?k = "host_bits n" and ?q = "unat (net_addr n) div 2 ^ host_bits n"
  have q: "?q < 2 ^ (32 - ?k)"
  proof -
    have "unat (net_addr n) < 2 ^ (32 - ?k) * 2 ^ ?k"
      using unsigned_less [of "net_addr n"] by (simp flip: power_add)
    then show ?thesis by (simp add: less_mult_imp_div_less)
  qed
  have "?q * 2 ^ ?k + i < (?q + 1) * 2 ^ ?k" using assms by simp
  also have "\<dots> \<le> 2 ^ (32 - ?k) * 2 ^ ?k" using q by (intro mult_le_mono1) simp
  also have "\<dots> = 2 ^ 32" by (simp flip: power_add)
  finally have lt: "unat (first_addr n) + i < 2 ^ 32" by (simp add: unat_first_addr)
  then have "i < 2 ^ 32" by simp
  with lt show eq: "unat (first_addr n + of_nat i) = unat (first_addr n) + i"
    by (simp add: unat_word_ariths unat_of_nat)
  show "in_net n (first_addr n + of_nat i)"
    using assms by (simp add: in_net_iff eq unat_first_addr div_mult_self3)
qed

lemma in_net_first_addr: "in_net n (first_addr n)"
  using first_addr_offset(2) [of 0 n] by simp

lemma in_net_offset:
  assumes "in_net n a"
  obtains i where "i < 2 ^ host_bits n" "a = first_addr n + of_nat i"
proof
  let ?i = "unat a mod 2 ^ host_bits n"
  show "?i < 2 ^ host_bits n" by simp
  then have "unat (first_addr n + of_nat ?i) = unat a"
    using assms by (simp only: first_addr_offset(1) unat_first_addr in_net_iff)
      (metis div_mult_mod_eq)
  then show "a = first_addr n + of_nat ?i" by (simp add: word_unat_eq_iff)
qed

section \<open>What the crate promises\<close>

locale ipnet_crate =
  fixes api :: ipnet_api
  assumes network: "net_prefix_len n \<le> 32 \<Longrightarrow> api_network api n = first_addr n"
    and hosts: "net_prefix_len n \<le> 30 \<Longrightarrow>
      api_hosts api n = map (\<lambda>i. first_addr n + of_nat i) [1..<2 ^ host_bits n - 1]"
    and contains_v4: "net_prefix_len n \<le> 32 \<Longrightarrow> api_contains api (V4 n) (IpV4 a) = in_net n a"
    and contains_v6: "\<not> api_contains api (V4 n) (IpV6 b)"
    and parse_v4: "api_parse_ipnet api s = Ok (V4 n) \<longleftrightarrow> api_parse_ipv4net api s = Ok n"
    and parse_prefix: "api_parse_ipv4net api s = Ok n \<Longrightarrow> net_prefix_len n \<le> 32"
    and parse_show: "net_prefix_len n \<le> 32 \<Longrightarrow> api_parse_ipv4net api (api_show_ipv4net api n) = Ok n"
begin

lemma show_inj:
  "net_prefix_len m \<le> 32 \<Longrightarrow> net_prefix_len n \<le> 32 \<Longrightarrow>
   api_show_ipv4net api m = api_show_ipv4net api n \<longleftrightarrow> m = n"
  by (metis parse_show result.inject(1))

lemma hosts_in_net:
  assumes "net_prefix_len n \<le> 30" "a \<in> set (api_hosts api n)"
  shows "in_net n a"
  using assms by (auto simp: hosts intro!: first_addr_offset(2))

lemma hosts_distinct: "net_prefix_len n \<le> 30 \<Longrightarrow> distinct (api_hosts api n)"
  by (auto simp: hosts distinct_map inj_on_def word_unat_eq_iff first_addr_offset(1)
      dest!: arg_cong [where f = unat] simp del: add_right_cancel add_left_cancel)

end

section \<open>Addresses as text\<close>

text \<open>\<open>Ipv4Addr\<close>'s \<open>Display\<close> and \<open>FromStr\<close>: four decimal octets, at most three digits each
  and no leading zero.\<close>

definition octet :: "nat \<Rightarrow> u32 \<Rightarrow> nat" where
  "octet i a = unat a div 256 ^ i mod 256"

definition show_ipv4addr :: "u32 \<Rightarrow> string" where
  "show_ipv4addr a = show_nat (octet 3 a) @ ''.'' @ show_nat (octet 2 a) @ ''.'' @
     show_nat (octet 1 a) @ ''.'' @ show_nat (octet 0 a)"

definition parse_octet :: "string \<Rightarrow> nat option" where
  "parse_octet s =
     (if s \<noteq> [] \<and> list_all is_ascii_digit s \<and> show_nat (digits_val s) = s \<and> digits_val s \<le> 255
      then Some (digits_val s) else None)"

definition parse_ipv4addr :: "string \<Rightarrow> u32 option" where
  "parse_ipv4addr s =
     (case map parse_octet (split_char CHR ''.'' s) of
        [Some a, Some b, Some c, Some d] \<Rightarrow>
          Some (of_nat (a * 256 ^ 3 + b * 256 ^ 2 + c * 256 + d))
      | _ \<Rightarrow> None)"

lemma parse_octet_show [simp]: "n \<le> 255 \<Longrightarrow> parse_octet (show_nat n) = Some n"
  by (simp add: parse_octet_def show_nat_digits)

lemma split_char_notin: "c \<notin> set s \<Longrightarrow> split_char c s = [s]"
  by (induction s) auto

lemma split_char_append: "c \<notin> set p \<Longrightarrow> split_char c (p @ c # s) = p # split_char c s"
  by (induction p) auto

lemma octet_le [simp]: "octet i a \<le> 255"
proof -
  have "octet i a < 256" unfolding octet_def by (rule mod_less_divisor) simp
  then show ?thesis by simp
qed

lemma octets_value:
  "octet 3 a * 16777216 + octet 2 a * 65536 + octet 1 a * 256 + octet 0 a = unat a"
proof -
  define u where "u = unat a"
  have "u < 4294967296" using unsigned_less [of a] by (simp add: u_def)
  then have "u div 16777216 < 256" by (simp add: less_mult_imp_div_less)
  then have t: "u div 16777216 mod 256 = u div 16777216" by simp
  have "u = u div 256 * 256 + u mod 256" by simp
  moreover have "u div 256 = u div 65536 * 256 + u div 256 mod 256"
    using div_mult_mod_eq [of "u div 256" 256] by (simp add: div_mult2_eq [symmetric])
  moreover have "u div 65536 = u div 16777216 * 256 + u div 65536 mod 256"
    using div_mult_mod_eq [of "u div 65536" 256] by (simp add: div_mult2_eq [symmetric])
  ultimately have "u div 16777216 * 16777216 + u div 65536 mod 256 * 65536 +
      u div 256 mod 256 * 256 + u mod 256 = u"
    by linarith
  then show ?thesis
    by (simp add: octet_def t flip: u_def)
qed

text \<open>Printing an address and reading it back gives the address.\<close>

lemma parse_show_ipv4addr [simp]: "parse_ipv4addr (show_ipv4addr a) = Some a"
proof -
  have "split_char CHR ''.'' (show_ipv4addr a) =
      [show_nat (octet 3 a), show_nat (octet 2 a), show_nat (octet 1 a), show_nat (octet 0 a)]"
    by (simp add: show_ipv4addr_def split_char_append split_char_notin show_nat_notin)
  then show ?thesis
    using octets_value [of a] by (simp add: parse_ipv4addr_def)
qed

lemma show_ipv4addr_inj [simp]: "show_ipv4addr a = show_ipv4addr b \<longleftrightarrow> a = b"
  by (metis option.inject parse_show_ipv4addr)

section \<open>An instance\<close>

definition ref_show :: "ipv4net \<Rightarrow> string" where
  "ref_show n = show_ipv4addr (net_addr n) @ ''/'' @ show_nat (net_prefix_len n)"

definition ref_parse :: "string \<Rightarrow> (ipv4net, string) result" where
  "ref_parse s = (case rsplit_once CHR ''/'' s of None \<Rightarrow> Err ''invalid IP address syntax''
     | Some (a, p) \<Rightarrow> (case (parse_ipv4addr a, parse_uint 32 p) of
         (Some x, Some l) \<Rightarrow> Ok \<lparr>net_addr = x, net_prefix_len = l\<rparr>
       | _ \<Rightarrow> Err ''invalid IP address syntax''))"

definition ipnet_ref :: ipnet_api where
  "ipnet_ref = \<lparr>api_network = first_addr,
     api_hosts = (\<lambda>n. map (\<lambda>i. first_addr n + of_nat i) [1..<2 ^ host_bits n - 1]),
     api_contains = (\<lambda>n a. case (n, a) of (V4 m, IpV4 b) \<Rightarrow> in_net m b | _ \<Rightarrow> False),
     api_parse_ipnet = (\<lambda>s. case ref_parse s of Ok n \<Rightarrow> Ok (V4 n) | Err e \<Rightarrow> Err e),
     api_parse_ipv4net = ref_parse,
     api_show_ipv4net = ref_show\<rparr>"

lemma ref_parse_show: "net_prefix_len n \<le> 32 \<Longrightarrow> ref_parse (ref_show n) = Ok n"
proof -
  assume p: "net_prefix_len n \<le> 32"
  have "rsplit_once CHR ''/'' (ref_show n) =
      Some (show_ipv4addr (net_addr n), show_nat (net_prefix_len n))"
    by (simp add: rsplit_once_Some_iff ref_show_def show_nat_notin)
  with p show ?thesis by (simp add: ref_parse_def)
qed

lemma ref_parse_prefix: "ref_parse s = Ok n \<Longrightarrow> net_prefix_len n \<le> 32"
  by (auto simp: ref_parse_def dest: parse_uint_bound split: option.splits prod.splits)

interpretation ref: ipnet_crate ipnet_ref
  by unfold_locales
     (auto simp: ipnet_ref_def ref_parse_show dest: ref_parse_prefix split: result.splits)

end
