(* ===== verification/Keel_Spec.thy ===== *)
theory Keel_Spec
  imports Keel_F64 Keel_Ipnet
begin

text \<open>
  The crate \<open>keel-spec\<close>: the specs as records (\<open>types.rs\<close>), the errors (\<open>error.rs\<close>),
  the resource parsers (\<open>resources.rs\<close>), the validators (\<open>validate.rs\<close>) and the entry points
  (\<open>lib.rs\<close>). \<open>serde_yaml\<close> is not part of the repository: reading a document is an argument
  of the entry points.
\<close>

section \<open>types.rs\<close>

record metadata =
  md_name :: string

record volume_mount =
  vm_name :: string
  vm_mount_path :: string
  vm_size :: string

record network_spec =
  ns_vnet :: bool
  ns_bridge :: string
  ns_address :: string

record resources_spec =
  rs_cpu :: string
  rs_memory :: string

datatype restart_policy = Always | OnFailure | Never

record spec =
  sp_image :: string
  sp_command :: "string list"
  sp_network :: network_spec
  sp_resources :: resources_spec
  sp_restart_policy :: restart_policy
  sp_volumes :: "volume_mount list"
  sp_replicate_to :: "string option"

record jail_spec =
  js_api_version :: string
  js_kind :: string
  js_metadata :: metadata
  js_spec :: spec

record template_network_spec =
  tn_vnet :: bool
  tn_bridge :: string

record jail_template =
  jt_image :: string
  jt_command :: "string list"
  jt_network :: template_network_spec
  jt_resources :: resources_spec
  jt_restart_policy :: restart_policy
  jt_volumes :: "volume_mount list"

record service_spec_body =
  sb_replicas :: nat
  sb_port :: nat
  sb_template :: jail_template

record service_spec =
  ss_api_version :: string
  ss_kind :: string
  ss_metadata :: metadata
  ss_spec :: service_spec_body

record ingress_backend =
  ib_service :: string
  ib_port :: nat

record ingress_tls =
  it_email :: string

record ingress_spec_body =
  ig_host :: string
  ig_backend :: ingress_backend
  ig_tls :: ingress_tls

record ingress_spec =
  is_api_version :: string
  is_kind :: string
  is_metadata :: metadata
  is_spec :: ingress_spec_body

definition to_jail_spec :: "jail_template \<Rightarrow> string \<Rightarrow> string \<Rightarrow> jail_spec" where
  "to_jail_spec t name address =
     \<lparr>js_api_version = ''keel/v1'', js_kind = ''Jail'', js_metadata = \<lparr>md_name = name\<rparr>,
      js_spec =
        \<lparr>sp_image = jt_image t, sp_command = jt_command t,
         sp_network = \<lparr>ns_vnet = tn_vnet (jt_network t), ns_bridge = tn_bridge (jt_network t),
           ns_address = address\<rparr>,
         sp_resources = jt_resources t, sp_restart_policy = jt_restart_policy t,
         sp_volumes = map (\<lambda>v. \<lparr>vm_name = name @ ''-'' @ vm_name v,
           vm_mount_path = vm_mount_path v, vm_size = vm_size v\<rparr>) (jt_volumes t),
         sp_replicate_to = None\<rparr>\<rparr>"

section \<open>error.rs\<close>

datatype spec_error =
    Yaml string
  | InvalidName string
  | InvalidAddress string string
  | InvalidCpu string
  | InvalidMemory string
  | InvalidPort nat
  | DuplicateVolumeName string
  | ImmutableField string
  | InvalidHost string
  | InvalidEmail string

section \<open>resources.rs\<close>

definition parse_cpu_cores :: "string \<Rightarrow> (f64, spec_error) result" where
  "parse_cpu_cores s =
     and_then (ok_or (InvalidCpu s) (parse_f64 s)) (\<lambda>cores.
       if f64_less (Fin 0) cores \<and> is_finite cores then Ok cores else Err (InvalidCpu s))"

definition cores_to_pcpu_percent :: "f64 \<Rightarrow> nat" where
  "cores_to_pcpu_percent cores = f64_round_u32 (f64_mul cores (Fin 100))"

definition checked_mul_u64 :: "nat \<Rightarrow> nat \<Rightarrow> nat option" where
  "checked_mul_u64 a b = (if a * b \<le> u64_max then Some (a * b) else None)"

definition memory_parts :: "string \<Rightarrow> string \<times> nat" where
  "memory_parts upper =
     (case strip_suffix ''K'' upper of Some n \<Rightarrow> (n, 1024)
      | None \<Rightarrow> (case strip_suffix ''M'' upper of Some n \<Rightarrow> (n, 1024 * 1024)
      | None \<Rightarrow> (case strip_suffix ''G'' upper of Some n \<Rightarrow> (n, 1024 * 1024 * 1024)
      | None \<Rightarrow> (upper, 1))))"

definition parse_memory_bytes :: "string \<Rightarrow> (nat, spec_error) result" where
  "parse_memory_bytes s =
     (let (num_part, multiplier) = memory_parts (to_ascii_uppercase s)
      in and_then (ok_or (InvalidMemory s) (parse_uint u64_max num_part)) (\<lambda>value.
           if value = 0 then Err (InvalidMemory s)
           else ok_or (InvalidMemory s) (checked_mul_u64 value multiplier)))"

definition parse_zfs_quota :: "string \<Rightarrow> (nat, spec_error) result" where
  "parse_zfs_quota s = parse_memory_bytes s"

section \<open>validate.rs\<close>

definition validate_name :: "string \<Rightarrow> (unit, spec_error) result" where
  "validate_name name =
     (if name \<noteq> [] \<and> length name \<le> 63 \<and>
         list_all (\<lambda>c. is_ascii_lowercase c \<or> is_ascii_digit c \<or> c = CHR ''-'') name \<and>
         is_ascii_alphanumeric (hd name) \<and> is_ascii_alphanumeric (last name)
      then Ok () else Err (InvalidName name))"

definition validate_address :: "ipnet_api \<Rightarrow> string \<Rightarrow> (unit, spec_error) result" where
  "validate_address api address =
     (case api_parse_ipnet api address of Ok _ \<Rightarrow> Ok ()
      | Err e \<Rightarrow> Err (InvalidAddress address e))"

fun validate_volumes_from :: "string set \<Rightarrow> volume_mount list \<Rightarrow> (unit, spec_error) result" where
  "validate_volumes_from seen [] = Ok ()"
| "validate_volumes_from seen (v # vs) =
     and_then (validate_name (vm_name v)) (\<lambda>_.
       if vm_name v \<in> seen then Err (DuplicateVolumeName (vm_name v))
       else and_then (parse_zfs_quota (vm_size v)) (\<lambda>_.
         validate_volumes_from (insert (vm_name v) seen) vs))"

definition validate_volumes :: "volume_mount list \<Rightarrow> (unit, spec_error) result" where
  "validate_volumes vs = validate_volumes_from {} vs"

definition validate_transition :: "jail_spec \<Rightarrow> jail_spec \<Rightarrow> (unit, spec_error) result" where
  "validate_transition old new =
     (if sp_image (js_spec old) \<noteq> sp_image (js_spec new) then Err (ImmutableField ''spec.image'')
      else if ns_address (sp_network (js_spec old)) \<noteq> ns_address (sp_network (js_spec new))
        then Err (ImmutableField ''spec.network.address'')
      else if sp_volumes (js_spec old) \<noteq> sp_volumes (js_spec new)
        then Err (ImmutableField ''spec.volumes'')
      else Ok ())"

definition valid_label :: "string \<Rightarrow> bool" where
  "valid_label l \<longleftrightarrow> l \<noteq> [] \<and> length l \<le> 63 \<and>
     list_all (\<lambda>c. is_ascii_alphanumeric c \<or> c = CHR ''-'') l \<and>
     is_ascii_alphanumeric (hd l) \<and> is_ascii_alphanumeric (last l)"

definition validate_host :: "string \<Rightarrow> (unit, spec_error) result" where
  "validate_host host =
     (let labels = split_char CHR ''.'' host
      in if length labels \<ge> 2 \<and> list_all valid_label labels then Ok () else Err (InvalidHost host))"

text \<open>\<open>char::is_whitespace\<close> over UTF-8: the ASCII ones are single bytes, the others byte sequences
  (U+0085, U+00A0, U+1680, U+2000 to U+200A, U+2028, U+2029, U+202F, U+205F, U+3000).\<close>

definition byte_seqs :: "nat list list" where
  "byte_seqs = map (\<lambda>b. [b]) [9, 10, 11, 12, 13, 32] @
     [[0xC2, 0x85], [0xC2, 0xA0], [0xE1, 0x9A, 0x80]] @
     map (\<lambda>b. [0xE2, 0x80, b]) [0x80..<0x8B] @
     [[0xE2, 0x80, 0xA8], [0xE2, 0x80, 0xA9], [0xE2, 0x80, 0xAF], [0xE2, 0x81, 0x9F],
      [0xE3, 0x80, 0x80]]"

definition contains_whitespace :: "string \<Rightarrow> bool" where
  "contains_whitespace s \<longleftrightarrow> list_ex (\<lambda>bs. contains_str (map char_of bs) s) byte_seqs"

definition validate_email :: "string \<Rightarrow> (unit, spec_error) result" where
  "validate_email email =
     (case split_once CHR ''@'' email of
        Some (local, domain) \<Rightarrow>
          if local \<noteq> [] \<and> domain \<noteq> [] \<and> \<not> contains_whitespace local \<and>
             \<not> contains_whitespace domain \<and> CHR ''.'' \<in> set domain
          then Ok () else Err (InvalidEmail email)
      | None \<Rightarrow> Err (InvalidEmail email))"

section \<open>lib.rs\<close>

definition validate_jail_spec :: "ipnet_api \<Rightarrow> jail_spec \<Rightarrow> (jail_spec, spec_error) result" where
  "validate_jail_spec api spec =
     and_then (validate_name (md_name (js_metadata spec))) (\<lambda>_.
     and_then (validate_address api (ns_address (sp_network (js_spec spec)))) (\<lambda>_.
     and_then (parse_cpu_cores (rs_cpu (sp_resources (js_spec spec)))) (\<lambda>_.
     and_then (parse_memory_bytes (rs_memory (sp_resources (js_spec spec)))) (\<lambda>_.
     and_then (validate_volumes (sp_volumes (js_spec spec))) (\<lambda>_. Ok spec)))))"

definition parse_and_validate ::
    "ipnet_api \<Rightarrow> (string \<Rightarrow> (jail_spec, string) result) \<Rightarrow> string \<Rightarrow> (jail_spec, spec_error) result" where
  "parse_and_validate api from_yaml yaml =
     and_then (map_err Yaml (from_yaml yaml)) (validate_jail_spec api)"

definition validate_service_spec :: "service_spec \<Rightarrow> (service_spec, spec_error) result" where
  "validate_service_spec spec =
     and_then (validate_name (md_name (ss_metadata spec))) (\<lambda>_.
     and_then (parse_cpu_cores (rs_cpu (jt_resources (sb_template (ss_spec spec))))) (\<lambda>_.
     and_then (parse_memory_bytes (rs_memory (jt_resources (sb_template (ss_spec spec))))) (\<lambda>_.
     and_then (validate_volumes (jt_volumes (sb_template (ss_spec spec)))) (\<lambda>_.
       if sb_port (ss_spec spec) = 0 then Err (InvalidPort 0) else Ok spec))))"

definition parse_and_validate_service ::
    "(string \<Rightarrow> (service_spec, string) result) \<Rightarrow> string \<Rightarrow> (service_spec, spec_error) result" where
  "parse_and_validate_service from_yaml yaml =
     and_then (map_err Yaml (from_yaml yaml)) validate_service_spec"

definition validate_ingress_spec :: "ingress_spec \<Rightarrow> (ingress_spec, spec_error) result" where
  "validate_ingress_spec spec =
     and_then (validate_name (md_name (is_metadata spec))) (\<lambda>_.
     and_then (validate_host (ig_host (is_spec spec))) (\<lambda>_.
     and_then (validate_email (it_email (ig_tls (is_spec spec)))) (\<lambda>_.
       if ib_port (ig_backend (is_spec spec)) = 0 then Err (InvalidPort 0) else Ok spec)))"

definition parse_and_validate_ingress ::
    "(string \<Rightarrow> (ingress_spec, string) result) \<Rightarrow> string \<Rightarrow> (ingress_spec, spec_error) result" where
  "parse_and_validate_ingress from_yaml yaml =
     and_then (map_err Yaml (from_yaml yaml)) validate_ingress_spec"

definition sniff_kind :: "(string \<Rightarrow> (string, string) result) \<Rightarrow> string \<Rightarrow> (string, spec_error) result" where
  "sniff_kind kind_from_yaml yaml = map_err Yaml (kind_from_yaml yaml)"

section \<open>Names\<close>

lemma validate_name_Ok_iff:
  "validate_name n = Ok () \<longleftrightarrow>
     n \<noteq> [] \<and> length n \<le> 63 \<and>
     (\<forall>c \<in> set n. is_ascii_lowercase c \<or> is_ascii_digit c \<or> c = CHR ''-'') \<and>
     hd n \<noteq> CHR ''-'' \<and> last n \<noteq> CHR ''-''"
proof -
  have *: "is_ascii_alphanumeric c \<longleftrightarrow> c \<noteq> CHR ''-''"
    if "is_ascii_lowercase c \<or> is_ascii_digit c \<or> c = CHR ''-''" for c
    using that by (auto simp: is_ascii_alphanumeric_def is_ascii_lowercase_def is_ascii_digit_def
        is_ascii_uppercase_def)
  show ?thesis
  proof (cases "n \<noteq> [] \<and> (\<forall>c \<in> set n. is_ascii_lowercase c \<or> is_ascii_digit c \<or> c = CHR ''-'')")
    case True
    then have "is_ascii_alphanumeric (hd n) \<longleftrightarrow> hd n \<noteq> CHR ''-''"
      "is_ascii_alphanumeric (last n) \<longleftrightarrow> last n \<noteq> CHR ''-''"
      by (simp_all add: *)
    with True show ?thesis by (simp add: validate_name_def list_all_iff)
  qed (auto simp: validate_name_def list_all_iff)
qed

text \<open>A valid name cannot leave the directory or the dataset it is placed under.\<close>

lemma validate_name_safe:
  assumes "validate_name n = Ok ()"
  shows "CHR ''/'' \<notin> set n" "CHR ''.'' \<notin> set n" "CHR ''@'' \<notin> set n" "CHR '' '' \<notin> set n"
proof -
  have ok: "is_ascii_lowercase c \<or> is_ascii_digit c \<or> c = CHR ''-''" if "c \<in> set n" for c
    using assms that by (auto simp: validate_name_Ok_iff)
  then show "CHR ''/'' \<notin> set n" "CHR ''.'' \<notin> set n" "CHR ''@'' \<notin> set n" "CHR '' '' \<notin> set n"
    by (auto simp: is_ascii_lowercase_def is_ascii_digit_def dest!: ok)
qed

section \<open>Resources\<close>

lemma parse_cpu_cores_Ok_iff:
  "parse_cpu_cores s = Ok c \<longleftrightarrow> (\<exists>x. c = Fin x \<and> 0 < x \<and> parse_f64 s = Some c)"
proof -
  have "f64_less (Fin 0) d \<and> is_finite d \<longleftrightarrow> (\<exists>x. d = Fin x \<and> 0 < x)" for d
    by (cases d) auto
  then show ?thesis by (auto simp: parse_cpu_cores_def)
qed

lemma parse_cpu_cores_Err: "parse_cpu_cores s = Err e \<Longrightarrow> e = InvalidCpu s"
  by (cases "parse_f64 s") (auto simp: parse_cpu_cores_def split: if_splits)

lemma memory_parts_cases:
  "memory_parts u = (p, m) \<Longrightarrow>
     (u = p @ ''K'' \<and> m = 1024) \<or> (u = p @ ''M'' \<and> m = 1024 ^ 2) \<or> (u = p @ ''G'' \<and> m = 1024 ^ 3) \<or>
     (u = p \<and> m = 1)"
  by (auto simp: memory_parts_def strip_suffix_Some_iff split: option.splits)

lemma parse_memory_bytes_bounds:
  assumes "parse_memory_bytes s = Ok b"
  shows "0 < b" and "b \<le> u64_max"
  using assms
  by (auto simp: parse_memory_bytes_def checked_mul_u64_def memory_parts_def Let_def
      split: prod.splits if_splits option.splits)

lemma parse_memory_bytes_Err: "parse_memory_bytes s = Err e \<Longrightarrow> e = InvalidMemory s"
  by (cases "parse_uint u64_max (fst (memory_parts (to_ascii_uppercase s)))")
     (auto simp: parse_memory_bytes_def Let_def split: prod.splits if_splits)

lemma upper_digit: "is_ascii_digit c \<Longrightarrow> to_ascii_uppercase_char c = c"
  by (auto simp: to_ascii_uppercase_char_def is_ascii_digit_def is_ascii_lowercase_def)

lemma upper_show_nat [simp]: "to_ascii_uppercase (show_nat n) = show_nat n"
  using show_nat_digits [of n]
  by (auto simp: to_ascii_uppercase_def list_all_iff upper_digit intro!: map_idI)

text \<open>Reading back a printed size with a unit: the value times the unit, or an error when that
  does not fit in 64 bits.\<close>

definition unit_value :: "char \<Rightarrow> nat option" where
  "unit_value c =
     (if c = CHR ''K'' \<or> c = CHR ''k'' then Some 1024
      else if c = CHR ''M'' \<or> c = CHR ''m'' then Some (1024 ^ 2)
      else if c = CHR ''G'' \<or> c = CHR ''g'' then Some (1024 ^ 3) else None)"

lemma upper_units:
  "to_ascii_uppercase_char CHR ''k'' = CHR ''K''" "to_ascii_uppercase_char CHR ''K'' = CHR ''K''"
  "to_ascii_uppercase_char CHR ''m'' = CHR ''M''" "to_ascii_uppercase_char CHR ''M'' = CHR ''M''"
  "to_ascii_uppercase_char CHR ''g'' = CHR ''G''" "to_ascii_uppercase_char CHR ''G'' = CHR ''G''"
  by code_simp+

lemma strip_suffix_snoc [simp]:
  "strip_suffix [c] (s @ [d]) = (if c = d then Some s else None)"
  by (simp add: strip_suffix_def)

lemma parse_memory_bytes_unit:
  assumes "unit_value c = Some u" "0 < n" "n \<le> u64_max"
  shows "parse_memory_bytes (show_nat n @ [c]) =
    (if n * u \<le> u64_max then Ok (n * u) else Err (InvalidMemory (show_nat n @ [c])))"
proof -
  have up: "to_ascii_uppercase (show_nat n @ [c]) = show_nat n @ [to_ascii_uppercase_char c]"
    using upper_show_nat [of n] by (simp add: to_ascii_uppercase_def)
  have "to_ascii_uppercase_char c = CHR ''K'' \<and> u = 1024 \<or> to_ascii_uppercase_char c = CHR ''M'' \<and> u = 1024 ^ 2
      \<or> to_ascii_uppercase_char c = CHR ''G'' \<and> u = 1024 ^ 3"
    using assms(1) by (auto simp: unit_value_def upper_units split: if_splits)
  then have "memory_parts (show_nat n @ [to_ascii_uppercase_char c]) = (show_nat n, u)"
    by (elim disjE conjE) (simp_all add: memory_parts_def)
  with assms(2,3) show ?thesis
    by (simp add: parse_memory_bytes_def up checked_mul_u64_def)
qed

text \<open>Whole cores become exactly a hundred times as many percent.\<close>

lemma round_half_away_int [simp]: "round_half_away (of_int i) = i"
proof -
  have "\<lfloor>of_int i + 1 / 2 :: rat\<rfloor> = i" "\<lfloor>- of_int i + 1 / 2 :: rat\<rfloor> = - i"
    by (simp_all add: floor_eq_iff)
  then show ?thesis by (simp add: round_half_away_def)
qed

lemma cores_to_pcpu_percent_nat:
  assumes "n * 100 \<le> u32_max"
  shows "cores_to_pcpu_percent (Fin (of_nat n)) = n * 100"
proof -
  have "f64_mul (Fin (of_nat n)) (Fin 100) = fl_round (of_int (int (n * 100)))" by simp
  also have "\<dots> = Fin (of_int (int (n * 100)))"
    using assms by (intro fl_round_int) simp
  finally have "cores_to_pcpu_percent (Fin (of_nat n)) = nat (max 0 (min (int (n * 100)) 4294967295))"
    by (simp only: cores_to_pcpu_percent_def f64_round_u32.simps round_half_away_int)
  then show ?thesis
    using assms by simp
qed

lemma lower_digit: "is_ascii_digit c \<Longrightarrow> to_ascii_lowercase_char c = c"
  by (auto simp: to_ascii_lowercase_char_def is_ascii_digit_def is_ascii_uppercase_def)

lemma parse_decimal_show_nat: "parse_decimal (show_nat n) = Some (of_nat n)"
proof -
  have d: "takeWhile is_ascii_digit (show_nat n) = show_nat n" "dropWhile is_ascii_digit (show_nat n) = []"
    using show_nat_digits [of n] by (auto simp: list_all_iff)
  show ?thesis unfolding parse_decimal_def d by (simp add: parse_exp_def)
qed

lemma parse_f64_show_nat:
  assumes "n \<le> u32_max"
  shows "parse_f64 (show_nat n) = Some (Fin (of_nat n))"
proof -
  obtain c cs where s: "show_nat n = c # cs" by (cases "show_nat n") auto
  have c: "is_ascii_digit c" using show_nat_digits [of n] by (simp add: s)
  have sign: "strip_sign (show_nat n) = (False, show_nat n)"
    using digit_not_special [OF c] by (simp add: strip_sign_def s)
  have "to_ascii_lowercase (show_nat n) = show_nat n"
    using show_nat_digits [of n] by (auto simp: to_ascii_lowercase_def list_all_iff lower_digit intro!: map_idI)
  moreover have "hd (show_nat n) \<notin> {CHR ''i'', CHR ''n''}" using c by (auto simp: s is_ascii_digit_def)
  moreover have "fl_round (of_nat n) = Fin (of_nat n)" using assms fl_round_int [of "int n"] by simp
  ultimately show ?thesis by (auto simp: parse_f64_def sign parse_decimal_show_nat Let_def)
qed

lemma parse_cpu_cores_nat:
  "0 < n \<Longrightarrow> n \<le> u32_max \<Longrightarrow> parse_cpu_cores (show_nat n) = Ok (Fin (of_nat n))"
  by (simp add: parse_cpu_cores_Ok_iff parse_f64_show_nat)

section \<open>Volumes\<close>

lemma validate_volumes_from_Ok_iff:
  "validate_volumes_from seen vs = Ok () \<longleftrightarrow>
     distinct (map vm_name vs) \<and> seen \<inter> set (map vm_name vs) = {} \<and>
     (\<forall>v \<in> set vs. validate_name (vm_name v) = Ok () \<and> (\<exists>b. parse_memory_bytes (vm_size v) = Ok b))"
  by (induction vs arbitrary: seen) (auto simp: parse_zfs_quota_def)

lemma validate_volumes_Ok_iff:
  "validate_volumes vs = Ok () \<longleftrightarrow>
     distinct (map vm_name vs) \<and>
     (\<forall>v \<in> set vs. validate_name (vm_name v) = Ok () \<and> (\<exists>b. parse_memory_bytes (vm_size v) = Ok b))"
  by (simp add: validate_volumes_def validate_volumes_from_Ok_iff)

section \<open>Transitions\<close>

lemma validate_transition_Ok_iff:
  "validate_transition old new = Ok () \<longleftrightarrow>
     sp_image (js_spec old) = sp_image (js_spec new) \<and>
     ns_address (sp_network (js_spec old)) = ns_address (sp_network (js_spec new)) \<and>
     sp_volumes (js_spec old) = sp_volumes (js_spec new)"
  by (auto simp: validate_transition_def)

section \<open>Whole specs\<close>

lemma validate_jail_spec_Ok_iff:
  "validate_jail_spec api spec = Ok s \<longleftrightarrow>
     s = spec \<and> validate_name (md_name (js_metadata spec)) = Ok () \<and>
     is_ok (api_parse_ipnet api (ns_address (sp_network (js_spec spec)))) \<and>
     (\<exists>c. parse_cpu_cores (rs_cpu (sp_resources (js_spec spec))) = Ok c) \<and>
     (\<exists>b. parse_memory_bytes (rs_memory (sp_resources (js_spec spec))) = Ok b) \<and>
     validate_volumes (sp_volumes (js_spec spec)) = Ok ()"
  by (auto simp: validate_jail_spec_def validate_address_def is_ok_iff split: result.splits)

lemma validate_service_spec_Ok_iff:
  "validate_service_spec spec = Ok s \<longleftrightarrow>
     s = spec \<and> validate_name (md_name (ss_metadata spec)) = Ok () \<and>
     (\<exists>c. parse_cpu_cores (rs_cpu (jt_resources (sb_template (ss_spec spec)))) = Ok c) \<and>
     (\<exists>b. parse_memory_bytes (rs_memory (jt_resources (sb_template (ss_spec spec)))) = Ok b) \<and>
     validate_volumes (jt_volumes (sb_template (ss_spec spec))) = Ok () \<and>
     sb_port (ss_spec spec) \<noteq> 0"
  by (auto simp: validate_service_spec_def)

text \<open>A replica's spec built from a valid service: everything but the length of the derived names
  is already guaranteed.\<close>

lemma to_jail_spec_valid:
  assumes "validate_service_spec spec = Ok s" "is_ok (api_parse_ipnet api addr)"
    "validate_name name = Ok ()"
    "\<And>v. v \<in> set (jt_volumes (sb_template (ss_spec spec))) \<Longrightarrow> length name + 1 + length (vm_name v) \<le> 63"
  shows "is_ok (validate_jail_spec api (to_jail_spec (sb_template (ss_spec spec)) name addr))"
proof -
  have name: "validate_name (name @ CHR ''-'' # w) = Ok ()"
    if "validate_name w = Ok ()" "length name + length w \<le> 62" for w
    using that assms(3) by (auto simp: validate_name_Ok_iff)
  from assms(1,4) have "validate_volumes (sp_volumes (js_spec
      (to_jail_spec (sb_template (ss_spec spec)) name addr))) = Ok ()"
    by (auto simp: validate_service_spec_Ok_iff validate_volumes_Ok_iff to_jail_spec_def
        distinct_map comp_def inj_on_def intro!: name)
  then show ?thesis
    using assms by (auto simp: is_ok_iff validate_jail_spec_Ok_iff validate_service_spec_Ok_iff to_jail_spec_def)
qed

end
