(* ===== verification/Ag_Store.thy ===== *)
theory Ag_Store
  imports Keel_Act Keel_Spec
begin

text \<open>
  The state directory of an agent: \<open>store.rs\<close> (jails), \<open>ingress_store.rs\<close> and
  \<open>replica_target_store.rs\<close>, which write a record to a temporary file and rename it into place.
  The file system is the contents of the files by directory and name, the directories, and an oracle
  that decides which of its operations fail, and how much of a failed write reaches the disk; a
  crash in the middle of an operation leaves what a failure at that point leaves. The YAML codec
  (\<open>serde_yaml\<close>) is an argument.
\<close>

section \<open>The file system\<close>

datatype io_error = IoNotFound | IoOther

datatype fault = Before | Partial nat

record fs =
  fs_files :: "(string \<times> string, string) hmap"
  fs_dirs :: "string set"
  fs_clock :: nat
  fs_fault :: "nat \<Rightarrow> fault option"

text \<open>Every operation asks the oracle first.\<close>

definition fs_try :: "(fault option \<Rightarrow> (fs, 'a, io_error) act) \<Rightarrow> (fs, 'a, io_error) act" where
  "fs_try op = (\<lambda>s. op (fs_fault s (fs_clock s)) (s\<lparr>fs_clock := fs_clock s + 1\<rparr>))"

definition create_dir_all :: "string \<Rightarrow> (fs, unit, io_error) act" where
  "create_dir_all d = fs_try (\<lambda>f. if f = None then modifyA (\<lambda>s. s\<lparr>fs_dirs := insert d (fs_dirs s)\<rparr>) else failA IoOther)"

definition fs_put :: "string \<times> string \<Rightarrow> string \<Rightarrow> fs \<Rightarrow> fs" where
  "fs_put k c s = s\<lparr>fs_files := hm_insert k c (fs_files s)\<rparr>"

definition fs_write :: "string \<Rightarrow> string \<Rightarrow> string \<Rightarrow> (fs, unit, io_error) act" where
  "fs_write d n content = fs_try (\<lambda>f. case f of
       Some Before \<Rightarrow> failA IoOther
     | Some (Partial k) \<Rightarrow> bindA (modifyA (fs_put (d, n) (take k content))) (\<lambda>_. failA IoOther)
     | None \<Rightarrow> bindA (getA fs_dirs) (\<lambda>ds. if d \<in> ds then modifyA (fs_put (d, n) content) else failA IoNotFound))"

definition fs_rename :: "string \<Rightarrow> string \<Rightarrow> string \<Rightarrow> (fs, unit, io_error) act" where
  "fs_rename d from to = fs_try (\<lambda>f. if f \<noteq> None then failA IoOther
     else bindA (getA (\<lambda>s. hm_get (fs_files s) (d, from))) (\<lambda>c. case c of
         None \<Rightarrow> failA IoNotFound
       | Some content \<Rightarrow> modifyA (\<lambda>s. s\<lparr>fs_files := hm_insert (d, to) content (hm_remove (d, from) (fs_files s))\<rparr>)))"

definition fs_remove_file :: "string \<Rightarrow> string \<Rightarrow> (fs, unit, io_error) act" where
  "fs_remove_file d n = fs_try (\<lambda>f. if f \<noteq> None then failA IoOther
     else bindA (getA (\<lambda>s. hm_get (fs_files s) (d, n))) (\<lambda>c.
       if c = None then failA IoNotFound else modifyA (\<lambda>s. s\<lparr>fs_files := hm_remove (d, n) (fs_files s)\<rparr>)))"

definition fs_read_dir :: "string \<Rightarrow> (fs, string list, io_error) act" where
  "fs_read_dir d = fs_try (\<lambda>f. if f \<noteq> None then failA IoOther
     else bindA (getA fs_dirs) (\<lambda>ds. if d \<notin> ds then failA IoNotFound
       else getA (\<lambda>s. map snd (filter (\<lambda>(e, _). e = d) (map fst (fs_files s))))))"

definition fs_read_to_string :: "string \<Rightarrow> string \<Rightarrow> (fs, string, io_error) act" where
  "fs_read_to_string d n = fs_try (\<lambda>f. if f \<noteq> None then failA IoOther
     else bindA (getA (\<lambda>s. hm_get (fs_files s) (d, n))) (\<lambda>c. case c of None \<Rightarrow> failA IoNotFound | Some x \<Rightarrow> returnA x))"

text \<open>\<open>Path::extension\<close>: what follows the last dot, unless the name only starts with it.\<close>

definition extension :: "string \<Rightarrow> string option" where
  "extension n = (case rsplit_once CHR ''.'' n of Some (a, b) \<Rightarrow> if a = [] then None else Some b | None \<Rightarrow> None)"

section \<open>The stores\<close>

datatype store_error = StIo string io_error | StParse string string

record 'r codec =
  cd_to :: "'r \<Rightarrow> string"
  cd_from :: "string \<Rightarrow> ('r, string) result"
  cd_name :: "'r \<Rightarrow> string"

definition path_join :: "string \<Rightarrow> string \<Rightarrow> string" where
  "path_join d n = d @ ''/'' @ n"

definition yaml_file :: "string \<Rightarrow> string" where
  "yaml_file name = name @ ''.yaml''"

definition tmp_file :: "string \<Rightarrow> string" where
  "tmp_file name = name @ ''.yaml.tmp''"

fun load_entries :: "'r codec \<Rightarrow> string \<Rightarrow> string list \<Rightarrow> 'r list \<Rightarrow> (fs, 'r list, store_error) act" where
  "load_entries cd d [] acc = returnA acc"
| "load_entries cd d (n # ns) acc =
     (if extension n \<noteq> Some ''yaml'' then load_entries cd d ns acc
      else bindA (map_exnA (StIo (path_join d n)) (fs_read_to_string d n)) (\<lambda>content.
           bindA (checkA (StParse (path_join d n)) (cd_from cd content)) (\<lambda>r.
             load_entries cd d ns (acc @ [r]))))"

definition store_load_all :: "'r codec \<Rightarrow> string \<Rightarrow> (fs, 'r list, store_error) act" where
  "store_load_all cd d =
     bindA (map_exnA (StIo d) (create_dir_all d)) (\<lambda>_.
     bindA (map_exnA (StIo d) (fs_read_dir d)) (\<lambda>ns. load_entries cd d ns []))"

definition store_save :: "'r codec \<Rightarrow> string \<Rightarrow> 'r \<Rightarrow> (fs, unit, store_error) act" where
  "store_save cd d r =
     bindA (map_exnA (StIo d) (create_dir_all d)) (\<lambda>_.
     bindA (map_exnA (StIo (path_join d (tmp_file (cd_name cd r)))) (fs_write d (tmp_file (cd_name cd r)) (cd_to cd r))) (\<lambda>_.
       map_exnA (StIo (path_join d (yaml_file (cd_name cd r)))) (fs_rename d (tmp_file (cd_name cd r)) (yaml_file (cd_name cd r)))))"

definition store_remove :: "string \<Rightarrow> string \<Rightarrow> (fs, unit, store_error) act" where
  "store_remove d name =
     map_exnA (StIo (path_join d (yaml_file name))) (tolerateA (\<lambda>e. e = IoNotFound) (fs_remove_file d (yaml_file name)))"

definition ingress_dir :: "string \<Rightarrow> string" where
  "ingress_dir state_dir = path_join state_dir ''ingress''"

definition ingress_load_all :: "'r codec \<Rightarrow> string \<Rightarrow> (fs, 'r list, store_error) act" where
  "ingress_load_all cd state_dir = store_load_all cd (ingress_dir state_dir)"

definition ingress_save :: "'r codec \<Rightarrow> string \<Rightarrow> 'r \<Rightarrow> (fs, unit, store_error) act" where
  "ingress_save cd state_dir r = store_save cd (ingress_dir state_dir) r"

definition ingress_remove :: "string \<Rightarrow> string \<Rightarrow> (fs, unit, store_error) act" where
  "ingress_remove state_dir name = store_remove (ingress_dir state_dir) name"

definition replica_target_dir :: "string \<Rightarrow> string" where
  "replica_target_dir state_dir = path_join state_dir ''replica-targets''"

definition replica_target_load_all :: "'r codec \<Rightarrow> string \<Rightarrow> (fs, 'r list, store_error) act" where
  "replica_target_load_all cd state_dir = store_load_all cd (replica_target_dir state_dir)"

definition replica_target_save :: "'r codec \<Rightarrow> string \<Rightarrow> 'r \<Rightarrow> (fs, unit, store_error) act" where
  "replica_target_save cd state_dir r = store_save cd (replica_target_dir state_dir) r"

section \<open>What the file operations do\<close>

lemma yaml_file_inj [simp]: "yaml_file a = yaml_file b \<longleftrightarrow> a = b"
  by (simp add: yaml_file_def)

lemma tmp_ne_yaml [simp]: "tmp_file a \<noteq> yaml_file b" "yaml_file b \<noteq> tmp_file a"
proof -
  have "last (tmp_file a) \<noteq> last (yaml_file b)" by (simp add: tmp_file_def yaml_file_def)
  then show "tmp_file a \<noteq> yaml_file b" "yaml_file b \<noteq> tmp_file a" by metis+
qed

lemma extension_yaml: "n \<noteq> [] \<Longrightarrow> extension (yaml_file n) = Some ''yaml''"
proof -
  have "rsplit_once CHR ''.'' (yaml_file n) = Some (n, ''yaml'')"
    by (simp add: rsplit_once_Some_iff yaml_file_def)
  then show "n \<noteq> [] \<Longrightarrow> ?thesis" by (simp add: extension_def)
qed

lemma extension_SomeD:
  assumes "extension n = Some e"
  shows "\<exists>a. n = a @ CHR ''.'' # e \<and> a \<noteq> []"
proof -
  obtain a where "rsplit_once CHR ''.'' n = Some (a, e)" "a \<noteq> []"
    using assms by (auto simp: extension_def split: option.splits if_splits)
  then show ?thesis by (auto simp: rsplit_once_Some_iff)
qed

lemma extension_yaml_iff: "extension n = Some ''yaml'' \<longleftrightarrow> (\<exists>a. n = yaml_file a \<and> a \<noteq> [])"
proof
  assume "extension n = Some ''yaml''"
  then show "\<exists>a. n = yaml_file a \<and> a \<noteq> []"
    using extension_SomeD [of n "''yaml''"] by (auto simp: yaml_file_def)
qed (auto simp: extension_yaml)

lemma not_panic_fs: "fst (fs_read_to_string d n s) \<noteq> Panic"
  by (simp add: fs_read_to_string_def fs_try_def act_defs split: option.splits)

text \<open>Saving touches the record's own two files only; the final one changes in one step or not at
  all, and it has changed exactly when saving reports success.\<close>

lemma store_save_files:
  assumes "store_save cd d r s = (res, s')"
  shows "(\<forall>k. k \<noteq> (d, tmp_file (cd_name cd r)) \<longrightarrow> k \<noteq> (d, yaml_file (cd_name cd r)) \<longrightarrow>
        hm_get (fs_files s') k = hm_get (fs_files s) k) \<and>
    hm_get (fs_files s') (d, yaml_file (cd_name cd r)) =
      (if res = Val () then Some (cd_to cd r) else hm_get (fs_files s) (d, yaml_file (cd_name cd r))) \<and>
    res \<noteq> Panic \<and> fs_fault s' = fs_fault s"
  using assms
  by (auto simp: store_save_def create_dir_all_def fs_write_def fs_rename_def fs_try_def fs_put_def act_defs
      split: if_splits option.splits fault.splits)

lemma store_remove_files:
  assumes "store_remove d n s = (res, s')"
  shows "(\<forall>k. k \<noteq> (d, yaml_file n) \<longrightarrow> hm_get (fs_files s') k = hm_get (fs_files s) k) \<and>
    hm_get (fs_files s') (d, yaml_file n) = (if res = Val () then None else hm_get (fs_files s) (d, yaml_file n)) \<and>
    res \<noteq> Panic \<and> fs_fault s' = fs_fault s"
  using assms
  by (auto simp: store_remove_def fs_remove_file_def fs_try_def act_defs split: if_splits option.splits)

lemma store_save_wf: "hm_wf (fs_files s) \<Longrightarrow> store_save cd d r s = (res, s') \<Longrightarrow> hm_wf (fs_files s')"
  by (auto simp: store_save_def create_dir_all_def fs_write_def fs_rename_def fs_try_def fs_put_def act_defs
      split: if_splits option.splits fault.splits)

lemma store_remove_wf: "hm_wf (fs_files s) \<Longrightarrow> store_remove d n s = (res, s') \<Longrightarrow> hm_wf (fs_files s')"
  by (auto simp: store_remove_def fs_remove_file_def fs_try_def act_defs split: if_splits option.splits)

section \<open>The disk mirrors the records in memory\<close>

definition mirrors :: "'r codec \<Rightarrow> string \<Rightarrow> (string, 'r) hmap \<Rightarrow> fs \<Rightarrow> bool" where
  "mirrors cd d recs s \<longleftrightarrow> hm_wf (fs_files s) \<and> hm_wf recs \<and>
     (\<forall>(k, r) \<in> set recs. cd_name cd r = k \<and> k \<noteq> []) \<and>
     (\<forall>n. n \<noteq> [] \<longrightarrow> hm_get (fs_files s) (d, yaml_file n) = map_option (cd_to cd) (hm_get recs n))"

lemma mirrors_files:
  assumes "mirrors cd d recs s" "hm_wf (fs_files s')"
    and "\<And>n. hm_get (fs_files s') (d, yaml_file n) = hm_get (fs_files s) (d, yaml_file n)"
  shows "mirrors cd d recs s'"
  using assms by (simp add: mirrors_def)

lemma hm_wf_entry_update:
  assumes "hm_wf m" "\<forall>(k, r) \<in> set m. P k r" "P k v"
  shows "\<forall>(k, r) \<in> set (hm_insert k v m). P k r"
proof clarify
  fix j r assume "(j, r) \<in> set (hm_insert k v m)"
  then have "hm_get (hm_insert k v m) j = Some r" using assms(1) by (simp only: hm_get_iff hm_wf_insert)
  then show "P j r" using assms by (auto simp: split: if_splits dest!: map_of_SomeD)
qed

lemma mirrors_save:
  assumes m: "mirrors cd d recs s" and e: "store_save cd d r s = (res, s')" and n: "cd_name cd r \<noteq> []"
  shows "mirrors cd d (if res = Val () then hm_insert (cd_name cd r) r recs else recs) s'"
proof -
  have "hm_wf (fs_files s')" using m e store_save_wf by (auto simp: mirrors_def)
  moreover have "\<forall>(k, r) \<in> set (hm_insert (cd_name cd r) r recs). cd_name cd r = k \<and> k \<noteq> []"
    using m n by (intro hm_wf_entry_update) (auto simp: mirrors_def)
  moreover have "hm_get (fs_files s') (d, yaml_file j) =
      (if j = cd_name cd r \<and> res = Val () then Some (cd_to cd r) else hm_get (fs_files s) (d, yaml_file j))" for j
    using store_save_files [OF e] by (cases "j = cd_name cd r") auto
  ultimately show ?thesis using m by (auto simp: mirrors_def)
qed

lemma mirrors_remove:
  assumes m: "mirrors cd d recs s" and e: "store_remove d n s = (res, s')" and n: "n \<noteq> []"
  shows "mirrors cd d (if res = Val () then hm_remove n recs else recs) s'"
proof -
  have "hm_wf (fs_files s')" using m e store_remove_wf by (auto simp: mirrors_def)
  moreover have "hm_get (fs_files s') (d, yaml_file j) =
      (if j = n \<and> res = Val () then None else hm_get (fs_files s) (d, yaml_file j))" for j
    using store_remove_files [OF e] by (cases "j = n") auto
  moreover have "\<forall>(k, r) \<in> set (hm_remove n recs). cd_name cd r = k \<and> k \<noteq> []"
    using m by (auto simp: mirrors_def AList.delete_eq)
  ultimately show ?thesis using m by (auto simp: mirrors_def)
qed

text \<open>Reading the directory back.\<close>

lemma load_entries_all:
  assumes "\<forall>t. fs_fault s t = None"
    and "\<And>n. n \<in> set ns \<Longrightarrow> extension n = Some ''yaml'' \<Longrightarrow>
        \<exists>r. hm_get (fs_files s) (d, n) = Some (cd_to cd r) \<and> cd_from cd (cd_to cd r) = Ok r \<and> n = yaml_file (cd_name cd r)"
  shows "\<exists>rs. fst (load_entries cd d ns acc s) = Val (acc @ rs) \<and>
      map (yaml_file \<circ> cd_name cd) rs = filter (\<lambda>n. extension n = Some ''yaml'') ns \<and>
      (\<forall>r \<in> set rs. hm_get (fs_files s) (d, yaml_file (cd_name cd r)) = Some (cd_to cd r) \<and> cd_from cd (cd_to cd r) = Ok r)"
  using assms
proof (induction ns arbitrary: acc s)
  case Nil
  show ?case by (simp add: returnA_def)
next
  case (Cons n ns)
  show ?case
  proof (cases "extension n = Some ''yaml''")
    case False
    with Cons.IH [of s acc] Cons.prems show ?thesis by auto
  next
    case True
    then obtain r where r: "hm_get (fs_files s) (d, n) = Some (cd_to cd r)" "cd_from cd (cd_to cd r) = Ok r"
      "n = yaml_file (cd_name cd r)" using Cons.prems(2) [of n] by auto
    let ?t = "s\<lparr>fs_clock := fs_clock s + 1\<rparr>"
    have step: "load_entries cd d (n # ns) acc s = load_entries cd d ns (acc @ [r]) ?t"
      using True r Cons.prems(1) by (simp add: fs_read_to_string_def fs_try_def act_defs)
    have "\<exists>rs. fst (load_entries cd d ns (acc @ [r]) ?t) = Val ((acc @ [r]) @ rs) \<and>
      map (yaml_file \<circ> cd_name cd) rs = filter (\<lambda>n. extension n = Some ''yaml'') ns \<and>
      (\<forall>r \<in> set rs. hm_get (fs_files ?t) (d, yaml_file (cd_name cd r)) = Some (cd_to cd r) \<and> cd_from cd (cd_to cd r) = Ok r)"
      using Cons.prems by (intro Cons.IH) auto
    then obtain rs where "fst (load_entries cd d ns (acc @ [r]) ?t) = Val ((acc @ [r]) @ rs)"
      "map (yaml_file \<circ> cd_name cd) rs = filter (\<lambda>n. extension n = Some ''yaml'') ns"
      "\<forall>r \<in> set rs. hm_get (fs_files s) (d, yaml_file (cd_name cd r)) = Some (cd_to cd r) \<and> cd_from cd (cd_to cd r) = Ok r"
      by auto
    with step True r show ?thesis by (intro exI [of _ "r # rs"]) (auto simp: comp_def)
  qed
qed

lemma dir_names: "set (map snd (filter (\<lambda>(e, _). e = d) (map fst m))) = {n. (d, n) \<in> fst ` set m}"
  by force

lemma mirrors_get: "mirrors cd d recs s \<Longrightarrow> n \<noteq> [] \<Longrightarrow>
    hm_get (fs_files s) (d, yaml_file n) = map_option (cd_to cd) (hm_get recs n)"
  by (simp add: mirrors_def)

lemma mirrors_known:
  assumes "mirrors cd d recs s" "\<forall>(k, r) \<in> set recs. cd_from cd (cd_to cd r) = Ok r"
    and "a \<noteq> []" "hm_get (fs_files s) (d, yaml_file a) \<noteq> None"
  shows "\<exists>r. hm_get recs a = Some r \<and> cd_name cd r = a \<and> cd_from cd (cd_to cd r) = Ok r"
proof -
  obtain r where "hm_get recs a = Some r" using assms mirrors_get [OF assms(1,3)] by auto
  then show ?thesis using assms(1,2) by (fastforce simp: mirrors_def dest: map_of_SomeD)
qed

text \<open>The names of the files of a directory, and what reading them all gives.\<close>

definition names_in :: "string \<Rightarrow> fs \<Rightarrow> string list" where
  "names_in d s = map snd (filter (\<lambda>(e, _). e = d) (map fst (fs_files s)))"

lemma in_names_in: "n \<in> set (names_in d s) \<longleftrightarrow> hm_get (fs_files s) (d, n) \<noteq> None"
  unfolding names_in_def dir_names by (auto simp: map_of_eq_None_iff)

lemma distinct_names_in: "hm_wf (fs_files s) \<Longrightarrow> distinct (names_in d s)"
  by (auto simp: names_in_def hm_wf_def distinct_map intro!: distinct_filter inj_onI)

lemma load_all_reads:
  assumes m: "mirrors cd d recs s" and nf: "\<forall>t. fs_fault s t = None"
    and rt: "\<forall>(k, r) \<in> set recs. cd_from cd (cd_to cd r) = Ok r"
  obtains rs where "fst (store_load_all cd d s) = Val rs"
    "map (yaml_file \<circ> cd_name cd) rs = filter (\<lambda>n. extension n = Some ''yaml'') (names_in d s)"
    "\<forall>r \<in> set rs. hm_get (fs_files s) (d, yaml_file (cd_name cd r)) = Some (cd_to cd r) \<and> cd_from cd (cd_to cd r) = Ok r"
proof -
  let ?s = "s\<lparr>fs_dirs := insert d (fs_dirs s), fs_clock := Suc (Suc (fs_clock s))\<rparr>"
  have load: "store_load_all cd d s = load_entries cd d (names_in d s) [] ?s"
    using nf by (simp add: store_load_all_def create_dir_all_def fs_read_dir_def fs_try_def act_defs names_in_def)
  have entry: "\<exists>r. hm_get (fs_files ?s) (d, n) = Some (cd_to cd r) \<and> cd_from cd (cd_to cd r) = Ok r \<and> n = yaml_file (cd_name cd r)"
    if n: "n \<in> set (names_in d s)" "extension n = Some ''yaml''" for n
  proof -
    obtain a where a: "n = yaml_file a" "a \<noteq> []" using n(2) by (auto simp: extension_yaml_iff)
    with n(1) have "hm_get (fs_files s) (d, yaml_file a) \<noteq> None" by (simp only: in_names_in) simp
    then obtain r where "hm_get recs a = Some r" "cd_name cd r = a" "cd_from cd (cd_to cd r) = Ok r"
      using mirrors_known [OF m rt a(2)] by blast
    with mirrors_get [OF m a(2)] a show ?thesis by auto
  qed
  have nf2: "\<forall>t. fs_fault ?s t = None" using nf by simp
  show thesis
    using load_entries_all [where acc = "[]" and ns = "names_in d s", OF nf2 entry] that unfolding append_Nil load by auto
qed

lemma load_all_mirrors:
  assumes m: "mirrors cd d recs s" and nf: "\<forall>t. fs_fault s t = None"
    and rt: "\<forall>(k, r) \<in> set recs. cd_from cd (cd_to cd r) = Ok r"
  shows "\<exists>rs. fst (store_load_all cd d s) = Val rs \<and> set rs = snd ` set recs \<and> distinct (map (cd_name cd) rs)"
proof -
  have wf: "hm_wf (fs_files s)" "hm_wf recs" using m by (auto simp: mirrors_def)
  note get = mirrors_get [OF m] and known = mirrors_known [OF m rt]
  obtain rs where load: "fst (store_load_all cd d s) = Val rs"
    and names: "map (yaml_file \<circ> cd_name cd) rs = filter (\<lambda>n. extension n = Some ''yaml'') (names_in d s)"
    and disk: "\<forall>r \<in> set rs. hm_get (fs_files s) (d, yaml_file (cd_name cd r)) = Some (cd_to cd r) \<and> cd_from cd (cd_to cd r) = Ok r"
    by (rule load_all_reads [OF assms]) (rule that)
  note disk = bspec [OF disk]
  have read: "yaml_file a \<in> (yaml_file \<circ> cd_name cd) ` set rs \<longleftrightarrow> a \<noteq> [] \<and> hm_get (fs_files s) (d, yaml_file a) \<noteq> None" for a
    using arg_cong [where f = set, OF names] by (auto simp: in_names_in extension_yaml_iff extension_yaml)
  have "distinct (map (yaml_file \<circ> cd_name cd) rs)" unfolding names using distinct_names_in [OF wf(1)] by simp
  then have "distinct (map (cd_name cd) rs)" by (auto simp: distinct_map inj_on_def)
  moreover have "set rs = snd ` set recs"
  proof (intro equalityI subsetI)
    fix r assume r: "r \<in> set rs"
    then have ne: "cd_name cd r \<noteq> []" using read [of "cd_name cd r"] by auto
    obtain q where "hm_get recs (cd_name cd r) = Some q" "cd_from cd (cd_to cd q) = Ok q"
      using known [OF ne] disk [OF r] by blast
    with disk [OF r] have "hm_get recs (cd_name cd r) = Some r" using get [OF ne] by simp
    then show "r \<in> snd ` set recs" by (force dest: map_of_SomeD)
  next
    fix r assume "r \<in> snd ` set recs"
    then obtain k where k: "(k, r) \<in> set recs" by auto
    then have n: "cd_name cd r = k" "k \<noteq> []" "hm_get recs k = Some r" "cd_from cd (cd_to cd r) = Ok r"
      using m rt hm_get_iff [OF wf(2), of k r] by (auto simp: mirrors_def)
    then have file_k: "hm_get (fs_files s) (d, yaml_file k) = Some (cd_to cd r)" using get by simp
    with read [of k] n(2) obtain r' where "r' \<in> set rs" "cd_name cd r' = k" by auto
    with disk [of r'] file_k n(4) show "r \<in> set rs" by simp
  qed
  ultimately show ?thesis using load by blast
qed

section \<open>Crash safety\<close>

text \<open>C24: whatever fault hits it, saving a record is all or nothing for the next start of the agent:
  loading the directory afterwards gives the records it held, with the new one in the place of its
  old version exactly when saving reported success.\<close>

theorem save_crash_safe:
  assumes "mirrors cd d recs s" "cd_name cd r \<noteq> []" "store_save cd d r s = (res, s')"
    and "\<forall>(k, r) \<in> set ((cd_name cd r, r) # recs). cd_from cd (cd_to cd r) = Ok r"
  shows "\<exists>rs. fst (store_load_all cd d (s'\<lparr>fs_fault := \<lambda>_. None\<rparr>)) = Val rs \<and> distinct (map (cd_name cd) rs) \<and>
    set rs = snd ` set (if res = Val () then hm_insert (cd_name cd r) r recs else recs)"
proof -
  let ?recs = "if res = Val () then hm_insert (cd_name cd r) r recs else recs"
  have wf: "hm_wf recs" using assms(1) by (simp add: mirrors_def)
  have "mirrors cd d ?recs s'" using mirrors_save assms(1,3,2) .
  then have "mirrors cd d ?recs (s'\<lparr>fs_fault := \<lambda>_. None\<rparr>)" by (rule mirrors_files) (use \<open>mirrors cd d ?recs s'\<close> in \<open>auto simp: mirrors_def\<close>)
  moreover have "\<forall>(k, r) \<in> set ?recs. cd_from cd (cd_to cd r) = Ok r"
    using hm_wf_entry_update [OF wf, of "\<lambda>k r. cd_from cd (cd_to cd r) = Ok r" "cd_name cd r" r] assms(4) by simp
  ultimately show ?thesis using load_all_mirrors [of cd d ?recs "s'\<lparr>fs_fault := \<lambda>_. None\<rparr>"] by auto
qed

definition string_codec :: "string codec" where
  "string_codec = \<lparr>cd_to = \<lambda>r. r, cd_from = Ok, cd_name = \<lambda>r. take 1 r\<rparr>"

definition torn_fs :: fs where
  "torn_fs = \<lparr>fs_files = [((''d'', ''a.yaml''), ''ab'')], fs_dirs = {''d''}, fs_clock = 0,
     fs_fault = (\<lambda>t. if t = 1 then Some (Partial 1) else None)\<rparr>"

theorem save_crash_safe_witness:
  "mirrors string_codec ''d'' [(''a'', ''ab'')] torn_fs \<and>
   (\<exists>rs. fst (store_load_all string_codec ''d'' ((snd (store_save string_codec ''d'' ''ac'' torn_fs))\<lparr>fs_fault := \<lambda>_. None\<rparr>)) = Val rs \<and>
     set rs = {''ab''})"
proof -
  have m: "mirrors string_codec ''d'' [(''a'', ''ab'')] torn_fs"
    by (auto simp: mirrors_def hm_wf_def string_codec_def torn_fs_def yaml_file_def)
  have res: "fst (store_save string_codec ''d'' ''ac'' torn_fs) \<noteq> Val ()"
    by (simp add: store_save_def create_dir_all_def fs_write_def fs_try_def act_defs torn_fs_def)
  then show ?thesis
    using m save_crash_safe [OF m, of "''ac''" "fst (store_save string_codec ''d'' ''ac'' torn_fs)" "snd (store_save string_codec ''d'' ''ac'' torn_fs)"]
    by (auto simp: string_codec_def)
qed

end
