(* ===== verification/Ag_Reconciler.thy ===== *)
theory Ag_Reconciler
  imports Ag_Host Ag_Backoff
begin

text \<open>
  The reconciler of an agent (\<open>keel-agentd/src/reconciler.rs\<close>) with the paths and records it uses
  (\<open>record.rs\<close>, \<open>ingress_record.rs\<close>, \<open>wire.rs\<close>, \<open>service_vips.rs\<close>) and the nginx
  configuration it renders (\<open>keel-ingress/src/config.rs\<close>). The reconciler is generic in the
  implementations of the host traits, and so is the model: \<open>agent\<close> holds the implementations and
  what never changes, \<open>rc\<close> the state. Every method is an action on that state, so the effects of a
  call that fails half-way are part of the model.
\<close>

section \<open>record.rs, ingress_record.rs, wire.rs\<close>

record jail_record =
  jrec_spec :: jail_spec
  jrec_epair_ordinal :: nat

record ingress_record =
  irec_spec :: ingress_spec
  irec_cert_expires_at_unix :: "int option"

record jail_status =
  jst_record :: jail_record
  jst_running :: bool
  jst_backoff :: backoff_status

definition jail_name :: "string \<Rightarrow> string" where
  "jail_name spec_name = ''keel-'' @ spec_name"

definition INGRESS_JAIL_BRIDGE_ADDR :: string where
  "INGRESS_JAIL_BRIDGE_ADDR = ''10.0.0.2''"

definition base_dataset_path :: "string \<Rightarrow> string \<Rightarrow> string" where
  "base_dataset_path pool img = pool @ ''/keel/'' @ img"

definition jail_dataset_path :: "string \<Rightarrow> string \<Rightarrow> string" where
  "jail_dataset_path pool spec_name = pool @ ''/keel/jails/'' @ spec_name"

definition jail_rootfs_path :: "string \<Rightarrow> string \<Rightarrow> string" where
  "jail_rootfs_path pool spec_name = ''/'' @ jail_dataset_path pool spec_name"

definition epair_base_name :: "nat \<Rightarrow> string" where
  "epair_base_name ordinal = ''epair'' @ show_nat ordinal"

definition volume_dataset_path :: "string \<Rightarrow> string \<Rightarrow> string" where
  "volume_dataset_path pool name = pool @ ''/keel/volumes/'' @ name"

definition volume_mountpoint :: "string \<Rightarrow> string \<Rightarrow> string" where
  "volume_mountpoint pool name = ''/'' @ volume_dataset_path pool name"

definition mount_target :: "string \<Rightarrow> volume_mount \<Rightarrow> string" where
  "mount_target rootfs v = path_join rootfs (trim_start_matches CHR ''/'' (vm_mount_path v))"

section \<open>keel-ingress/src/config.rs\<close>

record ingress_backend_config =
  ibc_host :: string
  ibc_vip :: string
  ibc_port :: nat
  ibc_cert_path :: string
  ibc_key_path :: string

definition nl :: string where
  "nl = [CHR 0x0A]"

definition render_server :: "ingress_backend_config \<Rightarrow> string" where
  "render_server b = ''    server {'' @ nl @ ''        listen 443 ssl;'' @ nl @
     ''        server_name '' @ ibc_host b @ '';'' @ nl @
     ''        ssl_certificate '' @ ibc_cert_path b @ '';'' @ nl @
     ''        ssl_certificate_key '' @ ibc_key_path b @ '';'' @ nl @
     ''        location / {'' @ nl @
     ''            proxy_pass http://'' @ ibc_vip b @ '':'' @ show_nat (ibc_port b) @ '';'' @ nl @
     ''        }'' @ nl @ ''    }'' @ nl"

definition render_nginx_config :: "ingress_backend_config list \<Rightarrow> string" where
  "render_nginx_config backends =
     ''user www; worker_processes 1;'' @ nl @ ''events { worker_connections 1024; }'' @ nl @ ''http {'' @ nl @
     ''    server {'' @ nl @ ''        listen 80 default_server;'' @ nl @
     ''        return 301 https://$host$request_uri;'' @ nl @ ''    }'' @ nl @
     concat (map render_server backends) @ ''}'' @ nl"

definition NGINX_CONF_PATH :: string where
  "NGINX_CONF_PATH = ''/usr/local/etc/nginx/nginx.conf''"

section \<open>The state\<close>

datatype reconcile_error =
    RInvalidSpec spec_error
  | RStore store_error
  | RJail jail_error
  | RZfs zfs_error
  | RNet net_error
  | RMount mount_error
  | RNotFound string
  | RBaseImageNotFound string

record 's agent =
  ag_ops :: "'s host"
  ag_api :: ipnet_api
  ag_pool :: string
  ag_state_dir :: string
  ag_jail_to_yaml :: "jail_record \<Rightarrow> string"
  ag_jail_from_yaml :: "string \<Rightarrow> (jail_record, string) result"
  ag_ingress_to_yaml :: "ingress_record \<Rightarrow> string"
  ag_ingress_from_yaml :: "string \<Rightarrow> (ingress_record, string) result"

record 's rc =
  rc_host :: 's
  rc_fs :: fs
  rc_records :: "(string, jail_record) hmap"
  rc_backoff :: "(string, backoff_state) hmap"
  rc_next_epair_ordinal :: nat
  rc_ingress_records :: "(string, ingress_record) hmap"
  rc_ingress_backoff :: "(string, backoff_state) hmap"
  rc_service_vips :: "(string, string \<times> nat) hmap"

type_synonym ('s, 'a) rca = "('s rc, 'a, reconcile_error) act"

definition on_host :: "('e \<Rightarrow> 'f) \<Rightarrow> ('s, 'a, 'e) act \<Rightarrow> ('s rc, 'a, 'f) act" where
  "on_host f m = map_exnA f (zoomA rc_host (\<lambda>h st. st\<lparr>rc_host := h\<rparr>) m)"

definition on_fs :: "('e \<Rightarrow> 'f) \<Rightarrow> (fs, 'a, 'e) act \<Rightarrow> ('s rc, 'a, 'f) act" where
  "on_fs f m = map_exnA f (zoomA rc_fs (\<lambda>d st. st\<lparr>rc_fs := d\<rparr>) m)"

abbreviation jr :: "'s agent \<Rightarrow> 's jail_runtime" where "jr ag \<equiv> h_jails (ag_ops ag)"
abbreviation mm :: "'s agent \<Rightarrow> 's mount_manager" where "mm ag \<equiv> h_mounts (ag_ops ag)"
abbreviation zm :: "'s agent \<Rightarrow> 's zfs_manager" where "zm ag \<equiv> h_zfs (ag_ops ag)"
abbreviation nm :: "'s agent \<Rightarrow> 's net_manager" where "nm ag \<equiv> h_net (ag_ops ag)"
abbreviation ng :: "'s agent \<Rightarrow> 's nginx_controller" where "ng ag \<equiv> h_nginx (ag_ops ag)"

text \<open>A \<open>HashMap\<close> from a list: a later entry replaces an earlier one with its key.\<close>

definition hm_collect :: "('v \<Rightarrow> 'k) \<Rightarrow> 'v list \<Rightarrow> ('k, 'v) hmap" where
  "hm_collect key xs = foldl (\<lambda>m x. hm_insert (key x) x m) [] xs"

definition u32_succ :: "nat \<Rightarrow> nat" where
  "u32_succ n = (n + 1) mod 2 ^ 32"

definition spec_name_of :: "jail_record \<Rightarrow> string" where
  "spec_name_of r = md_name (js_metadata (jrec_spec r))"

definition ingress_name_of :: "ingress_record \<Rightarrow> string" where
  "ingress_name_of r = md_name (is_metadata (irec_spec r))"

text \<open>What the stores need to know of a record: its YAML form (\<open>serde_yaml\<close>) and its name.\<close>

definition jail_codec :: "'s agent \<Rightarrow> jail_record codec" where
  "jail_codec ag = \<lparr>cd_to = ag_jail_to_yaml ag, cd_from = ag_jail_from_yaml ag, cd_name = spec_name_of\<rparr>"

definition ingress_codec :: "'s agent \<Rightarrow> ingress_record codec" where
  "ingress_codec ag = \<lparr>cd_to = ag_ingress_to_yaml ag, cd_from = ag_ingress_from_yaml ag, cd_name = ingress_name_of\<rparr>"

definition next_ordinal :: "jail_record list \<Rightarrow> nat" where
  "next_ordinal loaded = (if loaded = [] then 1 else u32_succ (Max (set (map jrec_epair_ordinal loaded))))"

definition reconciler_new :: "'s agent \<Rightarrow> 's \<Rightarrow> (string, string \<times> nat) hmap \<Rightarrow> (fs, 's rc, reconcile_error) act" where
  "reconciler_new ag host vips =
     bindA (map_exnA RStore (store_load_all (jail_codec ag) (ag_state_dir ag))) (\<lambda>loaded.
     bindA (map_exnA RStore (ingress_load_all (ingress_codec ag) (ag_state_dir ag))) (\<lambda>ingress_loaded.
       (\<lambda>d. (Val \<lparr>rc_host = host, rc_fs = d, rc_records = hm_collect spec_name_of loaded, rc_backoff = [],
          rc_next_epair_ordinal = next_ordinal loaded,
          rc_ingress_records = hm_collect ingress_name_of ingress_loaded, rc_ingress_backoff = [],
          rc_service_vips = vips\<rparr>, d))))"

section \<open>Jails: desired state\<close>

definition apply_jail :: "'s agent \<Rightarrow> jail_spec \<Rightarrow> ('s, unit) rca" where
  "apply_jail ag spec =
     (let name = md_name (js_metadata spec) in
      bindA (checkA RInvalidSpec (validate_name name)) (\<lambda>_.
      bindA (checkA RInvalidSpec (validate_address (ag_api ag) (ns_address (sp_network (js_spec spec))))) (\<lambda>_.
      bindA (checkA RInvalidSpec (parse_cpu_cores (rs_cpu (sp_resources (js_spec spec))))) (\<lambda>_.
      bindA (checkA RInvalidSpec (parse_memory_bytes (rs_memory (sp_resources (js_spec spec))))) (\<lambda>_.
      bindA (getA (\<lambda>st. hm_get (rc_records st) name)) (\<lambda>existing.
      bindA (case existing of
               Some e \<Rightarrow> bindA (checkA RInvalidSpec (validate_transition (jrec_spec e) spec)) (\<lambda>_.
                 returnA (jrec_epair_ordinal e))
             | None \<Rightarrow> bindA (getA rc_next_epair_ordinal) (\<lambda>ordinal.
                 bindA (modifyA (\<lambda>st. st\<lparr>rc_next_epair_ordinal := u32_succ ordinal\<rparr>)) (\<lambda>_. returnA ordinal))) (\<lambda>epair_ordinal.
      let r = \<lparr>jrec_spec = spec, jrec_epair_ordinal = epair_ordinal\<rparr> in
      bindA (on_fs RStore (store_save (jail_codec ag) (ag_state_dir ag) r)) (\<lambda>_.
        modifyA (\<lambda>st. st\<lparr>rc_records := hm_insert name r (rc_records st)\<rparr>)))))))))"

definition delete_jail :: "'s agent \<Rightarrow> string \<Rightarrow> ('s, unit) rca" where
  "delete_jail ag name =
     bindA (getA (\<lambda>st. hm_get (rc_records st) name)) (\<lambda>found.
     bindA (checkA id (ok_or (RNotFound name) found)) (\<lambda>r.
     bindA (on_host RNet (nm_detach_jail (nm ag) (epair_base_name (jrec_epair_ordinal r)))) (\<lambda>_.
     bindA (on_host RJail (tolerateA is_j_not_found (jr_destroy (jr ag) (jail_name name)))) (\<lambda>_.
     bindA (forA (sp_volumes (js_spec (jrec_spec r))) (\<lambda>v.
       on_host RMount (tolerateA is_not_mounted (mm_unmount (mm ag) (mount_target (jail_rootfs_path (ag_pool ag) name) v))))) (\<lambda>_.
     bindA (on_host RZfs (tolerateA is_z_not_found (zm_destroy_dataset (zm ag) (jail_dataset_path (ag_pool ag) name)))) (\<lambda>_.
     bindA (on_host RJail (tolerateA is_j_not_found (jr_remove_resource_limits (jr ag) (jail_name name)))) (\<lambda>_.
     bindA (on_fs RStore (store_remove (ag_state_dir ag) name)) (\<lambda>_.
       modifyA (\<lambda>st. st\<lparr>rc_records := hm_remove name (rc_records st), rc_backoff := hm_remove name (rc_backoff st)\<rparr>)))))))))"

definition rc_add_route :: "'s agent \<Rightarrow> string \<Rightarrow> string \<Rightarrow> ('s rc, unit, net_error) act" where
  "rc_add_route ag subnet gateway = on_host id (nm_add_route (nm ag) subnet gateway)"

definition rc_remove_route :: "'s agent \<Rightarrow> string \<Rightarrow> ('s rc, unit, net_error) act" where
  "rc_remove_route ag subnet = on_host id (nm_remove_route (nm ag) subnet)"

definition rc_add_alias :: "'s agent \<Rightarrow> string \<Rightarrow> string \<Rightarrow> ('s rc, unit, net_error) act" where
  "rc_add_alias ag bridge address = on_host id (nm_add_alias (nm ag) bridge address)"

definition rc_remove_alias :: "'s agent \<Rightarrow> string \<Rightarrow> string \<Rightarrow> ('s rc, unit, net_error) act" where
  "rc_remove_alias ag bridge address = on_host id (nm_remove_alias (nm ag) bridge address)"

definition get_volume :: "'s agent \<Rightarrow> string \<Rightarrow> ('s, unit) rca" where
  "get_volume ag name =
     (let dataset = volume_dataset_path (ag_pool ag) name in
      bindA (on_host RZfs (zm_dataset_exists (zm ag) dataset)) (\<lambda>e.
        if e then returnA () else failA (RZfs (ZNotFound dataset))))"

definition delete_volume :: "'s agent \<Rightarrow> string \<Rightarrow> ('s, unit) rca" where
  "delete_volume ag name = on_host RZfs (zm_destroy_dataset (zm ag) (volume_dataset_path (ag_pool ag) name))"

definition set_replicate_to :: "'s agent \<Rightarrow> string \<Rightarrow> string option \<Rightarrow> ('s, unit) rca" where
  "set_replicate_to ag name target =
     bindA (getA (\<lambda>st. hm_get (rc_records st) name)) (\<lambda>found.
     bindA (checkA id (ok_or (RNotFound name) found)) (\<lambda>r0.
     let r = r0\<lparr>jrec_spec := (jrec_spec r0)\<lparr>js_spec := (js_spec (jrec_spec r0))\<lparr>sp_replicate_to := target\<rparr>\<rparr>\<rparr> in
     bindA (on_fs RStore (store_save (jail_codec ag) (ag_state_dir ag) r)) (\<lambda>_.
       modifyA (\<lambda>st. st\<lparr>rc_records := hm_insert name r (rc_records st)\<rparr>))))"

section \<open>Ingresses: desired state\<close>

definition apply_ingress :: "'s agent \<Rightarrow> ingress_spec \<Rightarrow> ('s, unit) rca" where
  "apply_ingress ag spec =
     (let name = md_name (is_metadata spec) in
      bindA (checkA RInvalidSpec (validate_name name)) (\<lambda>_.
      bindA (checkA RInvalidSpec (validate_host (ig_host (is_spec spec)))) (\<lambda>_.
      bindA (checkA RInvalidSpec (validate_email (it_email (ig_tls (is_spec spec))))) (\<lambda>_.
      if ib_port (ig_backend (is_spec spec)) = 0 then failA (RInvalidSpec (InvalidPort 0)) else
      bindA (getA (\<lambda>st. Option.bind (hm_get (rc_ingress_records st) name) irec_cert_expires_at_unix)) (\<lambda>expires.
      let r = \<lparr>irec_spec = spec, irec_cert_expires_at_unix = expires\<rparr> in
      bindA (on_fs RStore (ingress_save (ingress_codec ag) (ag_state_dir ag) r)) (\<lambda>_.
        modifyA (\<lambda>st. st\<lparr>rc_ingress_records := hm_insert name r (rc_ingress_records st)\<rparr>)))))))"

definition get_ingress :: "string \<Rightarrow> 's rc \<Rightarrow> ingress_record option" where
  "get_ingress name st = hm_get (rc_ingress_records st) name"

definition list_ingress :: "'s rc \<Rightarrow> ingress_record list" where
  "list_ingress st = map snd (rc_ingress_records st)"

definition delete_ingress :: "'s agent \<Rightarrow> string \<Rightarrow> ('s, unit) rca" where
  "delete_ingress ag name =
     bindA (getA (\<lambda>st. hm_get (rc_ingress_records st) name)) (\<lambda>found.
       if found = None then failA (RNotFound name) else
       bindA (on_fs RStore (ingress_remove (ag_state_dir ag) name)) (\<lambda>_.
         modifyA (\<lambda>st. st\<lparr>rc_ingress_records := hm_remove name (rc_ingress_records st),
           rc_ingress_backoff := hm_remove name (rc_ingress_backoff st)\<rparr>)))"

section \<open>Jails: what runs\<close>

definition configure_networking_and_limits :: "'s agent \<Rightarrow> string \<Rightarrow> jail_record \<Rightarrow> ('s, unit) rca" where
  "configure_networking_and_limits ag name r =
     (let network = sp_network (js_spec (jrec_spec r)); resources = sp_resources (js_spec (jrec_spec r)) in
      bindA (on_host RNet (nm_ensure_bridge_exists (nm ag) (ns_bridge network))) (\<lambda>_.
      bindA (on_host RNet (nm_attach_jail (nm ag) (jail_name name) (ns_bridge network)
        (epair_base_name (jrec_epair_ordinal r)) (ns_address network))) (\<lambda>_.
      bindA (checkA RInvalidSpec (parse_cpu_cores (rs_cpu resources))) (\<lambda>cores.
      bindA (checkA RInvalidSpec (parse_memory_bytes (rs_memory resources))) (\<lambda>memory_bytes.
        on_host RJail (jr_set_resource_limits (jr ag) (jail_name name) (cores_to_pcpu_percent cores) memory_bytes))))))"

definition provision_volume :: "'s agent \<Rightarrow> string \<Rightarrow> volume_mount \<Rightarrow> ('s, unit) rca" where
  "provision_volume ag rootfs v =
     (let dataset = volume_dataset_path (ag_pool ag) (vm_name v); target = mount_target rootfs v in
      bindA (on_host RMount (mm_ensure_mount_point (mm ag) target)) (\<lambda>_.
      bindA (on_host RZfs (zm_dataset_exists (zm ag) dataset)) (\<lambda>there.
      bindA (if \<not> there then on_host RZfs (zm_create_volume (zm ag) dataset (vm_size v)) else returnA ()) (\<lambda>_.
      bindA (on_host RMount (mm_is_mounted (mm ag) target)) (\<lambda>mounted.
        if \<not> mounted then on_host RMount (mm_mount_nullfs (mm ag) (volume_mountpoint (ag_pool ag) (vm_name v)) target)
        else returnA ())))))"

definition provision :: "'s agent \<Rightarrow> string \<Rightarrow> jail_record \<Rightarrow> ('s, unit) rca" where
  "provision ag name r =
     (let base_dataset = base_dataset_path (ag_pool ag) (sp_image (js_spec (jrec_spec r)));
          rootfs = jail_rootfs_path (ag_pool ag) name in
      bindA (on_host RZfs (zm_dataset_exists (zm ag) base_dataset)) (\<lambda>there.
      if \<not> there then failA (RBaseImageNotFound base_dataset) else
      bindA (on_host RZfs (zm_clone_from_base (zm ag) base_dataset (jail_dataset_path (ag_pool ag) name))) (\<lambda>_.
      bindA (on_host RJail (jr_create (jr ag) (jail_name name) rootfs (ns_vnet (sp_network (js_spec (jrec_spec r)))))) (\<lambda>_.
      bindA (forA (sp_volumes (js_spec (jrec_spec r))) (provision_volume ag rootfs)) (\<lambda>_.
      bindA (configure_networking_and_limits ag name r) (\<lambda>_.
        on_host RJail (jr_start_command (jr ag) (jail_name name) (sp_command (js_spec (jrec_spec r))))))))))"

definition restart :: "'s agent \<Rightarrow> string \<Rightarrow> jail_record \<Rightarrow> ('s, unit) rca" where
  "restart ag name r =
     bindA (configure_networking_and_limits ag name r) (\<lambda>_.
       on_host RJail (jr_start_command (jr ag) (jail_name name) (sp_command (js_spec (jrec_spec r)))))"

definition rollback_provision :: "'s agent \<Rightarrow> string \<Rightarrow> jail_record \<Rightarrow> ('s, unit) rca" where
  "rollback_provision ag name r =
     bindA (ignoreA (on_host RNet (nm_detach_jail (nm ag) (epair_base_name (jrec_epair_ordinal r))))) (\<lambda>_.
     bindA (ignoreA (on_host RJail (jr_destroy (jr ag) (jail_name name)))) (\<lambda>_.
     bindA (forA (sp_volumes (js_spec (jrec_spec r))) (\<lambda>v.
       ignoreA (on_host RMount (mm_unmount (mm ag) (mount_target (jail_rootfs_path (ag_pool ag) name) v))))) (\<lambda>_.
     bindA (ignoreA (on_host RZfs (zm_destroy_dataset (zm ag) (jail_dataset_path (ag_pool ag) name)))) (\<lambda>_.
       ignoreA (on_host RJail (jr_remove_resource_limits (jr ag) (jail_name name)))))))"

definition ingress_jail_spec :: jail_spec where
  "ingress_jail_spec = \<lparr>js_api_version = ''keel/v1'', js_kind = ''Jail'', js_metadata = \<lparr>md_name = ''ingress''\<rparr>,
     js_spec = \<lparr>sp_image = ''base/keel-ingress'',
       sp_command = [''/usr/local/sbin/nginx'', ''-c'', NGINX_CONF_PATH, ''-g'', ''daemon off;''],
       sp_network = \<lparr>ns_vnet = True, ns_bridge = ''keel0'', ns_address = INGRESS_JAIL_BRIDGE_ADDR @ ''/24''\<rparr>,
       sp_resources = \<lparr>rs_cpu = ''1'', rs_memory = ''256M''\<rparr>, sp_restart_policy = Always,
       sp_volumes = [], sp_replicate_to = None\<rparr>\<rparr>"

definition ensure_ingress_jail :: "'s agent \<Rightarrow> ('s, unit) rca" where
  "ensure_ingress_jail ag =
     bindA (getA (\<lambda>st. rc_ingress_records st = [] \<or> hm_get (rc_records st) ''ingress'' \<noteq> None)) (\<lambda>done.
       if done then returnA () else apply_jail ag ingress_jail_spec)"

section \<open>Certificates and the nginx configuration\<close>

definition wrap_i64 :: "int \<Rightarrow> int" where
  "wrap_i64 x = (x + 2 ^ 63) mod 2 ^ 64 - 2 ^ 63"

definition RENEWAL_THRESHOLD_SECS :: int where
  "RENEWAL_THRESHOLD_SECS = 30 * 24 * 60 * 60"

definition certs_dir :: "'s agent \<Rightarrow> string" where
  "certs_dir ag = path_join (jail_rootfs_path (ag_pool ag) ''ingress'') ''usr/local/etc/nginx/certs''"

definition fs_is_file :: "string \<Rightarrow> string \<Rightarrow> (fs, bool, io_error) act" where
  "fs_is_file d n = fs_try (\<lambda>f. if f \<noteq> None then returnA False else getA (\<lambda>s. hm_get (fs_files s) (d, n) \<noteq> None))"

definition cert_exists_in_ingress_jail :: "'s agent \<Rightarrow> string \<Rightarrow> ('s, bool) rca" where
  "cert_exists_in_ingress_jail ag host = on_fs (RStore \<circ> StIo host) (fs_is_file (certs_dir ag) (host @ ''.crt''))"

definition write_cert_to_ingress_jail :: "'s agent \<Rightarrow> string \<Rightarrow> cert \<Rightarrow> ('s, unit) rca" where
  "write_cert_to_ingress_jail ag host c =
     bindA (on_fs (RStore \<circ> StIo (certs_dir ag)) (create_dir_all (certs_dir ag))) (\<lambda>_.
     bindA (on_fs (RStore \<circ> StIo (path_join (certs_dir ag) (host @ ''.crt''))) (fs_write (certs_dir ag) (host @ ''.crt'') (cert_pem c))) (\<lambda>_.
       on_fs (RStore \<circ> StIo (path_join (certs_dir ag) (host @ ''.key''))) (fs_write (certs_dir ag) (host @ ''.key'') (key_pem c))))"

definition needs_issuance :: "int option \<Rightarrow> bool \<Rightarrow> int \<Rightarrow> bool" where
  "needs_issuance expires cert_file_missing now_unix =
     (case expires of None \<Rightarrow> True
      | Some t \<Rightarrow> cert_file_missing \<or> wrap_i64 (t - now_unix) < RENEWAL_THRESHOLD_SECS)"

definition ingress_attempt :: "'s agent \<Rightarrow> string \<Rightarrow> ('s, unit) rca" where
  "ingress_attempt ag name =
     bindA (getA (\<lambda>st. (hm_get (rc_ingress_backoff st) name, h_instant_now (ag_ops ag) (rc_host st)))) (\<lambda>(b, now).
     bindA (expectA (ok_or () b)) (\<lambda>b'.
       modifyA (\<lambda>st. st\<lparr>rc_ingress_backoff := hm_insert name (record_attempt now b') (rc_ingress_backoff st)\<rparr>)))"

definition reconcile_cert :: "'s agent \<Rightarrow> int \<Rightarrow> string \<Rightarrow> ('s, unit) rca" where
  "reconcile_cert ag now_unix name =
     bindA (getA (\<lambda>st. case hm_get (rc_ingress_backoff st) name of Some b \<Rightarrow> b | None \<Rightarrow> backoff_new)) (\<lambda>b.
     bindA (modifyA (\<lambda>st. st\<lparr>rc_ingress_backoff := hm_insert name b (rc_ingress_backoff st)\<rparr>)) (\<lambda>_.
     bindA (getA (\<lambda>st. can_retry b (h_instant_now (ag_ops ag) (rc_host st)))) (\<lambda>retry.
     if \<not> retry then returnA () else
     bindA (getA (\<lambda>st. hm_get (rc_ingress_records st) name)) (\<lambda>found.
     bindA (expectA (ok_or () found)) (\<lambda>r.
     let host = ig_host (is_spec (irec_spec r)); email = it_email (ig_tls (is_spec (irec_spec r))) in
     bindA (cert_exists_in_ingress_jail ag host) (\<lambda>present.
     if \<not> needs_issuance (irec_cert_expires_at_unix r) (\<not> present) now_unix then returnA () else
     bindA (resultA (on_host id (h_request_certificate (ag_ops ag) host email (h_dns (ag_ops ag))))) (\<lambda>answer.
     case answer of
       Err _ \<Rightarrow> ingress_attempt ag name
     | Ok c \<Rightarrow>
         bindA (resultA (write_cert_to_ingress_jail ag host c)) (\<lambda>written.
         if \<not> is_ok written then ingress_attempt ag name else
         let updated = r\<lparr>irec_cert_expires_at_unix := Some (wrap_i64 (now_unix + 90 * 24 * 60 * 60))\<rparr> in
         bindA (resultA (on_fs RStore (ingress_save (ingress_codec ag) (ag_state_dir ag) updated))) (\<lambda>saved.
         if \<not> is_ok saved then ingress_attempt ag name
         else modifyA (\<lambda>st. st\<lparr>rc_ingress_records := hm_insert name updated (rc_ingress_records st)\<rparr>)))))))))) "

definition reconcile_certs :: "'s agent \<Rightarrow> int \<Rightarrow> ('s, unit) rca" where
  "reconcile_certs ag now_unix =
     bindA (getA (\<lambda>st. map fst (rc_ingress_records st))) (\<lambda>names. forA names (reconcile_cert ag now_unix))"

definition vip_slot_get :: "(string, string \<times> nat) hmap \<Rightarrow> string \<Rightarrow> (string \<times> nat) option" where
  "vip_slot_get slot name = hm_get slot name"

definition ingress_backend_of :: "(string, string \<times> nat) hmap \<Rightarrow> ingress_record \<Rightarrow> ingress_backend_config option" where
  "ingress_backend_of slot r =
     (let host = ig_host (is_spec (irec_spec r)) in
      map_option (\<lambda>(vip, port). \<lparr>ibc_host = host, ibc_vip = vip, ibc_port = port,
          ibc_cert_path = ''/usr/local/etc/nginx/certs/'' @ host @ ''.crt'',
          ibc_key_path = ''/usr/local/etc/nginx/certs/'' @ host @ ''.key''\<rparr>)
        (vip_slot_get slot (ib_service (ig_backend (is_spec (irec_spec r))))))"

definition ingress_backends :: "'s rc \<Rightarrow> ingress_backend_config list" where
  "ingress_backends st = List.map_filter (ingress_backend_of (rc_service_vips st)) (map snd (rc_ingress_records st))"

definition reconcile_ingress_config :: "'s agent \<Rightarrow> ('s, unit) rca" where
  "reconcile_ingress_config ag =
     bindA (getA (\<lambda>st. render_nginx_config (ingress_backends st))) (\<lambda>config.
     bindA (resultA (on_host id (ng_write_config (ng ag) ''keel-ingress'' config))) (\<lambda>w.
     if \<not> is_ok w then returnA () else
     bindA (resultA (on_host id (ng_test_config (ng ag) ''keel-ingress''))) (\<lambda>t.
     if \<not> is_ok t then returnA () else
       ignoreA (on_host id (ng_reload (ng ag) ''keel-ingress'')))))"

section \<open>A reconcile pass\<close>

definition jail_attempt :: "string \<Rightarrow> instant \<Rightarrow> ('s, unit) rca" where
  "jail_attempt name now =
     bindA (getA (\<lambda>st. hm_get (rc_backoff st) name)) (\<lambda>b.
     bindA (expectA (ok_or () b)) (\<lambda>b'.
       modifyA (\<lambda>st. st\<lparr>rc_backoff := hm_insert name (record_attempt now b') (rc_backoff st)\<rparr>)))"

definition reconcile_one :: "'s agent \<Rightarrow> instant \<Rightarrow> string \<Rightarrow> ('s, unit) rca" where
  "reconcile_one ag now name =
     bindA (getA (\<lambda>st. hm_get (rc_records st) name)) (\<lambda>found.
     bindA (expectA (ok_or () found)) (\<lambda>r.
     bindA (getA (\<lambda>st. case hm_get (rc_backoff st) name of Some b \<Rightarrow> b | None \<Rightarrow> backoff_new)) (\<lambda>b.
     bindA (modifyA (\<lambda>st. st\<lparr>rc_backoff := hm_insert name b (rc_backoff st)\<rparr>)) (\<lambda>_.
     if \<not> can_retry b now then returnA () else
     bindA (on_host RJail (jr_jail_exists (jr ag) (jail_name name))) (\<lambda>there.
     if \<not> there then
       bindA (resultA (provision ag name r)) (\<lambda>result.
       bindA (jail_attempt name now) (\<lambda>_.
       bindA (if is_ok result then returnA () else rollback_provision ag name r) (\<lambda>_. checkA id result)))
     else
       bindA (on_host RJail (jr_is_running (jr ag) (jail_name name))) (\<lambda>running.
       if running then
         bindA (checkA RInvalidSpec (parse_cpu_cores (rs_cpu (sp_resources (js_spec (jrec_spec r)))))) (\<lambda>cores.
         bindA (checkA RInvalidSpec (parse_memory_bytes (rs_memory (sp_resources (js_spec (jrec_spec r)))))) (\<lambda>memory_bytes.
           on_host RJail (jr_set_resource_limits (jr ag) (jail_name name) (cores_to_pcpu_percent cores) memory_bytes)))
       else if sp_restart_policy (js_spec (jrec_spec r)) = Never then returnA ()
       else bindA (resultA (restart ag name r)) (\<lambda>result.
            bindA (jail_attempt name now) (\<lambda>_. checkA id result)))))))) "

fun reconcile_names :: "'s agent \<Rightarrow> instant \<Rightarrow> string list \<Rightarrow> ('s, (string \<times> reconcile_error) list) rca" where
  "reconcile_names ag now [] = returnA []"
| "reconcile_names ag now (n # ns) =
     bindA (resultA (reconcile_one ag now n)) (\<lambda>result.
     bindA (reconcile_names ag now ns) (\<lambda>failures.
       returnA (case result of Ok _ \<Rightarrow> failures | Err e \<Rightarrow> (n, e) # failures)))"

definition reconcile :: "'s agent \<Rightarrow> instant \<Rightarrow> ('s, (string \<times> reconcile_error) list) rca" where
  "reconcile ag now =
     bindA (ignoreA (ensure_ingress_jail ag)) (\<lambda>_.
     bindA (getA (\<lambda>st. h_unix_now (ag_ops ag) (rc_host st))) (\<lambda>now_unix.
     bindA (reconcile_certs ag now_unix) (\<lambda>_.
     bindA (reconcile_ingress_config ag) (\<lambda>_.
     bindA (getA (\<lambda>st. map fst (rc_records st))) (\<lambda>names. reconcile_names ag now names)))))"

section \<open>Reading the state\<close>

definition backoff_status_default :: backoff_status where
  "backoff_status_default = \<lparr>bs_retry_in_secs = None, bs_current_delay_secs = None\<rparr>"

definition get_jail :: "'s agent \<Rightarrow> instant \<Rightarrow> string \<Rightarrow> ('s, jail_status option) rca" where
  "get_jail ag now name =
     bindA (getA (\<lambda>st. hm_get (rc_records st) name)) (\<lambda>found. case found of None \<Rightarrow> returnA None | Some r \<Rightarrow>
     bindA (resultA (on_host RJail (jr_is_running (jr ag) (jail_name name)))) (\<lambda>running.
       getA (\<lambda>st. Some \<lparr>jst_record = r, jst_running = (running = Ok True),
         jst_backoff = (case hm_get (rc_backoff st) name of Some b \<Rightarrow> backoff_status_of b now | None \<Rightarrow> backoff_status_default)\<rparr>)))"

fun list_names :: "'s agent \<Rightarrow> instant \<Rightarrow> string list \<Rightarrow> ('s, jail_status list) rca" where
  "list_names ag now [] = returnA []"
| "list_names ag now (n # ns) =
     bindA (get_jail ag now n) (\<lambda>x. bindA (list_names ag now ns) (\<lambda>xs.
       returnA (case x of Some y \<Rightarrow> y # xs | None \<Rightarrow> xs)))"

definition list_jails :: "'s agent \<Rightarrow> instant \<Rightarrow> ('s, jail_status list) rca" where
  "list_jails ag now = bindA (getA (\<lambda>st. sort (map fst (rc_records st)))) (list_names ag now)"

fun committed_from :: "jail_record list \<Rightarrow> f64 \<times> nat \<Rightarrow> ('s rc, f64 \<times> nat, unit) act" where
  "committed_from [] acc = returnA acc"
| "committed_from (r # rs) (cpu, mem) =
     bindA (expectA (parse_cpu_cores (rs_cpu (sp_resources (js_spec (jrec_spec r)))))) (\<lambda>cores.
     bindA (expectA (parse_memory_bytes (rs_memory (sp_resources (js_spec (jrec_spec r)))))) (\<lambda>bytes.
       committed_from rs (f64_add cpu cores, (mem + bytes) mod 2 ^ 64)))"

definition committed_resources :: "('s rc, f64 \<times> nat, unit) act" where
  "committed_resources = bindA (getA (\<lambda>st. map snd (rc_records st))) (\<lambda>rs. committed_from rs (Fin 0, 0))"

end
