(* ===== verification/Ag_Invariant.thy ===== *)
theory Ag_Invariant
  imports Ag_Reconciler
begin

text \<open>
  What every operation of the reconciler keeps: the state directory mirrors the records in memory,
  whatever file operations fail; the records are valid; epair ordinals are not shared; no operation
  panics and none destroys the dataset of a volume, for every implementation of the host traits that
  obeys the laws of \<open>Ag_Host\<close>.
\<close>

section \<open>The invariant\<close>

definition valid_record :: "'s agent \<Rightarrow> jail_record \<Rightarrow> bool" where
  "valid_record ag r \<longleftrightarrow> validate_name (spec_name_of r) = Ok () \<and>
     is_ok (api_parse_ipnet (ag_api ag) (ns_address (sp_network (js_spec (jrec_spec r))))) \<and>
     is_ok (parse_cpu_cores (rs_cpu (sp_resources (js_spec (jrec_spec r))))) \<and>
     is_ok (parse_memory_bytes (rs_memory (sp_resources (js_spec (jrec_spec r)))))"

definition rc_inv :: "'s agent \<Rightarrow> 's rc \<Rightarrow> bool" where
  "rc_inv ag st \<longleftrightarrow>
     mirrors (jail_codec ag) (ag_state_dir ag) (rc_records st) (rc_fs st) \<and>
     mirrors (ingress_codec ag) (ingress_dir (ag_state_dir ag)) (rc_ingress_records st) (rc_fs st) \<and>
     (\<forall>(k, r) \<in> set (rc_records st). valid_record ag r)"

lemma codec_simps [simp]:
  "cd_name (jail_codec ag) = spec_name_of" "cd_to (jail_codec ag) = ag_jail_to_yaml ag" "cd_from (jail_codec ag) = ag_jail_from_yaml ag"
  "cd_name (ingress_codec ag) = ingress_name_of" "cd_to (ingress_codec ag) = ag_ingress_to_yaml ag"
  "cd_from (ingress_codec ag) = ag_ingress_from_yaml ag"
  by (simp_all add: jail_codec_def ingress_codec_def)

lemma ingress_dir_ne [simp]: "ingress_dir d \<noteq> d" "d \<noteq> ingress_dir d"
  by (simp_all add: ingress_dir_def path_join_def)

lemma rc_inv_host [simp]: "rc_inv ag (st\<lparr>rc_host := h\<rparr>) = rc_inv ag st"
  by (simp add: rc_inv_def)

lemma rc_inv_fields [simp]:
  "rc_inv ag (st\<lparr>rc_backoff := b\<rparr>) = rc_inv ag st" "rc_inv ag (st\<lparr>rc_ingress_backoff := b\<rparr>) = rc_inv ag st"
  "rc_inv ag (st\<lparr>rc_next_epair_ordinal := n\<rparr>) = rc_inv ag st" "rc_inv ag (st\<lparr>rc_service_vips := v\<rparr>) = rc_inv ag st"
  by (simp_all add: rc_inv_def)

lemma rc_inv_record: "rc_inv ag st \<Longrightarrow> hm_get (rc_records st) k = Some r \<Longrightarrow> valid_record ag r \<and> spec_name_of r = k"
  by (fastforce simp: rc_inv_def mirrors_def dest!: map_of_SomeD)

section \<open>Saving and removing records\<close>

lemma mirrors_other_dir:
  assumes "mirrors cd d recs s" "store_save cd' d' r s = (res, s')" "d \<noteq> d'"
  shows "mirrors cd d recs s'"
  using assms store_save_files [OF assms(2)] store_save_wf [OF _ assms(2)]
  by (intro mirrors_files [OF assms(1)]) (auto simp: mirrors_def)

lemma mirrors_other_dir_remove:
  assumes "mirrors cd d recs s" "store_remove d' n s = (res, s')" "d \<noteq> d'"
  shows "mirrors cd d recs s'"
  using assms store_remove_files [OF assms(2)] store_remove_wf [OF _ assms(2)]
  by (intro mirrors_files [OF assms(1)]) (auto simp: mirrors_def)

lemma rc_inv_save:
  assumes "rc_inv ag st" "store_save (jail_codec ag) (ag_state_dir ag) r (rc_fs st) = (res, d)" "valid_record ag r"
  shows "rc_inv ag (st\<lparr>rc_fs := d, rc_records := if res = Val () then hm_insert (spec_name_of r) r (rc_records st) else rc_records st\<rparr>)"
proof -
  have m: "mirrors (jail_codec ag) (ag_state_dir ag) (rc_records st) (rc_fs st)" and wf: "hm_wf (rc_records st)"
    using assms(1) by (auto simp: rc_inv_def mirrors_def)
  have n: "cd_name (jail_codec ag) r \<noteq> []" using assms(3) by (simp add: valid_record_def validate_name_Ok_iff)
  have "\<forall>(k, r) \<in> set (hm_insert (spec_name_of r) r (rc_records st)). valid_record ag r"
    using assms(1,3) wf by (intro hm_wf_entry_update) (auto simp: rc_inv_def)
  moreover have "mirrors (ingress_codec ag) (ingress_dir (ag_state_dir ag)) (rc_ingress_records st) d"
    by (rule mirrors_other_dir [OF _ assms(2)]) (use assms(1) in \<open>auto simp: rc_inv_def\<close>)
  ultimately show ?thesis using assms(1) mirrors_save [OF m assms(2) n] by (auto simp: rc_inv_def)
qed

lemma rc_inv_remove:
  assumes "rc_inv ag st" "store_remove (ag_state_dir ag) n (rc_fs st) = (res, d)" "n \<noteq> []"
  shows "rc_inv ag (st\<lparr>rc_fs := d, rc_records := if res = Val () then hm_remove n (rc_records st) else rc_records st\<rparr>)"
proof -
  have m: "mirrors (jail_codec ag) (ag_state_dir ag) (rc_records st) (rc_fs st)"
    using assms(1) by (auto simp: rc_inv_def)
  have "\<forall>(k, r) \<in> set (hm_remove n (rc_records st)). valid_record ag r"
    using assms(1) by (auto simp: rc_inv_def AList.delete_eq)
  moreover have "mirrors (ingress_codec ag) (ingress_dir (ag_state_dir ag)) (rc_ingress_records st) d"
    by (rule mirrors_other_dir_remove [OF _ assms(2)]) (use assms(1) in \<open>auto simp: rc_inv_def\<close>)
  ultimately show ?thesis using assms(1) mirrors_remove [OF m assms(2,3)] by (auto simp: rc_inv_def)
qed

lemma rc_inv_ingress_save:
  assumes "rc_inv ag st" "ingress_save (ingress_codec ag) (ag_state_dir ag) r (rc_fs st) = (res, d)" "ingress_name_of r \<noteq> []"
  shows "rc_inv ag (st\<lparr>rc_fs := d, rc_ingress_records := if res = Val () then hm_insert (ingress_name_of r) r (rc_ingress_records st) else rc_ingress_records st\<rparr>)"
proof -
  have m: "mirrors (ingress_codec ag) (ingress_dir (ag_state_dir ag)) (rc_ingress_records st) (rc_fs st)"
    using assms(1) by (auto simp: rc_inv_def)
  note e = assms(2) [unfolded ingress_save_def]
  have n: "cd_name (ingress_codec ag) r \<noteq> []" using assms(3) by simp
  have "mirrors (jail_codec ag) (ag_state_dir ag) (rc_records st) d"
    by (rule mirrors_other_dir [OF _ e]) (use assms(1) in \<open>auto simp: rc_inv_def\<close>)
  then show ?thesis using assms(1) mirrors_save [OF m e n] by (auto simp: rc_inv_def)
qed

lemma rc_inv_ingress_remove:
  assumes "rc_inv ag st" "ingress_remove (ag_state_dir ag) n (rc_fs st) = (res, d)" "n \<noteq> []"
  shows "rc_inv ag (st\<lparr>rc_fs := d, rc_ingress_records := if res = Val () then hm_remove n (rc_ingress_records st) else rc_ingress_records st\<rparr>)"
proof -
  have m: "mirrors (ingress_codec ag) (ingress_dir (ag_state_dir ag)) (rc_ingress_records st) (rc_fs st)"
    using assms(1) by (auto simp: rc_inv_def)
  note e = assms(2) [unfolded ingress_remove_def]
  have "mirrors (jail_codec ag) (ag_state_dir ag) (rc_records st) d"
    by (rule mirrors_other_dir_remove [OF _ e]) (use assms(1) in \<open>auto simp: rc_inv_def\<close>)
  then show ?thesis using assms(1) mirrors_remove [OF m e assms(3)] by (auto simp: rc_inv_def)
qed

section \<open>Operations on the host\<close>

text \<open>A property of the state that says of the host only that the datasets in \<open>V\<close> exist.\<close>

definition hostly :: "('s \<Rightarrow> string set) \<Rightarrow> string set \<Rightarrow> ('s rc \<Rightarrow> bool) \<Rightarrow> bool" where
  "hostly D V P \<longleftrightarrow> (\<forall>s. P s \<longrightarrow> V \<subseteq> D (rc_host s) \<and> (\<forall>h. V \<subseteq> D h \<longrightarrow> P (s\<lparr>rc_host := h\<rparr>)))"

lemma safe_on_host:
  assumes "hostly D V P" "\<And>s. V \<subseteq> D s \<Longrightarrow> fst (m s) \<noteq> Panic \<and> V \<subseteq> D (snd (m s))"
  shows "safeA P (on_host f m)"
  unfolding safeA_def
proof (intro allI impI)
  fix s assume "P s"
  then have *: "V \<subseteq> D (rc_host s)" "\<And>h. V \<subseteq> D h \<Longrightarrow> P (s\<lparr>rc_host := h\<rparr>)" using assms(1) by (auto simp: hostly_def)
  from assms(2) [OF *(1)] *(2) show "fst (on_host f m s) \<noteq> Panic \<and> P (snd (on_host f m s))"
    by (auto simp: on_host_def map_exnA_def zoomA_def split: prod.splits outcome.splits)
qed

lemma safe_quiet: "hostly D V P \<Longrightarrow> quiet D m \<Longrightarrow> safeA P (on_host f m)"
  by (rule safe_on_host [where D = D and V = V]) (auto simp: quiet_def)

lemma quiet_tolerate: "quiet D m \<Longrightarrow> quiet D (tolerateA p m)"
  unfolding quiet_def tolerateA_def
  by (simp split: prod.splits outcome.splits) (metis fst_conv snd_conv outcome.simps)

lemma safe_quiet_tolerate: "hostly D V P \<Longrightarrow> quiet D m \<Longrightarrow> safeA P (on_host f (tolerateA p m))"
  by (intro safe_quiet quiet_tolerate)

definition v4_record :: "'s agent \<Rightarrow> jail_record \<Rightarrow> bool" where
  "v4_record ag r \<longleftrightarrow> is_ok (api_parse_ipv4net (ag_api ag) (ns_address (sp_network (js_spec (jrec_spec r)))))"

locale agent_host = host_laws "ag_ops ag" "ag_api ag" datasets + crate: ipnet_crate "ag_api ag"
  for ag :: "'s agent" and datasets :: "'s \<Rightarrow> string set" +
  fixes V :: "string set"
  assumes not_jails: "jail_dataset_path (ag_pool ag) n \<notin> V"
    and ingress_address: "is_ok (api_parse_ipv4net (ag_api ag) (INGRESS_JAIL_BRIDGE_ADDR @ ''/24''))"
begin

lemmas quiet_ops = jails mounts zfs net nginx acme

lemma safe_destroy_dataset:
  assumes "hostly datasets V P"
  shows "safeA P (on_host f (zm_destroy_dataset (zm ag) (jail_dataset_path (ag_pool ag) n)))"
    and "safeA P (on_host f (tolerateA p (zm_destroy_dataset (zm ag) (jail_dataset_path (ag_pool ag) n))))"
proof -
  have "fst (zm_destroy_dataset (zm ag) (jail_dataset_path (ag_pool ag) n) s) \<noteq> Panic \<and>
      V \<subseteq> datasets (snd (zm_destroy_dataset (zm ag) (jail_dataset_path (ag_pool ag) n) s))" if "V \<subseteq> datasets s" for s
    using destroy_dataset [of "jail_dataset_path (ag_pool ag) n" s] not_jails [of n] that by blast
  note 1 = this
  show "safeA P (on_host f (zm_destroy_dataset (zm ag) (jail_dataset_path (ag_pool ag) n)))"
    by (rule safe_on_host [OF assms 1])
  have "fst (tolerateA p m s) \<noteq> Panic \<and> V \<subseteq> datasets (snd (tolerateA p m s))"
    if "fst (m s) \<noteq> Panic \<and> V \<subseteq> datasets (snd (m s))" for m :: "('s, unit, zfs_error) act" and s
    using that by (auto simp: tolerateA_def split: prod.splits outcome.splits)
  from this [OF 1] show "safeA P (on_host f (tolerateA p (zm_destroy_dataset (zm ag) (jail_dataset_path (ag_pool ag) n))))"
    by (rule safe_on_host [OF assms])
qed

lemma safe_configure:
  assumes h: "hostly datasets V P" and v4: "v4_record ag r"
  shows "safeA P (configure_networking_and_limits ag name r)"
  unfolding configure_networking_and_limits_def Let_def
  by (intro inv_intros safe_quiet [OF h] quiet_ops attach) (use v4 in \<open>simp add: v4_record_def\<close>)

lemma safe_provision_volume:
  assumes h: "hostly datasets V P"
  shows "safeA P (provision_volume ag rootfs v)"
  unfolding provision_volume_def Let_def by (intro inv_intros safe_quiet [OF h] quiet_ops)

lemma safe_provision:
  assumes h: "hostly datasets V P" and v4: "v4_record ag r"
  shows "safeA P (provision ag name r)"
  unfolding provision_def Let_def
  by (intro inv_intros safe_quiet [OF h] quiet_ops safe_configure [OF h v4] safe_provision_volume [OF h])

lemma safe_restart:
  assumes h: "hostly datasets V P" and v4: "v4_record ag r"
  shows "safeA P (restart ag name r)"
  unfolding restart_def by (intro inv_intros safe_quiet [OF h] quiet_ops safe_configure [OF h v4])

lemma safe_rollback:
  assumes h: "hostly datasets V P"
  shows "safeA P (rollback_provision ag name r)"
  unfolding rollback_provision_def
  by (intro inv_intros safe_quiet [OF h] quiet_ops safe_destroy_dataset [OF h])

end

section \<open>The invariant of a running agent\<close>

definition agent_inv :: "'s agent \<Rightarrow> ('s \<Rightarrow> string set) \<Rightarrow> string set \<Rightarrow> 's rc \<Rightarrow> bool" where
  "agent_inv ag D V st \<longleftrightarrow> rc_inv ag st \<and> (\<forall>(k, r) \<in> set (rc_records st). v4_record ag r) \<and> V \<subseteq> D (rc_host st)"

lemma hostly_agent_inv: "hostly D V (agent_inv ag D V)"
  by (auto simp: hostly_def agent_inv_def)

lemma hostly_conj:
  "hostly D V P \<Longrightarrow> (\<And>s h. X (s\<lparr>rc_host := h\<rparr>) = X s) \<Longrightarrow> hostly D V (\<lambda>s. P s \<and> X s)"
  by (auto simp: hostly_def)

lemma agent_inv_fields [simp]:
  "agent_inv ag D V (st\<lparr>rc_backoff := b\<rparr>) = agent_inv ag D V st"
  "agent_inv ag D V (st\<lparr>rc_ingress_backoff := b\<rparr>) = agent_inv ag D V st"
  "agent_inv ag D V (st\<lparr>rc_next_epair_ordinal := n\<rparr>) = agent_inv ag D V st"
  by (simp_all add: agent_inv_def)

lemma safeA_check:
  "(\<And>x. r = Ok x \<Longrightarrow> safeA P (f x)) \<Longrightarrow> safeA P (bindA (checkA g r) f)"
  by (cases r) (auto simp: safeA_def bindA_def checkA_def)

lemma safeA_modify: "(\<And>s. P s \<Longrightarrow> P (f s)) \<Longrightarrow> safeA P (modifyA f)"
  by (simp add: safeA_def modifyA_def)

lemma safeA_get_bind: "(\<And>s. P s \<Longrightarrow> safeA P (f (g s))) \<Longrightarrow> safeA P (bindA (getA g) f)"
  by (simp add: safeA_def bindA_def getA_def)

lemma safeA_modify_bind:
  "(\<And>s. P s \<Longrightarrow> Q (f s)) \<Longrightarrow> safeA Q (k ()) \<Longrightarrow> (\<And>s. Q s \<Longrightarrow> P s) \<Longrightarrow> safeA P (bindA (modifyA f) k)"
  by (simp add: safeA_def bindA_def modifyA_def)

lemma safeA_get_expect:
  "(\<And>s. P s \<Longrightarrow> g s \<noteq> None) \<Longrightarrow> (\<And>s y. P s \<Longrightarrow> g s = Some y \<Longrightarrow> safeA P (f y)) \<Longrightarrow>
   safeA P (bindA (getA g) (\<lambda>x. bindA (expectA (ok_or () x)) f))"
  by (fastforce simp: safeA_def bindA_def getA_def expectA_def)

lemma safeA_result:
  "(\<And>x. safeA P (f x)) \<Longrightarrow> (\<And>e. safeA P (g e)) \<Longrightarrow> safeA P (case r of Ok x \<Rightarrow> f x | Err e \<Rightarrow> g e)"
  by (cases r) auto

lemma v4_hm_insert:
  assumes "agent_inv ag D V st" "v4_record ag r"
  shows "\<forall>(k, q) \<in> set (hm_insert n r (rc_records st)). v4_record ag q"
  using assms by (intro hm_wf_entry_update) (auto simp: agent_inv_def rc_inv_def mirrors_def)

lemma safe_save_record:
  assumes "valid_record ag r" "v4_record ag r"
  shows "safeA (agent_inv ag D V) (bindA (on_fs RStore (store_save (jail_codec ag) (ag_state_dir ag) r))
    (\<lambda>_. modifyA (\<lambda>st. st\<lparr>rc_records := hm_insert (spec_name_of r) r (rc_records st)\<rparr>)))"
  unfolding safeA_def
proof (intro allI impI)
  fix st assume i: "agent_inv ag D V st"
  obtain res d where e: "store_save (jail_codec ag) (ag_state_dir ag) r (rc_fs st) = (res, d)" by (metis surj_pair)
  have "rc_inv ag st" using i by (simp add: agent_inv_def)
  from rc_inv_save [OF this e assms(1)] store_save_files [OF e] v4_hm_insert [OF i assms(2), of "spec_name_of r"] i
  show "fst (bindA (on_fs RStore (store_save (jail_codec ag) (ag_state_dir ag) r))
    (\<lambda>_. modifyA (\<lambda>st. st\<lparr>rc_records := hm_insert (spec_name_of r) r (rc_records st)\<rparr>)) st) \<noteq> Panic \<and>
    agent_inv ag D V (snd (bindA (on_fs RStore (store_save (jail_codec ag) (ag_state_dir ag) r))
    (\<lambda>_. modifyA (\<lambda>st. st\<lparr>rc_records := hm_insert (spec_name_of r) r (rc_records st)\<rparr>)) st))"
    by (cases res) (auto simp: agent_inv_def on_fs_def act_defs e)
qed

lemma safe_apply_jail:
  assumes "is_ok (api_parse_ipnet (ag_api ag) (ns_address (sp_network (js_spec spec)))) \<Longrightarrow>
    is_ok (api_parse_ipv4net (ag_api ag) (ns_address (sp_network (js_spec spec))))"
  shows "safeA (agent_inv ag D V) (apply_jail ag spec)"
proof -
  have save: "safeA (agent_inv ag D V) (bindA (on_fs RStore (store_save (jail_codec ag) (ag_state_dir ag)
        \<lparr>jrec_spec = spec, jrec_epair_ordinal = e\<rparr>))
      (\<lambda>_. modifyA (\<lambda>st. st\<lparr>rc_records := hm_insert (md_name (js_metadata spec)) \<lparr>jrec_spec = spec, jrec_epair_ordinal = e\<rparr> (rc_records st)\<rparr>)))"
    if "is_ok (validate_name (md_name (js_metadata spec)))"
      "is_ok (validate_address (ag_api ag) (ns_address (sp_network (js_spec spec))))"
      "is_ok (parse_cpu_cores (rs_cpu (sp_resources (js_spec spec))))"
      "is_ok (parse_memory_bytes (rs_memory (sp_resources (js_spec spec))))" for e
    using safe_save_record [of ag "\<lparr>jrec_spec = spec, jrec_epair_ordinal = e\<rparr>" D V] that assms
    by (auto simp: valid_record_def v4_record_def spec_name_of_def validate_address_def is_ok_iff split: result.splits)
  show ?thesis
    unfolding apply_jail_def Let_def
    apply (intro safeA_check safeA_get_bind)
    apply (rule safeA_bindA)
    subgoal by (auto intro!: inv_intros safeA_modify split: option.splits)
    subgoal by (rule save) simp_all
    done
qed

lemma safe_set_replicate_to: "safeA (agent_inv ag D V) (set_replicate_to ag name target)"
  unfolding set_replicate_to_def
proof (intro safeA_get_bind safeA_check)
  fix s r0
  assume i: "agent_inv ag D V s" and "ok_or (RNotFound name) (hm_get (rc_records s) name) = Ok r0"
  then have g: "hm_get (rc_records s) name = Some r0" by simp
  have r: "valid_record ag r0" "spec_name_of r0 = name" "v4_record ag r0"
    using rc_inv_record [OF _ g] i map_of_SomeD [OF g] by (auto simp: agent_inv_def)
  let ?r = "r0\<lparr>jrec_spec := (jrec_spec r0)\<lparr>js_spec := (js_spec (jrec_spec r0))\<lparr>sp_replicate_to := target\<rparr>\<rparr>\<rparr>"
  have "valid_record ag ?r" "v4_record ag ?r" "spec_name_of ?r = name"
    using r by (simp_all add: valid_record_def v4_record_def spec_name_of_def)
  from safe_save_record [OF this(1,2), of D V] this(3)
  show "safeA (agent_inv ag D V) (let r = ?r in bindA (on_fs RStore (store_save (jail_codec ag) (ag_state_dir ag) r))
      (\<lambda>_. modifyA (\<lambda>st. st\<lparr>rc_records := hm_insert name r (rc_records st)\<rparr>)))"
    by (simp add: Let_def)
qed

lemma safe_remove_record:
  assumes "n \<noteq> []"
  shows "safeA (agent_inv ag D V) (bindA (on_fs RStore (store_remove (ag_state_dir ag) n))
    (\<lambda>_. modifyA (\<lambda>st. st\<lparr>rc_records := hm_remove n (rc_records st), rc_backoff := hm_remove n (rc_backoff st)\<rparr>)))"
  unfolding safeA_def
proof (intro allI impI)
  fix st assume i: "agent_inv ag D V st"
  obtain res d where e: "store_remove (ag_state_dir ag) n (rc_fs st) = (res, d)" by (metis surj_pair)
  have "rc_inv ag st" using i by (simp add: agent_inv_def)
  from rc_inv_remove [OF this e assms] store_remove_files [OF e] i
  show "fst (bindA (on_fs RStore (store_remove (ag_state_dir ag) n))
    (\<lambda>_. modifyA (\<lambda>st. st\<lparr>rc_records := hm_remove n (rc_records st), rc_backoff := hm_remove n (rc_backoff st)\<rparr>)) st) \<noteq> Panic \<and>
    agent_inv ag D V (snd (bindA (on_fs RStore (store_remove (ag_state_dir ag) n))
    (\<lambda>_. modifyA (\<lambda>st. st\<lparr>rc_records := hm_remove n (rc_records st), rc_backoff := hm_remove n (rc_backoff st)\<rparr>)) st))"
    by (cases res) (auto simp: agent_inv_def on_fs_def act_defs e AList.delete_eq)
qed

section \<open>Ingresses and certificates\<close>

text \<open>File operations that leave the files of the stores alone.\<close>

definition fs_neutral :: "(fs, 'a, 'e) act \<Rightarrow> bool" where
  "fs_neutral m \<longleftrightarrow> (\<forall>d. fst (m d) \<noteq> Panic \<and> (hm_wf (fs_files d) \<longrightarrow> hm_wf (fs_files (snd (m d)))) \<and>
     (\<forall>dir n. hm_get (fs_files (snd (m d))) (dir, yaml_file n) = hm_get (fs_files d) (dir, yaml_file n)))"

lemma cert_file_ne_yaml: "h @ ''.crt'' \<noteq> yaml_file n" "h @ ''.key'' \<noteq> yaml_file n"
proof -
  have "last (h @ ''.crt'') \<noteq> last (yaml_file n)" "last (h @ ''.key'') \<noteq> last (yaml_file n)" by (simp_all add: yaml_file_def)
  then show "h @ ''.crt'' \<noteq> yaml_file n" "h @ ''.key'' \<noteq> yaml_file n" by metis+
qed

lemma neutral_ops:
  "fs_neutral (fs_is_file d n)" "fs_neutral (create_dir_all d)"
  "fs_neutral (fs_write d (h @ ''.crt'') c)" "fs_neutral (fs_write d (h @ ''.key'') c)"
  by (auto simp: fs_neutral_def fs_is_file_def create_dir_all_def fs_write_def fs_try_def fs_put_def act_defs
      cert_file_ne_yaml cert_file_ne_yaml [symmetric] split: option.splits fault.splits if_splits)

definition fs_stable :: "('s rc \<Rightarrow> bool) \<Rightarrow> bool" where
  "fs_stable P \<longleftrightarrow> (\<forall>s d. P s \<longrightarrow> (hm_wf (fs_files (rc_fs s)) \<longrightarrow> hm_wf (fs_files d)) \<longrightarrow>
     (\<forall>dir n. hm_get (fs_files d) (dir, yaml_file n) = hm_get (fs_files (rc_fs s)) (dir, yaml_file n)) \<longrightarrow> P (s\<lparr>rc_fs := d\<rparr>))"

lemma safe_neutral: "fs_stable P \<Longrightarrow> fs_neutral m \<Longrightarrow> safeA P (on_fs f m)"
  unfolding safeA_def
proof (intro allI impI)
  fix s assume "fs_stable P" "fs_neutral m" "P s"
  then have "fst (m (rc_fs s)) \<noteq> Panic" "P (s\<lparr>rc_fs := snd (m (rc_fs s))\<rparr>)"
    by (auto simp: fs_stable_def fs_neutral_def)
  then show "fst (on_fs f m s) \<noteq> Panic \<and> P (snd (on_fs f m s))"
    by (auto simp: on_fs_def map_exnA_def zoomA_def split: prod.splits outcome.splits)
qed

definition certs_inv :: "'s agent \<Rightarrow> ('s \<Rightarrow> string set) \<Rightarrow> string set \<Rightarrow> string set \<Rightarrow> 's rc \<Rightarrow> bool" where
  "certs_inv ag D V names st \<longleftrightarrow> agent_inv ag D V st \<and> names \<subseteq> fst ` set (rc_ingress_records st)"

lemma fs_stable_certs: "(\<And>s d. X (s\<lparr>rc_fs := d\<rparr>) = X s) \<Longrightarrow> fs_stable (\<lambda>s. certs_inv ag D V names s \<and> X s)"
  by (auto simp: fs_stable_def certs_inv_def agent_inv_def rc_inv_def intro: mirrors_files) (auto simp: mirrors_def)

lemma hostly_certs: "(\<And>s h. X (s\<lparr>rc_host := h\<rparr>) = X s) \<Longrightarrow> hostly D V (\<lambda>s. certs_inv ag D V names s \<and> X s)"
  unfolding certs_inv_def using hostly_agent_inv [of D V ag] by (auto simp: hostly_def)

lemma safe_ingress_save:
  assumes "ingress_name_of r \<noteq> []" "\<And>s m. X (s\<lparr>rc_ingress_records := m\<rparr>) = X s" "\<And>s d. X (s\<lparr>rc_fs := d\<rparr>) = X s"
    and k: "safeA (\<lambda>s. certs_inv ag D V names s \<and> X s) k"
  shows "safeA (\<lambda>s. certs_inv ag D V names s \<and> X s)
    (bindA (resultA (on_fs RStore (ingress_save (ingress_codec ag) (ag_state_dir ag) r))) (\<lambda>saved.
      if \<not> is_ok saved then k
      else modifyA (\<lambda>st. st\<lparr>rc_ingress_records := hm_insert (ingress_name_of r) r (rc_ingress_records st)\<rparr>)))"
  unfolding safeA_def
proof (intro allI impI)
  fix st assume i: "certs_inv ag D V names st \<and> X st"
  obtain res d where e: "ingress_save (ingress_codec ag) (ag_state_dir ag) r (rc_fs st) = (res, d)" by (metis surj_pair)
  have np: "res \<noteq> Panic" using store_save_files e by (fastforce simp: ingress_save_def)
  have inv: "rc_inv ag st" using i by (simp add: certs_inv_def agent_inv_def)
  note j = rc_inv_ingress_save [OF inv e assms(1)]
  let ?m = "bindA (resultA (on_fs RStore (ingress_save (ingress_codec ag) (ag_state_dir ag) r))) (\<lambda>saved.
      if \<not> is_ok saved then k
      else modifyA (\<lambda>st. st\<lparr>rc_ingress_records := hm_insert (ingress_name_of r) r (rc_ingress_records st)\<rparr>))"
  show "fst (?m st) \<noteq> Panic \<and> certs_inv ag D V names (snd (?m st)) \<and> X (snd (?m st))"
  proof (cases "res = Val ()")
    case True
    have "names \<subseteq> fst ` set (hm_insert (ingress_name_of r) r (rc_ingress_records st))"
      using i by (auto simp: certs_inv_def AList.dom_update)
    with True i j assms(2,3) show ?thesis
      by (simp add: on_fs_def act_defs e certs_inv_def agent_inv_def)
  next
    case False
    then have "certs_inv ag D V names (st\<lparr>rc_fs := d\<rparr>) \<and> X (st\<lparr>rc_fs := d\<rparr>)"
      using i j assms(3) by (simp add: certs_inv_def agent_inv_def)
    with False np k show ?thesis
      by (cases res) (auto simp: on_fs_def act_defs e safeA_def Let_def)
  qed
qed

lemma safe_ingress_write:
  assumes "ingress_name_of r \<noteq> []"
  shows "safeA (agent_inv ag D V) (bindA (on_fs RStore (ingress_save (ingress_codec ag) (ag_state_dir ag) r))
    (\<lambda>_. modifyA (\<lambda>st. st\<lparr>rc_ingress_records := hm_insert (ingress_name_of r) r (rc_ingress_records st)\<rparr>)))"
  (is "safeA _ ?m")
  unfolding safeA_def
proof (intro allI impI)
  fix st assume i: "agent_inv ag D V st"
  obtain res d where e: "ingress_save (ingress_codec ag) (ag_state_dir ag) r (rc_fs st) = (res, d)" by (metis surj_pair)
  have "res \<noteq> Panic" using store_save_files e by (fastforce simp: ingress_save_def)
  with i rc_inv_ingress_save [OF _ e assms] show "fst (?m st) \<noteq> Panic \<and> agent_inv ag D V (snd (?m st))"
    by (cases res) (auto simp: agent_inv_def on_fs_def act_defs e)
qed

lemma safe_apply_ingress: "safeA (agent_inv ag D V) (apply_ingress ag spec)"
proof -
  have "safeA (agent_inv ag D V) (bindA (on_fs RStore (ingress_save (ingress_codec ag) (ag_state_dir ag)
        \<lparr>irec_spec = spec, irec_cert_expires_at_unix = x\<rparr>))
      (\<lambda>_. modifyA (\<lambda>st. st\<lparr>rc_ingress_records := hm_insert (md_name (is_metadata spec))
        \<lparr>irec_spec = spec, irec_cert_expires_at_unix = x\<rparr> (rc_ingress_records st)\<rparr>)))"
    if "is_ok (validate_name (md_name (is_metadata spec)))" for x
    using safe_ingress_write [of "\<lparr>irec_spec = spec, irec_cert_expires_at_unix = x\<rparr>" ag D V] that
    by (auto simp: ingress_name_of_def is_ok_iff validate_name_Ok_iff)
  then show ?thesis
    unfolding apply_ingress_def Let_def
    by (intro safeA_check safeA_if safeA_get_bind safeA_basic) simp_all
qed

lemma safe_delete_ingress: "safeA (agent_inv ag D V) (delete_ingress ag name)"
  unfolding delete_ingress_def
proof (rule safeA_get_bind, rule safeA_if, rule safeA_basic)
  fix s0 assume i0: "agent_inv ag D V s0" and "hm_get (rc_ingress_records s0) name \<noteq> None"
  then have n: "name \<noteq> []"
    by (fastforce simp: agent_inv_def rc_inv_def mirrors_def dest!: map_of_SomeD)
  show "safeA (agent_inv ag D V) (bindA (on_fs RStore (ingress_remove (ag_state_dir ag) name))
     (\<lambda>_. modifyA (\<lambda>st. st\<lparr>rc_ingress_records := hm_remove name (rc_ingress_records st),
           rc_ingress_backoff := hm_remove name (rc_ingress_backoff st)\<rparr>)))" (is "safeA _ ?m")
    unfolding safeA_def
  proof (intro allI impI)
    fix st assume i: "agent_inv ag D V st"
    obtain res d where e: "ingress_remove (ag_state_dir ag) name (rc_fs st) = (res, d)" by (metis surj_pair)
    have "res \<noteq> Panic" using store_remove_files e by (fastforce simp: ingress_remove_def)
    with i rc_inv_ingress_remove [OF _ e n] show "fst (?m st) \<noteq> Panic \<and> agent_inv ag D V (snd (?m st))"
      by (cases res) (auto simp: agent_inv_def on_fs_def act_defs e)
  qed
qed

context agent_host
begin

abbreviation inv :: "'s rc \<Rightarrow> bool" where
  "inv \<equiv> agent_inv ag datasets V"

lemma safe_delete_jail: "safeA inv (delete_jail ag name)"
proof -
  note h = hostly_agent_inv [of datasets V ag]
  have rest: "safeA inv (bindA (on_host RNet (nm_detach_jail (nm ag) (epair_base_name (jrec_epair_ordinal r)))) (\<lambda>_.
     bindA (on_host RJail (tolerateA is_j_not_found (jr_destroy (jr ag) (jail_name name)))) (\<lambda>_.
     bindA (forA (sp_volumes (js_spec (jrec_spec r))) (\<lambda>v.
       on_host RMount (tolerateA is_not_mounted (mm_unmount (mm ag) (mount_target (jail_rootfs_path (ag_pool ag) name) v))))) (\<lambda>_.
     bindA (on_host RZfs (tolerateA is_z_not_found (zm_destroy_dataset (zm ag) (jail_dataset_path (ag_pool ag) name)))) (\<lambda>_.
     bindA (on_host RJail (tolerateA is_j_not_found (jr_remove_resource_limits (jr ag) (jail_name name)))) (\<lambda>_. k)))))) "
    if "safeA inv k" for r k
    by (intro inv_intros that safe_quiet [OF h] safe_quiet_tolerate [OF h] quiet_ops safe_destroy_dataset [OF h])
  show ?thesis
    unfolding delete_jail_def
  proof (intro safeA_get_bind safeA_check rest safe_remove_record)
    fix s r assume "inv s" "ok_or (RNotFound name) (hm_get (rc_records s) name) = Ok r"
    then show "name \<noteq> []"
      using rc_inv_record [of ag s name r] by (auto simp: agent_inv_def valid_record_def validate_name_Ok_iff)
  qed
qed

lemma safe_delete_volume:
  assumes "volume_dataset_path (ag_pool ag) name \<notin> V"
  shows "safeA inv (delete_volume ag name)"
  unfolding delete_volume_def
proof (rule safe_on_host [OF hostly_agent_inv])
  fix s assume "V \<subseteq> datasets s"
  then show "fst (zm_destroy_dataset (zm ag) (volume_dataset_path (ag_pool ag) name) s) \<noteq> Panic \<and>
      V \<subseteq> datasets (snd (zm_destroy_dataset (zm ag) (volume_dataset_path (ag_pool ag) name) s))"
    using destroy_dataset [of "volume_dataset_path (ag_pool ag) name" s] assms by blast
qed

lemma safe_get_volume: "safeA inv (get_volume ag name)"
  unfolding get_volume_def Let_def by (intro inv_intros safe_quiet [OF hostly_agent_inv] quiet_ops)

lemma safe_routes:
  "safeA inv (rc_add_route ag subnet g)" "safeA inv (rc_remove_route ag subnet)"
  "safeA inv (rc_add_alias ag b a)" "safeA inv (rc_remove_alias ag b a)"
  unfolding rc_add_route_def rc_remove_route_def rc_add_alias_def rc_remove_alias_def
  by (intro safe_quiet [OF hostly_agent_inv] quiet_ops)+

lemma safe_ingress_config: "safeA inv (reconcile_ingress_config ag)"
  unfolding reconcile_ingress_config_def by (intro inv_intros safe_quiet [OF hostly_agent_inv] quiet_ops)

lemma safe_ensure_ingress_jail: "safeA inv (ensure_ingress_jail ag)"
  unfolding ensure_ingress_jail_def
  by (intro inv_intros safe_apply_jail) (use ingress_address in \<open>simp add: ingress_jail_spec_def\<close>)

lemma safe_reconcile_cert:
  assumes "name \<in> names"
  shows "safeA (certs_inv ag datasets V names) (reconcile_cert ag now_unix name)"
proof -
  let ?Q = "\<lambda>s. certs_inv ag datasets V names s \<and> hm_get (rc_ingress_backoff s) name \<noteq> None"
  have h: "hostly datasets V ?Q" by (rule hostly_certs) simp
  have f: "fs_stable ?Q" by (rule fs_stable_certs) simp
  have att: "safeA ?Q (ingress_attempt ag name)"
    by (auto simp: safeA_def ingress_attempt_def act_defs certs_inv_def)
  have save: "safeA ?Q (bindA (resultA (on_fs RStore (ingress_save (ingress_codec ag) (ag_state_dir ag) u))) (\<lambda>saved.
      if \<not> is_ok saved then ingress_attempt ag name
      else modifyA (\<lambda>st. st\<lparr>rc_ingress_records := hm_insert name u (rc_ingress_records st)\<rparr>)))"
    if "ingress_name_of u = name" "name \<noteq> []" for u
    using safe_ingress_save [where X = "\<lambda>s. hm_get (rc_ingress_backoff s) name \<noteq> None" and r = u, OF _ _ _ att]
    unfolding that(1) using that(2) by simp
  have wr: "safeA ?Q (write_cert_to_ingress_jail ag host c)" for host c
    unfolding write_cert_to_ingress_jail_def by (intro inv_intros safe_neutral [OF f] neutral_ops)
  have ex: "safeA ?Q (cert_exists_in_ingress_jail ag host)" for host
    unfolding cert_exists_in_ingress_jail_def by (intro safe_neutral [OF f] neutral_ops)
  have nm: "hm_get (rc_ingress_records s) name \<noteq> None" if "?Q s" for s
    using that assms by (auto simp: certs_inv_def map_of_eq_None_iff)
  have rec: "ingress_name_of u = name \<and> name \<noteq> []" if "?Q s" "hm_get (rc_ingress_records s) name = Some u" for s u
    using that by (fastforce simp: certs_inv_def agent_inv_def rc_inv_def mirrors_def dest!: map_of_SomeD)
  have same: "ingress_name_of (u\<lparr>irec_cert_expires_at_unix := x\<rparr>) = ingress_name_of u" for u x
    by (simp add: ingress_name_of_def)
  show ?thesis
    unfolding reconcile_cert_def Let_def
    apply (rule safeA_get_bind)
    apply (rule safeA_modify_bind [where Q = ?Q])
    subgoal by (simp add: certs_inv_def)
    subgoal
      apply (rule safeA_get_bind, rule safeA_if, rule safeA_basic, rule safeA_get_expect)
      subgoal using nm .
      subgoal for s' s y
        by (intro safeA_bindA [OF ex] safeA_if safeA_basic safeA_bindA [OF safeA_wrappers(4) [OF safe_quiet [OF h acme]]]
            safeA_result att safeA_bindA [OF safeA_wrappers(4) [OF wr]] save) (use rec [of s y] in \<open>auto simp: same\<close>)
      done
    subgoal by simp
    done
qed

lemma safe_reconcile_certs: "safeA inv (reconcile_certs ag now_unix)"
  unfolding reconcile_certs_def
proof -
  have all: "safeA (certs_inv ag datasets V names) (forA ns (reconcile_cert ag now_unix))" if "set ns \<subseteq> names" for ns names
    using that by (intro safeA_forA safe_reconcile_cert) auto
  show "safeA inv (bindA (getA (\<lambda>st. map fst (rc_ingress_records st))) (\<lambda>names. forA names (reconcile_cert ag now_unix)))"
    unfolding safeA_def
  proof (intro allI impI)
    fix s assume "inv s"
    then have "certs_inv ag datasets V (fst ` set (rc_ingress_records s)) s" by (simp add: certs_inv_def)
    with all [of "map fst (rc_ingress_records s)" "fst ` set (rc_ingress_records s)"]
    show "fst (bindA (getA (\<lambda>st. map fst (rc_ingress_records st))) (\<lambda>names. forA names (reconcile_cert ag now_unix)) s) \<noteq> Panic \<and>
      inv (snd (bindA (getA (\<lambda>st. map fst (rc_ingress_records st))) (\<lambda>names. forA names (reconcile_cert ag now_unix)) s))"
      by (auto simp: safeA_def bindA_def getA_def certs_inv_def)
  qed
qed

text \<open>A pass over the jails: the records stay as they are.\<close>

lemma safe_reconcile_one:
  assumes "name \<in> fst ` set recs"
  shows "safeA (\<lambda>s. inv s \<and> rc_records s = recs) (reconcile_one ag now name)"
proof -
  let ?P = "\<lambda>s. inv s \<and> rc_records s = recs" and ?Q = "\<lambda>s. (inv s \<and> rc_records s = recs) \<and> hm_get (rc_backoff s) name \<noteq> None"
  have h: "hostly datasets V ?Q" by (intro hostly_conj hostly_agent_inv) simp_all
  have att: "safeA ?Q (jail_attempt name now)"
    by (auto simp: safeA_def jail_attempt_def act_defs)
  have v4: "v4_record ag r" if "?P s" "hm_get (rc_records s) name = Some r" for s r
    using that by (auto simp: agent_inv_def dest!: map_of_SomeD)
  note steps = safeA_basic safeA_bindA safeA_if safeA_wrappers safe_quiet [OF h] jails att safe_rollback [OF h]
  show ?thesis
    unfolding reconcile_one_def
    apply (rule safeA_get_expect)
    subgoal using assms by (auto simp: map_of_eq_None_iff)
    apply (rule safeA_get_bind)
    apply (rule safeA_modify_bind [where Q = ?Q])
    subgoal by simp
    subgoal for s r s' using v4 [of s r] by (intro steps safe_provision [OF h] safe_restart [OF h]) auto
    subgoal by simp
    done
qed

lemma safe_reconcile_names:
  "set ns \<subseteq> fst ` set recs \<Longrightarrow> safeA (\<lambda>s. inv s \<and> rc_records s = recs) (reconcile_names ag now ns)"
  by (induction ns) (auto intro!: safeA_basic safeA_bindA safeA_wrappers safe_reconcile_one)

lemma safe_reconcile: "safeA inv (reconcile ag now)"
proof -
  have tail: "safeA inv (bindA (getA (\<lambda>st. map fst (rc_records st))) (\<lambda>names. reconcile_names ag now names))"
    unfolding safeA_def
  proof (intro allI impI)
    fix s assume "inv s"
    with safe_reconcile_names [of "map fst (rc_records s)" "rc_records s" now]
    show "fst (bindA (getA (\<lambda>st. map fst (rc_records st))) (\<lambda>names. reconcile_names ag now names) s) \<noteq> Panic \<and>
      inv (snd (bindA (getA (\<lambda>st. map fst (rc_records st))) (\<lambda>names. reconcile_names ag now names) s))"
      by (auto simp: safeA_def bindA_def getA_def)
  qed
  show ?thesis
    unfolding reconcile_def
    by (rule safeA_bindA [OF safeA_wrappers(3) [OF safe_ensure_ingress_jail]], rule safeA_bindA [OF safeA_basic(3)],
        rule safeA_bindA [OF safe_reconcile_certs], rule safeA_bindA [OF safe_ingress_config], rule tail)
qed

text \<open>Reading the state.\<close>

lemma safe_get_jail: "safeA inv (get_jail ag now name)"
  unfolding get_jail_def
  by (rule safeA_get_bind) (auto split: option.splits intro!: safeA_basic safeA_bindA safeA_wrappers safe_quiet [OF hostly_agent_inv] jails)

lemma safe_list_names: "safeA inv (list_names ag now ns)"
  by (induction ns) (auto intro!: safeA_basic safeA_bindA safe_get_jail)

lemma safe_list_jails: "safeA inv (list_jails ag now)"
  unfolding list_jails_def by (intro safeA_bindA safeA_basic safe_list_names)

end

lemma committed_from_total:
  assumes "\<And>r. r \<in> set rs \<Longrightarrow> valid_record ag r"
  shows "\<exists>x. committed_from rs acc st = (Val x, st)"
  using assms
proof (induction rs arbitrary: acc)
  case (Cons r rs)
  then have "is_ok (parse_cpu_cores (rs_cpu (sp_resources (js_spec (jrec_spec r)))))"
    "is_ok (parse_memory_bytes (rs_memory (sp_resources (js_spec (jrec_spec r)))))" by (auto simp: valid_record_def)
  with Cons show ?case by (cases acc) (auto simp: is_ok_iff act_defs)
qed (simp add: returnA_def)

lemma committed_total:
  assumes "agent_inv ag D V st"
  shows "\<exists>x. committed_resources st = (Val x, st)"
proof -
  have "\<And>r. r \<in> set (map snd (rc_records st)) \<Longrightarrow> valid_record ag r" using assms by (auto simp: agent_inv_def rc_inv_def)
  from committed_from_total [OF this, of "map snd (rc_records st)" "(Fin 0, 0)" st] show ?thesis by (simp add: committed_resources_def bindA_def getA_def)
qed

lemma safe_committed: "safeA (agent_inv ag D V) committed_resources"
  unfolding safeA_def using committed_total by (metis fst_conv snd_conv outcome.distinct(3))

end
