(* ===== verification/Ag_Worker.thy ===== *)
theory Ag_Worker
  imports Ag_Invariant
begin

text \<open>
  The thread that owns the reconciler (\<open>keel-agentd/src/worker.rs\<close>): one step per command of its
  channel. A step that panics ends the thread. Beside the reconciler the thread keeps the set of jails
  it has started a replication loop for; the loops it starts are recorded in \<open>aw_spawned\<close>.
\<close>

record 's aw =
  aw_rc :: "'s rc"
  aw_replicating :: "string set"
  aw_spawned :: "(string \<times> string) list"

datatype acommand =
    AApply jail_spec
  | AGet "string option"
  | ADelete string
  | ATick
  | ACommittedResources
  | AAddRoute string string
  | ARemoveRoute string
  | AAddServiceAlias string string
  | ARemoveServiceAlias string string
  | AGetVolume string
  | ADeleteVolume string
  | ASetReplicateTo string "string option"
  | AResumeReplicationLoops
  | AApplyIngress ingress_spec
  | AGetIngress "string option"
  | ADeleteIngress string

datatype areply =
    AResult "(unit, reconcile_error) result"
  | AStatuses "jail_status list"
  | AUnit
  | ACommitted "f64 \<times> nat"
  | ANet "(unit, net_error) result"
  | AIngresses "ingress_record list"

text \<open>A method call on the reconciler; \<open>None\<close> is a panic of the thread.\<close>

definition run_rc :: "('s rc, 'a, 'e) act \<Rightarrow> 's aw \<Rightarrow> (('a, 'e) result \<times> 's aw) option" where
  "run_rc m w = (case m (aw_rc w) of
       (Val x, st) \<Rightarrow> Some (Ok x, w\<lparr>aw_rc := st\<rparr>)
     | (Exn e, st) \<Rightarrow> Some (Err e, w\<lparr>aw_rc := st\<rparr>)
     | (Panic, st) \<Rightarrow> None)"

definition stateful_and_replicated :: "jail_spec \<Rightarrow> bool" where
  "stateful_and_replicated spec \<longleftrightarrow> sp_volumes (js_spec spec) \<noteq> [] \<and> sp_replicate_to (js_spec spec) \<noteq> None"

definition spawn_loop :: "string \<Rightarrow> 's aw \<Rightarrow> 's aw" where
  "spawn_loop name w = (if name \<in> aw_replicating w then w
     else w\<lparr>aw_replicating := insert name (aw_replicating w), aw_spawned := aw_spawned w @ [(name, name @ ''-data'')]\<rparr>)"

text \<open>\<open>reconciler.reconcile(Instant::now())\<close>, with its failures discarded.\<close>

definition tick :: "'s agent \<Rightarrow> 's aw \<Rightarrow> 's aw option" where
  "tick ag w = map_option snd (run_rc (reconcile ag (h_instant_now (ag_ops ag) (rc_host (aw_rc w)))) w)"

definition then_tick :: "'s agent \<Rightarrow> (unit, reconcile_error) result \<times> 's aw \<Rightarrow> (areply \<times> 's aw) option" where
  "then_tick ag = (\<lambda>(result, w). map_option (\<lambda>w'. (AResult result, w')) (tick ag w))"

definition resume_loops :: "jail_status list \<Rightarrow> 's aw \<Rightarrow> 's aw" where
  "resume_loops sts w = foldl (\<lambda>w st. if stateful_and_replicated (jrec_spec (jst_record st))
     then spawn_loop (spec_name_of (jst_record st)) w else w) w sts"

fun handle_acommand :: "'s agent \<Rightarrow> unit \<Rightarrow> acommand \<Rightarrow> 's aw \<Rightarrow> (areply \<times> 's aw) option" where
  "handle_acommand ag _ (AApply spec) w =
     Option.bind (run_rc (apply_jail ag spec) w) (\<lambda>(result, w1).
     map_option (\<lambda>w2. (AResult result, if is_ok result \<and> stateful_and_replicated spec
         then spawn_loop (md_name (js_metadata spec)) w2 else w2)) (tick ag w1))"
| "handle_acommand ag _ (ADelete name) w = Option.bind (run_rc (delete_jail ag name) w) (then_tick ag)"
| "handle_acommand ag _ (AGet name) w =
     (let now = h_instant_now (ag_ops ag) (rc_host (aw_rc w)) in case name of
        Some n \<Rightarrow> map_option (\<lambda>(r, w'). (AStatuses (case r of Ok (Some x) \<Rightarrow> [x] | _ \<Rightarrow> []), w')) (run_rc (get_jail ag now n) w)
      | None \<Rightarrow> map_option (\<lambda>(r, w'). (AStatuses (case r of Ok xs \<Rightarrow> xs | Err _ \<Rightarrow> []), w')) (run_rc (list_jails ag now) w))"
| "handle_acommand ag _ ATick w = map_option (\<lambda>w'. (AUnit, w')) (tick ag w)"
| "handle_acommand ag _ ACommittedResources w =
     Option.bind (run_rc committed_resources w) (\<lambda>(r, w').
       case r of Ok x \<Rightarrow> Some (ACommitted x, w') | Err _ \<Rightarrow> None)"
| "handle_acommand ag _ (AAddRoute subnet g) w = map_option (\<lambda>(r, w'). (ANet r, w')) (run_rc (rc_add_route ag subnet g) w)"
| "handle_acommand ag _ (ARemoveRoute subnet) w = map_option (\<lambda>(r, w'). (ANet r, w')) (run_rc (rc_remove_route ag subnet) w)"
| "handle_acommand ag _ (AAddServiceAlias b a) w = map_option (\<lambda>(r, w'). (ANet r, w')) (run_rc (rc_add_alias ag b a) w)"
| "handle_acommand ag _ (ARemoveServiceAlias b a) w = map_option (\<lambda>(r, w'). (ANet r, w')) (run_rc (rc_remove_alias ag b a) w)"
| "handle_acommand ag _ (AGetVolume name) w = map_option (\<lambda>(r, w'). (AResult r, w')) (run_rc (get_volume ag name) w)"
| "handle_acommand ag _ (ADeleteVolume name) w = map_option (\<lambda>(r, w'). (AResult r, w')) (run_rc (delete_volume ag name) w)"
| "handle_acommand ag _ (ASetReplicateTo name t) w = map_option (\<lambda>(r, w'). (AResult r, w')) (run_rc (set_replicate_to ag name t) w)"
| "handle_acommand ag _ AResumeReplicationLoops w =
     map_option (\<lambda>(r, w'). (AUnit, resume_loops (case r of Ok xs \<Rightarrow> xs | Err _ \<Rightarrow> []) w'))
       (run_rc (list_jails ag (h_instant_now (ag_ops ag) (rc_host (aw_rc w)))) w)"
| "handle_acommand ag _ (AApplyIngress spec) w = Option.bind (run_rc (apply_ingress ag spec) w) (then_tick ag)"
| "handle_acommand ag _ (AGetIngress name) w =
     Some (AIngresses (case name of
       Some n \<Rightarrow> (case get_ingress n (aw_rc w) of Some r \<Rightarrow> [r] | None \<Rightarrow> [])
     | None \<Rightarrow> list_ingress (aw_rc w)), w)"
| "handle_acommand ag _ (ADeleteIngress name) w = Option.bind (run_rc (delete_ingress ag name) w) (then_tick ag)"

definition run_agent :: "'s agent \<Rightarrow> acommand list \<Rightarrow> 's aw \<Rightarrow> (areply list \<times> 's aw) option" where
  "run_agent ag cmds = serve (handle_acommand ag) (map (Pair ()) cmds)"

section \<open>The thread keeps running\<close>

text \<open>Commands that leave the volumes in \<open>V\<close> alone and apply no IPv6 address.\<close>

fun harmless :: "'s agent \<Rightarrow> string set \<Rightarrow> acommand \<Rightarrow> bool" where
  "harmless ag V (AApply spec) = (\<forall>n. api_parse_ipnet (ag_api ag) (ns_address (sp_network (js_spec spec))) \<noteq> Ok (V6 n))"
| "harmless ag V (ADeleteVolume name) = (volume_dataset_path (ag_pool ag) name \<notin> V)"
| "harmless ag V _ = True"

lemma run_rc_safe:
  assumes "safeA P m" "P (aw_rc w)"
  shows "\<exists>r w'. run_rc m w = Some (r, w') \<and> P (aw_rc w') \<and> aw_replicating w' = aw_replicating w \<and> aw_spawned w' = aw_spawned w"
proof -
  obtain x st where e: "m (aw_rc w) = (x, st)" by (metis surj_pair)
  with assms have "x \<noteq> Panic" "P st" by (auto simp: safeA_def dest!: spec [of _ "aw_rc w"])
  with e show ?thesis by (cases x) (auto simp: run_rc_def)
qed

lemma aw_rc_spawn [simp]: "aw_rc (spawn_loop n w) = aw_rc w" "aw_rc (resume_loops sts w) = aw_rc w"
proof -
  show *: "aw_rc (spawn_loop n w) = aw_rc w" for n and w :: "'s aw" by (simp add: spawn_loop_def)
  show "aw_rc (resume_loops sts w) = aw_rc w"
    unfolding resume_loops_def by (induction sts arbitrary: w) (auto simp: *)
qed

context agent_host
begin

lemma safe_apply:
  assumes "harmless ag V (AApply spec)"
  shows "safeA inv (apply_jail ag spec)"
proof (rule safe_apply_jail)
  assume "is_ok (api_parse_ipnet (ag_api ag) (ns_address (sp_network (js_spec spec))))"
  then obtain x where x: "api_parse_ipnet (ag_api ag) (ns_address (sp_network (js_spec spec))) = Ok x" by (auto simp: is_ok_iff)
  with assms obtain n where "x = V4 n" by (cases x) auto
  with x show "is_ok (api_parse_ipv4net (ag_api ag) (ns_address (sp_network (js_spec spec))))"
    by (simp add: is_ok_iff crate.parse_v4)
qed

lemma tick_safe:
  assumes "inv (aw_rc w)"
  shows "\<exists>w'. tick ag w = Some w' \<and> inv (aw_rc w')"
  using run_rc_safe [OF safe_reconcile assms, of "h_instant_now (ag_ops ag) (rc_host (aw_rc w))"] by (auto simp: tick_def)

lemma then_tick_safe:
  assumes "safeA inv m" "inv (aw_rc w)"
  shows "\<exists>r w'. Option.bind (run_rc m w) (then_tick ag) = Some (r, w') \<and> inv (aw_rc w')"
proof -
  obtain r w1 where "run_rc m w = Some (r, w1)" "inv (aw_rc w1)" using run_rc_safe [OF assms] by blast
  with tick_safe [of w1] show ?thesis by (auto simp: then_tick_def)
qed

lemma handle_acommand_safe:
  assumes "inv (aw_rc w)" "harmless ag V c"
  shows "\<exists>r w'. handle_acommand ag u c w = Some (r, w') \<and> inv (aw_rc w')"
proof (cases c)
  case (AApply spec)
  obtain r w1 where "run_rc (apply_jail ag spec) w = Some (r, w1)" "inv (aw_rc w1)"
    using run_rc_safe [OF safe_apply assms(1)] assms(2) AApply by blast
  moreover obtain w2 where "tick ag w1 = Some w2" "inv (aw_rc w2)" using tick_safe calculation(2) by blast
  ultimately show ?thesis by (simp add: AApply)
next
  case (AGet n)
  show ?thesis
    using run_rc_safe [OF safe_get_jail assms(1)] run_rc_safe [OF safe_list_jails assms(1)]
    by (cases n) (fastforce simp: AGet Let_def)+
next
  case ACommittedResources
  then show ?thesis using committed_total [OF assms(1)] assms(1) by (auto simp: run_rc_def)
next
  case ATick
  then show ?thesis using tick_safe [OF assms(1)] by auto
next
  case (ADelete n)
  then show ?thesis using then_tick_safe [OF safe_delete_jail assms(1)] by simp
next
  case (AApplyIngress n)
  then show ?thesis using then_tick_safe [OF safe_apply_ingress assms(1)] by simp
next
  case (ADeleteIngress n)
  then show ?thesis using then_tick_safe [OF safe_delete_ingress assms(1)] by simp
next
  case (ADeleteVolume n)
  then show ?thesis using run_rc_safe [OF safe_delete_volume assms(1)] assms(2) by fastforce
next
  case AResumeReplicationLoops
  then show ?thesis using run_rc_safe [OF safe_list_jails assms(1)] by fastforce
qed (use run_rc_safe [OF safe_routes(1) assms(1)] run_rc_safe [OF safe_routes(2) assms(1)] run_rc_safe [OF safe_routes(3) assms(1)]
      run_rc_safe [OF safe_routes(4) assms(1)] run_rc_safe [OF safe_get_volume assms(1)]
      run_rc_safe [OF safe_set_replicate_to assms(1)] assms(1) in fastforce)+

end

text \<open>The thread is a server for the harmless commands.\<close>

sublocale agent_host \<subseteq> aw: guarded_server "handle_acommand ag" "\<lambda>w. agent_inv ag datasets V (aw_rc w)" "harmless ag V"
  by unfold_locales (rule handle_acommand_safe)

context agent_host
begin

lemma run_agent_total:
  assumes "inv (aw_rc w)" "\<forall>c \<in> set cmds. harmless ag V c"
  shows "\<exists>rs w'. run_agent ag cmds w = Some (rs, w') \<and> length rs = length cmds \<and> inv (aw_rc w')"
  unfolding run_agent_def using aw.serve_total [of w "map (Pair ()) cmds"] assms by auto

end

end
