(* ===== verification/Ag_Calls.thy ===== *)
theory Ag_Calls
  imports Ag_Reconciler
begin

text \<open>
  The calls an agent makes to its host. The state of a host is opaque, so what an operation of the
  reconciler does to it is said by the list of calls it makes, in order, with the reply each of them got:
  building a jail, taking it back after a failure, deleting it. The lists are written down from the record of
  the jail; the equivalences below hold of every implementation of the host traits, the commands of FreeBSD
  and the in-memory ones alike.
\<close>

section \<open>Calls and replies\<close>

datatype hcall =
    CDatasetExists string
  | CCloneFromBase string string
  | CCreateVolume string string
  | CDestroyDataset string
  | CCreateJail string string bool
  | CStartCommand string "string list"
  | CDestroyJail string
  | CSetLimits string nat nat
  | CRemoveLimits string
  | CEnsureMountPoint string
  | CMountNullfs string string
  | CUnmount string
  | CIsMounted string
  | CEnsureBridge string
  | CAttachJail string string string string
  | CDetachJail string

datatype host_reply = Done | Told bool | Failed reconcile_error | Died

definition did :: "('e \<Rightarrow> reconcile_error) \<Rightarrow> (unit, 'e) outcome \<Rightarrow> host_reply" where
  "did f r = (case r of Val _ \<Rightarrow> Done | Exn e \<Rightarrow> Failed (f e) | Panic \<Rightarrow> Died)"

definition told :: "('e \<Rightarrow> reconcile_error) \<Rightarrow> (bool, 'e) outcome \<Rightarrow> host_reply" where
  "told f r = (case r of Val b \<Rightarrow> Told b | Exn e \<Rightarrow> Failed (f e) | Panic \<Rightarrow> Died)"

fun host_call :: "'s host \<Rightarrow> hcall \<Rightarrow> 's \<Rightarrow> host_reply \<times> 's" where
  "host_call ops (CDatasetExists d) h = apfst (told RZfs) (zm_dataset_exists (h_zfs ops) d h)"
| "host_call ops (CCloneFromBase b t) h = apfst (did RZfs) (zm_clone_from_base (h_zfs ops) b t h)"
| "host_call ops (CCreateVolume d q) h = apfst (did RZfs) (zm_create_volume (h_zfs ops) d q h)"
| "host_call ops (CDestroyDataset d) h = apfst (did RZfs) (zm_destroy_dataset (h_zfs ops) d h)"
| "host_call ops (CCreateJail n r v) h = apfst (did RJail) (jr_create (h_jails ops) n r v h)"
| "host_call ops (CStartCommand n c) h = apfst (did RJail) (jr_start_command (h_jails ops) n c h)"
| "host_call ops (CDestroyJail n) h = apfst (did RJail) (jr_destroy (h_jails ops) n h)"
| "host_call ops (CSetLimits n p m) h = apfst (did RJail) (jr_set_resource_limits (h_jails ops) n p m h)"
| "host_call ops (CRemoveLimits n) h = apfst (did RJail) (jr_remove_resource_limits (h_jails ops) n h)"
| "host_call ops (CEnsureMountPoint t) h = apfst (did RMount) (mm_ensure_mount_point (h_mounts ops) t h)"
| "host_call ops (CMountNullfs s t) h = apfst (did RMount) (mm_mount_nullfs (h_mounts ops) s t h)"
| "host_call ops (CUnmount t) h = apfst (did RMount) (mm_unmount (h_mounts ops) t h)"
| "host_call ops (CIsMounted t) h = apfst (told RMount) (mm_is_mounted (h_mounts ops) t h)"
| "host_call ops (CEnsureBridge b) h = apfst (did RNet) (nm_ensure_bridge_exists (h_net ops) b h)"
| "host_call ops (CAttachJail n b e a) h = apfst (did RNet) (nm_attach_jail (h_net ops) n b e a h)"
| "host_call ops (CDetachJail e) h = apfst (did RNet) (nm_detach_jail (h_net ops) e h)"

fun host_calls :: "'s host \<Rightarrow> hcall list \<Rightarrow> 's \<Rightarrow> host_reply list \<times> 's" where
  "host_calls ops [] h = ([], h)"
| "host_calls ops (c # cs) h = (case host_call ops c h of (a, h1) \<Rightarrow> apfst (Cons a) (host_calls ops cs h1))"

lemma reply_iffs [simp]:
  "did f r = Done \<longleftrightarrow> r = Val ()" "told f q = Told b \<longleftrightarrow> q = Val b"
  "did f r = Failed x \<longleftrightarrow> (\<exists>e. r = Exn e \<and> x = f e)"
  by (auto simp: did_def told_def split: outcome.splits)

lemma reply_pair_iffs [simp]:
  "apfst (did f) p = (Done, h) \<longleftrightarrow> p = (Val (), h)" "apfst (told f) q = (Told b, h) \<longleftrightarrow> q = (Val b, h)"
  by (cases p; auto simp: did_def split: outcome.splits) (cases q; auto simp: told_def split: outcome.splits)

lemma apfst_iff: "apfst g p = (a, h) \<longleftrightarrow> (\<exists>r. p = (r, h) \<and> a = g r)"
  by (cases p) auto

lemma host_calls_Cons_iff [simp]:
  "host_calls ops (c # cs) h = (as, h') \<longleftrightarrow>
    (\<exists>a bs h1. as = a # bs \<and> host_call ops c h = (a, h1) \<and> host_calls ops cs h1 = (bs, h'))"
  by (auto simp: apfst_iff split: prod.splits)

declare host_calls.simps(2) [simp del]

lemma host_calls_length: "host_calls ops cs h = (as, h') \<Longrightarrow> length as = length cs"
  by (induction cs arbitrary: as h) auto

lemma host_calls_append_iff:
  "length as = length cs \<Longrightarrow> host_calls ops (cs @ ds) h = (as @ bs, h') \<longleftrightarrow>
    (\<exists>h1. host_calls ops cs h = (as, h1) \<and> host_calls ops ds h1 = (bs, h'))"
  by (induction as cs arbitrary: h rule: list_induct2) auto

lemma snd_host_calls_append: "snd (host_calls ops (cs @ ds) h) = snd (host_calls ops ds (snd (host_calls ops cs h)))"
  by (induction cs arbitrary: h) (auto simp: host_calls.simps(2) split: prod.splits)

section \<open>When a program over a host returns\<close>

lemma bindA_Val_iff: "bindA m f s = (Val x, s') \<longleftrightarrow> (\<exists>y s1. m s = (Val y, s1) \<and> f y s1 = (Val x, s'))"
  by (auto simp: bindA_def split: prod.splits outcome.splits)

lemma on_host_Val_iff: "on_host f m st = (Val x, st') \<longleftrightarrow> (\<exists>h. m (rc_host st) = (Val x, h) \<and> st' = st\<lparr>rc_host := h\<rparr>)"
  by (auto simp: on_host_def map_exnA_def zoomA_def split: prod.splits outcome.splits)

lemma tolerateA_Val_iff: "tolerateA p m s = (Val (), s') \<longleftrightarrow> (\<exists>r. m s = (r, s') \<and> (r = Val () \<or> (\<exists>e. r = Exn e \<and> p e)))"
  by (auto simp: tolerateA_def split: prod.splits outcome.splits)

lemma bind_on_host_iff:
  "bindA (on_host f m) k st = (Val x, st') \<longleftrightarrow> (\<exists>y h. m (rc_host st) = (Val y, h) \<and> k y (st\<lparr>rc_host := h\<rparr>) = (Val x, st'))"
  by (auto simp: bindA_Val_iff on_host_Val_iff)

lemma bind_returnA [simp]: "bindA (returnA x) k = k x"
  by (simp add: bindA_def returnA_def fun_eq_iff)

lemma check_iffs: "checkA f (Ok x) = returnA x" "checkA f (Err e) = failA (f e)"
  by (simp_all add: checkA_def returnA_def failA_def)

lemma failA_iff [simp]: "failA e s \<noteq> (Val x, s')"
  by (simp add: failA_def)

lemmas return_iffs = bind_on_host_iff on_host_Val_iff

section \<open>Building a jail\<close>

text \<open>A volume is created unless it is there and mounted unless it is mounted: the two answers are arguments.\<close>

definition volume_calls :: "string \<Rightarrow> string \<Rightarrow> volume_mount \<Rightarrow> bool \<times> bool \<Rightarrow> hcall list" where
  "volume_calls pool rootfs v q =
     [CEnsureMountPoint (mount_target rootfs v), CDatasetExists (volume_dataset_path pool (vm_name v))] @
     (if fst q then [] else [CCreateVolume (volume_dataset_path pool (vm_name v)) (vm_size v)]) @
     [CIsMounted (mount_target rootfs v)] @
     (if snd q then [] else [CMountNullfs (volume_mountpoint pool (vm_name v)) (mount_target rootfs v)])"

definition volume_replies :: "bool \<times> bool \<Rightarrow> host_reply list" where
  "volume_replies q = [Done, Told (fst q)] @ (if fst q then [] else [Done]) @ [Told (snd q)] @ (if snd q then [] else [Done])"

text \<open>The whole of it: the clone of the image, the jail, its volumes, its network and limits, its command.\<close>

definition build_calls :: "string \<Rightarrow> string \<Rightarrow> jail_record \<Rightarrow> f64 \<Rightarrow> nat \<Rightarrow> (bool \<times> bool) list \<Rightarrow> hcall list" where
  "build_calls pool name r cores mem qs =
     (let sp = js_spec (jrec_spec r); rootfs = jail_rootfs_path pool name in
      [CDatasetExists (base_dataset_path pool (sp_image sp)),
       CCloneFromBase (base_dataset_path pool (sp_image sp)) (jail_dataset_path pool name),
       CCreateJail (jail_name name) rootfs (ns_vnet (sp_network sp))] @
      concat (map2 (volume_calls pool rootfs) (sp_volumes sp) qs) @
      [CEnsureBridge (ns_bridge (sp_network sp)),
       CAttachJail (jail_name name) (ns_bridge (sp_network sp)) (epair_base_name (jrec_epair_ordinal r)) (ns_address (sp_network sp)),
       CSetLimits (jail_name name) (cores_to_pcpu_percent cores) mem,
       CStartCommand (jail_name name) (sp_command sp)])"

definition build_replies :: "(bool \<times> bool) list \<Rightarrow> host_reply list" where
  "build_replies qs = [Told True, Done, Done] @ concat (map volume_replies qs) @ [Done, Done, Done, Done]"

definition built :: "'s agent \<Rightarrow> string \<Rightarrow> jail_record \<Rightarrow> 's \<Rightarrow> 's \<Rightarrow> bool" where
  "built ag name r h h' \<longleftrightarrow> (\<exists>cores mem qs.
     parse_cpu_cores (rs_cpu (sp_resources (js_spec (jrec_spec r)))) = Ok cores \<and>
     parse_memory_bytes (rs_memory (sp_resources (js_spec (jrec_spec r)))) = Ok mem \<and>
     length qs = length (sp_volumes (js_spec (jrec_spec r))) \<and>
     host_calls (ag_ops ag) (build_calls (ag_pool ag) name r cores mem qs) h = (build_replies qs, h'))"

lemma volume_iff:
  "provision_volume ag rootfs v st = (Val (), st') \<longleftrightarrow> (\<exists>q h.
     host_calls (ag_ops ag) (volume_calls (ag_pool ag) rootfs v q) (rc_host st) = (volume_replies q, h) \<and> st' = st\<lparr>rc_host := h\<rparr>)"
  unfolding provision_volume_def Let_def volume_calls_def volume_replies_def
  by (simp add: return_iffs split_paired_Ex ex_bool_eq if_bool_eq_disj) (auto simp: returnA_def)

lemma volumes_iff:
  "forA vs (provision_volume ag rootfs) st = (Val (), st') \<longleftrightarrow> (\<exists>qs h. length qs = length vs \<and>
     host_calls (ag_ops ag) (concat (map2 (volume_calls (ag_pool ag) rootfs) vs qs)) (rc_host st) = (concat (map volume_replies qs), h) \<and>
     st' = st\<lparr>rc_host := h\<rparr>)"
proof (induction vs arbitrary: st)
  case (Cons v vs)
  have len: "length (volume_replies q) = length (volume_calls (ag_pool ag) rootfs v q)" for q
    by (simp add: volume_replies_def volume_calls_def)
  show ?case
    by (simp add: bindA_Val_iff volume_iff Cons.IH length_Suc_conv ex_simps [symmetric] host_calls_append_iff [OF len] del: ex_simps)
       (force simp: host_calls_append_iff [OF len])
qed (auto simp: returnA_def)

lemma configure_iff:
  assumes "parse_cpu_cores (rs_cpu (sp_resources (js_spec (jrec_spec r)))) = Ok cores"
    and "parse_memory_bytes (rs_memory (sp_resources (js_spec (jrec_spec r)))) = Ok mem"
  shows "configure_networking_and_limits ag name r st = (Val (), st') \<longleftrightarrow> (\<exists>h.
     host_calls (ag_ops ag) [CEnsureBridge (ns_bridge (sp_network (js_spec (jrec_spec r)))),
       CAttachJail (jail_name name) (ns_bridge (sp_network (js_spec (jrec_spec r)))) (epair_base_name (jrec_epair_ordinal r))
         (ns_address (sp_network (js_spec (jrec_spec r)))),
       CSetLimits (jail_name name) (cores_to_pcpu_percent cores) mem] (rc_host st) = ([Done, Done, Done], h) \<and> st' = st\<lparr>rc_host := h\<rparr>)"
  using assms by (auto simp: configure_networking_and_limits_def Let_def return_iffs check_iffs)

text \<open>Building succeeds exactly when every call it makes does.\<close>

lemma provision_iff:
  assumes "parse_cpu_cores (rs_cpu (sp_resources (js_spec (jrec_spec r)))) = Ok cores"
    and "parse_memory_bytes (rs_memory (sp_resources (js_spec (jrec_spec r)))) = Ok mem"
  shows "provision ag name r st = (Val (), st') \<longleftrightarrow> (\<exists>h. built ag name r (rc_host st) h \<and> st' = st\<lparr>rc_host := h\<rparr>)"
proof -
  have len: "length (concat (map volume_replies qs)) = length (concat (map2 (volume_calls p root) vs qs))"
    if "length qs = length vs" for p root vs qs
    using that by (induction qs vs rule: list_induct2) (simp_all add: volume_replies_def volume_calls_def)
  let ?vs = "sp_volumes (js_spec (jrec_spec r))" and ?root = "jail_rootfs_path (ag_pool ag) name"
  have v: "bindA (forA ?vs (provision_volume ag ?root)) k s = (Val x, s') \<longleftrightarrow> (\<exists>qs h. length qs = length ?vs \<and>
     host_calls (ag_ops ag) (concat (map2 (volume_calls (ag_pool ag) ?root) ?vs qs)) (rc_host s) = (concat (map volume_replies qs), h) \<and>
     k () (s\<lparr>rc_host := h\<rparr>) = (Val x, s'))" for k s s' and x :: unit
    by (auto simp: bindA_Val_iff volumes_iff)
  have c: "bindA (configure_networking_and_limits ag name r) k s = (Val x, s') \<longleftrightarrow> (\<exists>s1.
      configure_networking_and_limits ag name r s = (Val (), s1) \<and> k () s1 = (Val x, s'))" for k s s' and x :: unit
    unfolding bindA_Val_iff by auto
  have b: "built ag name r h h' \<longleftrightarrow> (\<exists>qs. length qs = length ?vs \<and>
      host_calls (ag_ops ag) (build_calls (ag_pool ag) name r cores mem qs) h = (build_replies qs, h'))" for h h'
    using assms by (simp add: built_def)
  show ?thesis
    unfolding b provision_def build_calls_def build_replies_def Let_def
    by (simp add: return_iffs ex_bool_eq v c configure_iff [OF assms] host_calls_append_iff len cong: conj_cong) (safe; force)
qed

section \<open>Taking back a jail that could not be built\<close>

text \<open>What is there of a jail is taken down in the same order after a failed attempt and when it is deleted.\<close>

definition teardown_calls :: "string \<Rightarrow> string \<Rightarrow> jail_record \<Rightarrow> hcall list" where
  "teardown_calls pool name r =
     [CDetachJail (epair_base_name (jrec_epair_ordinal r)), CDestroyJail (jail_name name)] @
     map (\<lambda>v. CUnmount (mount_target (jail_rootfs_path pool name) v)) (sp_volumes (js_spec (jrec_spec r))) @
     [CDestroyDataset (jail_dataset_path pool name), CRemoveLimits (jail_name name)]"

lemma ignore_on_host:
  assumes "ignoreA (on_host f m) st = (q, st')"
  shows "q = Panic \<or> (q = Val () \<and> st' = st\<lparr>rc_host := snd (m (rc_host st))\<rparr>)"
  using assms by (auto simp: ignoreA_def on_host_def map_exnA_def zoomA_def split: prod.splits outcome.splits)

lemma bind_not_panic:
  assumes "bindA m k st = (q, st')" "q \<noteq> Panic" "\<And>r s. m st = (r, s) \<Longrightarrow> r = Panic \<or> (r = Val () \<and> s = g)"
  shows "k () g = (q, st')"
  using assms by (cases "m st") (auto simp: bindA_def split: outcome.splits)

lemma rollback_unmounts:
  assumes "forA vs (\<lambda>v. ignoreA (on_host RMount (mm_unmount (mm ag) (t v)))) st = (q, st')" 
  shows "q = Panic \<or> (q = Val () \<and> st' = st\<lparr>rc_host := snd (host_calls (ag_ops ag) (map (\<lambda>v. CUnmount (t v)) vs) (rc_host st))\<rparr>)"
  using assms
proof (induction vs arbitrary: st)
  case (Cons v vs)
  show ?case
  proof (cases "q = Panic")
    case False
    have "forA vs (\<lambda>v. ignoreA (on_host RMount (mm_unmount (mm ag) (t v)))) (st\<lparr>rc_host := snd (mm_unmount (mm ag) (t v) (rc_host st))\<rparr>) = (q, st')"
      by (rule bind_not_panic [OF Cons.prems [unfolded forA.simps] False]) (rule ignore_on_host)
    from Cons.IH [OF this] False show ?thesis by (simp add: host_calls.simps(2) split_beta)
  qed simp
qed (simp add: returnA_def)

text \<open>Whatever they reply, the calls are all made.\<close>

lemma rollback_makes_calls:
  assumes "rollback_provision ag name r st = (q, st')" "q \<noteq> Panic"
  shows "q = Val () \<and> st' = st\<lparr>rc_host := snd (host_calls (ag_ops ag) (teardown_calls (ag_pool ag) name r) (rc_host st))\<rparr>"
proof -
  let ?h1 = "snd (nm_detach_jail (nm ag) (epair_base_name (jrec_epair_ordinal r)) (rc_host st))"
  let ?h2 = "snd (jr_destroy (jr ag) (jail_name name) ?h1)"
  let ?us = "map (\<lambda>v. CUnmount (mount_target (jail_rootfs_path (ag_pool ag) name) v)) (sp_volumes (js_spec (jrec_spec r)))"
  let ?h3 = "snd (host_calls (ag_ops ag) ?us ?h2)"
  let ?h4 = "snd (zm_destroy_dataset (zm ag) (jail_dataset_path (ag_pool ag) name) ?h3)"
  note e1 = bind_not_panic [OF assms(1) [unfolded rollback_provision_def] assms(2), where g = "st\<lparr>rc_host := ?h1\<rparr>"]
  note e2 = bind_not_panic [OF e1 assms(2), where g = "st\<lparr>rc_host := ?h2\<rparr>"]
  note e3 = bind_not_panic [OF e2 assms(2), where g = "st\<lparr>rc_host := ?h3\<rparr>"]
  note e4 = bind_not_panic [OF e3 assms(2), where g = "st\<lparr>rc_host := ?h4\<rparr>"]
  have "ignoreA (on_host RJail (jr_remove_resource_limits (jr ag) (jail_name name))) (st\<lparr>rc_host := ?h4\<rparr>) = (q, st')"
    by (rule e4) (auto dest!: ignore_on_host rollback_unmounts)
  from ignore_on_host [OF this] assms(2)
  show ?thesis by (simp add: teardown_calls_def host_calls.simps(2) snd_host_calls_append split_beta)
qed

section \<open>Deleting a jail\<close>

text \<open>Deleting makes the same calls and stops at the first that fails, unless what it takes down is not there.\<close>

primrec missing :: "reconcile_error \<Rightarrow> bool" where
  "missing (RInvalidSpec _) = False"
| "missing (RStore _) = False"
| "missing (RJail e) = is_j_not_found e"
| "missing (RZfs e) = is_z_not_found e"
| "missing (RNet _) = False"
| "missing (RMount e) = is_not_mounted e"
| "missing (RNotFound _) = False"
| "missing (RBaseImageNotFound _) = False"

definition settled :: "host_reply \<Rightarrow> bool" where
  "settled a \<longleftrightarrow> a = Done \<or> (\<exists>e. a = Failed e \<and> missing e)"

lemma settled_did [simp]:
  "settled (did RNet n) \<longleftrightarrow> n = Val ()" "settled (did RJail j) \<longleftrightarrow> j = Val () \<or> (\<exists>e. j = Exn e \<and> is_j_not_found e)"
  "settled (did RMount m) \<longleftrightarrow> m = Val () \<or> (\<exists>e. m = Exn e \<and> is_not_mounted e)"
  "settled (did RZfs z) \<longleftrightarrow> z = Val () \<or> (\<exists>e. z = Exn e \<and> is_z_not_found e)"
  by (auto simp: settled_def)

text \<open>Every call is settled, and afterwards something holds.\<close>

definition settles :: "'s host \<Rightarrow> hcall list \<Rightarrow> ('s \<Rightarrow> bool) \<Rightarrow> 's \<Rightarrow> bool" where
  "settles ops cs P h \<longleftrightarrow> (\<exists>as h'. host_calls ops cs h = (as, h') \<and> list_all settled as \<and> P h')"

lemma settles_simps [simp]:
  "settles ops [] P h \<longleftrightarrow> P h"
  "settles ops (c # cs) P h \<longleftrightarrow> (\<exists>a h1. host_call ops c h = (a, h1) \<and> settled a \<and> settles ops cs P h1)"
  by (fastforce simp: settles_def)+

lemma settles_append [simp]: "settles ops (cs @ ds) P h \<longleftrightarrow> settles ops cs (settles ops ds P) h"
  by (induction cs arbitrary: h) simp_all

lemma bind_tolerate_iff:
  "bindA (on_host f (tolerateA p m)) k st = (Val x, st') \<longleftrightarrow>
    (\<exists>r h. m (rc_host st) = (r, h) \<and> (r = Val () \<or> (\<exists>e. r = Exn e \<and> p e)) \<and> k () (st\<lparr>rc_host := h\<rparr>) = (Val x, st'))"
  by (auto simp: bind_on_host_iff tolerateA_Val_iff)

lemma delete_unmounts_iff:
  "bindA (forA vs (\<lambda>v. on_host RMount (tolerateA is_not_mounted (mm_unmount (mm ag) (t v))))) k st = (Val x, st') \<longleftrightarrow>
    settles (ag_ops ag) (map (\<lambda>v. CUnmount (t v)) vs) (\<lambda>h. k () (st\<lparr>rc_host := h\<rparr>) = (Val x, st')) (rc_host st)"
proof (induction vs arbitrary: st)
  case (Cons v vs)
  have assoc: "bindA (bindA m (\<lambda>_. n)) k = bindA m (\<lambda>_. bindA n k)" for m n
    by (auto simp: bindA_def fun_eq_iff split: prod.splits outcome.splits)
  show ?case
    by (simp add: assoc bind_tolerate_iff Cons.IH apfst_iff) (auto simp: apfst_iff)
qed simp

text \<open>A deletion succeeds exactly when each call did or found nothing to take down and the file of the record
  could be removed.\<close>

lemma delete_jail_iff:
  assumes "hm_get (rc_records st) name = Some r"
  shows "delete_jail ag name st = (Val (), st') \<longleftrightarrow> (\<exists>as h d.
     host_calls (ag_ops ag) (teardown_calls (ag_pool ag) name r) (rc_host st) = (as, h) \<and> list_all settled as \<and>
     store_remove (ag_state_dir ag) name (rc_fs st) = (Val (), d) \<and>
     st' = st\<lparr>rc_host := h, rc_fs := d, rc_records := hm_remove name (rc_records st), rc_backoff := hm_remove name (rc_backoff st)\<rparr>)"
proof -
  let ?rest = "\<lambda>h. \<exists>d. store_remove (ag_state_dir ag) name (rc_fs st) = (Val (), d) \<and>
     st' = st\<lparr>rc_host := h, rc_fs := d, rc_records := hm_remove name (rc_records st), rc_backoff := hm_remove name (rc_backoff st)\<rparr>"
  have f: "bindA (on_fs RStore m) (\<lambda>_. modifyA g) s = (Val (), s') \<longleftrightarrow> (\<exists>d. m (rc_fs s) = (Val (), d) \<and> s' = g (s\<lparr>rc_fs := d\<rparr>))" for m g s s'
    by (auto simp: bindA_def on_fs_def map_exnA_def zoomA_def modifyA_def split: prod.splits outcome.splits)
  have g: "bindA (getA F) k s = k (F s) s" for F :: "'a rc \<Rightarrow> jail_record option" and k s
    by (simp add: bindA_def getA_def)
  have tail: "settles ops [CDestroyDataset d, CRemoveLimits n] P = (\<lambda>h. \<exists>ha. tolerateA is_z_not_found (zm_destroy_dataset (h_zfs ops) d) h = (Val (), ha) \<and>
      (\<exists>hb. tolerateA is_j_not_found (jr_remove_resource_limits (h_jails ops) n) ha = (Val (), hb) \<and> P hb))" for ops d n P
    by (rule ext) (auto simp: tolerateA_Val_iff apfst_iff)
  have "delete_jail ag name st = (Val (), st') \<longleftrightarrow> settles (ag_ops ag) (teardown_calls (ag_pool ag) name r) ?rest (rc_host st)"
    unfolding delete_jail_def teardown_calls_def g
    by (simp add: assms check_iffs bind_on_host_iff delete_unmounts_iff f tail) (auto simp: tolerateA_Val_iff apfst_iff)
  then show ?thesis unfolding settles_def by blast
qed

end
