(* ===== verification/Ag_Behaviour.thy ===== *)
theory Ag_Behaviour
  imports Ag_Worker Ag_Calls
begin

text \<open>
  The properties of an agent: it keeps running, its desired state survives restarts and failures,
  volumes outlive the jails that use them, attempts are spaced and rolled back when they fail, and a pass over a missing jail and the deletion of
  a jail are exactly the calls their record asks for, on any host.
\<close>

section \<open>An agent on the in-memory host\<close>

definition aex_fs :: fs where
  "aex_fs = \<lparr>fs_files = [], fs_dirs = {}, fs_clock = 0, fs_fault = \<lambda>_. None\<rparr>"

definition aex_host :: fake_host where
  "aex_host = \<lparr>fk_jails = [], fk_mounted = {}, fk_datasets = {''p/keel/b'', ''p/keel/volumes/v''}, fk_snapshots = {}, fk_busy = {},
     fk_bridges = {}, fk_bridge_addresses = [], fk_attachments = [], fk_routes = [], fk_aliases = {}, fk_written = [],
     fk_fail_test = False, fk_reload_count = [], fk_dns_records = [], fk_fail_create = False, fk_fail_acme = False,
     fk_now = 0, fk_unix = 0\<rparr>"

definition aex_agent :: "ipnet_api \<Rightarrow> fake_host agent" where
  "aex_agent api = \<lparr>ag_ops = fake_host_ops api, ag_api = api, ag_pool = ''p'', ag_state_dir = ''s'',
     ag_jail_to_yaml = \<lambda>r. ''j'', ag_jail_from_yaml = \<lambda>s. Err ''j'',
     ag_ingress_to_yaml = \<lambda>r. ''i'', ag_ingress_from_yaml = \<lambda>s. Err ''i''\<rparr>"

definition aex_rc :: "fake_host rc" where
  "aex_rc = \<lparr>rc_host = aex_host, rc_fs = aex_fs, rc_records = [], rc_backoff = [], rc_next_epair_ordinal = 1,
     rc_ingress_records = [], rc_ingress_backoff = [], rc_service_vips = []\<rparr>"

definition aex_aw :: "fake_host aw" where
  "aex_aw = \<lparr>aw_rc = aex_rc, aw_replicating = {}, aw_spawned = []\<rparr>"

definition aex_spec :: "string \<Rightarrow> jail_spec" where
  "aex_spec address = \<lparr>js_api_version = ''keel/v1'', js_kind = ''Jail'', js_metadata = \<lparr>md_name = ''j''\<rparr>,
     js_spec = \<lparr>sp_image = ''b'', sp_command = [''c''],
       sp_network = \<lparr>ns_vnet = True, ns_bridge = ''k'', ns_address = address\<rparr>,
       sp_resources = \<lparr>rs_cpu = ''1'', rs_memory = ''1M''\<rparr>, sp_restart_policy = Always,
       sp_volumes = [\<lparr>vm_name = ''v'', vm_mount_path = ''/d'', vm_size = ''1G''\<rparr>], sp_replicate_to = Some ''n:1''\<rparr>\<rparr>"

lemma volume_ne_jail [simp]:
  "volume_dataset_path p v \<noteq> jail_dataset_path p n" "jail_dataset_path p n \<noteq> volume_dataset_path p v"
  by (simp_all add: volume_dataset_path_def jail_dataset_path_def)

lemma fake_agent_host:
  assumes "ag_ops ag = fake_host_ops (ag_api ag)" "ipnet_crate (ag_api ag)"
    "\<And>n. jail_dataset_path (ag_pool ag) n \<notin> V"
    "is_ok (api_parse_ipv4net (ag_api ag) (INGRESS_JAIL_BRIDGE_ADDR @ ''/24''))"
  shows "agent_host ag fk_datasets V"
proof -
  have h: "host_laws (ag_ops ag) (ag_api ag) fk_datasets" unfolding assms(1) by (rule fakes.host_laws_axioms)
  show ?thesis
    by (intro agent_host.intro agent_host_axioms.intro h assms)
qed

lemma show_small [simp]: "show_nat 0 = ''0''" "show_nat (Suc 0) = ''1''" "show_nat 2 = ''2''" "show_nat 10 = ''10''" "show_nat 24 = ''24''"
  by code_simp+

lemma aex_resources: "parse_cpu_cores ''1'' = Ok (Fin 1)" "parse_memory_bytes ''1M'' = Ok (1024 ^ 2)"
  using parse_cpu_cores_nat [of 1] parse_memory_bytes_unit [of "CHR ''M''" "1024 ^ 2" 1]
  by (simp_all add: unit_value_def)

lemma aex_address: "ref_parse ''10.0.1.2/24'' = Ok \<lparr>net_addr = 0x0A000102, net_prefix_len = 24\<rparr>"
proof -
  have "ref_show \<lparr>net_addr = 0x0A000102, net_prefix_len = 24\<rparr> = ''10.0.1.2/24''"
    by (simp add: ref_show_def show_ipv4addr_def octet_def)
  with ref_parse_show [of "\<lparr>net_addr = 0x0A000102, net_prefix_len = 24\<rparr>"] show ?thesis by simp
qed

lemma ref_parses_ingress: "is_ok (api_parse_ipv4net ipnet_ref (INGRESS_JAIL_BRIDGE_ADDR @ ''/24''))"
proof -
  have "ref_show \<lparr>net_addr = 0x0A000002, net_prefix_len = 24\<rparr> = INGRESS_JAIL_BRIDGE_ADDR @ ''/24''"
    by (simp add: ref_show_def show_ipv4addr_def octet_def INGRESS_JAIL_BRIDGE_ADDR_def)
  with ref_parse_show [of "\<lparr>net_addr = 0x0A000002, net_prefix_len = 24\<rparr>"] show ?thesis by (simp add: ipnet_ref_def)
qed

interpretation exa: agent_host "aex_agent ipnet_ref" fk_datasets "{volume_dataset_path ''p'' ''v''}"
  by (rule fake_agent_host) (simp_all add: aex_agent_def ref.ipnet_crate_axioms ref_parses_ingress)

lemma aex_inv: "agent_inv (aex_agent api) fk_datasets {volume_dataset_path ''p'' ''v''} (aw_rc aex_aw)"
  by (simp add: agent_inv_def rc_inv_def mirrors_def aex_aw_def aex_rc_def aex_fs_def aex_host_def volume_dataset_path_def)

section \<open>The agent keeps running\<close>

text \<open>Whatever the host and the file system do, as long as host operations do not panic and no IPv6
  address is applied, the thread answers every command; the files of the state directory mirror the
  records in memory, and no dataset of a volume is destroyed other than by deleting that volume.\<close>

lemma agent_never_panics:
  assumes "agent_host ag D V" "agent_inv ag D V (aw_rc w)" "\<forall>c \<in> set cmds. harmless ag V c"
  shows "\<exists>rs w'. run_agent ag cmds w = Some (rs, w') \<and> length rs = length cmds \<and>
    V \<subseteq> D (rc_host (aw_rc w')) \<and>
    mirrors (jail_codec ag) (ag_state_dir ag) (rc_records (aw_rc w')) (rc_fs (aw_rc w')) \<and>
    mirrors (ingress_codec ag) (ingress_dir (ag_state_dir ag)) (rc_ingress_records (aw_rc w')) (rc_fs (aw_rc w'))"
  using agent_host.run_agent_total [OF assms] by (auto simp: agent_inv_def rc_inv_def)

section \<open>Restart\<close>

lemma keepsA_store_load_all:
  "keepsA (\<lambda>s. fs_files s = F \<and> fs_fault s = G) (store_load_all cd d)"
proof -
  have "keepsA (\<lambda>s. fs_files s = F \<and> fs_fault s = G) (fs_read_to_string d n)" for n
    by (auto simp: keepsA_def fs_read_to_string_def fs_try_def act_defs split: option.splits)
  then have "keepsA (\<lambda>s. fs_files s = F \<and> fs_fault s = G) (load_entries cd d ns acc)" for ns acc
    by (induction ns arbitrary: acc) (auto intro!: inv_intros)
  moreover have "keepsA (\<lambda>s. fs_files s = F \<and> fs_fault s = G) (create_dir_all d)"
    "keepsA (\<lambda>s. fs_files s = F \<and> fs_fault s = G) (fs_read_dir d)"
    by (auto simp: keepsA_def create_dir_all_def fs_read_dir_def fs_try_def act_defs split: if_splits)
  ultimately show ?thesis unfolding store_load_all_def by (intro inv_intros)
qed

lemma hm_get_collect:
  assumes "distinct (map key xs)"
  shows "hm_get (hm_collect key xs) k = Some x \<longleftrightarrow> x \<in> set xs \<and> key x = k"
proof -
  have "hm_get (foldl (\<lambda>m x. hm_insert (key x) x m) m xs) k = Some x \<longleftrightarrow>
      (x \<in> set xs \<and> key x = k) \<or> (hm_get m k = Some x \<and> k \<notin> key ` set xs)" for m
    using assms by (induction xs arbitrary: m) (auto split: if_splits)
  from this [of "[]"] show ?thesis by (simp add: hm_collect_def)
qed

lemma hm_wf_collect: "hm_wf (hm_collect key xs)"
proof -
  have "hm_wf m \<Longrightarrow> hm_wf (foldl (\<lambda>m x. hm_insert (key x) x m) m xs)" for m
    by (induction xs arbitrary: m) auto
  then show ?thesis by (simp add: hm_collect_def)
qed

lemma collect_mirrored:
  assumes m: "mirrors cd d recs s" and rs: "set rs = snd ` set recs" "distinct (map (cd_name cd) rs)"
  shows "hm_get (hm_collect (cd_name cd) rs) = hm_get recs"
proof
  fix k
  have wf: "hm_wf recs" and n: "\<forall>(k, r) \<in> set recs. cd_name cd r = k" using m by (auto simp: mirrors_def)
  have "hm_get (hm_collect (cd_name cd) rs) k = Some r \<longleftrightarrow> hm_get recs k = Some r" for r
    using n hm_get_iff [OF wf, of k r] by (force simp: hm_get_collect [OF rs(2)] rs(1))
  then show "hm_get (hm_collect (cd_name cd) rs) k = hm_get recs k" by (metis option.exhaust)
qed

lemma next_ordinal_above:
  assumes "r \<in> set loaded" "\<forall>q \<in> set loaded. jrec_epair_ordinal q < u32_max"
  shows "jrec_epair_ordinal r < next_ordinal loaded"
proof -
  have "Max (set (map jrec_epair_ordinal loaded)) < u32_max"
    using assms by (subst Max_less_iff) auto
  then have "next_ordinal loaded = Max (set (map jrec_epair_ordinal loaded)) + 1"
    using assms(1) by (auto simp: next_ordinal_def u32_succ_def)
  moreover have "jrec_epair_ordinal r \<le> Max (set (map jrec_epair_ordinal loaded))" using assms(1) by simp
  ultimately show ?thesis by simp
qed

text \<open>An agent that starts on the state directory another one left behind, at whatever point that one
  stopped, has exactly its jails and ingresses, and gives a new jail an epair number that none of them has.\<close>

lemma agent_restart_recovers:
  assumes "rc_inv ag st"
    and "\<forall>(k, r) \<in> set (rc_records st). ag_jail_from_yaml ag (ag_jail_to_yaml ag r) = Ok r \<and> jrec_epair_ordinal r < u32_max"
    and "\<forall>(k, r) \<in> set (rc_ingress_records st). ag_ingress_from_yaml ag (ag_ingress_to_yaml ag r) = Ok r"
  shows "\<exists>st'. fst (reconciler_new ag host vips ((rc_fs st)\<lparr>fs_fault := \<lambda>_. None\<rparr>)) = Val st' \<and>
    hm_get (rc_records st') = hm_get (rc_records st) \<and> hm_get (rc_ingress_records st') = hm_get (rc_ingress_records st) \<and>
    (\<forall>k r. hm_get (rc_records st') k = Some r \<longrightarrow> jrec_epair_ordinal r < rc_next_epair_ordinal st')"
proof -
  let ?d = "(rc_fs st)\<lparr>fs_fault := \<lambda>_. None\<rparr>"
  have m: "mirrors (jail_codec ag) (ag_state_dir ag) (rc_records st) ?d"
    "mirrors (ingress_codec ag) (ingress_dir (ag_state_dir ag)) (rc_ingress_records st) ?d"
    using assms(1) by (auto simp: rc_inv_def mirrors_def)
  obtain rs d where rs: "store_load_all (jail_codec ag) (ag_state_dir ag) ?d = (Val rs, d)" "set rs = snd ` set (rc_records st)"
    "distinct (map spec_name_of rs)"
    using load_all_mirrors [OF m(1)] assms(2) by (fastforce simp: fst_def split: prod.splits)
  have d: "fs_files d = fs_files (rc_fs st)" "fs_fault d = (\<lambda>_. None)"
    using keepsAE [OF keepsA_store_load_all rs(1), of "fs_files (rc_fs st)" "\<lambda>_. None"] by simp_all
  have m2: "mirrors (ingress_codec ag) (ingress_dir (ag_state_dir ag)) (rc_ingress_records st) d"
    using m(2) d by (simp add: mirrors_def)
  obtain qs e where qs: "ingress_load_all (ingress_codec ag) (ag_state_dir ag) d = (Val qs, e)"
    "set qs = snd ` set (rc_ingress_records st)" "distinct (map ingress_name_of qs)"
    using load_all_mirrors [OF m2] assms(3) d(2) by (fastforce simp: ingress_load_all_def fst_def split: prod.splits)
  have r: "hm_get (hm_collect spec_name_of rs) = hm_get (rc_records st)"
    "hm_get (hm_collect ingress_name_of qs) = hm_get (rc_ingress_records st)"
    using collect_mirrored [OF m(1)] collect_mirrored [OF m(2)] rs qs by simp_all
  have "\<forall>q \<in> set rs. jrec_epair_ordinal q < u32_max" using assms(2) by (auto simp: rs(2))
  then have "jrec_epair_ordinal r < next_ordinal rs" if "hm_get (rc_records st) k = Some r" for k r
    using that by (intro next_ordinal_above) (force simp: rs(2) dest!: map_of_SomeD)+
  with r rs(1) qs(1) show ?thesis
    by (simp add: reconciler_new_def act_defs)
qed

section \<open>Epair numbers\<close>

text \<open>Every jail has a number of its own, below the next one to be given out.\<close>

definition ordinals_ok :: "'s rc \<Rightarrow> bool" where
  "ordinals_ok st \<longleftrightarrow> (\<forall>k r. hm_get (rc_records st) k = Some r \<longrightarrow> jrec_epair_ordinal r < rc_next_epair_ordinal st) \<and>
     (\<forall>k l q r. hm_get (rc_records st) k = Some q \<longrightarrow> hm_get (rc_records st) l = Some r \<longrightarrow>
        jrec_epair_ordinal q = jrec_epair_ordinal r \<longrightarrow> k = l)"

text \<open>What applying does once the spec has passed its checks, and that nothing happens when it has not.\<close>

definition spec_ok :: "'s agent \<Rightarrow> jail_spec \<Rightarrow> bool" where
  "spec_ok ag spec \<longleftrightarrow> is_ok (validate_name (md_name (js_metadata spec))) \<and>
     is_ok (validate_address (ag_api ag) (ns_address (sp_network (js_spec spec)))) \<and>
     is_ok (parse_cpu_cores (rs_cpu (sp_resources (js_spec spec)))) \<and>
     is_ok (parse_memory_bytes (rs_memory (sp_resources (js_spec spec))))"

definition save_jail :: "'s agent \<Rightarrow> jail_spec \<Rightarrow> nat \<Rightarrow> 's rc \<Rightarrow> (unit, reconcile_error) outcome \<times> 's rc" where
  "save_jail ag spec n st = bindA (on_fs RStore (store_save (jail_codec ag) (ag_state_dir ag) \<lparr>jrec_spec = spec, jrec_epair_ordinal = n\<rparr>))
     (\<lambda>_. modifyA (\<lambda>st. st\<lparr>rc_records := hm_insert (md_name (js_metadata spec)) \<lparr>jrec_spec = spec, jrec_epair_ordinal = n\<rparr> (rc_records st)\<rparr>)) st"

lemma apply_jail_rejects: "\<not> spec_ok ag spec \<Longrightarrow> \<exists>e. apply_jail ag spec st = (Exn e, st)"
  by (cases "validate_name (md_name (js_metadata spec))";
      cases "validate_address (ag_api ag) (ns_address (sp_network (js_spec spec)))";
      cases "parse_cpu_cores (rs_cpu (sp_resources (js_spec spec)))";
      cases "parse_memory_bytes (rs_memory (sp_resources (js_spec spec)))")
     (simp_all add: spec_ok_def apply_jail_def bindA_def checkA_def Let_def)

lemma apply_jail_valid:
  assumes "spec_ok ag spec"
  shows "apply_jail ag spec st = (case hm_get (rc_records st) (md_name (js_metadata spec)) of
      Some e \<Rightarrow> (case validate_transition (jrec_spec e) spec of
          Ok _ \<Rightarrow> save_jail ag spec (jrec_epair_ordinal e) st | Err x \<Rightarrow> (Exn (RInvalidSpec x), st))
    | None \<Rightarrow> save_jail ag spec (rc_next_epair_ordinal st) (st\<lparr>rc_next_epair_ordinal := u32_succ (rc_next_epair_ordinal st)\<rparr>))"
  using assms unfolding spec_ok_def is_ok_iff save_jail_def
  by (auto simp: apply_jail_def bindA_def checkA_def getA_def modifyA_def returnA_def Let_def split: option.split result.split)

lemma save_jail_cases:
  assumes "save_jail ag spec n st = (res, st')"
  shows "(\<exists>e. res = Exn e) \<and> rc_records st' = rc_records st \<and> rc_next_epair_ordinal st' = rc_next_epair_ordinal st \<or>
    res = Val () \<and> rc_records st' = hm_insert (md_name (js_metadata spec)) \<lparr>jrec_spec = spec, jrec_epair_ordinal = n\<rparr> (rc_records st) \<and>
    rc_next_epair_ordinal st' = rc_next_epair_ordinal st"
proof -
  obtain x d where e: "store_save (jail_codec ag) (ag_state_dir ag) \<lparr>jrec_spec = spec, jrec_epair_ordinal = n\<rparr> (rc_fs st) = (x, d)"
    by (metis surj_pair)
  have "x \<noteq> Panic" using store_save_files [OF e] by blast
  with assms show ?thesis by (cases x) (auto simp: save_jail_def on_fs_def act_defs e)
qed

lemma apply_jail_cases:
  assumes "apply_jail ag spec st = (res, st')"
  shows "(\<exists>e. res = Exn e) \<and> rc_records st' = rc_records st \<and>
      rc_next_epair_ordinal st' \<in> {rc_next_epair_ordinal st, u32_succ (rc_next_epair_ordinal st)} \<or>
    (\<exists>n. res = Val () \<and> rc_records st' = hm_insert (md_name (js_metadata spec)) \<lparr>jrec_spec = spec, jrec_epair_ordinal = n\<rparr> (rc_records st) \<and>
      (case hm_get (rc_records st) (md_name (js_metadata spec)) of
         None \<Rightarrow> n = rc_next_epair_ordinal st \<and> rc_next_epair_ordinal st' = u32_succ n
       | Some e \<Rightarrow> n = jrec_epair_ordinal e \<and> rc_next_epair_ordinal st' = rc_next_epair_ordinal st))"
proof (cases "spec_ok ag spec")
  case False
  with assms show ?thesis using apply_jail_rejects [of ag spec st] by auto
next
  case True
  show ?thesis
    using assms unfolding apply_jail_valid [OF True]
    by (auto split: option.splits result.splits dest!: save_jail_cases)
qed

text \<open>Applying a jail never gives two jails the same epair number, as long as the 32-bit counter does
  not wrap, and keeps the number of a jail that is applied again.\<close>

lemma apply_keeps_epairs_distinct:
  assumes "ordinals_ok st" "rc_next_epair_ordinal st < u32_max" "apply_jail ag spec st = (res, st')"
  shows "ordinals_ok st' \<and>
    (\<forall>k q r. hm_get (rc_records st) k = Some q \<and> hm_get (rc_records st') k = Some r \<longrightarrow>
       jrec_epair_ordinal r = jrec_epair_ordinal q)"
proof -
  have s: "u32_succ (rc_next_epair_ordinal st) = Suc (rc_next_epair_ordinal st)" using assms(2) by (simp add: u32_succ_def)
  show ?thesis
    using apply_jail_cases [OF assms(3)] assms(1) s
    by (cases "hm_get (rc_records st) (md_name (js_metadata spec))")
       (fastforce simp: ordinals_ok_def split: if_splits)+
qed

section \<open>Attempts are spaced\<close>

lemma reconcile_one_cooling:
  assumes "hm_get (rc_records st) name = Some r" "hm_get (rc_backoff st) name = Some b" "\<not> can_retry b now"
  shows "reconcile_one ag now name st = (Val (), st)"
  using assms by (simp add: reconcile_one_def act_defs update_triv)

text \<open>Operations on the host leave the rest of the reconciler alone.\<close>

definition host_blind :: "('s rc \<Rightarrow> bool) \<Rightarrow> bool" where
  "host_blind P \<longleftrightarrow> (\<forall>s h. P (s\<lparr>rc_host := h\<rparr>) = P s)"

lemma keepsA_on_host: "host_blind P \<Longrightarrow> keepsA P (on_host f m)"
  by (auto simp: keepsA_def on_host_def act_defs host_blind_def split: prod.splits outcome.splits)

lemma keepsA_provision: 
  assumes h: "host_blind P"
  shows "keepsA P (provision ag name r)" "keepsA P (restart ag name r)" "keepsA P (rollback_provision ag name r)"
  unfolding provision_def restart_def rollback_provision_def configure_networking_and_limits_def provision_volume_def Let_def
  by (intro inv_intros keepsA_on_host [OF h])+

lemma can_retry_new: "can_retry backoff_new now"
  by (simp add: can_retry_def backoff_new_def)

lemma attempt_records:
  assumes "hm_get (rc_backoff st) name = Some b"
  shows "jail_attempt name now st = (Val (), st\<lparr>rc_backoff := hm_insert name (record_attempt now b) (rc_backoff st)\<rparr>)"
  using assms by (simp add: jail_attempt_def act_defs)

text \<open>A pass over a jail that is missing: the attempt is recorded, and either every call of building it was
  made and succeeded, or what is there of it was taken down again and the error is the result.\<close>

definition attempted :: "instant \<Rightarrow> string \<Rightarrow> (string, backoff_state) hmap \<Rightarrow> (string, backoff_state) hmap" where
  "attempted now name m = (let b = (case hm_get m name of Some b \<Rightarrow> b | None \<Rightarrow> backoff_new)
     in hm_insert name (record_attempt now b) (hm_insert name b m))"

lemma reconcile_one_absent:
  assumes g: "hm_get (rc_records st) name = Some r"
    and b: "\<forall>b. hm_get (rc_backoff st) name = Some b \<longrightarrow> can_retry b now"
    and e: "jr_jail_exists (jr ag) (jail_name name) (rc_host st) = (Val False, h)"
  shows "\<exists>s1. rc_host s1 = h \<and> reconcile_one ag now name st = (case provision ag name r s1 of (p, s2) \<Rightarrow>
    (let s3 = st\<lparr>rc_host := rc_host s2, rc_backoff := attempted now name (rc_backoff st)\<rparr> in case p of
        Val _ \<Rightarrow> (Val (), s3)
      | Exn x \<Rightarrow> (case rollback_provision ag name r s3 of (q, s4) \<Rightarrow> (if q = Panic then Panic else Exn x, s4))
      | Panic \<Rightarrow> (Panic, s2)))"
proof -
  define b where "b = (case hm_get (rc_backoff st) name of Some b \<Rightarrow> b | None \<Rightarrow> backoff_new)"
  have cr: "can_retry b now" using assms(2) by (auto simp: b_def can_retry_new split: option.splits)
  let ?bo = "hm_insert name b (rc_backoff st)"
  let ?s1 = "st\<lparr>rc_backoff := ?bo, rc_host := h\<rparr>" and ?s3 = "\<lambda>h. st\<lparr>rc_host := h, rc_backoff := attempted now name (rc_backoff st)\<rparr>"
  let ?P = "\<lambda>s. s\<lparr>rc_host := h\<rparr> = ?s1"
  have hb: "host_blind ?P" by (simp add: host_blind_def)
  obtain p s2 where p: "provision ag name r ?s1 = (p, s2)" by (metis surj_pair)
  have P: "?P s2" using keepsAE [OF keepsA_provision(1) [OF hb] p] by simp
  from arg_cong [OF P, of rc_backoff] have bo: "rc_backoff s2 = ?bo" by simp
  from arg_cong [OF P, of "rc_host_update (\<lambda>_. rc_host s2)"] have s2: "s2 = st\<lparr>rc_backoff := ?bo, rc_host := rc_host s2\<rparr>" by simp
  from bo have "hm_get (rc_backoff s2) name = Some b" by simp
  note a = attempt_records [OF this, of now]
  have s3: "s2\<lparr>rc_backoff := hm_insert name (record_attempt now b) (rc_backoff s2)\<rparr> = ?s3 (rc_host s2)"
    unfolding bo using arg_cong [OF s2, of "rc_backoff_update (\<lambda>_. attempted now name (rc_backoff st))"] by (simp add: attempted_def b_def Let_def)
  have start: "reconcile_one ag now name st =
      bindA (resultA (provision ag name r)) (\<lambda>result. bindA (jail_attempt name now) (\<lambda>_.
        bindA (if is_ok result then returnA () else rollback_provision ag name r) (\<lambda>_. checkA id result))) ?s1"
    using g cr e by (simp add: reconcile_one_def on_host_def act_defs b_def)
  show ?thesis
    by (rule exI [of _ ?s1]) (use p start a s3 in \<open>auto simp: act_defs Let_def dest: rollback_makes_calls split: outcome.splits prod.splits\<close>)
qed

text \<open>C34: An agent on any lawful host finds a jail missing and builds it. Either every call of building
  it succeeded, or the error with which building stopped is what the pass reports, after each call that takes
  down what is there of the jail was made: its network, the jail, its mounts, its dataset, its limits. In both cases nothing is tried
  again for this jail for a second: until then a pass changes nothing for it.\<close>

theorem provision_arms_cooldown:
  assumes "agent_host ag D V" "agent_inv ag D V st" "hm_get (rc_records st) name = Some r"
    and "\<forall>b. hm_get (rc_backoff st) name = Some b \<longrightarrow> backoff_inv b \<and> can_retry b now"
    and "jr_jail_exists (jr ag) (jail_name name) (rc_host st) = (Val False, h)"
    and "reconcile_one ag now name st = (res, st')"
  shows "(res = Val () \<and> built ag name r h (rc_host st') \<or>
      (\<exists>e s1 s2. res = Exn e \<and> rc_host s1 = h \<and> provision ag name r s1 = (Exn e, s2) \<and>
         rc_host st' = snd (host_calls (ag_ops ag) (teardown_calls (ag_pool ag) name r) (rc_host s2)))) \<and>
    rc_records st' = rc_records st \<and>
    (\<forall>t < now + INITIAL_DELAY. reconcile_one ag t name st' = (Val (), st'))"
proof -
  define b where "b = (case hm_get (rc_backoff st) name of Some b \<Rightarrow> b | None \<Rightarrow> backoff_new)"
  have b: "backoff_inv b" "\<forall>b. hm_get (rc_backoff st) name = Some b \<longrightarrow> can_retry b now"
    using assms(4) by (auto simp: b_def backoff_inv_new split: option.splits)
  have "name \<in> fst ` set (rc_records st)" using assms(3) by (force dest: map_of_SomeD)
  from agent_host.safe_reconcile_one [OF assms(1) this, of now] assms(2,6) have np: "res \<noteq> Panic"
    by (auto simp: safeA_def dest!: spec [of _ st])
  obtain cores mem where ok: "parse_cpu_cores (rs_cpu (sp_resources (js_spec (jrec_spec r)))) = Ok cores"
    "parse_memory_bytes (rs_memory (sp_resources (js_spec (jrec_spec r)))) = Ok mem"
    using rc_inv_record [of ag st name r] assms(2,3) by (auto simp: agent_inv_def valid_record_def is_ok_iff)
  let ?s3 = "\<lambda>h. st\<lparr>rc_host := h, rc_backoff := attempted now name (rc_backoff st)\<rparr>"
  have "\<not> can_retry (record_attempt now b) t" if "t < now + INITIAL_DELAY" for t
    using b(1) that by (auto simp: backoff_inv_def record_attempt_def can_retry_def backoff_defs Let_def split: option.splits if_splits)
  then have cool: "\<forall>t < now + INITIAL_DELAY. reconcile_one ag t name (?s3 h') = (Val (), ?s3 h')" for h'
    using assms(3) by (auto simp: attempted_def b_def Let_def intro!: reconcile_one_cooling)
  obtain s1 where s1: "rc_host s1 = h" "reconcile_one ag now name st = (case provision ag name r s1 of (p, s2) \<Rightarrow>
      (let s3 = ?s3 (rc_host s2) in case p of Val _ \<Rightarrow> (Val (), s3)
        | Exn x \<Rightarrow> (case rollback_provision ag name r s3 of (q, s4) \<Rightarrow> (if q = Panic then Panic else Exn x, s4))
        | Panic \<Rightarrow> (Panic, s2)))"
    using reconcile_one_absent [OF assms(3) b(2) assms(5)] by blast
  obtain p s2 where p: "provision ag name r s1 = (p, s2)" by fastforce
  show ?thesis
  proof (cases p)
    case (Val u)
    then have "built ag name r h (rc_host s2)" using p s1(1) by (auto simp: provision_iff [OF ok])
    with Val p s1(2) assms(6) cool show ?thesis by (auto simp: Let_def)
  next
    case (Exn x)
    obtain q s4 where q: "rollback_provision ag name r (?s3 (rc_host s2)) = (q, s4)" by fastforce
    with s1(2) p Exn assms(6) np have r: "q \<noteq> Panic" "res = Exn x" "st' = s4" by (auto simp: Let_def split: if_splits)
    note t = rollback_makes_calls [OF q r(1)]
    from t r(3) have "st' = ?s3 (rc_host st')" by simp
    with cool [of "rc_host st'"] have "\<forall>t < now + INITIAL_DELAY. reconcile_one ag t name st' = (Val (), st')" by metis
    with t r s1(1) p Exn show ?thesis by auto
  qed (use p s1(2) assms(6) np in simp)
qed

lemma aex_apply:
  "apply_jail (aex_agent ipnet_ref) (aex_spec ''10.0.1.2/24'') aex_rc =
     (Val (), aex_rc\<lparr>rc_records := [(''j'', \<lparr>jrec_spec = aex_spec ''10.0.1.2/24'', jrec_epair_ordinal = 1\<rparr>)],
       rc_next_epair_ordinal := 2, rc_fs := \<lparr>fs_files = [((''s'', ''j.yaml''), ''j'')], fs_dirs = {''s''}, fs_clock = 3, fs_fault = \<lambda>_. None\<rparr>\<rparr>)"
proof -
  have "spec_ok (aex_agent ipnet_ref) (aex_spec ''10.0.1.2/24'')"
    by (auto simp: spec_ok_def aex_spec_def aex_agent_def aex_resources is_ok_iff validate_name_Ok_iff is_ascii_lowercase_def
        validate_address_def ipnet_ref_def aex_address)
  then show ?thesis
    by (subst apply_jail_valid) (simp_all add: aex_rc_def save_jail_def on_fs_def store_save_def create_dir_all_def fs_write_def
        fs_rename_def fs_try_def fs_put_def act_defs aex_agent_def aex_fs_def jail_codec_def spec_name_of_def aex_spec_def
        tmp_file_def yaml_file_def u32_succ_def)
qed

definition applied_rc :: "fake_host rc" where
  "applied_rc = snd (apply_jail (aex_agent ipnet_ref) (aex_spec ''10.0.1.2/24'') aex_rc)"

lemma applied_inv: "agent_inv (aex_agent ipnet_ref) fk_datasets {volume_dataset_path ''p'' ''v''} applied_rc"
proof -
  have "harmless (aex_agent ipnet_ref) {volume_dataset_path ''p'' ''v''} (AApply (aex_spec ''10.0.1.2/24''))"
    by (auto simp: aex_agent_def ipnet_ref_def split: result.splits)
  from exa.safe_apply [OF this] aex_inv [of ipnet_ref] show ?thesis
    by (auto simp: safeA_def applied_rc_def aex_aw_def)
qed

text \<open>The same agent on a host without the image of the jail.\<close>

definition bare_rc :: "fake_host rc" where
  "bare_rc = applied_rc\<lparr>rc_host := aex_host\<lparr>fk_datasets := {''p/keel/volumes/v''}\<rparr>\<rparr>"

theorem provision_arms_cooldown_witness:
  "\<exists>st'. reconcile_one (aex_agent ipnet_ref) 0 ''j'' bare_rc = (Exn (RBaseImageNotFound ''p/keel/b''), st') \<and>
     rc_host st' = snd (host_calls (ag_ops (aex_agent ipnet_ref))
       (teardown_calls ''p'' ''j'' \<lparr>jrec_spec = aex_spec ''10.0.1.2/24'', jrec_epair_ordinal = 1\<rparr>) (rc_host bare_rc)) \<and>
     reconcile_one (aex_agent ipnet_ref) 999999999 ''j'' st' = (Val (), st')"
proof -
  let ?r = "\<lparr>jrec_spec = aex_spec ''10.0.1.2/24'', jrec_epair_ordinal = 1\<rparr>" and ?ag = "aex_agent ipnet_ref"
  obtain res st' where e: "reconcile_one ?ag 0 ''j'' bare_rc = (res, st')" by (metis surj_pair)
  have g: "hm_get (rc_records bare_rc) ''j'' = Some ?r" "\<forall>b. hm_get (rc_backoff bare_rc) ''j'' = Some b \<longrightarrow> backoff_inv b \<and> can_retry b 0"
    "jr_jail_exists (jr ?ag) (jail_name ''j'') (rc_host bare_rc) = (Val False, rc_host bare_rc)"
    unfolding bare_rc_def applied_rc_def aex_apply
    by (simp_all add: aex_rc_def aex_agent_def fake_host_ops_def fake_jail_exists_def act_defs aex_host_def)
  have i: "agent_inv ?ag fk_datasets {volume_dataset_path ''p'' ''v''} bare_rc"
    using applied_inv by (simp add: agent_inv_def bare_rc_def volume_dataset_path_def)
  have p: "provision ?ag ''j'' ?r s = (Exn (RBaseImageNotFound ''p/keel/b''), s)" if "rc_host s = rc_host bare_rc" for s
    using that by (simp add: provision_def Let_def on_host_def act_defs aex_agent_def fake_host_ops_def fake_dataset_exists_def bare_rc_def
        aex_spec_def base_dataset_path_def)
  have b: "\<not> built ?ag ''j'' ?r (rc_host bare_rc) h'" for h'
    by (auto simp: built_def build_calls_def build_replies_def Let_def aex_agent_def fake_host_ops_def fake_dataset_exists_def act_defs bare_rc_def
        aex_spec_def base_dataset_path_def)
  from provision_arms_cooldown [OF exa.agent_host_axioms i g e] b p e show ?thesis
    by (auto simp: INITIAL_DELAY_def from_secs_def aex_agent_def)
qed

section \<open>What a pass achieves\<close>

text \<open>A jail is up on the in-memory host: it runs with the resources, the network and the volumes its
  record asks for.\<close>

definition jail_up :: "fake_host agent \<Rightarrow> string \<Rightarrow> jail_record \<Rightarrow> fake_host \<Rightarrow> bool" where
  "jail_up ag name r h \<longleftrightarrow>
     (let sp = js_spec (jrec_spec r); rootfs = jail_rootfs_path (ag_pool ag) name in
      (\<exists>c m. parse_cpu_cores (rs_cpu (sp_resources sp)) = Ok c \<and> parse_memory_bytes (rs_memory (sp_resources sp)) = Ok m \<and>
        hm_get (fk_jails h) (jail_name name) = Some \<lparr>fj_rootfs = rootfs, fj_vnet = ns_vnet (sp_network sp), fj_running = True,
          fj_pcpu_percent = Some (cores_to_pcpu_percent c), fj_memory_bytes = Some m, fj_fail_start = False\<rparr>) \<and>
      jail_dataset_path (ag_pool ag) name \<in> fk_datasets h \<and>
      (\<forall>v \<in> set (sp_volumes sp). volume_dataset_path (ag_pool ag) (vm_name v) \<in> fk_datasets h \<and> mount_target rootfs v \<in> fk_mounted h) \<and>
      hm_get (fk_attachments h) (epair_base_name (jrec_epair_ordinal r)) =
        Some (jail_name name, ns_bridge (sp_network sp), ns_address (sp_network sp)))"

lemma fake_volume:
  assumes "ag_ops ag = fake_host_ops (ag_api ag)"
  shows "provision_volume ag rootfs v st = (Val (), st\<lparr>rc_host := (rc_host st)\<lparr>
    fk_datasets := insert (volume_dataset_path (ag_pool ag) (vm_name v)) (fk_datasets (rc_host st)),
    fk_mounted := insert (mount_target rootfs v) (fk_mounted (rc_host st))\<rparr>\<rparr>)"
  by (simp add: provision_volume_def Let_def assms fake_host_ops_def fake_defs on_host_def act_defs insert_absorb)

lemma fake_volumes:
  assumes "ag_ops ag = fake_host_ops (ag_api ag)"
  shows "forA vs (provision_volume ag rootfs) st = (Val (), st\<lparr>rc_host := (rc_host st)\<lparr>
    fk_datasets := fk_datasets (rc_host st) \<union> (\<lambda>v. volume_dataset_path (ag_pool ag) (vm_name v)) ` set vs,
    fk_mounted := fk_mounted (rc_host st) \<union> mount_target rootfs ` set vs\<rparr>\<rparr>)"
  by (induction vs arbitrary: st) (simp_all add: fake_volume [OF assms] returnA_def bindA_def)

lemma fake_configure:
  assumes "ag_ops ag = fake_host_ops (ag_api ag)" "api_parse_ipv4net (ag_api ag) (ns_address (sp_network (js_spec (jrec_spec r)))) = Ok net"
    and "parse_cpu_cores (rs_cpu (sp_resources (js_spec (jrec_spec r)))) = Ok c"
    and "parse_memory_bytes (rs_memory (sp_resources (js_spec (jrec_spec r)))) = Ok m"
    and "hm_get (fk_jails (rc_host st)) (jail_name name) = Some j"
  shows "\<exists>h. configure_networking_and_limits ag name r st = (Val (), st\<lparr>rc_host := h\<rparr>) \<and>
    fk_jails h = hm_insert (jail_name name) (j\<lparr>fj_pcpu_percent := Some (cores_to_pcpu_percent c), fj_memory_bytes := Some m\<rparr>) (fk_jails (rc_host st)) \<and>
    fk_attachments h = hm_insert (epair_base_name (jrec_epair_ordinal r)) (jail_name name, ns_bridge (sp_network (js_spec (jrec_spec r))),
      ns_address (sp_network (js_spec (jrec_spec r)))) (fk_attachments (rc_host st)) \<and>
    fk_datasets h = fk_datasets (rc_host st) \<and> fk_mounted h = fk_mounted (rc_host st)"
  using assms(2-)
  by (simp add: configure_networking_and_limits_def Let_def assms(1) fake_host_ops_def fake_defs on_host_def act_defs)
     (rule exI, rule conjI, rule refl, simp)

lemma fake_provision:
  assumes f: "ag_ops ag = fake_host_ops (ag_api ag)" and a: "api_parse_ipv4net (ag_api ag) (ns_address (sp_network (js_spec (jrec_spec r)))) = Ok net"
    and c: "parse_cpu_cores (rs_cpu (sp_resources (js_spec (jrec_spec r)))) = Ok c"
    and m: "parse_memory_bytes (rs_memory (sp_resources (js_spec (jrec_spec r)))) = Ok m"
    and i: "base_dataset_path (ag_pool ag) (sp_image (js_spec (jrec_spec r))) \<in> fk_datasets (rc_host st)"
  shows "\<exists>h. provision ag name r st = (Val (), st\<lparr>rc_host := h\<rparr>) \<and> jail_up ag name r h \<and>
    fk_datasets (rc_host st) \<subseteq> fk_datasets h \<and> (\<forall>n. n \<noteq> jail_name name \<longrightarrow> hm_get (fk_jails h) n = hm_get (fk_jails (rc_host st)) n)"
proof -
  let ?sp = "js_spec (jrec_spec r)" and ?rootfs = "jail_rootfs_path (ag_pool ag) name"
  let ?j = "\<lparr>fj_rootfs = ?rootfs, fj_vnet = ns_vnet (sp_network ?sp), fj_running = False, fj_pcpu_percent = None,
    fj_memory_bytes = None, fj_fail_start = False\<rparr>"
  define h1 where "h1 = (rc_host st)\<lparr>fk_jails := hm_insert (jail_name name) ?j (fk_jails (rc_host st)),
    fk_datasets := insert (jail_dataset_path (ag_pool ag) name) (fk_datasets (rc_host st))
      \<union> (\<lambda>v. volume_dataset_path (ag_pool ag) (vm_name v)) ` set (sp_volumes ?sp),
    fk_mounted := fk_mounted (rc_host st) \<union> mount_target ?rootfs ` set (sp_volumes ?sp)\<rparr>"
  have "hm_get (fk_jails (rc_host (st\<lparr>rc_host := h1\<rparr>))) (jail_name name) = Some ?j" by (simp add: h1_def)
  from fake_configure [OF f a c m this] obtain h2 where
    h2: "configure_networking_and_limits ag name r (st\<lparr>rc_host := h1\<rparr>) = (Val (), st\<lparr>rc_host := h2\<rparr>)"
    "fk_jails h2 = hm_insert (jail_name name) (?j\<lparr>fj_pcpu_percent := Some (cores_to_pcpu_percent c), fj_memory_bytes := Some m\<rparr>) (fk_jails h1)"
    "fk_attachments h2 = hm_insert (epair_base_name (jrec_epair_ordinal r)) (jail_name name, ns_bridge (sp_network ?sp), ns_address (sp_network ?sp)) (fk_attachments h1)"
    "fk_datasets h2 = fk_datasets h1" "fk_mounted h2 = fk_mounted h1" by auto
  have "provision ag name r st = bindA (configure_networking_and_limits ag name r) (\<lambda>_.
      on_host RJail (jr_start_command (jr ag) (jail_name name) (sp_command ?sp))) (st\<lparr>rc_host := h1\<rparr>)"
    using i unfolding provision_def Let_def
    by (simp add: f fake_host_ops_def fake_dataset_exists_def fake_clone_from_base_def fake_jail_create_def on_host_def
        returnA_def failA_def bindA_def getA_def modifyA_def map_exnA_def zoomA_def fake_volumes [OF f, unfolded on_host_def] h1_def)
  then show ?thesis
    using h2 c m
    by (simp add: f fake_host_ops_def fake_start_command_def on_host_def bindA_def map_exnA_def zoomA_def jail_up_def Let_def h1_def) (auto simp: h1_def)
qed

lemma fake_up_stays:
  assumes f: "ag_ops ag = fake_host_ops (ag_api ag)" and up: "jail_up ag name r (rc_host st)"
    and g: "hm_get (rc_records st) name = Some r"
  shows "\<exists>b. reconcile_one ag now name st = (Val (), st\<lparr>rc_backoff := hm_insert name b (rc_backoff st)\<rparr>) \<and>
    (\<forall>b'. hm_get (rc_backoff st) name = Some b' \<longrightarrow> b = b')"
proof -
  obtain c m j where j: "parse_cpu_cores (rs_cpu (sp_resources (js_spec (jrec_spec r)))) = Ok c"
    "parse_memory_bytes (rs_memory (sp_resources (js_spec (jrec_spec r)))) = Ok m"
    "hm_get (fk_jails (rc_host st)) (jail_name name) = Some j" "fj_running j"
    "j\<lparr>fj_pcpu_percent := Some (cores_to_pcpu_percent c), fj_memory_bytes := Some m\<rparr> = j"
    using up by (auto simp: jail_up_def Let_def)
  have "hm_insert (jail_name name) j (fk_jails (rc_host st)) = fk_jails (rc_host st)"
    using j(3) by (rule update_triv)
  then show ?thesis
    using g j
    by (auto simp: reconcile_one_def f fake_host_ops_def fake_jail_exists_def fake_is_running_def fake_set_resource_limits_def
        on_host_def act_defs split: option.splits)
qed

text \<open>On the in-memory host, where every call is answered, a pass over a jail that is missing brings it up with the
  limits, the network and the volumes of its record; no dataset disappears, no other jail changes, and a later
  pass leaves the host exactly as it is.\<close>

lemma in_memory_brings_up:
  assumes "ag_ops ag = fake_host_ops (ag_api ag)" "hm_get (rc_records st) name = Some r" "valid_record ag r"
    and "api_parse_ipv4net (ag_api ag) (ns_address (sp_network (js_spec (jrec_spec r)))) = Ok net"
    and "base_dataset_path (ag_pool ag) (sp_image (js_spec (jrec_spec r))) \<in> fk_datasets (rc_host st)"
    and "hm_get (fk_jails (rc_host st)) (jail_name name) = None"
    and "\<forall>b. hm_get (rc_backoff st) name = Some b \<longrightarrow> can_retry b now"
  shows "\<exists>st'. reconcile_one ag now name st = (Val (), st') \<and> jail_up ag name r (rc_host st') \<and>
    fk_datasets (rc_host st) \<subseteq> fk_datasets (rc_host st') \<and>
    (\<forall>n. n \<noteq> jail_name name \<longrightarrow> hm_get (fk_jails (rc_host st')) n = hm_get (fk_jails (rc_host st)) n) \<and>
    (\<forall>later. \<exists>st''. reconcile_one ag later name st' = (Val (), st'') \<and> rc_host st'' = rc_host st')"
proof -
  define b where "b = (case hm_get (rc_backoff st) name of Some b \<Rightarrow> b | None \<Rightarrow> backoff_new)"
  let ?s1 = "st\<lparr>rc_backoff := hm_insert name b (rc_backoff st)\<rparr>"
  have b: "can_retry b now" using assms(7) by (auto simp: b_def can_retry_new split: option.splits)
  obtain c m where "parse_cpu_cores (rs_cpu (sp_resources (js_spec (jrec_spec r)))) = Ok c"
    "parse_memory_bytes (rs_memory (sp_resources (js_spec (jrec_spec r)))) = Ok m"
    using assms(3) by (auto simp: valid_record_def is_ok_iff)
  from fake_provision [OF assms(1,4) this, of ?s1 name] assms(5) obtain h where
    h: "provision ag name r ?s1 = (Val (), ?s1\<lparr>rc_host := h\<rparr>)" "jail_up ag name r h" "fk_datasets (rc_host st) \<subseteq> fk_datasets h"
    "\<forall>n. n \<noteq> jail_name name \<longrightarrow> hm_get (fk_jails h) n = hm_get (fk_jails (rc_host st)) n" by auto
  let ?s2 = "st\<lparr>rc_host := h, rc_backoff := hm_insert name (record_attempt now b) (hm_insert name b (rc_backoff st))\<rparr>"
  have start: "reconcile_one ag now name st =
      bindA (resultA (provision ag name r)) (\<lambda>result. bindA (jail_attempt name now) (\<lambda>_.
        bindA (if is_ok result then returnA () else rollback_provision ag name r) (\<lambda>_. checkA id result))) ?s1"
    using assms(1,2,6) b by (simp add: reconcile_one_def b_def on_host_def act_defs fake_host_ops_def fake_jail_exists_def)
  have "reconcile_one ag now name st = (Val (), ?s2)"
    unfolding start by (simp add: act_defs h(1) jail_attempt_def)
  moreover have "\<exists>st''. reconcile_one ag later name ?s2 = (Val (), st'') \<and> rc_host st'' = rc_host ?s2" for later
    using fake_up_stays [OF assms(1), of name r ?s2 later] h(2) assms(2) by auto
  ultimately show ?thesis using h by (intro exI [of _ ?s2]) simp
qed

text \<open>C12: On any host, a pass over a jail that the host says is missing (and whose cooldown is over) succeeds
  exactly when each call of building it succeeds, in this order and with the arguments of its record: the image's dataset is there and
  is cloned, the jail is created on the clone, each volume is created unless it is there and mounted unless it
  is mounted, the bridge is made, the jail attached to it with the record's address and epair, its limits are set and the record's command is started.
  The pass then has made no other call, and it has changed nothing but the host and the cooldown of this jail.\<close>

theorem reconcile_one_brings_up:
  assumes "hm_get (rc_records st) name = Some r" "valid_record ag r"
    and "\<forall>b. hm_get (rc_backoff st) name = Some b \<longrightarrow> can_retry b now"
    and "jr_jail_exists (jr ag) (jail_name name) (rc_host st) = (Val False, h)"
  shows "reconcile_one ag now name st = (Val (), st') \<longleftrightarrow>
    (\<exists>h'. built ag name r h h' \<and> st' = st\<lparr>rc_host := h', rc_backoff := attempted now name (rc_backoff st)\<rparr>)"
proof -
  obtain cores mem where ok: "parse_cpu_cores (rs_cpu (sp_resources (js_spec (jrec_spec r)))) = Ok cores"
    "parse_memory_bytes (rs_memory (sp_resources (js_spec (jrec_spec r)))) = Ok mem"
    using assms(2) by (auto simp: valid_record_def is_ok_iff)
  obtain s1 where s1: "rc_host s1 = h" "reconcile_one ag now name st = (case provision ag name r s1 of (p, s2) \<Rightarrow>
      (let s3 = st\<lparr>rc_host := rc_host s2, rc_backoff := attempted now name (rc_backoff st)\<rparr> in case p of Val _ \<Rightarrow> (Val (), s3)
        | Exn x \<Rightarrow> (case rollback_provision ag name r s3 of (q, s4) \<Rightarrow> (if q = Panic then Panic else Exn x, s4))
        | Panic \<Rightarrow> (Panic, s2)))"
    using reconcile_one_absent [OF assms(1,3,4)] by blast
  have "reconcile_one ag now name st = (Val (), st') \<longleftrightarrow> (\<exists>s2. provision ag name r s1 = (Val (), s2) \<and>
      st' = st\<lparr>rc_host := rc_host s2, rc_backoff := attempted now name (rc_backoff st)\<rparr>)"
    unfolding s1(2) by (auto simp: Let_def split: prod.splits outcome.splits)
  then show ?thesis unfolding provision_iff [OF ok] s1(1) by auto
qed

theorem reconcile_one_brings_up_witness:
  "\<exists>st'. reconcile_one (aex_agent ipnet_ref) 0 ''j'' applied_rc = (Val (), st') \<and>
     built (aex_agent ipnet_ref) ''j'' \<lparr>jrec_spec = aex_spec ''10.0.1.2/24'', jrec_epair_ordinal = 1\<rparr> aex_host (rc_host st') \<and>
     jail_up (aex_agent ipnet_ref) ''j'' \<lparr>jrec_spec = aex_spec ''10.0.1.2/24'', jrec_epair_ordinal = 1\<rparr> (rc_host st')"
proof -
  let ?r = "\<lparr>jrec_spec = aex_spec ''10.0.1.2/24'', jrec_epair_ordinal = 1\<rparr>" and ?ag = "aex_agent ipnet_ref"
  have f: "ag_ops ?ag = fake_host_ops (ag_api ?ag)" by (simp add: aex_agent_def)
  have g: "hm_get (rc_records applied_rc) ''j'' = Some ?r" "rc_host applied_rc = aex_host" "rc_backoff applied_rc = []"
    unfolding applied_rc_def aex_apply by (simp_all add: aex_rc_def)
  have v: "valid_record ?ag ?r" using rc_inv_record [OF _ g(1)] applied_inv by (auto simp: agent_inv_def)
  have a: "api_parse_ipv4net (ag_api ?ag) (ns_address (sp_network (js_spec (jrec_spec ?r)))) = Ok \<lparr>net_addr = 0x0A000102, net_prefix_len = 24\<rparr>"
    by (simp add: aex_agent_def aex_spec_def ipnet_ref_def aex_address)
  have "base_dataset_path (ag_pool ?ag) (sp_image (js_spec (jrec_spec ?r))) \<in> fk_datasets (rc_host applied_rc)"
    "hm_get (fk_jails (rc_host applied_rc)) (jail_name ''j'') = None"
    and c: "\<forall>b. hm_get (rc_backoff applied_rc) ''j'' = Some b \<longrightarrow> can_retry b 0"
    by (simp_all add: g aex_agent_def aex_spec_def aex_host_def base_dataset_path_def)
  from in_memory_brings_up [OF f g(1) v a this] obtain st' where
    st': "reconcile_one ?ag 0 ''j'' applied_rc = (Val (), st')" "jail_up ?ag ''j'' ?r (rc_host st')" by blast
  have "jr_jail_exists (jr ?ag) (jail_name ''j'') (rc_host applied_rc) = (Val False, aex_host)"
    by (simp add: g aex_agent_def fake_host_ops_def fake_jail_exists_def act_defs aex_host_def)
  from reconcile_one_brings_up [OF g(1) v c this, of st'] st' show ?thesis by auto
qed

section \<open>Deleting a jail\<close>

lemma fake_unmounts:
  assumes "ag_ops ag = fake_host_ops (ag_api ag)"
  shows "forA vs (\<lambda>v. on_host RMount (tolerateA is_not_mounted (mm_unmount (mm ag) (mount_target rootfs v)))) st =
    (Val (), st\<lparr>rc_host := (rc_host st)\<lparr>fk_mounted := fk_mounted (rc_host st) - mount_target rootfs ` set vs\<rparr>\<rparr>)"
proof (induction vs arbitrary: st)
  case (Cons v vs)
  have "on_host RMount (tolerateA is_not_mounted (mm_unmount (mm ag) (mount_target rootfs v))) st =
      (Val (), st\<lparr>rc_host := (rc_host st)\<lparr>fk_mounted := fk_mounted (rc_host st) - {mount_target rootfs v}\<rparr>\<rparr>)"
    by (simp add: assms fake_host_ops_def fake_unmount_def on_host_def act_defs)
  with Cons show ?case by (simp add: bindA_def Diff_insert2 [symmetric])
qed (simp add: returnA_def)

text \<open>On the in-memory host the jail is gone with its dataset, its network and its mounts, and all else is as it was.\<close>

definition torn_down :: "fake_host agent \<Rightarrow> string \<Rightarrow> jail_record \<Rightarrow> fake_host \<Rightarrow> fake_host \<Rightarrow> bool" where
  "torn_down ag name r h h' \<longleftrightarrow>
     hm_get (fk_jails h') = (hm_get (fk_jails h))(jail_name name := None) \<and>
     fk_datasets h' = fk_datasets h - {jail_dataset_path (ag_pool ag) name} \<and>
     hm_get (fk_attachments h') = (hm_get (fk_attachments h))(epair_base_name (jrec_epair_ordinal r) := None) \<and>
     fk_mounted h' = fk_mounted h - mount_target (jail_rootfs_path (ag_pool ag) name) ` set (sp_volumes (js_spec (jrec_spec r))) \<and>
     h' = h\<lparr>fk_jails := fk_jails h', fk_datasets := fk_datasets h', fk_attachments := fk_attachments h', fk_mounted := fk_mounted h'\<rparr>"

lemma fake_delete:
  assumes f: "ag_ops ag = fake_host_ops (ag_api ag)" and g: "hm_get (rc_records st) name = Some r"
  shows "\<exists>h. if jail_dataset_path (ag_pool ag) name \<in> fk_busy (rc_host st)
    then delete_jail ag name st = (Exn (RZfs (ZBusy (jail_dataset_path (ag_pool ag) name))), st\<lparr>rc_host := h\<rparr>)
    else torn_down ag name r (rc_host st) h \<and>
      delete_jail ag name st = bindA (on_fs RStore (store_remove (ag_state_dir ag) name)) (\<lambda>_.
        modifyA (\<lambda>st. st\<lparr>rc_records := hm_remove name (rc_records st), rc_backoff := hm_remove name (rc_backoff st)\<rparr>)) (st\<lparr>rc_host := h\<rparr>)"
proof -
  let ?h = "rc_host st" and ?n = "jail_name name" and ?d = "jail_dataset_path (ag_pool ag) name"
  define h1 where "h1 = ?h\<lparr>fk_attachments := hm_remove (epair_base_name (jrec_epair_ordinal r)) (fk_attachments ?h),
    fk_jails := if hm_get (fk_jails ?h) ?n = None then fk_jails ?h else hm_remove ?n (fk_jails ?h),
    fk_mounted := fk_mounted ?h - mount_target (jail_rootfs_path (ag_pool ag) name) ` set (sp_volumes (js_spec (jrec_spec r)))\<rparr>"
  have j: "hm_get (fk_jails h1) = (hm_get (fk_jails ?h))(?n := None)" by (auto simp: h1_def)
  let ?h0 = "?h\<lparr>fk_attachments := hm_remove (epair_base_name (jrec_epair_ordinal r)) (fk_attachments ?h)\<rparr>"
  let ?h2 = "?h0\<lparr>fk_jails := if hm_get (fk_jails ?h) ?n = None then fk_jails ?h else hm_remove ?n (fk_jails ?h)\<rparr>"
  have s1: "on_host RNet (nm_detach_jail (nm ag) (epair_base_name (jrec_epair_ordinal r))) st = (Val (), st\<lparr>rc_host := ?h0\<rparr>)"
    by (simp add: f fake_host_ops_def fake_detach_jail_def on_host_def act_defs)
  have s2: "on_host RJail (tolerateA is_j_not_found (jr_destroy (jr ag) ?n)) (st\<lparr>rc_host := ?h0\<rparr>) = (Val (), st\<lparr>rc_host := ?h2\<rparr>)"
    by (simp add: f fake_host_ops_def fake_jail_destroy_def on_host_def act_defs)
  have "delete_jail ag name st =
      bindA (on_host RZfs (tolerateA is_z_not_found (zm_destroy_dataset (zm ag) ?d))) (\<lambda>_.
      bindA (on_host RJail (tolerateA is_j_not_found (jr_remove_resource_limits (jr ag) ?n))) (\<lambda>_.
      bindA (on_fs RStore (store_remove (ag_state_dir ag) name)) (\<lambda>_.
        modifyA (\<lambda>st. st\<lparr>rc_records := hm_remove name (rc_records st), rc_backoff := hm_remove name (rc_backoff st)\<rparr>)))) (st\<lparr>rc_host := h1\<rparr>)"
    unfolding delete_jail_def by (simp add: bindA_def getA_def checkA_def g s1 s2 fake_unmounts [OF f] h1_def)
  moreover have "hm_get (fk_jails (h1\<lparr>fk_datasets := D\<rparr>)) ?n = None" for D using j by simp
  ultimately show ?thesis
    by (intro exI [of _ "if ?d \<in> fk_busy ?h then h1 else h1\<lparr>fk_datasets := fk_datasets ?h - {?d}\<rparr>"])
       (auto simp: f fake_host_ops_def fake_destroy_dataset_def fake_remove_resource_limits_def on_host_def act_defs torn_down_def j
         h1_def split: if_splits)
qed

text \<open>What a program keeps unless it succeeds.\<close>

definition fails_keeping :: "('s \<Rightarrow> bool) \<Rightarrow> ('s, unit, 'e) act \<Rightarrow> bool" where
  "fails_keeping P m \<longleftrightarrow> (\<forall>s. P s \<longrightarrow> fst (m s) \<noteq> Val () \<longrightarrow> P (snd (m s)))"

lemma fails_keeping_bind: "keepsA P m \<Longrightarrow> (\<And>x. fails_keeping P (f x)) \<Longrightarrow> fails_keeping P (bindA m f)"
  by (auto simp: fails_keeping_def keepsA_def bindA_def split: prod.splits outcome.splits)

lemma store_remove_map:
  assumes "store_remove d n s = (res, s')"
  shows "hm_get (fs_files s') = (if res = Val () then (hm_get (fs_files s))((d, yaml_file n) := None) else hm_get (fs_files s))"
proof
  fix k
  show "hm_get (fs_files s') k = (if res = Val () then (hm_get (fs_files s))((d, yaml_file n) := None) else hm_get (fs_files s)) k"
    using store_remove_files [OF assms] by (cases k; cases "k = (d, yaml_file n)"; cases "res = Val ()") auto
qed

lemma delete_jail_fails_unchanged:
  assumes "delete_jail ag name st = (res, st')" "res \<noteq> Val ()"
  shows "rc_records st' = rc_records st \<and> hm_get (fs_files (rc_fs st')) = hm_get (fs_files (rc_fs st))"
proof -
  let ?P = "\<lambda>s. rc_records s = rc_records st \<and> hm_get (fs_files (rc_fs s)) = hm_get (fs_files (rc_fs st))"
  have h: "host_blind ?P" by (simp add: host_blind_def)
  have "?P (s\<lparr>rc_fs := d\<rparr>)" if "?P s" "store_remove (ag_state_dir ag) name (rc_fs s) = (x, d)" "x \<noteq> Val ()" for s x d
    using that store_remove_map [OF that(2)] by simp
  then have final: "fails_keeping ?P (bindA (on_fs RStore (store_remove (ag_state_dir ag) name)) (\<lambda>_. modifyA g))" for g
    by (auto simp: fails_keeping_def bindA_def on_fs_def map_exnA_def zoomA_def modifyA_def split: prod.splits outcome.splits)
  have "fails_keeping ?P (delete_jail ag name)"
    unfolding delete_jail_def by (intro final fails_keeping_bind [OF keepsA_on_host [OF h]] fails_keeping_bind [OF keepsA_forA]
        fails_keeping_bind [OF keepsA_basic(4)] fails_keeping_bind [OF keepsA_basic(5)] keepsA_on_host [OF h])
  with assms show ?thesis by (auto simp: fails_keeping_def dest!: spec [of _ st])
qed

text \<open>C13: On any host, the deletion of a recorded jail detaches its network, destroys the jail, unmounts each
  of its volumes, destroys its own dataset and no other, and removes its limits; then the file of its record
  and the record. It succeeds exactly when each of these calls did or found nothing to take down and the file could be removed;
  it makes no other call and changes no other file, record or cooldown. When it does not succeed, the record and every file are as they were, so
  the deletion can be repeated.\<close>

theorem delete_jail_complete:
  assumes "rc_inv ag st" "hm_get (rc_records st) name = Some r" "delete_jail ag name st = (res, st')"
    and "host_calls (ag_ops ag) (teardown_calls (ag_pool ag) name r) (rc_host st) = (as, h)"
  shows "(res = Val () \<longleftrightarrow> list_all settled as \<and> fst (store_remove (ag_state_dir ag) name (rc_fs st)) = Val ()) \<and>
    (if res = Val () then (\<exists>d. st' = st\<lparr>rc_host := h, rc_fs := d, rc_records := hm_remove name (rc_records st),
          rc_backoff := hm_remove name (rc_backoff st)\<rparr> \<and>
        hm_get (fs_files d) = (hm_get (fs_files (rc_fs st)))((ag_state_dir ag, yaml_file name) := None))
      else rc_records st' = rc_records st \<and> hm_get (fs_files (rc_fs st')) = hm_get (fs_files (rc_fs st)) \<and>
        hm_get (fs_files (rc_fs st')) (ag_state_dir ag, yaml_file name) = Some (ag_jail_to_yaml ag r))"
proof -
  have disk: "hm_get (fs_files (rc_fs st)) (ag_state_dir ag, yaml_file name) = Some (ag_jail_to_yaml ag r)"
    using mirrors_get [of "jail_codec ag" "ag_state_dir ag" "rc_records st" "rc_fs st" name] assms(1,2) rc_inv_record [OF assms(1,2)]
    by (auto simp: rc_inv_def valid_record_def validate_name_Ok_iff)
  obtain x d where e: "store_remove (ag_state_dir ag) name (rc_fs st) = (x, d)" by (metis surj_pair)
  have iff: "res = Val () \<longleftrightarrow> list_all settled as \<and> x = Val ()"
    using delete_jail_iff [OF assms(2), of ag] assms(3,4) e by auto
  show ?thesis
  proof (cases "res = Val ()")
    case True
    with assms(3) have "delete_jail ag name st = (Val (), st')" by simp
    with delete_jail_iff [OF assms(2), of ag st'] assms(4) e iff
    have "st' = st\<lparr>rc_host := h, rc_fs := d, rc_records := hm_remove name (rc_records st), rc_backoff := hm_remove name (rc_backoff st)\<rparr>" "x = Val ()"
      by auto
    with store_remove_map [OF e] iff e True show ?thesis by (auto intro!: exI [of _ d])
  next
    case False
    with delete_jail_fails_unchanged [OF assms(3)] disk iff e show ?thesis by auto
  qed
qed

theorem delete_jail_complete_witness:
  "\<exists>res st'. delete_jail (aex_agent ipnet_ref) ''j'' applied_rc = (res, st') \<and> res = Val () \<and> rc_records st' = [] \<and>
     fk_datasets (rc_host st') = fk_datasets aex_host - {''p/keel/jails/j''}"
proof -
  let ?r = "\<lparr>jrec_spec = aex_spec ''10.0.1.2/24'', jrec_epair_ordinal = 1\<rparr>" and ?ag = "aex_agent ipnet_ref"
  have f: "ag_ops ?ag = fake_host_ops (ag_api ?ag)" by (simp add: aex_agent_def)
  have g: "hm_get (rc_records applied_rc) ''j'' = Some ?r" "rc_host applied_rc = aex_host" "rc_records applied_rc = [(''j'', ?r)]"
    unfolding applied_rc_def aex_apply by (simp_all add: aex_rc_def)
  have i: "rc_inv ?ag applied_rc" using applied_inv by (simp add: agent_inv_def)
  obtain res st' where e: "delete_jail ?ag ''j'' applied_rc = (res, st')" by (metis surj_pair)
  obtain as h where c: "host_calls (ag_ops ?ag) (teardown_calls (ag_pool ?ag) ''j'' ?r) (rc_host applied_rc) = (as, h)" by (metis surj_pair)
  have "res = Val () \<and> torn_down ?ag ''j'' ?r (rc_host applied_rc) (rc_host st')"
    using e fake_delete [OF f g(1)] unfolding applied_rc_def aex_apply
    by (auto simp: aex_rc_def aex_host_def on_fs_def store_remove_def fs_remove_file_def fs_try_def act_defs yaml_file_def aex_agent_def split: if_splits)
  with e delete_jail_complete [OF i g(1) e c] g show ?thesis
    by (auto simp: torn_down_def jail_dataset_path_def aex_agent_def)
qed

end
