(* ===== verification/Ag_Replication.thy ===== *)
theory Ag_Replication
  imports Ag_Worker
begin

text \<open>
  Replication of volumes to a standby: the wire format and the receiving side
  (\<open>keel-agentd/src/replication.rs\<close>, \<open>replica_target.rs\<close>), and the loop that a sender runs for
  each replicated jail (\<open>replication_loop.rs\<close>). The two sides are composed over a link that decides
  whether a connection comes about, how much of each message arrives, and what the sender notices
  of a loss. A standby handles one connection at a time here.
\<close>

section \<open>The wire format\<close>

text \<open>\<open>String::from_utf8\<close> accepts the well-formed UTF-8 sequences.\<close>

definition cont :: "char \<Rightarrow> nat \<Rightarrow> nat \<Rightarrow> bool" where
  "cont c lo hi \<longleftrightarrow> lo \<le> of_char c \<and> of_char c \<le> hi"

fun utf8_valid :: "string \<Rightarrow> bool" where
  "utf8_valid [] \<longleftrightarrow> True"
| "utf8_valid (a # s) \<longleftrightarrow>
     (if cont a 0 0x7F then utf8_valid s
      else case s of [] \<Rightarrow> False | b # s1 \<Rightarrow>
        if cont a 0xC2 0xDF then cont b 0x80 0xBF \<and> utf8_valid s1
        else case s1 of [] \<Rightarrow> False | c # s2 \<Rightarrow>
          if cont a 0xE0 0xEF then
            cont b (if of_char a = (0xE0 :: nat) then 0xA0 else 0x80) (if of_char a = (0xED :: nat) then 0x9F else 0xBF) \<and>
            cont c 0x80 0xBF \<and> utf8_valid s2
          else case s2 of [] \<Rightarrow> False | d # s3 \<Rightarrow>
            cont a 0xF0 0xF4 \<and> cont b (if of_char a = (0xF0 :: nat) then 0x90 else 0x80) (if of_char a = (0xF4 :: nat) then 0x8F else 0xBF) \<and>
            cont c 0x80 0xBF \<and> cont d 0x80 0xBF \<and> utf8_valid s3)"

datatype rep_io = RUnexpectedEof | RInvalidData | ROther string

record header =
  hd_replica_name :: string
  hd_snapshot_id :: string
  hd_base_snapshot_id :: "string option"

definition ACK_PROCEED :: nat where "ACK_PROCEED = 0"

definition ACK_NEED_FULL :: nat where "ACK_NEED_FULL = 1"

text \<open>\<open>(n as u32).to_be_bytes()\<close> and back.\<close>

definition u32_be_bytes :: "nat \<Rightarrow> string" where
  "u32_be_bytes n = map (\<lambda>i. char_of (n mod 2 ^ 32 div 256 ^ i mod 256)) [3, 2, 1, 0]"

definition u32_from_be_bytes :: "string \<Rightarrow> nat" where
  "u32_from_be_bytes bs = foldl (\<lambda>n b. n * 256 + of_char b) 0 bs"

definition write_len_prefixed :: "string \<Rightarrow> string" where
  "write_len_prefixed s = u32_be_bytes (length s) @ s"

text \<open>\<open>read_exact\<close> on the bytes a connection still delivers.\<close>

definition read_exact :: "nat \<Rightarrow> string \<Rightarrow> (string \<times> string, rep_io) result" where
  "read_exact n bs = (if length bs < n then Err RUnexpectedEof else Ok (take n bs, drop n bs))"

definition read_len_prefixed :: "string \<Rightarrow> (string \<times> string, rep_io) result" where
  "read_len_prefixed bs =
     and_then (read_exact 4 bs) (\<lambda>(len_buf, bs1).
     and_then (read_exact (u32_from_be_bytes len_buf) bs1) (\<lambda>(buf, bs2).
       if utf8_valid buf then Ok (buf, bs2) else Err RInvalidData))"

definition write_header :: "string \<Rightarrow> string \<Rightarrow> string option \<Rightarrow> string" where
  "write_header replica_name snapshot_id base =
     write_len_prefixed replica_name @ write_len_prefixed snapshot_id @
     (case base of None \<Rightarrow> [char_of (0 :: nat)] | Some b \<Rightarrow> [char_of (1 :: nat)] @ write_len_prefixed b)"

definition read_header :: "string \<Rightarrow> (header \<times> string, rep_io) result" where
  "read_header bs =
     and_then (read_len_prefixed bs) (\<lambda>(replica_name, bs1).
     and_then (read_len_prefixed bs1) (\<lambda>(snapshot_id, bs2).
     and_then (read_exact 1 bs2) (\<lambda>(has_base, bs3).
       if of_char (has_base ! 0) = (0 :: nat)
       then Ok (\<lparr>hd_replica_name = replica_name, hd_snapshot_id = snapshot_id, hd_base_snapshot_id = None\<rparr>, bs3)
       else and_then (read_len_prefixed bs3) (\<lambda>(b, bs4).
         Ok (\<lparr>hd_replica_name = replica_name, hd_snapshot_id = snapshot_id, hd_base_snapshot_id = Some b\<rparr>, bs4)))))"

section \<open>Replica targets\<close>

record replica_target =
  tg_replica_name :: string
  tg_volume_dataset :: string
  tg_source_node_addr :: string
  tg_last_snapshot :: "string option"

text \<open>A standby: its host, its file system and the registry, which the disk mirrors.\<close>

record 'r standby =
  sb_host :: 'r
  sb_fs :: fs
  sb_by_name :: "(string, replica_target) hmap"

record 'r standby_cfg =
  sc_zfs :: "'r zfs_manager"
  sc_pool :: string
  sc_state_dir :: string
  sc_to_yaml :: "replica_target \<Rightarrow> string"
  sc_from_yaml :: "string \<Rightarrow> (replica_target, string) result"

definition target_codec :: "'r standby_cfg \<Rightarrow> replica_target codec" where
  "target_codec sc = \<lparr>cd_to = sc_to_yaml sc, cd_from = sc_from_yaml sc, cd_name = tg_replica_name\<rparr>"

definition targets_load :: "'r standby_cfg \<Rightarrow> 'r \<Rightarrow> (fs, 'r standby, store_error) act" where
  "targets_load sc host = bindA (replica_target_load_all (target_codec sc) (sc_state_dir sc)) (\<lambda>loaded.
     getA (\<lambda>s. \<lparr>sb_host = host, sb_fs = s, sb_by_name = hm_collect tg_replica_name loaded\<rparr>))"

definition targets_get :: "'r standby \<Rightarrow> string \<Rightarrow> replica_target option" where
  "targets_get sb name = hm_get (sb_by_name sb) name"

definition save_target :: "'r standby_cfg \<Rightarrow> replica_target \<Rightarrow> ('r standby, unit, store_error) act" where
  "save_target sc t = zoomA sb_fs (\<lambda>d sb. sb\<lparr>sb_fs := d\<rparr>) (replica_target_save (target_codec sc) (sc_state_dir sc) t)"

definition ensure_target :: "'r standby_cfg \<Rightarrow> string \<Rightarrow> string \<Rightarrow> string \<Rightarrow> ('r standby, replica_target, store_error) act" where
  "ensure_target sc replica_name volume_dataset source_node_addr =
     bindA (getA (\<lambda>sb. case hm_get (sb_by_name sb) replica_name of
         Some t \<Rightarrow> t\<lparr>tg_source_node_addr := source_node_addr\<rparr>
       | None \<Rightarrow> \<lparr>tg_replica_name = replica_name, tg_volume_dataset = volume_dataset,
           tg_source_node_addr = source_node_addr, tg_last_snapshot = None\<rparr>)) (\<lambda>t.
     bindA (modifyA (\<lambda>sb. sb\<lparr>sb_by_name := hm_insert replica_name t (sb_by_name sb)\<rparr>)) (\<lambda>_.
     bindA (save_target sc t) (\<lambda>_. returnA t)))"

definition record_snapshot :: "'r standby_cfg \<Rightarrow> string \<Rightarrow> string \<Rightarrow> ('r standby, unit, store_error) act" where
  "record_snapshot sc replica_name snapshot_id =
     bindA (getA (\<lambda>sb. hm_get (sb_by_name sb) replica_name)) (\<lambda>found. case found of
       None \<Rightarrow> returnA ()
     | Some t \<Rightarrow>
         bindA (modifyA (\<lambda>sb. sb\<lparr>sb_by_name := hm_insert replica_name (t\<lparr>tg_last_snapshot := Some snapshot_id\<rparr>) (sb_by_name sb)\<rparr>)) (\<lambda>_.
           save_target sc (t\<lparr>tg_last_snapshot := Some snapshot_id\<rparr>)))"

section \<open>The receiving side\<close>

text \<open>Up to the acknowledgement: the header, the target, and the byte that is written back.\<close>

definition accept_header :: "'r standby_cfg \<Rightarrow> string \<Rightarrow> string \<Rightarrow> ('r standby, nat \<times> header \<times> string, rep_io) act" where
  "accept_header sc peer_addr incoming =
     bindA (checkA id (read_header incoming)) (\<lambda>(h, rest).
     bindA (map_exnA (\<lambda>_. ROther ''store'') (ensure_target sc (hd_replica_name h)
         (volume_dataset_path (sc_pool sc) (hd_replica_name h @ ''-data'')) peer_addr)) (\<lambda>target.
       returnA (if hd_base_snapshot_id h \<noteq> tg_last_snapshot target then ACK_NEED_FULL else ACK_PROCEED, h, rest)))"

text \<open>After \<open>ACK_PROCEED\<close>: the rest of the connection is the snapshot.\<close>

definition receive_rest :: "'r standby_cfg \<Rightarrow> header \<Rightarrow> string \<Rightarrow> ('r standby, unit, rep_io) act" where
  "receive_rest sc h stream =
     bindA (map_exnA (\<lambda>_. ROther ''zfs'') (zoomA sb_host (\<lambda>x sb. sb\<lparr>sb_host := x\<rparr>)
         (zm_receive_snapshot (sc_zfs sc) (volume_dataset_path (sc_pool sc) (hd_replica_name h @ ''-data'')) stream))) (\<lambda>_.
       map_exnA (\<lambda>_. ROther ''store'') (record_snapshot sc (hd_replica_name h) (hd_snapshot_id h)))"

text \<open>A whole connection, given what the peer sends before and after the acknowledgement.\<close>

definition handle_replication :: "'r standby_cfg \<Rightarrow> string \<Rightarrow> string \<Rightarrow> (nat \<Rightarrow> string) \<Rightarrow> ('r standby, unit, rep_io) act" where
  "handle_replication sc peer_addr incoming later =
     bindA (accept_header sc peer_addr incoming) (\<lambda>(ack, h, rest).
       if ack = ACK_NEED_FULL then returnA () else receive_rest sc h (rest @ later ack))"

section \<open>The sending side\<close>

datatype send_once_error = NeedFull | SendIo string

text \<open>What the network does to one connection: whether it comes about, where the header is cut, whether
  the acknowledgement arrives, where the stream is cut, and whether the sender notices that cut.\<close>

record link =
  lk_peer :: string
  lk_connect :: bool
  lk_header_cut :: "nat option"
  lk_ack_lost :: bool
  lk_stream_cut :: "nat option"
  lk_cut_noticed :: bool

definition cut :: "nat option \<Rightarrow> string \<Rightarrow> string" where
  "cut k s = (case k of None \<Rightarrow> s | Some n \<Rightarrow> take n s)"

text \<open>One attempt of the sender, with the reaction of the standby. The bytes a failing \<open>zfs send\<close>
  has already written are lost with the connection.\<close>

definition send_once :: "'s zfs_manager \<Rightarrow> 'r standby_cfg \<Rightarrow> link \<Rightarrow> string \<Rightarrow> string \<Rightarrow> string \<Rightarrow> string option \<Rightarrow>
    's \<times> 'r standby \<Rightarrow> (unit, send_once_error) outcome \<times> 's \<times> 'r standby" where
  "send_once zfs sc lk replica_name dataset snapshot_id base = (\<lambda>(s, sb).
     if \<not> lk_connect lk then (Exn (SendIo ''connect''), s, sb)
     else case accept_header sc (lk_peer lk) (cut (lk_header_cut lk) (write_header replica_name snapshot_id base)) sb of
       (Exn _, sb1) \<Rightarrow> (Exn (SendIo ''read''), s, sb1)
     | (Panic, sb1) \<Rightarrow> (Exn (SendIo ''read''), s, sb1)
     | (Val (ack, h, rest), sb1) \<Rightarrow>
         if ack = ACK_NEED_FULL then (Exn (if lk_ack_lost lk then SendIo ''read'' else NeedFull), s, sb1)
         else if lk_ack_lost lk then (Exn (SendIo ''read''), s, snd (receive_rest sc h rest sb1))
         else case zm_send_snapshot zfs dataset snapshot_id base s of
           (Val bytes, s1) \<Rightarrow>
             (if lk_stream_cut lk \<noteq> None \<and> lk_cut_noticed lk then Exn (SendIo ''write'') else Val (),
              s1, snd (receive_rest sc h (rest @ cut (lk_stream_cut lk) bytes) sb1))
         | (Exn _, s1) \<Rightarrow> (Exn (SendIo ''zfs send''), s1, snd (receive_rest sc h rest sb1))
         | (Panic, s1) \<Rightarrow> (Panic, s1, snd (receive_rest sc h rest sb1)))"

section \<open>The loop of a replicated jail\<close>

record rep_loop =
  lp_tick :: nat
  lp_last_confirmed :: "string option"

text \<open>The sender's agent, its loop (\<open>None\<close> once the thread has returned or died) and the standbys by address.\<close>

record ('s, 'r) rep_world =
  rw_agent :: "'s aw"
  rw_loop :: "rep_loop option"
  rw_standbys :: "(string, 'r standby) hmap"

definition set_host :: "'s \<Rightarrow> 's aw \<Rightarrow> 's aw" where
  "set_host h w = w\<lparr>aw_rc := (aw_rc w)\<lparr>rc_host := h\<rparr>\<rparr>"

definition agent_host_of :: "'s aw \<Rightarrow> 's" where
  "agent_host_of w = rc_host (aw_rc w)"

definition repl_name :: "nat \<Rightarrow> string" where
  "repl_name t = ''keel-repl-'' @ show_nat t"

text \<open>The snapshot and the transfer of one tick, for a loop that has a target address.\<close>

definition replicate_to_standby :: "'s agent \<Rightarrow> 'r standby_cfg \<Rightarrow> link \<Rightarrow> string \<Rightarrow> string \<Rightarrow> string \<Rightarrow> rep_loop \<Rightarrow>
    ('s, 'r) rep_world \<Rightarrow> ('s, 'r) rep_world" where
  "replicate_to_standby ag sc lk replica_name dataset addr lp rw =
     (let snapshot_id = repl_name (lp_tick lp) in
      case zm_snapshot (zm ag) dataset snapshot_id (agent_host_of (rw_agent rw)) of
        (Panic, s1) \<Rightarrow> rw\<lparr>rw_agent := set_host s1 (rw_agent rw), rw_loop := None\<rparr>
      | (Exn _, s1) \<Rightarrow> rw\<lparr>rw_agent := set_host s1 (rw_agent rw), rw_loop := Some lp\<rparr>
      | (Val _, s1) \<Rightarrow>
        (case hm_get (rw_standbys rw) addr of
           None \<Rightarrow> rw\<lparr>rw_agent := set_host s1 (rw_agent rw), rw_loop := Some lp\<rparr>
         | Some sb \<Rightarrow>
           (case send_once (zm ag) sc lk replica_name dataset snapshot_id (lp_last_confirmed lp) (s1, sb) of
              (r, s2, sb') \<Rightarrow>
                (let rw' = rw\<lparr>rw_agent := set_host s2 (rw_agent rw), rw_standbys := hm_insert addr sb' (rw_standbys rw)\<rparr> in
                 case r of
                   Panic \<Rightarrow> rw'\<lparr>rw_loop := None\<rparr>
                 | Exn NeedFull \<Rightarrow> rw'\<lparr>rw_loop := Some (lp\<lparr>lp_last_confirmed := None\<rparr>)\<rparr>
                 | Exn (SendIo _) \<Rightarrow> rw'\<lparr>rw_loop := Some lp\<rparr>
                 | Val _ \<Rightarrow>
                     (case lp_last_confirmed lp of
                        None \<Rightarrow> rw'\<lparr>rw_loop := Some (lp\<lparr>lp_last_confirmed := Some snapshot_id\<rparr>)\<rparr>
                      | Some previous \<Rightarrow>
                          (case zm_destroy_snapshot (zm ag) dataset previous s2 of
                             (Panic, s3) \<Rightarrow> rw'\<lparr>rw_agent := set_host s3 (rw_agent rw), rw_loop := None\<rparr>
                           | (_, s3) \<Rightarrow> rw'\<lparr>rw_agent := set_host s3 (rw_agent rw),
                               rw_loop := Some (lp\<lparr>lp_last_confirmed := Some snapshot_id\<rparr>)\<rparr>))))))"

definition next_tick :: "rep_loop \<Rightarrow> rep_loop" where
  "next_tick lp = lp\<lparr>lp_tick := (lp_tick lp + 1) mod 2 ^ 64\<rparr>"

text \<open>One round of the loop, after its sleep.\<close>

definition loop_round :: "'s agent \<Rightarrow> 'r standby_cfg \<Rightarrow> string \<Rightarrow> string \<Rightarrow> link \<Rightarrow> ('s, 'r) rep_world \<Rightarrow> ('s, 'r) rep_world" where
  "loop_round ag sc replica_name volume_name lk rw =
     (case rw_loop rw of None \<Rightarrow> rw | Some lp0 \<Rightarrow>
        (let lp = next_tick lp0 in
         case handle_acommand ag () (AGet (Some replica_name)) (rw_agent rw) of
           Some (AStatuses (status # _), w) \<Rightarrow>
             (case sp_replicate_to (js_spec (jrec_spec (jst_record status))) of
                None \<Rightarrow> rw\<lparr>rw_agent := w, rw_loop := Some lp\<rparr>
              | Some addr \<Rightarrow> replicate_to_standby ag sc lk replica_name (volume_dataset_path (ag_pool ag) volume_name) addr lp
                  (rw\<lparr>rw_agent := w\<rparr>))
         | Some (_, w) \<Rightarrow> rw\<lparr>rw_agent := w, rw_loop := None\<rparr>
         | None \<Rightarrow> rw\<lparr>rw_loop := None\<rparr>))"

definition spawned_loop :: rep_loop where
  "spawned_loop = \<lparr>lp_tick = 0, lp_last_confirmed = None\<rparr>"

text \<open>What can happen: a round over some link, a command to the agent, or a restart of the agent, whose
  loop then starts over.\<close>

inductive rep_step :: "'s agent \<Rightarrow> 'r standby_cfg \<Rightarrow> string \<Rightarrow> string \<Rightarrow> ('s, 'r) rep_world \<Rightarrow> ('s, 'r) rep_world \<Rightarrow> bool"
  for ag sc name volume where
  rep_round: "rep_step ag sc name volume rw (loop_round ag sc name volume lk rw)"
| rep_serve: "handle_acommand ag () c (rw_agent rw) = Some (r, w) \<Longrightarrow> rep_step ag sc name volume rw (rw\<lparr>rw_agent := w\<rparr>)"
| rep_restart: "rep_step ag sc name volume rw (rw\<lparr>rw_agent := w, rw_loop := Some spawned_loop\<rparr>)"

section \<open>Reading back what was written\<close>

lemma u32_bytes_length [simp]: "length (u32_be_bytes n) = 4"
  by (simp add: u32_be_bytes_def)

lemma u32_from_to [simp]: "u32_from_be_bytes (u32_be_bytes n) = n mod 2 ^ 32"
proof -
  let ?m = "n mod 2 ^ 32"
  have p: "(256 :: nat) ^ 2 = 256 * 256" "(256 :: nat) ^ 3 = 256 * (256 * 256)" by simp_all
  have "?m div 256 ^ 3 < 256" by (rule less_mult_imp_div_less) simp
  then have "?m div 256 div 256 div 256 mod 256 = ?m div 256 div 256 div 256" by (simp only: p div_mult2_eq mod_less)
  then have "((?m div 256 div 256 div 256 mod 256 * 256 + ?m div 256 div 256 mod 256) * 256 + ?m div 256 mod 256) * 256 + ?m mod 256 = ?m"
    by (simp only: div_mult_mod_eq)
  then show ?thesis by (simp only: u32_from_be_bytes_def u32_be_bytes_def list.map foldl.simps of_char_of p div_mult2_eq
        power_0 power_one_right div_by_1 mult_zero_left add_0 mod_mod_trivial)
qed

lemma read_exact_append: "read_exact n bs = Ok (a, r) \<Longrightarrow> read_exact n (bs @ ys) = Ok (a, r @ ys)"
  by (auto simp: read_exact_def split: if_splits)

lemma read_len_append: "read_len_prefixed bs = Ok (a, r) \<Longrightarrow> read_len_prefixed (bs @ ys) = Ok (a, r @ ys)"
  unfolding read_len_prefixed_def
  by (auto simp: and_then_Ok_iff read_exact_append split: if_splits)

lemma read_header_append: "read_header bs = Ok (h, r) \<Longrightarrow> read_header (bs @ ys) = Ok (h, r @ ys)"
  unfolding read_header_def
  by (auto simp: and_then_Ok_iff read_exact_append read_len_append split: if_splits)

definition wire_ok :: "string \<Rightarrow> bool" where
  "wire_ok s \<longleftrightarrow> utf8_valid s \<and> length s < 2 ^ 32"

lemma read_write_len: "wire_ok s \<Longrightarrow> read_len_prefixed (write_len_prefixed s @ rest) = Ok (s, rest)"
  by (simp add: read_len_prefixed_def write_len_prefixed_def read_exact_def wire_ok_def)

lemma read_write_header:
  assumes "wire_ok n" "wire_ok i" "\<forall>x. b = Some x \<longrightarrow> wire_ok x"
  shows "read_header (write_header n i b @ rest) = Ok (\<lparr>hd_replica_name = n, hd_snapshot_id = i, hd_base_snapshot_id = b\<rparr>, rest)"
proof (cases b)
  case None
  then show ?thesis using assms by (simp add: read_header_def write_header_def read_write_len read_exact_def)
next
  case (Some x)
  then show ?thesis using assms by (simp add: read_header_def write_header_def read_write_len read_exact_def)
qed

text \<open>A header that is written is read back exactly, whatever follows it on the connection, and a
  connection that breaks off inside the header yields no header at all.\<close>

lemma header_round_trip:
  assumes "wire_ok n" "wire_ok i" "\<forall>x. b = Some x \<longrightarrow> wire_ok x"
  shows "read_header (write_header n i b @ rest) = Ok (\<lparr>hd_replica_name = n, hd_snapshot_id = i, hd_base_snapshot_id = b\<rparr>, rest) \<and>
    (k < length (write_header n i b) \<longrightarrow> \<not> is_ok (read_header (take k (write_header n i b))))"
proof
  show "read_header (write_header n i b @ rest) = Ok (\<lparr>hd_replica_name = n, hd_snapshot_id = i, hd_base_snapshot_id = b\<rparr>, rest)"
    by (rule read_write_header [OF assms])
  show "k < length (write_header n i b) \<longrightarrow> \<not> is_ok (read_header (take k (write_header n i b)))"
    using read_write_header [OF assms, of "[]"] read_header_append [of "take k (write_header n i b)" _ _ "drop k (write_header n i b)"]
    by (auto simp: is_ok_iff)
qed

end
