(* ===== verification/Keel_Http.thy ===== *)
theory Keel_Http
  imports Keel_Spec
begin

text \<open>
  The HTTP framing that \<open>keel-controlplane/src/http.rs\<close>, \<open>keel-agentd/src/http.rs\<close> and the
  clients share: reading one request from a stream, splitting its path, writing a response, and
  checking the response to a forwarded request. The \<open>httparse\<close> crate is an argument. A stream
  is the list of what its \<open>read\<close> calls return; after the list it is at its end.
\<close>

section \<open>Header values\<close>

text \<open>\<open>str::trim\<close> over UTF-8 bytes: whitespace characters are stripped from both ends.\<close>

definition strip_ws :: "string list \<Rightarrow> string \<Rightarrow> string option" where
  "strip_ws ws s = (case List.map_filter (\<lambda>w. if w = [] then None else strip_prefix w s) ws of
     [] \<Rightarrow> None | r # _ \<Rightarrow> Some r)"

lemma strip_ws_length: "strip_ws ws s = Some r \<Longrightarrow> length r < length s"
proof -
  assume "strip_ws ws s = Some r"
  then have "r \<in> set (List.map_filter (\<lambda>w. if w = [] then None else strip_prefix w s) ws)"
    by (auto simp: strip_ws_def split: list.splits)
  then obtain w where "w \<noteq> []" "strip_prefix w s = Some r"
    by (auto simp: List.map_filter_def split: if_splits)
  then show ?thesis by (auto simp: strip_prefix_Some_iff)
qed

function trim_start_ws :: "string list \<Rightarrow> string \<Rightarrow> string" where
  "trim_start_ws ws s = (case strip_ws ws s of None \<Rightarrow> s | Some r \<Rightarrow> trim_start_ws ws r)"
  by pat_completeness auto

termination trim_start_ws
  by (relation "measure (\<lambda>(_, s). length s)") (auto dest: strip_ws_length)

declare trim_start_ws.simps [simp del]

definition trim :: "string \<Rightarrow> string" where
  "trim s = (let ws = map (map char_of) byte_seqs
     in rev (trim_start_ws (map rev ws) (rev (trim_start_ws ws s))))"

definition eq_ignore_ascii_case :: "string \<Rightarrow> string \<Rightarrow> bool" where
  "eq_ignore_ascii_case a b \<longleftrightarrow> to_ascii_lowercase a = to_ascii_lowercase b"

text \<open>The first \<open>Content-Length\<close> header, when it is a number.\<close>

definition content_length :: "(string \<times> string) list \<Rightarrow> nat option" where
  "content_length headers =
     Option.bind (find (\<lambda>(name, _). eq_ignore_ascii_case name ''content-length'') headers)
       (\<lambda>(_, value). parse_uint u64_max (trim value))"

section \<open>Requests\<close>

definition MAX_MESSAGE_BYTES :: nat where
  "MAX_MESSAGE_BYTES = 64 * 1024"

record request_head =
  rh_method :: "string option"
  rh_path :: "string option"
  rh_headers :: "(string \<times> string) list"

datatype 'h parse_status = Complete nat 'h | Partial | Malformed string

record parsed_request =
  pr_method :: string
  pr_path :: string
  pr_body :: string

type_synonym reads = "(string, string) result list"

text \<open>The first loop of \<open>read_request\<close>: parse what is there, read more while it is incomplete.
  \<open>Ok None\<close> gives the connection up.\<close>

fun read_head :: "(string \<Rightarrow> request_head parse_status) \<Rightarrow> string \<Rightarrow> reads \<Rightarrow>
    ((nat \<times> request_head \<times> string \<times> reads) option, string) result" where
  "read_head parse buf reads =
     (case parse buf of
        Complete header_len h \<Rightarrow> Ok (Some (header_len, h, buf, reads))
      | Malformed _ \<Rightarrow> Ok None
      | Partial \<Rightarrow>
          if length buf \<ge> MAX_MESSAGE_BYTES then Ok None
          else (case reads of
             [] \<Rightarrow> Ok None
           | Err e # _ \<Rightarrow> Err e
           | Ok chunk # rest \<Rightarrow> if chunk = [] then Ok None else read_head parse (buf @ chunk) rest))"

fun read_body :: "nat \<Rightarrow> string \<Rightarrow> reads \<Rightarrow> (string option, string) result" where
  "read_body total_len buf reads =
     (if length buf < total_len then
        (case reads of
           [] \<Rightarrow> Ok None
         | Err e # _ \<Rightarrow> Err e
         | Ok chunk # rest \<Rightarrow> if chunk = [] then Ok None else read_body total_len (buf @ chunk) rest)
      else Ok (Some buf))"

declare read_head.simps [simp del] read_body.simps [simp del]

text \<open>\<open>header_len + content_length\<close> wraps at 64 bits; a slice whose end lies before its start
  panics (\<open>None\<close>).\<close>

definition read_request ::
    "(string \<Rightarrow> request_head parse_status) \<Rightarrow> reads \<Rightarrow> (parsed_request option, string) result option" where
  "read_request parse reads =
     (case read_head parse [] reads of
        Err e \<Rightarrow> Some (Err e)
      | Ok None \<Rightarrow> Some (Ok None)
      | Ok (Some (header_len, h, buf, rest)) \<Rightarrow>
          (let clen = (case content_length (rh_headers h) of None \<Rightarrow> 0 | Some n \<Rightarrow> n);
               total_len = (header_len + clen) mod 2 ^ 64
           in if total_len > MAX_MESSAGE_BYTES then Some (Ok None)
              else (case read_body total_len buf rest of
                 Err e \<Rightarrow> Some (Err e)
               | Ok None \<Rightarrow> Some (Ok None)
               | Ok (Some full) \<Rightarrow>
                   if total_len < header_len then None
                   else Some (Ok (Some
                     \<lparr>pr_method = (case rh_method h of None \<Rightarrow> [] | Some m \<Rightarrow> m),
                      pr_path = (case rh_path h of None \<Rightarrow> [] | Some p \<Rightarrow> p),
                      pr_body = take (total_len - header_len) (drop header_len full)\<rparr>)))))"

definition path_segments :: "string \<Rightarrow> string list" where
  "path_segments path =
     filter (\<lambda>s. s \<noteq> []) (split_char CHR ''/'' (trim_start_matches CHR ''/'' path))"

section \<open>Responses\<close>

definition reason_phrase :: "nat \<Rightarrow> string" where
  "reason_phrase status =
     (if status = 200 then ''OK'' else if status = 400 then ''Bad Request''
      else if status = 401 then ''Unauthorized'' else if status = 404 then ''Not Found''
      else if status = 409 then ''Conflict'' else if status = 500 then ''Internal Server Error''
      else if status = 503 then ''Service Unavailable'' else ''Unknown'')"

abbreviation crlf :: string where
  "crlf \<equiv> [CHR 0x0D, CHR 0x0A]"

definition write_response :: "nat \<Rightarrow> string \<Rightarrow> string" where
  "write_response status body =
     ''HTTP/1.1 '' @ show_nat status @ '' '' @ reason_phrase status @ crlf @
     ''Content-Length: '' @ show_nat (length body) @ crlf @
     ''Content-Type: application/yaml'' @ crlf @ ''Connection: close'' @ crlf @ crlf @ body"

definition request_text :: "string \<Rightarrow> string \<Rightarrow> string \<Rightarrow> string" where
  "request_text http_method path body =
     http_method @ '' '' @ path @ '' HTTP/1.1'' @ crlf @ ''Host: localhost'' @ crlf @
     ''Content-Length: '' @ show_nat (length body) @ crlf @ crlf @ body"

record response_head =
  sh_code :: "nat option"
  sh_headers :: "(string \<times> string) list"

text \<open>What \<open>forward\<close> does with the bytes it received: a response counts only when its body has
  the length the response itself announces.\<close>

definition check_response ::
    "(string \<Rightarrow> response_head parse_status) \<Rightarrow> string \<Rightarrow> (nat \<times> string, string) result" where
  "check_response parse response =
     (case parse response of
        Malformed e \<Rightarrow> Err e
      | Partial \<Rightarrow> Err ''incomplete response''
      | Complete header_len h \<Rightarrow>
          and_then (ok_or ''missing status code'' (sh_code h)) (\<lambda>status.
          and_then (ok_or ''response missing Content-Length header'' (content_length (sh_headers h))) (\<lambda>clen.
            let actual = length response - header_len
            in if actual \<noteq> clen
               then Err (''truncated response: expected '' @ show_nat clen @ '' bytes, got '' @ show_nat actual)
               else Ok (status, drop header_len response))))"

section \<open>Facts\<close>

lemma read_head_Some:
  assumes "read_head parse buf reads = Ok (Some (hl, h, full, rest))"
  shows "parse full = Complete hl h \<and> (\<exists>used. concat (List.map_filter ok used) = drop (length buf) full \<and>
    take (length buf) full = buf \<and> reads = used @ rest)"
  using assms
proof (induction parse buf reads rule: read_head.induct)
  case (1 parse buf reads)
  show ?case
  proof (cases "parse buf")
    case (Complete n g)
    then show ?thesis using 1 by (subst (asm) read_head.simps) (auto simp: read_head.simps intro!: exI [of _ "[]"] simp: List.map_filter_def)
  next
    case Partial
    with 1(2) obtain chunk rs where c: "reads = Ok chunk # rs" "chunk \<noteq> []" "\<not> length buf \<ge> MAX_MESSAGE_BYTES"
        "read_head parse (buf @ chunk) rs = Ok (Some (hl, h, full, rest))"
      by (subst (asm) read_head.simps) (auto split: if_splits list.splits result.splits)
    from 1(1) [OF Partial c(3) c(1) refl c(2) c(4)] obtain used where
      u: "parse full = Complete hl h" "concat (List.map_filter ok used) = drop (length (buf @ chunk)) full"
        "take (length (buf @ chunk)) full = buf @ chunk" "rs = used @ rest" by blast
    have "full = (buf @ chunk) @ drop (length (buf @ chunk)) full"
      using u(3) by (metis append_take_drop_id)
    then have "drop (length buf) full = chunk @ drop (length (buf @ chunk)) full" "take (length buf) full = buf"
      by (metis append.assoc append_eq_conv_conj)+
    with u c(1) show ?thesis by (intro conjI exI [of _ "Ok chunk # used"]) (simp_all add: List.map_filter_def)
  next
    case (Malformed e)
    then show ?thesis using 1(2) by (subst (asm) read_head.simps) simp
  qed
qed

lemma read_head_bound:
  assumes "read_head parse buf reads = Ok (Some (hl, h, full, rest))" "length buf \<le> MAX_MESSAGE_BYTES + k"
    "\<forall>c. Ok c \<in> set reads \<longrightarrow> length c \<le> k"
  shows "length full \<le> MAX_MESSAGE_BYTES + k"
  using assms
proof (induction parse buf reads rule: read_head.induct)
  case (1 parse buf reads)
  show ?case
  proof (cases "parse buf")
    case Partial
    with 1(2) obtain chunk rs where c: "reads = Ok chunk # rs" "chunk \<noteq> []" "\<not> length buf \<ge> MAX_MESSAGE_BYTES"
        "read_head parse (buf @ chunk) rs = Ok (Some (hl, h, full, rest))"
      by (subst (asm) read_head.simps) (auto split: if_splits list.splits result.splits)
    have "length chunk \<le> k" using 1(4) c(1) by auto
    with c 1(4) show ?thesis by (intro 1(1) [OF Partial c(3) c(1) refl c(2) c(4)]) auto
  qed (use 1(2,3) in \<open>(subst (asm) read_head.simps, simp)+\<close>)
qed

lemma read_body_Some:
  "read_body n buf reads = Ok (Some full) \<Longrightarrow> n \<le> length full \<and> take (length buf) full = buf"
proof (induction n buf reads rule: read_body.induct)
  case (1 n buf reads)
  show ?case
  proof (cases "length buf < n")
    case True
    with 1(2) obtain chunk rs where c: "reads = Ok chunk # rs" "chunk \<noteq> []"
        "read_body n (buf @ chunk) rs = Ok (Some full)"
      by (subst (asm) read_body.simps) (auto split: if_splits list.splits result.splits)
    from 1(1) [OF True c(1) refl c(2) c(3)] show ?thesis
      by (metis append_eq_conv_conj append_take_drop_id take_append append.assoc length_append)
  qed (use 1(2) in \<open>subst (asm) read_body.simps, simp\<close>)
qed

text \<open>Every read that goes on adds a byte, so a bounded number of reads decides the request.\<close>

lemma read_body_take:
  "n - length buf \<le> m \<Longrightarrow> read_body n buf (take m reads) = read_body n buf reads"
proof (induction reads arbitrary: buf m)
  case (Cons r rs)
  show ?case
  proof (cases "length buf < n \<and> (\<exists>c. r = Ok c \<and> c \<noteq> [])")
    case True
    then obtain c k where c: "r = Ok c" "c \<noteq> []" "m = Suc k" using Cons.prems by (cases m) auto
    then have "n - length (buf @ c) \<le> k" using Cons.prems by (cases c) auto
    from Cons.IH [OF this] c show ?thesis by (simp add: read_body.simps [of n buf])
  next
    case False
    with Cons.prems show ?thesis by (cases m) (auto simp: read_body.simps [of n buf] split: result.splits)
  qed
qed simp

lemma read_head_take:
  assumes "MAX_MESSAGE_BYTES - length buf \<le> m"
  shows "read_head parse buf (take m reads) = read_head parse buf reads \<and> \<not> (\<exists>x. read_head parse buf reads = Ok (Some x)) \<or>
    (\<exists>hl h full rest k. read_head parse buf reads = Ok (Some (hl, h, full, rest)) \<and> MAX_MESSAGE_BYTES - length full \<le> k \<and>
       read_head parse buf (take m reads) = Ok (Some (hl, h, full, take k rest)))"
  using assms
proof (induction reads arbitrary: buf m)
  case Nil
  then show ?case by (auto simp: read_head.simps [of parse buf] split: parse_status.splits)
next
  case (Cons r rs)
  have complete: ?case if "parse buf = Complete hl h" for hl h
    unfolding read_head.simps [of parse buf] that using Cons.prems by auto
  show ?case
  proof (cases "parse buf = Partial \<and> length buf < MAX_MESSAGE_BYTES \<and> (\<exists>c. r = Ok c \<and> c \<noteq> [])")
    case True
    then obtain c k where c: "r = Ok c" "c \<noteq> []" "m = Suc k" using Cons.prems by (cases m) auto
    then have "MAX_MESSAGE_BYTES - length (buf @ c) \<le> k" using Cons.prems by (cases c) auto
    from Cons.IH [OF this] c True show ?thesis by (simp add: read_head.simps [of parse buf])
  next
    case False
    with Cons.prems complete show ?thesis
      by (cases "parse buf"; cases m) (auto simp: read_head.simps [of parse buf] split: result.splits)
  qed
qed

text \<open>C38: Whatever a client sends and however slowly, the two reading loops end: the outcome of a request is
  decided by its first 65536 reads, and no later read is made.\<close>

theorem read_request_stops:
  "read_request parse (take MAX_MESSAGE_BYTES reads) = read_request parse reads"
proof -
  consider (none) "read_head parse [] (take MAX_MESSAGE_BYTES reads) = read_head parse [] reads"
    | (head) hl h full rest k where "read_head parse [] reads = Ok (Some (hl, h, full, rest))" "MAX_MESSAGE_BYTES - length full \<le> k"
      "read_head parse [] (take MAX_MESSAGE_BYTES reads) = Ok (Some (hl, h, full, take k rest))"
    using read_head_take [of "[]" MAX_MESSAGE_BYTES parse reads] by auto
  then show ?thesis
  proof cases
    case head
    have "read_body n full (take k rest) = read_body n full rest" if "n \<le> MAX_MESSAGE_BYTES" for n
      using that head(2) by (intro read_body_take) simp
    then show ?thesis unfolding read_request_def head(1,3) by (simp add: Let_def)
  qed (simp add: read_request_def)
qed

text \<open>A plain number is its own trimmed text.\<close>

lemma ws_not_digit:
  "list_all (\<lambda>w. \<not> is_ascii_digit (hd w) \<and> \<not> is_ascii_digit (hd (rev w))) (map (map char_of) byte_seqs)"
  by code_simp

lemma trim_start_digits:
  assumes "list_all is_ascii_digit s" "\<forall>w \<in> set ws. \<not> is_ascii_digit (hd w)"
  shows "trim_start_ws ws s = s"
proof -
  have "strip_prefix w s = None" if "w \<in> set ws" "w \<noteq> []" for w
  proof (cases "strip_prefix w s")
    case (Some r)
    then have "s = w @ r" by (simp add: strip_prefix_Some_iff)
    with that(2) have "hd w \<in> set s" by simp
    with assms that(1) show ?thesis by (auto simp: list_all_iff)
  qed
  then have "List.map_filter (\<lambda>w. if w = [] then None else strip_prefix w s) ws = []"
    by (auto simp: List.map_filter_def filter_empty_conv)
  then show ?thesis by (subst trim_start_ws.simps) (simp add: strip_ws_def)
qed

lemma trim_digits: "list_all is_ascii_digit s \<Longrightarrow> trim s = s"
  using ws_not_digit by (simp add: trim_def Let_def trim_start_digits list_all_iff)

lemma lower_content_length: "to_ascii_lowercase ''Content-Length'' = to_ascii_lowercase ''content-length''"
  by code_simp

lemma content_length_number:
  "n \<le> u64_max \<Longrightarrow> content_length [(''Content-Length'', show_nat n)] = Some n"
  by (simp add: content_length_def eq_ignore_ascii_case_def lower_content_length trim_digits show_nat_digits)

lemma add_mod_ge:
  assumes "(c :: nat) < w" "n \<le> (n + c) mod w"
  shows "(n + c) mod w = n + c"
proof -
  have e: "(n + c) div w * w + (n + c) mod w = n + c" by simp
  with assms(2) have "(n + c) div w * w \<le> c" by linarith
  with assms(1) have "(n + c) div w = 0" by (cases "(n + c) div w") auto
  with e show ?thesis by simp
qed

section \<open>Properties\<close>

text \<open>C30: A request that is accepted has exactly as many body bytes as its head announces, the whole
  message is at most 64 KiB long, and never more than one read past 64 KiB is buffered.\<close>

theorem read_request_complete:
  assumes "read_request parse reads = Some (Ok (Some req))"
    and "\<And>buf n h. parse buf = Complete n h \<Longrightarrow> n \<le> length buf"
    and "\<forall>c. Ok c \<in> set reads \<longrightarrow> length c \<le> 4096"
  shows "\<exists>n h buf. parse buf = Complete n h \<and> length buf \<le> MAX_MESSAGE_BYTES + 4096 \<and>
    n + length (pr_body req) \<le> MAX_MESSAGE_BYTES \<and>
    length (pr_body req) = (case content_length (rh_headers h) of None \<Rightarrow> 0 | Some c \<Rightarrow> c)"
proof -
  from assms(1) obtain n h buf rest where rh: "read_head parse [] reads = Ok (Some (n, h, buf, rest))"
    by (auto simp: read_request_def split: result.splits option.splits)
  let ?clen = "case content_length (rh_headers h) of None \<Rightarrow> 0 | Some c \<Rightarrow> c"
  let ?total = "(n + ?clen) mod 2 ^ 64"
  from assms(1) rh obtain full where
    f: "read_body ?total buf rest = Ok (Some full)" "?total \<le> MAX_MESSAGE_BYTES" "n \<le> ?total"
      "pr_body req = take (?total - n) (drop n full)"
    by (auto simp: read_request_def Let_def split: if_splits result.splits option.splits)
  from read_body_Some [OF f(1)] have len: "?total \<le> length full" by simp
  have "?clen \<le> u64_max"
    by (auto simp: content_length_def dest: parse_uint_bound split: option.splits bind_splits)
  then have "?clen < 2 ^ 64" by simp
  from add_mod_ge [OF this f(3)] have t: "?total = n + ?clen" .
  have "length (pr_body req) = ?clen" using f(4) len t by simp
  moreover have "parse buf = Complete n h" using read_head_Some [OF rh] by simp
  moreover have "length buf \<le> MAX_MESSAGE_BYTES + 4096"
    using read_head_bound [OF rh _ assms(3)] by simp
  ultimately show ?thesis using f(2) t by metis
qed

text \<open>A parser for the witnesses: anything that is not empty is one byte of head followed by body.\<close>

definition one_byte_head :: "string \<Rightarrow> string \<Rightarrow> request_head parse_status" where
  "one_byte_head len buf = (if buf = [] then Partial
     else Complete 1 \<lparr>rh_method = Some ''PUT'', rh_path = Some ''/'', rh_headers = [(''Content-Length'', len)]\<rparr>)"

lemma one_byte_read:
  assumes "c \<noteq> []"
  shows "read_head (one_byte_head len) [] [Ok c] =
    Ok (Some (1, \<lparr>rh_method = Some ''PUT'', rh_path = Some ''/'', rh_headers = [(''Content-Length'', len)]\<rparr>, c, []))"
  using assms by (subst read_head.simps, subst read_head.simps)
    (simp add: one_byte_head_def MAX_MESSAGE_BYTES_def)

theorem read_request_complete_witness:
  "\<exists>req. read_request (one_byte_head (show_nat 2)) [Ok ''xyz''] = Some (Ok (Some req)) \<and> length (pr_body req) = 2"
proof -
  let ?req = "\<lparr>pr_method = ''PUT'', pr_path = ''/'', pr_body = ''yz''\<rparr>"
  have r: "read_request (one_byte_head (show_nat 2)) [Ok ''xyz''] = Some (Ok (Some ?req))"
    by (simp add: read_request_def one_byte_read content_length_number read_body.simps MAX_MESSAGE_BYTES_def)
  have "n \<le> length buf" if "one_byte_head (show_nat 2) buf = Complete n h" for buf n h
    using that by (auto simp: one_byte_head_def Suc_le_eq split: if_splits)
  from read_request_complete [OF r this] show ?thesis using r by fastforce
qed

text \<open>C33: A \<open>Content-Length\<close> so large that adding it to the length of the head passes the end of the
  64-bit range gets through the size check and makes the thread that serves the connection panic.\<close>

theorem read_request_panics_on_overflow:
  assumes "read_head parse [] reads = Ok (Some (n, h, buf, rest))" "n \<le> length buf" "n \<le> MAX_MESSAGE_BYTES"
    and "content_length (rh_headers h) = Some c" "2 ^ 64 \<le> n + c" "c \<le> u64_max"
  shows "read_request parse reads = None"
proof -
  have w: "(2 :: nat) ^ 64 = u64_max + 1" by simp
  have "n + c - 2 ^ 64 < 2 ^ 64" using assms(3,6) unfolding w MAX_MESSAGE_BYTES_def by linarith
  then have t: "(n + c) mod 2 ^ 64 = n + c - 2 ^ 64"
    using assms(5) le_mod_geq [of "2 ^ 64" "n + c"] by simp
  have lt: "n + c - 2 ^ 64 < n" using assms(5,6) unfolding w by linarith
  then have "read_body (n + c - 2 ^ 64) buf rest = Ok (Some buf)"
    using assms(2) by (subst read_body.simps) simp
  with lt assms(1,3,4) show ?thesis
    unfolding read_request_def Let_def assms(1) by (simp add: t [simplified])
qed

theorem read_request_panics_on_overflow_witness:
  "read_request (one_byte_head (show_nat u64_max)) [Ok ''x''] = None"
  by (rule read_request_panics_on_overflow [OF one_byte_read, where c = u64_max])
     (simp_all add: content_length_number MAX_MESSAGE_BYTES_def)

text \<open>A forwarded request whose answer was cut short is reported as an error: an answer is passed
  on only when its body has exactly the length its own head announces.\<close>

lemma check_response_not_truncated:
  assumes "check_response parse response = Ok (status, body)"
  shows "\<exists>n h. parse response = Complete n h \<and> sh_code h = Some status \<and>
    content_length (sh_headers h) = Some (length body) \<and> body = drop n response"
  using assms by (auto simp: check_response_def Let_def split: parse_status.splits if_splits)

end
