(* ===== verification/Ag_Cli.thy ===== *)
theory Ag_Cli
  imports Ag_Replication Keel_Http
begin

text \<open>
  The implementations the agent runs with on FreeBSD: \<open>ProcessJailRuntime\<close> and \<open>CliMountManager\<close>
  (\<open>keel-jail\<close>), \<open>CliZfsManager\<close> (\<open>keel-zfs\<close>), \<open>ProcessNetManager\<close> (\<open>keel-net\<close>) and
  \<open>JexecNginxController\<close> (\<open>keel-agentd/src/nginx.rs\<close>), with the packet filter's (\<open>pf.rs\<close>). All of them run programs and read their exit
  status and output. The programs are the argument \<open>tools\<close>: what running, spawning, feeding and awaiting a
  program and the few direct file operations do to a world of any type.
\<close>

section \<open>Text of other programs\<close>

text \<open>\<open>String::from_utf8_lossy\<close>: every maximal piece that is no character becomes U+FFFD. A step is the length of
  the next piece and whether it is a character.\<close>

definition utf8_tail :: "string \<Rightarrow> nat \<Rightarrow> nat \<Rightarrow> nat \<times> bool" where
  "utf8_tail s k n = (if k < n \<and> (k \<ge> length s \<or> \<not> cont (s ! k) 0x80 0xBF) then (k, False)
     else if k + 1 < n \<and> (k + 1 \<ge> length s \<or> \<not> cont (s ! (k + 1)) 0x80 0xBF) then (k + 1, False) else (n, True))"

definition utf8_step :: "string \<Rightarrow> nat \<times> bool" where
  "utf8_step s = (let a = hd s; second = (\<lambda>lo hi. 1 < length s \<and> cont (s ! 1) lo hi) in
     if cont a 0 0x7F then (1, True)
     else if cont a 0xC2 0xDF then (if second 0x80 0xBF then (2, True) else (1, False))
     else if cont a 0xE0 0xEF then
       (if second (if of_char a = (0xE0 :: nat) then 0xA0 else 0x80) (if of_char a = (0xED :: nat) then 0x9F else 0xBF)
        then utf8_tail s 2 3 else (1, False))
     else if cont a 0xF0 0xF4 then
       (if second (if of_char a = (0xF0 :: nat) then 0x90 else 0x80) (if of_char a = (0xF4 :: nat) then 0x8F else 0xBF)
        then utf8_tail s 2 4 else (1, False))
     else (1, False))"

lemma utf8_step_pos: "0 < fst (utf8_step s)"
  by (simp add: utf8_step_def utf8_tail_def Let_def)

function lossy :: "string \<Rightarrow> string" where
  "lossy s = (if s = [] then [] else case utf8_step s of (n, good) \<Rightarrow>
     (if good then take n s else [CHR 0xEF, CHR 0xBF, CHR 0xBD]) @ lossy (drop n s))"
  by pat_completeness auto

termination lossy
proof (relation "measure length")
  show "(drop n s, s) \<in> measure length" if h: "s \<noteq> []" "(n, good) = utf8_step s" for s :: string and n good
    using utf8_step_pos [of s] h(1) by (simp flip: h(2))
qed simp

declare lossy.simps [simp del]

text \<open>\<open>str::lines\<close> and \<open>split_whitespace\<close>.\<close>

definition str_lines :: "string \<Rightarrow> string list" where
  "str_lines s = (let ps = split_char (CHR 0x0A) s;
       qs = (if last ps = [] then butlast ps else ps)
     in map (\<lambda>l. case strip_suffix [CHR 0x0D] l of Some r \<Rightarrow> r | None \<Rightarrow> l) qs)"

fun words_acc :: "string list \<Rightarrow> nat \<Rightarrow> string \<Rightarrow> string \<Rightarrow> string list" where
  "words_acc ws 0 s acc = (if acc = [] then [] else [rev acc])"
| "words_acc ws (Suc k) s acc = (case strip_ws ws s of
       Some r \<Rightarrow> (if acc = [] then [] else [rev acc]) @ words_acc ws k r []
     | None \<Rightarrow> (case s of [] \<Rightarrow> (if acc = [] then [] else [rev acc]) | c # cs \<Rightarrow> words_acc ws k cs (c # acc)))"

definition split_whitespace :: "string \<Rightarrow> string list" where
  "split_whitespace s = words_acc (map (map char_of) byte_seqs) (length s) s []"

definition join_args :: "string list \<Rightarrow> string" where
  "join_args args = concat (map (\<lambda>(i, a). if i = 0 then a else '' '' @ a) (enumerate 0 args))"

section \<open>Programs\<close>

text \<open>An exit status is the raw wait status.\<close>

record proc_output =
  out_status :: int
  out_stdout :: string
  out_stderr :: string

definition exit_success :: "proc_output \<Rightarrow> bool" where
  "exit_success out \<longleftrightarrow> out_status out = 0"

definition exit_code :: "proc_output \<Rightarrow> int option" where
  "exit_code out = (if out_status out mod 128 = 0 then Some (out_status out div 256 mod 256) else None)"

record 'w tools =
  tl_run :: "string \<Rightarrow> string list \<Rightarrow> 'w \<Rightarrow> (proc_output, io_error) result \<times> 'w"
  tl_feed :: "string \<Rightarrow> string list \<Rightarrow> string \<Rightarrow> 'w \<Rightarrow> (proc_output \<times> bool, io_error) result \<times> 'w"
  tl_spawn :: "string \<Rightarrow> string list \<Rightarrow> 'w \<Rightarrow> (nat, io_error) result \<times> 'w"
  tl_finished :: "nat \<Rightarrow> 'w \<Rightarrow> bool \<times> 'w"
  tl_wait :: "nat \<Rightarrow> 'w \<Rightarrow> 'w"
  tl_create_dir_all :: "string \<Rightarrow> 'w \<Rightarrow> (unit, io_error) result \<times> 'w"
  tl_write :: "string \<Rightarrow> string \<Rightarrow> 'w \<Rightarrow> (unit, io_error) result \<times> 'w"
  tl_rename :: "string \<Rightarrow> string \<Rightarrow> 'w \<Rightarrow> (unit, io_error) result \<times> 'w"
  tl_show_io :: "io_error \<Rightarrow> string"
  tl_now :: "'w \<Rightarrow> instant"
  tl_unix_now :: "'w \<Rightarrow> int"

text \<open>The host of an agent: the world and the children that \<open>ProcessJailRuntime\<close> has spawned.\<close>

record 'w cli =
  cl_world :: 'w
  cl_children :: "(string \<times> nat) list"

type_synonym ('w, 'a, 'e) cact = "('w cli, 'a, 'e) act"

definition on_world :: "('w \<Rightarrow> ('a, io_error) result \<times> 'w) \<Rightarrow> (io_error \<Rightarrow> 'e) \<Rightarrow> ('w, 'a, 'e) cact" where
  "on_world op f = (\<lambda>s. case op (cl_world s) of (r, w) \<Rightarrow> (case r of Ok x \<Rightarrow> Val x | Err e \<Rightarrow> Exn (f e), s\<lparr>cl_world := w\<rparr>))"

text \<open>\<open>run\<close> and \<open>run_checked\<close>, which every implementation has for its own error type.\<close>

definition cli_run :: "'w tools \<Rightarrow> (string \<Rightarrow> io_error \<Rightarrow> 'e) \<Rightarrow> string \<Rightarrow> string list \<Rightarrow> ('w, proc_output, 'e) cact" where
  "cli_run tb spawn program args = on_world (tl_run tb program args) (spawn program)"

definition cli_checked :: "'w tools \<Rightarrow> (string \<Rightarrow> io_error \<Rightarrow> 'e) \<Rightarrow> (string \<Rightarrow> int \<Rightarrow> string \<Rightarrow> 'e) \<Rightarrow> string \<Rightarrow> string list \<Rightarrow> ('w, unit, 'e) cact" where
  "cli_checked tb spawn failed program args = bindA (cli_run tb spawn program args) (\<lambda>out.
     if exit_success out then returnA ()
     else failA (failed (program @ '' '' @ join_args args) (out_status out) (lossy (out_stderr out))))"

definition stderr_contains :: "proc_output \<Rightarrow> string \<Rightarrow> bool" where
  "stderr_contains out needle \<longleftrightarrow> contains_str needle (lossy (out_stderr out))"

section \<open>keel-zfs/src/cli.rs\<close>

abbreviation zfs_run :: "'w tools \<Rightarrow> string list \<Rightarrow> ('w, proc_output, zfs_error) cact" where
  "zfs_run tb args \<equiv> cli_run tb ZSpawn ''zfs'' args"

abbreviation zfs_checked :: "'w tools \<Rightarrow> string list \<Rightarrow> ('w, unit, zfs_error) cact" where
  "zfs_checked tb args \<equiv> cli_checked tb ZSpawn ZCommandFailed ''zfs'' args"

definition cli_dataset_exists :: "'w tools \<Rightarrow> string \<Rightarrow> ('w, bool, zfs_error) cact" where
  "cli_dataset_exists tb dataset =
     bindA (zfs_run tb [''list'', ''-H'', ''-o'', ''name'', dataset]) (\<lambda>out.
       if exit_success out then returnA True
       else if exit_code out = Some 1 then returnA False
       else failA (ZCommandFailed (''zfs list -H -o name '' @ dataset) (out_status out) (lossy (out_stderr out))))"

definition cli_create_volume :: "'w tools \<Rightarrow> string \<Rightarrow> string \<Rightarrow> ('w, unit, zfs_error) cact" where
  "cli_create_volume tb dataset quota = bindA (cli_dataset_exists tb dataset) (\<lambda>there.
     if there then returnA () else zfs_checked tb [''create'', ''-o'', ''quota='' @ quota, dataset])"

definition zfs_failed_with :: "string \<Rightarrow> zfs_error \<Rightarrow> bool" where
  "zfs_failed_with needle e = (case e of ZCommandFailed _ _ stderr \<Rightarrow> contains_str needle stderr | _ \<Rightarrow> False)"

text \<open>The loop of \<open>destroy_dataset\<close>, with the attempts that are left; the result carries the last error.\<close>

fun destroy_attempts :: "'w tools \<Rightarrow> string \<Rightarrow> nat \<Rightarrow> zfs_error option \<Rightarrow> bool \<Rightarrow> ('w, (zfs_error option \<times> bool) option, zfs_error) cact" where
  "destroy_attempts tb dataset 0 last_err last_was_busy = returnA (Some (last_err, last_was_busy))"
| "destroy_attempts tb dataset (Suc k) last_err last_was_busy =
     bindA (resultA (zfs_checked tb [''destroy'', dataset])) (\<lambda>r. case r of
       Ok _ \<Rightarrow> returnA None
     | Err e \<Rightarrow>
         if zfs_failed_with ''dataset does not exist'' e then failA (ZNotFound dataset)
         else let is_busy = zfs_failed_with ''dataset is busy'' e in
           if \<not> is_busy then returnA (Some (Some e, is_busy)) else destroy_attempts tb dataset k (Some e) is_busy)"

definition cli_destroy_dataset :: "'w tools \<Rightarrow> string \<Rightarrow> ('w, unit, zfs_error) cact" where
  "cli_destroy_dataset tb dataset = bindA (destroy_attempts tb dataset 10 None False) (\<lambda>r. case r of
       None \<Rightarrow> returnA ()
     | Some (last_err, last_was_busy) \<Rightarrow>
         if last_was_busy then failA (ZBusy dataset) else bindA (expectA (ok_or () last_err)) failA)"

definition cli_snapshot :: "'w tools \<Rightarrow> string \<Rightarrow> string \<Rightarrow> ('w, unit, zfs_error) cact" where
  "cli_snapshot tb dataset snapshot = zfs_checked tb [''snapshot'', snap_key dataset snapshot]"

definition cli_destroy_snapshot :: "'w tools \<Rightarrow> string \<Rightarrow> string \<Rightarrow> ('w, unit, zfs_error) cact" where
  "cli_destroy_snapshot tb dataset snapshot = zfs_checked tb [''destroy'', snap_key dataset snapshot]"

text \<open>\<open>read_to_string\<close> leaves the buffer empty when the bytes are no UTF-8.\<close>

definition read_text :: "string \<Rightarrow> string" where
  "read_text s = (if utf8_valid s then s else [])"

text \<open>The bytes of \<open>zfs send\<close>, which the caller's stream receives; a stream that breaks is the link's affair.\<close>

definition cli_send_snapshot :: "'w tools \<Rightarrow> string \<Rightarrow> string \<Rightarrow> string option \<Rightarrow> ('w, string, zfs_error) cact" where
  "cli_send_snapshot tb dataset snapshot base =
     (let args = [''send''] @ (case base of Some b \<Rightarrow> [''-i'', snap_key dataset b] | None \<Rightarrow> []) @ [snap_key dataset snapshot]
      in bindA (zfs_run tb args) (\<lambda>out.
        if exit_success out then returnA (out_stdout out)
        else failA (ZCommandFailed (''zfs '' @ join_args args) (out_status out) (read_text (out_stderr out)))))"

definition cli_receive_snapshot :: "'w tools \<Rightarrow> string \<Rightarrow> string \<Rightarrow> ('w, unit, zfs_error) cact" where
  "cli_receive_snapshot tb dataset input =
     bindA (on_world (tl_feed tb ''zfs'' [''receive'', dataset] input) (ZSpawn ''zfs'')) (\<lambda>(out, copied).
       if \<not> exit_success out then failA (ZCommandFailed (''zfs receive '' @ dataset) (out_status out) (read_text (out_stderr out)))
       else if \<not> copied then failA (ZSpawn ''zfs receive'' IoOther) else returnA ())"

definition cli_clone_from_base :: "'w tools \<Rightarrow> string \<Rightarrow> string \<Rightarrow> ('w, unit, zfs_error) cact" where
  "cli_clone_from_base tb base_dataset target_dataset =
     (let snapshot = snap_key base_dataset ''keel'' in
      bindA (cli_dataset_exists tb snapshot) (\<lambda>there.
      bindA (if there then returnA () else
          bindA (resultA (zfs_checked tb [''snapshot'', snapshot])) (\<lambda>r. case r of
              Ok _ \<Rightarrow> returnA ()
            | Err e \<Rightarrow> bindA (cli_dataset_exists tb snapshot) (\<lambda>now. if now then returnA () else failA e))) (\<lambda>_.
        zfs_checked tb [''clone'', snapshot, target_dataset])))"

definition cli_zfs :: "'w tools \<Rightarrow> 'w cli zfs_manager" where
  "cli_zfs tb = \<lparr>zm_dataset_exists = cli_dataset_exists tb, zm_clone_from_base = cli_clone_from_base tb,
     zm_create_volume = cli_create_volume tb, zm_destroy_dataset = cli_destroy_dataset tb, zm_snapshot = cli_snapshot tb,
     zm_destroy_snapshot = cli_destroy_snapshot tb, zm_send_snapshot = cli_send_snapshot tb, zm_receive_snapshot = cli_receive_snapshot tb\<rparr>"

section \<open>keel-jail/src/process.rs\<close>

abbreviation jail_run :: "'w tools \<Rightarrow> string \<Rightarrow> string list \<Rightarrow> ('w, proc_output, jail_error) cact" where
  "jail_run tb program args \<equiv> cli_run tb JSpawn program args"

abbreviation jail_checked :: "'w tools \<Rightarrow> string \<Rightarrow> string list \<Rightarrow> ('w, unit, jail_error) cact" where
  "jail_checked tb program args \<equiv> cli_checked tb JSpawn JCommandFailed program args"

text \<open>The children are polled in turn; those that have ended leave the list.\<close>

fun retain_children :: "'w tools \<Rightarrow> (string \<times> nat) list \<Rightarrow> 'w \<Rightarrow> (string \<times> nat) list \<times> 'w" where
  "retain_children tb [] w = ([], w)"
| "retain_children tb ((name, pid) # cs) w = (case tl_finished tb pid w of (ended, w1) \<Rightarrow>
     (case retain_children tb cs w1 of (rest, w2) \<Rightarrow> (if ended then rest else (name, pid) # rest, w2)))"

definition reap_finished_children :: "'w tools \<Rightarrow> ('w, unit, 'e) cact" where
  "reap_finished_children tb = modifyA (\<lambda>s. case retain_children tb (cl_children s) (cl_world s) of
     (cs, w) \<Rightarrow> s\<lparr>cl_children := cs, cl_world := w\<rparr>)"

definition jid_of :: "'w tools \<Rightarrow> string \<Rightarrow> ('w, string option, jail_error) cact" where
  "jid_of tb name = bindA (jail_run tb ''jls'' [''-j'', name, ''jid'']) (\<lambda>jls.
     returnA (if \<not> exit_success jls then None
       else let jid = trim (lossy (out_stdout jls)) in if jid = [] then None else Some jid))"

definition cli_jail_create :: "'w tools \<Rightarrow> string \<Rightarrow> string \<Rightarrow> bool \<Rightarrow> ('w, unit, jail_error) cact" where
  "cli_jail_create tb name rootfs vnet =
     bindA (on_world (tl_create_dir_all tb (path_join rootfs ''dev'')) (JSpawn ''mkdir devfs mountpoint'')) (\<lambda>_.
       jail_checked tb ''jail'' ([''-c'', ''name='' @ name, ''path='' @ lossy rootfs] @ (if vnet then [''vnet''] else []) @
         [''mount.devfs'', ''devfs_ruleset=4'', ''persist'']))"

text \<open>\<open>Path::join\<close> on a path that the system printed, which may end in a slash.\<close>

definition path_join_dir :: "string \<Rightarrow> string \<Rightarrow> string" where
  "path_join_dir p x = (if last p = CHR ''/'' then p @ x else path_join p x)"

definition devfs_path :: "(proc_output, jail_error) result \<Rightarrow> string option" where
  "devfs_path r = (case r of Err _ \<Rightarrow> None
     | Ok out \<Rightarrow> if \<not> exit_success out then None
         else let p = trim (lossy (out_stdout out)) in if p = [] then None else Some (path_join_dir p ''dev''))"

definition cli_jail_destroy :: "'w tools \<Rightarrow> string \<Rightarrow> ('w, unit, jail_error) cact" where
  "cli_jail_destroy tb name =
     bindA (resultA (jail_run tb ''jls'' [''-j'', name, ''path''])) (\<lambda>jls.
     bindA (jail_run tb ''jail'' [''-r'', name]) (\<lambda>out.
     if \<not> exit_success out then
       let stderr = lossy (out_stderr out) in
       failA (if contains_str ''not found'' stderr then JNotFound name
         else JCommandFailed (''jail -r '' @ name) (out_status out) stderr)
     else
       bindA (case devfs_path jls of Some p \<Rightarrow> ignoreA (jail_run tb ''umount'' [lossy p]) | None \<Rightarrow> returnA ()) (\<lambda>_.
       bindA (getA cl_children) (\<lambda>children.
       bindA (modifyA (\<lambda>s. s\<lparr>cl_children := filter (\<lambda>(n, _). n \<noteq> name) children\<rparr>)) (\<lambda>_.
         forA (filter (\<lambda>(n, _). n = name) children)
           (\<lambda>(_, pid). modifyA (\<lambda>s. s\<lparr>cl_world := tl_wait tb pid (cl_world s)\<rparr>)))))))"

definition cli_jail_exists :: "'w tools \<Rightarrow> string \<Rightarrow> ('w, bool, jail_error) cact" where
  "cli_jail_exists tb name = bindA (jid_of tb name) (\<lambda>jid. returnA (jid \<noteq> None))"

definition live_state :: "string \<Rightarrow> bool" where
  "live_state line = (let state = trim line in state \<noteq> [] \<and> \<not> prefix ''Z'' state)"

definition cli_is_running :: "'w tools \<Rightarrow> string \<Rightarrow> ('w, bool, jail_error) cact" where
  "cli_is_running tb name = bindA (jid_of tb name) (\<lambda>j. case j of
       None \<Rightarrow> returnA False
     | Some jid \<Rightarrow> bindA (jail_run tb ''ps'' [''-J'', jid, ''-o'', ''state='']) (\<lambda>ps.
         returnA (list_ex live_state (str_lines (lossy (out_stdout ps))))))"

definition cli_start_command :: "'w tools \<Rightarrow> string \<Rightarrow> string list \<Rightarrow> ('w, unit, jail_error) cact" where
  "cli_start_command tb name command =
     bindA (reap_finished_children tb) (\<lambda>_.
     bindA (on_world (tl_spawn tb ''jexec'' (name # command)) (JSpawn ''jexec'')) (\<lambda>child.
       modifyA (\<lambda>s. s\<lparr>cl_children := cl_children s @ [(name, child)]\<rparr>)))"

definition cli_set_resource_limits :: "'w tools \<Rightarrow> string \<Rightarrow> nat \<Rightarrow> nat \<Rightarrow> ('w, unit, jail_error) cact" where
  "cli_set_resource_limits tb name pcpu_percent memory_bytes =
     bindA (jail_checked tb ''rctl'' [''-a'', ''jail:'' @ name @ '':pcpu:deny='' @ show_nat pcpu_percent]) (\<lambda>_.
       jail_checked tb ''rctl'' [''-a'', ''jail:'' @ name @ '':vmemoryuse:deny='' @ show_nat memory_bytes])"

definition cli_remove_resource_limits :: "'w tools \<Rightarrow> string \<Rightarrow> ('w, unit, jail_error) cact" where
  "cli_remove_resource_limits tb name = bindA (jail_run tb ''rctl'' [''-r'', ''jail:'' @ name]) (\<lambda>out.
     if exit_success out then returnA ()
     else if stderr_contains out ''No such process'' then returnA ()
     else failA (JCommandFailed (''rctl -r jail:'' @ name) (out_status out) (lossy (out_stderr out))))"

definition cli_jails :: "'w tools \<Rightarrow> 'w cli jail_runtime" where
  "cli_jails tb = \<lparr>jr_create = cli_jail_create tb, jr_jail_exists = cli_jail_exists tb, jr_start_command = cli_start_command tb,
     jr_destroy = cli_jail_destroy tb, jr_is_running = cli_is_running tb, jr_set_resource_limits = cli_set_resource_limits tb,
     jr_remove_resource_limits = cli_remove_resource_limits tb\<rparr>"

section \<open>keel-jail/src/mount-cli.rs\<close>

definition cli_ensure_mount_point :: "'w tools \<Rightarrow> string \<Rightarrow> ('w, unit, mount_error) cact" where
  "cli_ensure_mount_point tb target = on_world (tl_create_dir_all tb target) MIo"

definition cli_mount_nullfs :: "'w tools \<Rightarrow> string \<Rightarrow> string \<Rightarrow> ('w, unit, mount_error) cact" where
  "cli_mount_nullfs tb source target =
     cli_checked tb MSpawn MCommandFailed ''mount'' [''-t'', ''nullfs'', lossy source, lossy target]"

definition cli_unmount :: "'w tools \<Rightarrow> string \<Rightarrow> ('w, unit, mount_error) cact" where
  "cli_unmount tb target = bindA (cli_run tb MSpawn ''umount'' [lossy target]) (\<lambda>out.
     if exit_success out then returnA ()
     else let stderr = lossy (out_stderr out) in
       failA (if contains_str ''not a file system root directory'' stderr then MNotMounted target
         else MCommandFailed (''umount '' @ lossy target) (out_status out) stderr))"

definition mounted_at :: "string \<Rightarrow> string \<Rightarrow> bool" where
  "mounted_at target line \<longleftrightarrow> (case split_whitespace line of _ # point # _ \<Rightarrow> point = target | _ \<Rightarrow> False)"

definition cli_is_mounted :: "'w tools \<Rightarrow> string \<Rightarrow> ('w, bool, mount_error) cact" where
  "cli_is_mounted tb target = bindA (cli_run tb MSpawn ''mount'' [''-p'']) (\<lambda>out.
     if \<not> exit_success out then failA (MCommandFailed ''mount -p'' (out_status out) (lossy (out_stderr out)))
     else returnA (list_ex (mounted_at (lossy target)) (str_lines (lossy (out_stdout out)))))"

definition cli_mounts :: "'w tools \<Rightarrow> 'w cli mount_manager" where
  "cli_mounts tb = \<lparr>mm_ensure_mount_point = cli_ensure_mount_point tb, mm_mount_nullfs = cli_mount_nullfs tb,
     mm_unmount = cli_unmount tb, mm_is_mounted = cli_is_mounted tb\<rparr>"

section \<open>keel-net/src/process.rs\<close>

abbreviation net_run :: "'w tools \<Rightarrow> string \<Rightarrow> string list \<Rightarrow> ('w, proc_output, net_error) cact" where
  "net_run tb program args \<equiv> cli_run tb NSpawn program args"

abbreviation net_checked :: "'w tools \<Rightarrow> string \<Rightarrow> string list \<Rightarrow> ('w, unit, net_error) cact" where
  "net_checked tb program args \<equiv> cli_checked tb NSpawn NCommandFailed program args"

text \<open>The pattern of most methods: a command whose failure with one of some messages counts as success.\<close>

definition net_tolerant :: "'w tools \<Rightarrow> string \<Rightarrow> string list \<Rightarrow> string list \<Rightarrow> ('w, unit, net_error) cact" where
  "net_tolerant tb program args needles = bindA (net_run tb program args) (\<lambda>out.
     if exit_success out \<or> list_ex (stderr_contains out) needles then returnA ()
     else failA (NCommandFailed (program @ '' '' @ join_args args) (out_status out) (lossy (out_stderr out))))"

definition cli_ensure_bridge_exists :: "'w tools \<Rightarrow> string \<Rightarrow> ('w, unit, net_error) cact" where
  "cli_ensure_bridge_exists tb bridge = bindA (net_run tb ''ifconfig'' [bridge]) (\<lambda>check.
     if exit_success check then returnA () else
     bindA (net_run tb ''ifconfig'' [''bridge'', ''create'']) (\<lambda>created.
     if \<not> exit_success created
     then failA (NCommandFailed ''ifconfig bridge create'' (out_status created) (lossy (out_stderr created)))
     else bindA (net_checked tb ''ifconfig'' [trim (lossy (out_stdout created)), ''name'', bridge]) (\<lambda>_.
       net_checked tb ''ifconfig'' [bridge, ''up''])))"

definition move_to_vnet :: "'w tools \<Rightarrow> string \<Rightarrow> string \<Rightarrow> ('w, unit, net_error) cact" where
  "move_to_vnet tb epair_b jail = bindA (net_run tb ''ifconfig'' [epair_b, ''vnet'', jail]) (\<lambda>vnet_move.
     if exit_success vnet_move then returnA () else
     bindA (net_run tb ''jexec'' [jail, ''/sbin/ifconfig'', epair_b]) (\<lambda>already_there.
       if exit_success already_there then returnA ()
       else failA (NCommandFailed (''ifconfig '' @ epair_b @ '' vnet '' @ jail) (out_status vnet_move)
         (lossy (out_stderr vnet_move)))))"

definition cli_attach_jail :: "'w tools \<Rightarrow> ipnet_api \<Rightarrow> string \<Rightarrow> string \<Rightarrow> string \<Rightarrow> string \<Rightarrow> ('w, unit, net_error) cact" where
  "cli_attach_jail tb api jail bridge epair_base address =
     bindA (net_run tb ''ifconfig'' [bridge]) (\<lambda>bridge_check.
     if \<not> exit_success bridge_check then failA (NNotFound bridge) else
     bindA (bridge_gateway api address) (\<lambda>gateway.
     bindA (net_tolerant tb ''ifconfig'' [bridge, ''inet'', gateway, ''alias''] [''File exists'']) (\<lambda>_.
     let epair_a = epair_base @ ''a''; epair_b = epair_base @ ''b'' in
     bindA (net_tolerant tb ''ifconfig'' [epair_base, ''create''] [''already exists'']) (\<lambda>_.
     bindA (net_tolerant tb ''ifconfig'' [bridge, ''addm'', epair_a] [''File exists'']) (\<lambda>_.
     bindA (net_checked tb ''ifconfig'' [epair_a, ''up'']) (\<lambda>_.
     bindA (move_to_vnet tb epair_b jail) (\<lambda>_.
     bindA (net_checked tb ''jexec'' [jail, ''/sbin/ifconfig'', epair_b, ''inet'', address]) (\<lambda>_.
     bindA (net_checked tb ''jexec'' [jail, ''/sbin/ifconfig'', epair_b, ''up'']) (\<lambda>_.
     let gateway_ip = hd (split_char CHR ''/'' gateway) in
     net_tolerant tb ''jexec'' [jail, ''/sbin/route'', ''add'', ''default'', gateway_ip] [''File exists''])))))))))"

definition cli_detach_jail :: "'w tools \<Rightarrow> string \<Rightarrow> ('w, unit, net_error) cact" where
  "cli_detach_jail tb epair_base = net_tolerant tb ''ifconfig'' [epair_base @ ''a'', ''destroy''] [''does not exist'']"

definition cli_add_route :: "'w tools \<Rightarrow> string \<Rightarrow> string \<Rightarrow> ('w, unit, net_error) cact" where
  "cli_add_route tb subnet gateway_addr = net_tolerant tb ''route'' [''add'', ''-net'', subnet, gateway_addr] [''File exists'']"

definition cli_remove_route :: "'w tools \<Rightarrow> string \<Rightarrow> ('w, unit, net_error) cact" where
  "cli_remove_route tb subnet = net_tolerant tb ''route'' [''delete'', ''-net'', subnet] [''not in table'', ''has not been found'']"

definition cli_add_alias :: "'w tools \<Rightarrow> string \<Rightarrow> string \<Rightarrow> ('w, unit, net_error) cact" where
  "cli_add_alias tb bridge address =
     net_tolerant tb ''ifconfig'' [bridge, ''alias'', address, ''netmask'', ''255.255.255.255''] [''File exists'']"

definition cli_remove_alias :: "'w tools \<Rightarrow> string \<Rightarrow> string \<Rightarrow> ('w, unit, net_error) cact" where
  "cli_remove_alias tb bridge address =
     net_tolerant tb ''ifconfig'' [bridge, ''-alias'', address] [''Can'' @ CHR 0x27 # ''t assign requested address'']"

definition cli_net :: "'w tools \<Rightarrow> ipnet_api \<Rightarrow> 'w cli net_manager" where
  "cli_net tb api = \<lparr>nm_ensure_bridge_exists = cli_ensure_bridge_exists tb, nm_attach_jail = cli_attach_jail tb api,
     nm_detach_jail = cli_detach_jail tb, nm_add_route = cli_add_route tb, nm_remove_route = cli_remove_route tb,
     nm_add_alias = cli_add_alias tb, nm_remove_alias = cli_remove_alias tb\<rparr>"

section \<open>keel-agentd/src/nginx.rs and pf.rs\<close>

definition run_jexec :: "'w tools \<Rightarrow> string \<Rightarrow> string list \<Rightarrow> (string \<Rightarrow> 'e) \<Rightarrow> ('w, proc_output, 'e) cact" where
  "run_jexec tb jail args f = on_world (tl_run tb ''jexec'' (jail # args)) (f \<circ> tl_show_io tb)"

definition cli_write_config :: "'w tools \<Rightarrow> string \<Rightarrow> string \<Rightarrow> string \<Rightarrow> ('w, unit, nginx_error) cact" where
  "cli_write_config tb pool jail config =
     (let spec_name = (case strip_prefix ''keel-'' jail of Some n \<Rightarrow> n | None \<Rightarrow> jail);
          config_dir = path_join (jail_rootfs_path pool spec_name) ''usr/local/etc/nginx'';
          final_path = path_join config_dir ''nginx.conf'';
          tmp_path = path_join config_dir ''nginx.conf.tmp''
      in bindA (on_world (tl_create_dir_all tb config_dir) (NginxWrite \<circ> tl_show_io tb)) (\<lambda>_.
         bindA (on_world (tl_write tb tmp_path config) (NginxWrite \<circ> tl_show_io tb)) (\<lambda>_.
           on_world (tl_rename tb tmp_path final_path) (NginxWrite \<circ> tl_show_io tb))))"

definition nginx_command :: "'w tools \<Rightarrow> string \<Rightarrow> string list \<Rightarrow> (string \<Rightarrow> nginx_error) \<Rightarrow> ('w, unit, nginx_error) cact" where
  "nginx_command tb jail flags f =
     bindA (run_jexec tb jail ([''/usr/local/sbin/nginx'', ''-c'', NGINX_CONF_PATH] @ flags) f) (\<lambda>out.
       if exit_success out then returnA () else failA (f (lossy (out_stderr out))))"

definition cli_test_config :: "'w tools \<Rightarrow> string \<Rightarrow> ('w, unit, nginx_error) cact" where
  "cli_test_config tb jail = nginx_command tb jail [''-t''] NginxValidationFailed"

definition cli_reload :: "'w tools \<Rightarrow> string \<Rightarrow> ('w, unit, nginx_error) cact" where
  "cli_reload tb jail = nginx_command tb jail [''-s'', ''reload''] NginxReloadFailed"

definition cli_nginx :: "'w tools \<Rightarrow> string \<Rightarrow> 'w cli nginx_controller" where
  "cli_nginx tb pool = \<lparr>ng_write_config = cli_write_config tb pool, ng_test_config = cli_test_config tb, ng_reload = cli_reload tb\<rparr>"

definition pf_rules :: "string \<Rightarrow> string \<Rightarrow> string" where
  "pf_rules iface addr = concat (map (\<lambda>port. ''rdr pass on '' @ iface @ '' inet proto tcp from any to '' @ iface @ '' port '' @ port @
     '' -> '' @ addr @ '' port '' @ port @ [CHR 0x0A]) [''80'', ''443''])"

definition ensure_redirect_rules :: "'w tools \<Rightarrow> string \<Rightarrow> string \<Rightarrow> ('w, unit, string) cact" where
  "ensure_redirect_rules tb public_iface ingress_bridge_addr =
     (let dir = ''/usr/local/etc/keel''; rules_path = path_join dir ''pf-ingress.conf'' in
      bindA (on_world (tl_create_dir_all tb dir) (tl_show_io tb)) (\<lambda>_.
      bindA (on_world (tl_write tb rules_path (pf_rules public_iface ingress_bridge_addr)) (tl_show_io tb)) (\<lambda>_.
      bindA (on_world (tl_run tb ''pfctl'' [''-a'', ''keel-ingress'', ''-f'', rules_path]) (tl_show_io tb)) (\<lambda>out.
        if exit_success out then returnA () else failA (lossy (out_stderr out))))))"

text \<open>The host of the running agent; the certificate client and the DNS provider are arguments.\<close>

definition cli_host :: "'w tools \<Rightarrow> ipnet_api \<Rightarrow> string \<Rightarrow> 'w cli dns_provider \<Rightarrow>
    (string \<Rightarrow> string \<Rightarrow> 'w cli dns_provider \<Rightarrow> ('w, cert, acme_error) cact) \<Rightarrow> 'w cli host" where
  "cli_host tb api pool dns acme = \<lparr>h_jails = cli_jails tb, h_mounts = cli_mounts tb, h_zfs = cli_zfs tb, h_net = cli_net tb api,
     h_nginx = cli_nginx tb pool, h_dns = dns, h_request_certificate = acme,
     h_instant_now = tl_now tb \<circ> cl_world, h_unix_now = tl_unix_now tb \<circ> cl_world\<rparr>"

end
