(* ===== verification/Keel_Refine.thy ===== *)
theory Keel_Refine
  imports Keel_Prelude
begin

text \<open>
  A worker thread as the implementation of an abstract store: a specification is a relation between a
  command, its reply and the abstract states before and after, and one abstract step for every command
  served gives an abstract run for every sequence of commands.
\<close>

inductive run_of :: "('c \<Rightarrow> 'r \<Rightarrow> 'a \<Rightarrow> 'a \<Rightarrow> bool) \<Rightarrow> 'c list \<Rightarrow> 'r list \<Rightarrow> 'a \<Rightarrow> 'a \<Rightarrow> bool"
  for R :: "'c \<Rightarrow> 'r \<Rightarrow> 'a \<Rightarrow> 'a \<Rightarrow> bool" where
  run_done [intro]: "run_of R [] [] a a"
| run_step [intro]: "R c r a b \<Longrightarrow> run_of R cs rs b d \<Longrightarrow> run_of R (c # cs) (r # rs) a d"

inductive_simps run_of_simps [simp]: "run_of R [] rs a d" "run_of R (c # cs) rs a d" "run_of R cs (r # rs) a d"

lemma run_of_length: "run_of R cs rs a d \<Longrightarrow> length rs = length cs"
  by (induction rule: run_of.induct) auto

lemma run_of_append:
  "run_of R (cs @ ds) rs a d \<longleftrightarrow> (\<exists>qs ps b. rs = qs @ ps \<and> run_of R cs qs a b \<and> run_of R ds ps b d)"
proof (induction cs arbitrary: rs a)
  case Nil
  show ?case by (auto dest: run_of.cases)
next
  case (Cons c cs)
  show ?case by (auto simp: Cons.IH) (metis append_Cons)+
qed

text \<open>What the steps for a set of commands keep, a run of such commands keeps.\<close>

lemma run_of_keeps:
  assumes "run_of R cs rs a d" "P a" "\<And>c r a b. c \<in> set cs \<Longrightarrow> R c r a b \<Longrightarrow> P a \<Longrightarrow> P b"
  shows "P d"
  using assms by (induction rule: run_of.induct) auto

locale refining_server = guarded_server handle inv allowed
  for handle :: "'t \<Rightarrow> 'c \<Rightarrow> 's \<Rightarrow> ('r \<times> 's) option" and inv and allowed +
  fixes abs :: "'s \<Rightarrow> 'a"
    and astep :: "'c \<Rightarrow> 'r \<Rightarrow> 'a \<Rightarrow> 'a \<Rightarrow> bool"
  assumes simulates: "inv s \<Longrightarrow> allowed c \<Longrightarrow> handle now c s = Some (r, s') \<Longrightarrow> astep c r (abs s) (abs s')"
begin

lemma serve_refines:
  assumes "inv s" "\<forall>(now, c) \<in> set cs. allowed c"
  shows "\<exists>rs s'. serve handle cs s = Some (rs, s') \<and> inv s' \<and> run_of astep (map snd cs) rs (abs s) (abs s')"
  using assms
proof (induction cs arbitrary: s)
  case (Cons c cs)
  obtain now cmd where c: "c = (now, cmd)" by (cases c)
  with Cons.prems obtain r s1 where h: "handle now cmd s = Some (r, s1)" "inv s1"
    using answers [of s cmd now] by auto
  moreover have "astep cmd r (abs s) (abs s1)" using simulates [OF Cons.prems(1) _ h(1)] Cons.prems(2) c by simp
  ultimately show ?case using Cons.IH [of s1] Cons.prems(2) by (auto simp: c)
qed auto

end

end
