(* ===== verification/Ag_Desired.thy ===== *)
theory Ag_Desired
  imports Ag_Behaviour Keel_Refine
begin

text \<open>
  What the agent promises its clients, without hosts, files, epair numbers, cooldowns and certificates: a
  store of the jails and ingresses that are wanted. The worker thread implements this store: every
  command is answered as the store would answer it, changes the store only when it reports success, and
  a pass of the reconciler changes it only by adding the jail that serves the ingresses.
\<close>

record desired =
  ds_jails :: "string \<rightharpoonup> jail_spec"
  ds_ingresses :: "string \<rightharpoonup> ingress_spec"

definition desired_of :: "'s rc \<Rightarrow> desired" where
  "desired_of st = \<lparr>ds_jails = (\<lambda>n. map_option jrec_spec (hm_get (rc_records st) n)),
     ds_ingresses = (\<lambda>n. map_option irec_spec (hm_get (rc_ingress_records st) n))\<rparr>"

section \<open>The store\<close>

definition acceptable :: "'s agent \<Rightarrow> desired \<Rightarrow> jail_spec \<Rightarrow> bool" where
  "acceptable ag d spec \<longleftrightarrow> spec_ok ag spec \<and>
     (case ds_jails d (md_name (js_metadata spec)) of None \<Rightarrow> True | Some old \<Rightarrow> is_ok (validate_transition old spec))"

definition acceptable_ingress :: "ingress_spec \<Rightarrow> bool" where
  "acceptable_ingress spec \<longleftrightarrow> is_ok (validate_name (md_name (is_metadata spec))) \<and>
     is_ok (validate_host (ig_host (is_spec spec))) \<and> is_ok (validate_email (it_email (ig_tls (is_spec spec)))) \<and>
     ib_port (ig_backend (is_spec spec)) \<noteq> 0"

text \<open>An answer is success, a failed write, or the one refusal that fits.\<close>

definition saved_or :: "bool \<Rightarrow> (reconcile_error \<Rightarrow> bool) \<Rightarrow> (unit, reconcile_error) result \<Rightarrow> bool" where
  "saved_or fits refusal res \<longleftrightarrow> (if fits then res = Ok () \<or> (\<exists>e. res = Err (RStore e)) else (\<exists>e. res = Err e \<and> refusal e))"

text \<open>The errors that tell a client that there is nothing of this name.\<close>

definition says_missing :: "reconcile_error \<Rightarrow> bool" where
  "says_missing e \<longleftrightarrow> (\<exists>n. e = RNotFound n) \<or> (\<exists>d. e = RZfs (ZNotFound d))"

inductive dreply :: "'s agent \<Rightarrow> desired \<Rightarrow> acommand \<Rightarrow> areply \<Rightarrow> bool" for ag :: "'s agent" and d :: desired where
  re_apply: "saved_or (acceptable ag d spec) (\<lambda>e. \<exists>x. e = RInvalidSpec x) res \<Longrightarrow> dreply ag d (AApply spec) (AResult res)"
| re_delete: "(ds_jails d n = None \<Longrightarrow> res = Err (RNotFound n)) \<Longrightarrow> (\<And>e. res = Err e \<Longrightarrow> says_missing e \<Longrightarrow> ds_jails d n = None) \<Longrightarrow>
    dreply ag d (ADelete n) (AResult res)"
| re_target: "saved_or (ds_jails d n \<noteq> None) (\<lambda>e. e = RNotFound n) res \<Longrightarrow> dreply ag d (ASetReplicateTo n t) (AResult res)"
| re_apply_ingress: "saved_or (acceptable_ingress i) (\<lambda>e. \<exists>x. e = RInvalidSpec x) res \<Longrightarrow> dreply ag d (AApplyIngress i) (AResult res)"
| re_delete_ingress: "saved_or (ds_ingresses d n \<noteq> None) (\<lambda>e. e = RNotFound n) res \<Longrightarrow> dreply ag d (ADeleteIngress n) (AResult res)"
| re_get: "map (jrec_spec \<circ> jst_record) xs = (case ds_jails d n of None \<Rightarrow> [] | Some s \<Rightarrow> [s]) \<Longrightarrow> dreply ag d (AGet (Some n)) (AStatuses xs)"
| re_list: "map (jrec_spec \<circ> jst_record) xs = map (the \<circ> ds_jails d) (sorted_list_of_set (dom (ds_jails d))) \<Longrightarrow>
    dreply ag d (AGet None) (AStatuses xs)"
| re_get_ingress: "map irec_spec rs = (case ds_ingresses d n of None \<Rightarrow> [] | Some s \<Rightarrow> [s]) \<Longrightarrow> dreply ag d (AGetIngress (Some n)) (AIngresses rs)"
| re_list_ingress: "distinct ns \<Longrightarrow> set ns = dom (ds_ingresses d) \<Longrightarrow> map irec_spec rs = map (the \<circ> ds_ingresses d) ns \<Longrightarrow>
    dreply ag d (AGetIngress None) (AIngresses rs)"
| re_get_volume: "dreply ag d (AGetVolume n) (AResult res)"
| re_delete_volume: "dreply ag d (ADeleteVolume n) (AResult res)"
| re_add_route: "dreply ag d (AAddRoute s g) (ANet nres)"
| re_remove_route: "dreply ag d (ARemoveRoute s) (ANet nres)"
| re_add_alias: "dreply ag d (AAddServiceAlias b a) (ANet nres)"
| re_remove_alias: "dreply ag d (ARemoveServiceAlias b a) (ANet nres)"
| re_committed: "dreply ag d ACommittedResources (ACommitted x)"
| re_tick: "dreply ag d ATick AUnit"
| re_resume: "dreply ag d AResumeReplicationLoops AUnit"

definition with_target :: "string option \<Rightarrow> jail_spec \<Rightarrow> jail_spec" where
  "with_target t spec = spec\<lparr>js_spec := (js_spec spec)\<lparr>sp_replicate_to := t\<rparr>\<rparr>"

fun dcommit :: "acommand \<Rightarrow> desired \<Rightarrow> desired" where
  "dcommit (AApply spec) d = d\<lparr>ds_jails := (ds_jails d)(md_name (js_metadata spec) \<mapsto> spec)\<rparr>"
| "dcommit (ADelete n) d = d\<lparr>ds_jails := (ds_jails d)(n := None)\<rparr>"
| "dcommit (ASetReplicateTo n t) d = d\<lparr>ds_jails := (ds_jails d)(n := map_option (with_target t) (ds_jails d n))\<rparr>"
| "dcommit (AApplyIngress spec) d = d\<lparr>ds_ingresses := (ds_ingresses d)(md_name (is_metadata spec) \<mapsto> spec)\<rparr>"
| "dcommit (ADeleteIngress n) d = d\<lparr>ds_ingresses := (ds_ingresses d)(n := None)\<rparr>"
| "dcommit _ d = d"

definition dupdate :: "acommand \<Rightarrow> areply \<Rightarrow> desired \<Rightarrow> desired" where
  "dupdate c r d = (if r = AResult (Ok ()) then dcommit c d else d)"

text \<open>The commands that end with a pass of the reconciler, and what such a pass may do to the store.\<close>

fun ticks :: "acommand \<Rightarrow> bool" where
  "ticks (AApply _) = True"
| "ticks (ADelete _) = True"
| "ticks ATick = True"
| "ticks (AApplyIngress _) = True"
| "ticks (ADeleteIngress _) = True"
| "ticks _ = False"

definition settles :: "desired \<Rightarrow> desired \<Rightarrow> bool" where
  "settles d d' \<longleftrightarrow> d' = d \<or> (ds_ingresses d \<noteq> Map.empty \<and> ds_jails d ''ingress'' = None \<and>
     d' = d\<lparr>ds_jails := (ds_jails d)(''ingress'' \<mapsto> ingress_jail_spec)\<rparr>)"

inductive dstep :: "'s agent \<Rightarrow> acommand \<Rightarrow> areply \<Rightarrow> desired \<Rightarrow> desired \<Rightarrow> bool" for ag :: "'s agent" where
  dstep_pass: "dreply ag d c r \<Longrightarrow> ticks c \<Longrightarrow> settles (dupdate c r d) d' \<Longrightarrow> dstep ag c r d d'"
| dstep_plain: "dreply ag d c r \<Longrightarrow> \<not> ticks c \<Longrightarrow> dstep ag c r d (dupdate c r d)"

section \<open>What a pass does to the store\<close>

lemma desired_of_fields [simp]:
  "desired_of (st\<lparr>rc_host := h\<rparr>) = desired_of st" "desired_of (st\<lparr>rc_fs := f\<rparr>) = desired_of st"
  "desired_of (st\<lparr>rc_backoff := b\<rparr>) = desired_of st" "desired_of (st\<lparr>rc_ingress_backoff := b\<rparr>) = desired_of st"
  "desired_of (st\<lparr>rc_next_epair_ordinal := n\<rparr>) = desired_of st"
  by (simp_all add: desired_of_def)

lemma desired_jails: "ds_jails (desired_of st) n = map_option jrec_spec (hm_get (rc_records st) n)"
  and desired_ingresses: "ds_ingresses (desired_of st) n = map_option irec_spec (hm_get (rc_ingress_records st) n)"
  by (simp_all add: desired_of_def)

lemma desired_insert:
  "desired_of (st\<lparr>rc_records := hm_insert n r (rc_records st)\<rparr>) =
     (desired_of st)\<lparr>ds_jails := (ds_jails (desired_of st))(n \<mapsto> jrec_spec r)\<rparr>"
  "desired_of (st\<lparr>rc_ingress_records := hm_insert n q (rc_ingress_records st)\<rparr>) =
     (desired_of st)\<lparr>ds_ingresses := (ds_ingresses (desired_of st))(n \<mapsto> irec_spec q)\<rparr>"
  by (auto simp: desired_of_def)

lemma desired_remove:
  "desired_of (st\<lparr>rc_records := hm_remove n (rc_records st)\<rparr>) = (desired_of st)\<lparr>ds_jails := (ds_jails (desired_of st))(n := None)\<rparr>"
  "desired_of (st\<lparr>rc_ingress_records := hm_remove n (rc_ingress_records st)\<rparr>) =
     (desired_of st)\<lparr>ds_ingresses := (ds_ingresses (desired_of st))(n := None)\<rparr>"
  by (auto simp: desired_of_def)

definition store_is :: "desired \<Rightarrow> 's rc \<Rightarrow> bool" where
  "store_is d st \<longleftrightarrow> desired_of st = d"

lemma store_is_fields [simp]:
  "store_is d (st\<lparr>rc_host := h\<rparr>) = store_is d st" "store_is d (st\<lparr>rc_fs := f\<rparr>) = store_is d st"
  "store_is d (st\<lparr>rc_backoff := b\<rparr>) = store_is d st" "store_is d (st\<lparr>rc_ingress_backoff := b\<rparr>) = store_is d st"
  by (simp_all add: store_is_def)

lemma store_blind: "host_blind (store_is d)"
  by (simp add: host_blind_def)

lemma keepsA_get_bind: "(\<And>s. P s \<Longrightarrow> keepsA P (f (g s))) \<Longrightarrow> keepsA P (bindA (getA g) f)"
  by (simp add: keepsA_def bindA_def getA_def)

lemma keepsA_modify_bind: "(\<And>s. P s \<Longrightarrow> P (g s)) \<Longrightarrow> keepsA P (f ()) \<Longrightarrow> keepsA P (bindA (modifyA g) f)"
  by (simp add: keepsA_def bindA_def modifyA_def)

lemma store_on_fs: "keepsA (store_is d) (on_fs f m)"
  by (auto simp: keepsA_def on_fs_def act_defs split: prod.splits outcome.splits)

lemma store_attempts:
  "keepsA (store_is d) (jail_attempt name now)" "keepsA (store_is d) (ingress_attempt ag name)"
  unfolding jail_attempt_def ingress_attempt_def by (auto simp: split_def intro!: inv_intros keepsA_modifyA)

lemmas store_steps = inv_intros keepsA_on_host [OF store_blind] store_on_fs store_attempts

lemma store_reconcile_one: "keepsA (store_is d) (reconcile_one ag now name)"
  unfolding reconcile_one_def
  by (intro store_steps keepsA_provision [OF store_blind] keepsA_modify_bind) simp

lemma store_reconcile_names: "keepsA (store_is d) (reconcile_names ag now ns)"
  by (induction ns) (auto intro!: store_steps store_reconcile_one)

lemma store_nginx: "keepsA (store_is d) (reconcile_ingress_config ag)"
  unfolding reconcile_ingress_config_def by (intro store_steps)

text \<open>Issuing a certificate rewrites the record of an ingress, but not its spec.\<close>

lemma store_renewed:
  assumes "store_is d st" "ds_ingresses d name = Some (irec_spec q)"
  shows "store_is d (st\<lparr>rc_ingress_records := hm_insert name q (rc_ingress_records st)\<rparr>)"
  using assms by (auto simp: store_is_def desired_insert fun_upd_idem)

lemma store_cert_write: "keepsA (store_is d) (write_cert_to_ingress_jail ag host c)"
  unfolding write_cert_to_ingress_jail_def by (intro store_steps)

lemma store_get_ingress:
  assumes "\<And>r. ds_ingresses d name = Some (irec_spec r) \<Longrightarrow> keepsA (store_is d) (f r)"
  shows "keepsA (store_is d) (bindA (getA (\<lambda>st. hm_get (rc_ingress_records st) name)) (\<lambda>found. bindA (expectA (ok_or () found)) f))"
proof (rule keepsA_get_bind)
  fix s assume "store_is d s"
  with assms show "keepsA (store_is d) (bindA (expectA (ok_or () (hm_get (rc_ingress_records s) name))) f)"
    by (cases "hm_get (rc_ingress_records s) name") (auto simp: keepsA_def act_defs store_is_def desired_ingresses)
qed

lemma store_reconcile_cert: "keepsA (store_is d) (reconcile_cert ag now_unix name)"
  unfolding reconcile_cert_def Let_def cert_exists_in_ingress_jail_def
  by (rule keepsA_get_bind, rule keepsA_modify_bind, simp, rule keepsA_bindA [OF keepsA_basic(4)], rule keepsA_if [OF keepsA_basic(1)],
      rule store_get_ingress, auto simp: store_renewed intro!: store_steps store_cert_write keepsA_modifyA split: result.splits)

lemma store_reconcile_certs: "keepsA (store_is d) (reconcile_certs ag now_unix)"
  unfolding reconcile_certs_def by (intro store_steps store_reconcile_cert)

section \<open>What the writing calls do to the store\<close>

definition outcome_of :: "('a, 'e) result \<Rightarrow> ('a, 'e) outcome" where
  "outcome_of res = (case res of Ok x \<Rightarrow> Val x | Err e \<Rightarrow> Exn e)"

text \<open>A call that returns, answers as the store may, and updates the store exactly when it reports success.\<close>

definition store_call :: "bool \<Rightarrow> (reconcile_error \<Rightarrow> bool) \<Rightarrow> (desired \<Rightarrow> desired) \<Rightarrow> ('s, unit) rca \<Rightarrow> 's rc \<Rightarrow> bool" where
  "store_call fits refusal update m st \<longleftrightarrow> (\<exists>res st'. m st = (outcome_of res, st') \<and> saved_or fits refusal res \<and>
     desired_of st' = (if res = Ok () then update (desired_of st) else desired_of st))"

lemma store_call_refuses:
  "m st = (Exn e, st) \<Longrightarrow> refusal e \<Longrightarrow> store_call False refusal update m st"
  unfolding store_call_def by (rule exI [of _ "Err e"]) (simp add: outcome_of_def saved_or_def)

lemma store_call_writes:
  assumes "\<And>d. fst (m d) \<noteq> Panic" "\<And>d. desired_of (f (st\<lparr>rc_fs := d\<rparr>)) = update (desired_of st)"
  shows "store_call True refusal update (bindA (on_fs RStore m) (\<lambda>_. modifyA f)) st"
proof -
  obtain x d where e: "m (rc_fs st) = (x, d)" by (metis surj_pair)
  show ?thesis
  proof (cases x)
    case (Val u)
    with e assms(2) show ?thesis
      unfolding store_call_def by (intro exI [of _ "Ok ()"] exI [of _ "f (st\<lparr>rc_fs := d\<rparr>)"]) (simp add: outcome_of_def saved_or_def on_fs_def act_defs)
  next
    case (Exn y)
    with e show ?thesis
      unfolding store_call_def by (intro exI [of _ "Err (RStore y)"] exI [of _ "st\<lparr>rc_fs := d\<rparr>"]) (simp add: outcome_of_def saved_or_def on_fs_def act_defs)
  next
    case Panic
    with e assms(1) [of "rc_fs st"] show ?thesis by simp
  qed
qed

lemma store_call_check:
  assumes "\<And>e. r = Err e \<Longrightarrow> refusal (g e)"
    and "\<And>x. r = Ok x \<Longrightarrow> store_call fits refusal update (k x) st"
  shows "store_call (is_ok r \<and> fits) refusal update (bindA (checkA g r) k) st"
proof (cases r)
  case (Ok x)
  with assms(2) show ?thesis by (simp add: store_call_def bindA_def checkA_def)
next
  case (Err e)
  with assms(1) show ?thesis by (auto simp: bindA_def checkA_def intro!: store_call_refuses)
qed

lemma store_call_get: "store_call fits refusal update (k (g st)) st \<Longrightarrow> store_call fits refusal update (bindA (getA g) k) st"
  by (simp add: store_call_def bindA_def getA_def)

lemma store_call_like:
  "m st = m' st' \<Longrightarrow> desired_of st' = desired_of st \<Longrightarrow> store_call fits refusal update m' st' \<Longrightarrow> store_call fits refusal update m st"
  unfolding store_call_def by metis

lemma store_call_if:
  "(\<not> c \<Longrightarrow> store_call True refusal update m st) \<Longrightarrow> refusal e \<Longrightarrow> store_call (\<not> c) refusal update (if c then failA e else m) st"
  by (auto simp: failA_def intro: store_call_refuses)

lemma writes_return:
  "fst (store_save cd dir r d) \<noteq> Panic" "fst (store_remove dir n d) \<noteq> Panic"
  "fst (ingress_save cd dir r d) \<noteq> Panic" "fst (ingress_remove dir n d) \<noteq> Panic"
proof -
  show *: "fst (store_save cd dir r d) \<noteq> Panic" "fst (store_remove dir n d) \<noteq> Panic" for cd :: "'a codec" and dir r n
    using store_save_files [of cd dir r d] store_remove_files [of dir n d] by (metis surj_pair fst_conv)+
  show "fst (ingress_save cd dir r d) \<noteq> Panic" "fst (ingress_remove dir n d) \<noteq> Panic"
    by (simp_all add: ingress_save_def ingress_remove_def *)
qed

lemma store_apply_jail:
  "store_call (acceptable ag (desired_of st) spec) (\<lambda>e. \<exists>x. e = RInvalidSpec x) (dcommit (AApply spec)) (apply_jail ag spec) st"
proof (cases "spec_ok ag spec")
  case False
  have "apply_jail ag spec st = (Exn e, st) \<Longrightarrow> \<exists>x. e = RInvalidSpec x" for e
    using False by (auto simp: spec_ok_def apply_jail_def bindA_def checkA_def Let_def split: result.splits)
  with apply_jail_rejects [OF False, of st] False show ?thesis
    by (auto simp: acceptable_def intro: store_call_refuses)
next
  case True
  let ?S = "\<lambda>fits. store_call fits (\<lambda>e. \<exists>x. e = RInvalidSpec x) (dcommit (AApply spec))"
  have save: "?S True (save_jail ag spec i) s" for i s
    unfolding save_jail_def by (rule store_call_writes) (auto simp: writes_return desired_of_def)
  show ?thesis
  proof (cases "hm_get (rc_records st) (md_name (js_metadata spec))")
    case None
    with True have "acceptable ag (desired_of st) spec" by (simp add: acceptable_def desired_jails)
    moreover have "?S True (apply_jail ag spec) st"
      by (rule store_call_like [OF _ _ save, of _ _ "rc_next_epair_ordinal st" "st\<lparr>rc_next_epair_ordinal := u32_succ (rc_next_epair_ordinal st)\<rparr>"])
         (simp_all add: apply_jail_valid [OF True] None)
    ultimately show ?thesis by simp
  next
    case (Some r)
    have "?S (is_ok (validate_transition (jrec_spec r) spec) \<and> True) (apply_jail ag spec) st"
      by (rule store_call_like [OF _ _ store_call_check [where g = RInvalidSpec and r = "validate_transition (jrec_spec r) spec", OF _ save [of "jrec_epair_ordinal r"]]])
         (simp_all add: apply_jail_valid [OF True] Some bindA_def checkA_def split: result.split)
    with Some True show ?thesis by (simp add: acceptable_def desired_jails)
  qed
qed

lemma store_set_replicate_to:
  "store_call (ds_jails (desired_of st) n \<noteq> None) (\<lambda>e. e = RNotFound n) (dcommit (ASetReplicateTo n t)) (set_replicate_to ag n t) st"
  unfolding set_replicate_to_def Let_def
proof (rule store_call_get, cases "hm_get (rc_records st) n")
  case (Some r)
  let ?r = "r\<lparr>jrec_spec := (jrec_spec r)\<lparr>js_spec := (js_spec (jrec_spec r))\<lparr>sp_replicate_to := t\<rparr>\<rparr>\<rparr>"
  have "store_call True (\<lambda>e. e = RNotFound n) (dcommit (ASetReplicateTo n t)) (bindA (on_fs RStore (store_save (jail_codec ag) (ag_state_dir ag) ?r))
      (\<lambda>_. modifyA (\<lambda>st. st\<lparr>rc_records := hm_insert n ?r (rc_records st)\<rparr>))) st"
    by (rule store_call_writes) (auto simp: writes_return desired_of_def with_target_def Some)
  from store_call_check [where r = "ok_or (RNotFound n) (Some r)" and g = id, OF _ this]
  show "store_call (ds_jails (desired_of st) n \<noteq> None) (\<lambda>e. e = RNotFound n) (dcommit (ASetReplicateTo n t))
      (bindA (checkA id (ok_or (RNotFound n) (hm_get (rc_records st) n))) (\<lambda>r0.
        bindA (on_fs RStore (store_save (jail_codec ag) (ag_state_dir ag)
          (r0\<lparr>jrec_spec := (jrec_spec r0)\<lparr>js_spec := (js_spec (jrec_spec r0))\<lparr>sp_replicate_to := t\<rparr>\<rparr>\<rparr>)))
        (\<lambda>_. modifyA (\<lambda>st. st\<lparr>rc_records := hm_insert n
          (r0\<lparr>jrec_spec := (jrec_spec r0)\<lparr>js_spec := (js_spec (jrec_spec r0))\<lparr>sp_replicate_to := t\<rparr>\<rparr>\<rparr>) (rc_records st)\<rparr>)))) st"
    using Some by (simp add: desired_jails store_call_def bindA_def checkA_def)
qed (auto simp: desired_jails bindA_def checkA_def intro: store_call_refuses)

lemma store_apply_ingress:
  "store_call (acceptable_ingress spec) (\<lambda>e. \<exists>x. e = RInvalidSpec x) (dcommit (AApplyIngress spec)) (apply_ingress ag spec) st"
  unfolding apply_ingress_def Let_def acceptable_ingress_def
  by (intro store_call_check store_call_if store_call_get store_call_writes) (auto simp: writes_return desired_of_def)

lemma store_delete_ingress:
  "store_call (ds_ingresses (desired_of st) n \<noteq> None) (\<lambda>e. e = RNotFound n) (dcommit (ADeleteIngress n)) (delete_ingress ag n) st"
  unfolding delete_ingress_def
proof (rule store_call_get, cases "hm_get (rc_ingress_records st) n")
  case (Some r)
  have "store_call True (\<lambda>e. e = RNotFound n) (dcommit (ADeleteIngress n)) (bindA (on_fs RStore (ingress_remove (ag_state_dir ag) n))
         (\<lambda>_. modifyA (\<lambda>st. st\<lparr>rc_ingress_records := hm_remove n (rc_ingress_records st),
           rc_ingress_backoff := hm_remove n (rc_ingress_backoff st)\<rparr>))) st"
    by (rule store_call_writes) (auto simp: writes_return desired_of_def)
  with Some show "store_call (ds_ingresses (desired_of st) n \<noteq> None) (\<lambda>e. e = RNotFound n) (dcommit (ADeleteIngress n))
    (if hm_get (rc_ingress_records st) n = None then failA (RNotFound n) else
       bindA (on_fs RStore (ingress_remove (ag_state_dir ag) n))
         (\<lambda>_. modifyA (\<lambda>st. st\<lparr>rc_ingress_records := hm_remove n (rc_ingress_records st),
           rc_ingress_backoff := hm_remove n (rc_ingress_backoff st)\<rparr>))) st"
    by (simp add: desired_ingresses)
qed (simp add: desired_ingresses failA_def store_call_refuses)

text \<open>Deleting a jail changes the store only with its last step.\<close>

definition commits :: "desired \<Rightarrow> desired \<Rightarrow> ('s rc, 'a, 'e) act \<Rightarrow> bool" where
  "commits d d' m \<longleftrightarrow> (\<forall>s r s'. store_is d s \<longrightarrow> m s = (r, s') \<longrightarrow> (case r of Val _ \<Rightarrow> store_is d' s' | _ \<Rightarrow> store_is d s'))"

lemma commits_bind:
  assumes "keepsA (store_is d) m" "\<And>x. commits d d' (f x)"
  shows "commits d d' (bindA m f)"
  unfolding commits_def
proof (intro allI impI)
  fix s r s' assume s: "store_is d s" "bindA m f s = (r, s')"
  obtain y t where m: "m s = (y, t)" by (metis surj_pair)
  with assms(1) s(1) have "store_is d t" by (auto simp: keepsA_def dest!: spec [of _ s])
  with s(2) m assms(2) show "case r of Val _ \<Rightarrow> store_is d' s' | _ \<Rightarrow> store_is d s'"
    by (cases y) (auto simp: bindA_def commits_def)
qed

lemma commits_modify: "(\<And>s. store_is d s \<Longrightarrow> store_is d' (g s)) \<Longrightarrow> commits d d' (modifyA g)"
  by (auto simp: commits_def modifyA_def)

definition failsA :: "('e \<Rightarrow> bool) \<Rightarrow> ('s, 'a, 'e) act \<Rightarrow> bool" where
  "failsA Q m \<longleftrightarrow> (\<forall>s e. fst (m s) = Exn e \<longrightarrow> Q e)"

lemma failsA_D: "failsA Q m \<Longrightarrow> m s = (Exn e, s') \<Longrightarrow> Q e"
  unfolding failsA_def by (metis fst_conv)

lemma failsA_bind: "failsA Q m \<Longrightarrow> (\<And>x. failsA Q (f x)) \<Longrightarrow> failsA Q (bindA m f)"
  by (auto simp: failsA_def bindA_def split: prod.splits outcome.splits) (metis fst_conv)+

lemma failsA_for: "(\<And>x. failsA Q (f x)) \<Longrightarrow> failsA Q (forA xs f)"
  by (induction xs) (simp_all add: failsA_bind, simp add: failsA_def returnA_def)

lemma bindA_get: "bindA (getA g) f s = f (g s) s"
  by (simp add: bindA_def getA_def)

lemma bindA_check: "bindA (checkA id (ok_or e (Some x))) f s = f x s"
  by (simp add: bindA_def checkA_def)

lemma failsA_calls:
  "failsA Q (modifyA g)" "(\<And>e. Q (f e)) \<Longrightarrow> failsA Q (on_fs f k)" "(\<And>e. Q (f e)) \<Longrightarrow> failsA Q (on_host f m)"
  "(\<And>e. \<not> p e \<Longrightarrow> Q (f e)) \<Longrightarrow> failsA Q (on_host f (tolerateA p u))"
  by (auto simp: failsA_def on_fs_def on_host_def act_defs split: prod.splits outcome.splits if_splits)

lemma delete_jail_fails:
  assumes "delete_jail ag n st = (Exn e, st')" "says_missing e"
  shows "hm_get (rc_records st) n = None"
proof (rule ccontr)
  assume "hm_get (rc_records st) n \<noteq> None"
  then obtain r where r: "hm_get (rc_records st) n = Some r" by blast
  have "failsA (\<lambda>e. \<not> says_missing e) (bindA (on_host RNet (nm_detach_jail (nm ag) (epair_base_name (jrec_epair_ordinal r)))) (\<lambda>_.
     bindA (on_host RJail (tolerateA is_j_not_found (jr_destroy (jr ag) (jail_name n)))) (\<lambda>_.
     bindA (forA (sp_volumes (js_spec (jrec_spec r))) (\<lambda>v.
       on_host RMount (tolerateA is_not_mounted (mm_unmount (mm ag) (mount_target (jail_rootfs_path (ag_pool ag) n) v))))) (\<lambda>_.
     bindA (on_host RZfs (tolerateA is_z_not_found (zm_destroy_dataset (zm ag) (jail_dataset_path (ag_pool ag) n)))) (\<lambda>_.
     bindA (on_host RJail (tolerateA is_j_not_found (jr_remove_resource_limits (jr ag) (jail_name n)))) (\<lambda>_.
     bindA (on_fs RStore (store_remove (ag_state_dir ag) n)) (\<lambda>_.
       modifyA (\<lambda>st. st\<lparr>rc_records := hm_remove n (rc_records st), rc_backoff := hm_remove n (rc_backoff st)\<rparr>))))))))"
    by (intro failsA_bind failsA_for failsA_calls) (auto simp: says_missing_def)
  from failsA_D [OF this assms(1) [unfolded delete_jail_def bindA_get r bindA_check]] assms(2) show False by simp
qed

lemma store_delete_jail:
  assumes "delete_jail ag n st = (r, st')"
  shows "(hm_get (rc_records st) n = None \<longrightarrow> r = Exn (RNotFound n)) \<and>
    desired_of st' = (if r = Val () then dcommit (ADelete n) (desired_of st) else desired_of st)"
proof (cases "hm_get (rc_records st) n")
  case None
  with assms show ?thesis by (auto simp: delete_jail_def act_defs)
next
  case (Some q)
  have "commits d (dcommit (ADelete n) d) (delete_jail ag n)" for d
    unfolding delete_jail_def
    by (intro commits_bind store_steps commits_modify) (auto simp: store_is_def desired_of_def fun_eq_iff)
  then have "case r of Val _ \<Rightarrow> store_is (dcommit (ADelete n) (desired_of st)) st' | _ \<Rightarrow> store_is (desired_of st) st'"
    using assms unfolding commits_def by (metis store_is_def)
  with Some show ?thesis by (cases r) (simp_all add: store_is_def)
qed

section \<open>A pass settles the store\<close>

lemma store_ensure_ingress:
  assumes "ensure_ingress_jail ag st = (r, st')"
  shows "settles (desired_of st) (desired_of st')"
proof (cases "rc_ingress_records st = [] \<or> hm_get (rc_records st) ''ingress'' \<noteq> None")
  case True
  with assms have "st' = st" by (auto simp: ensure_ingress_jail_def act_defs)
  then show ?thesis by (simp add: settles_def)
next
  case False
  with assms have a: "apply_jail ag ingress_jail_spec st = (r, st')" by (simp add: ensure_ingress_jail_def act_defs)
  obtain e es where "rc_ingress_records st = e # es" using False by (cases "rc_ingress_records st") auto
  then have "ds_ingresses (desired_of st) (fst e) \<noteq> None" by (simp add: desired_ingresses)
  then have "ds_ingresses (desired_of st) \<noteq> Map.empty" by auto
  moreover have "ds_jails (desired_of st) ''ingress'' = None" using False by (simp add: desired_jails)
  ultimately show ?thesis
    using store_apply_jail [of ag st ingress_jail_spec] a
    by (auto simp: store_call_def settles_def ingress_jail_spec_def split: if_splits)
qed

lemma ignoreA_bind: "m s = (x, s') \<Longrightarrow> bindA (ignoreA m) f s = (if x = Panic then (Panic, s') else f () s')"
  by (cases x) (simp_all add: bindA_def ignoreA_def)

lemma store_reconcile:
  assumes "reconcile ag now st = (r, st')"
  shows "settles (desired_of st) (desired_of st')"
proof -
  obtain x s where e: "ensure_ingress_jail ag st = (x, s)" by (metis surj_pair)
  have "keepsA (store_is (desired_of s)) (bindA (getA (\<lambda>st. h_unix_now (ag_ops ag) (rc_host st))) (\<lambda>now_unix.
     bindA (reconcile_certs ag now_unix) (\<lambda>_. bindA (reconcile_ingress_config ag) (\<lambda>_.
     bindA (getA (\<lambda>st. map fst (rc_records st))) (\<lambda>names. reconcile_names ag now names)))))"
    by (intro store_steps store_reconcile_certs store_nginx store_reconcile_names)
  then have "desired_of st' = desired_of s"
    using assms e unfolding reconcile_def
    by (auto simp: ignoreA_bind [where m = "ensure_ingress_jail ag" and s = st, OF e] keepsA_def store_is_def dest!: spec [of _ s] split: if_splits)
  with store_ensure_ingress [OF e] show ?thesis by simp
qed

section \<open>Reading the store\<close>

lemma store_get_jail:
  assumes "get_jail ag now n st = (r, st')" "r \<noteq> Panic"
  shows "\<exists>x. r = Val x \<and> ds_jails (desired_of st) n = map_option (jrec_spec \<circ> jst_record) x \<and> desired_of st' = desired_of st"
proof (cases "hm_get (rc_records st) n")
  case None
  with assms show ?thesis by (auto simp: get_jail_def act_defs desired_jails)
next
  case (Some q)
  obtain y h where "jr_is_running (jr ag) (jail_name n) (rc_host st) = (y, h)" by (metis surj_pair)
  with assms Some show ?thesis
    by (cases y) (auto simp: get_jail_def on_host_def act_defs desired_jails)
qed

lemma store_list_names:
  assumes "list_names ag now ns st = (r, st')" "r \<noteq> Panic"
  shows "\<exists>xs. r = Val xs \<and> desired_of st' = desired_of st \<and>
    map (jrec_spec \<circ> jst_record) xs = map (the \<circ> ds_jails (desired_of st)) (filter (\<lambda>n. ds_jails (desired_of st) n \<noteq> None) ns)"
  using assms
proof (induction ns arbitrary: st r st')
  case (Cons n ns)
  obtain y s where g: "get_jail ag now n st = (y, s)" by (metis surj_pair)
  obtain z t where l: "list_names ag now ns s = (z, t)" by (metis surj_pair)
  have "y \<noteq> Panic" using Cons.prems g by (auto simp: act_defs)
  from store_get_jail [OF g this] obtain x where x: "y = Val x"
    "ds_jails (desired_of st) n = map_option (jrec_spec \<circ> jst_record) x" "desired_of s = desired_of st" by blast
  have "z \<noteq> Panic" using Cons.prems g l x(1) by (auto simp: act_defs)
  from Cons.IH [OF l this] Cons.prems(1) g l x show ?case by (cases x) (auto simp: act_defs)
qed (auto simp: returnA_def)

lemma store_list_jails:
  assumes "list_jails ag now st = (r, st')" "r \<noteq> Panic" "hm_wf (rc_records st)"
  shows "\<exists>xs. r = Val xs \<and> desired_of st' = desired_of st \<and>
    map (jrec_spec \<circ> jst_record) xs = map (the \<circ> ds_jails (desired_of st)) (sorted_list_of_set (dom (ds_jails (desired_of st))))"
proof -
  let ?d = "desired_of st" and ?ns = "sort (map fst (rc_records st))"
  have dom: "dom (ds_jails ?d) = set ?ns"
    by (auto simp: desired_jails dom_def map_of_eq_None_iff)
  then have "filter (\<lambda>n. ds_jails ?d n \<noteq> None) ?ns = ?ns" by (intro filter_True) (auto simp: dom_def)
  moreover have "sorted_list_of_set (set ?ns) = ?ns"
    using assms(3) by (intro sorted_list_of_set.idem_if_sorted_distinct) (auto simp: hm_wf_def)
  moreover have "list_names ag now ?ns st = (r, st')" using assms(1) by (simp add: list_jails_def bindA_def getA_def)
  ultimately show ?thesis using store_list_names [OF _ assms(2)] dom by metis
qed

lemma store_list_ingress:
  assumes "hm_wf (rc_ingress_records st)"
  shows "\<exists>ns. distinct ns \<and> set ns = dom (ds_ingresses (desired_of st)) \<and>
    map irec_spec (list_ingress st) = map (the \<circ> ds_ingresses (desired_of st)) ns"
proof (intro exI [of _ "map fst (rc_ingress_records st)"] conjI)
  show "set (map fst (rc_ingress_records st)) = dom (ds_ingresses (desired_of st))"
    by (simp add: desired_of_def dom_map_option dom_map_of_conv_image_fst)
  have "hm_get (rc_ingress_records st) (fst e) = Some (snd e)" if "e \<in> set (rc_ingress_records st)" for e
    using that hm_get_iff [OF assms, of "fst e" "snd e"] by simp
  then show "map irec_spec (list_ingress st) = map (the \<circ> ds_ingresses (desired_of st)) (map fst (rc_ingress_records st))"
    unfolding list_ingress_def by (simp add: desired_ingresses split_def)
qed (use assms in \<open>simp add: hm_wf_def\<close>)

section \<open>The worker implements the store\<close>

lemma run_rc_answer: "run_rc m w = Some (res, w') \<Longrightarrow> m (aw_rc w) = (outcome_of res, aw_rc w')"
  by (auto simp: run_rc_def outcome_of_def split: prod.splits outcome.splits)

lemma outcome_of_simps [simp]:
  "outcome_of res \<noteq> Panic" "outcome_of res = Val x \<longleftrightarrow> res = Ok x" "outcome_of res = Exn e \<longleftrightarrow> res = Err e" "outcome_of a = outcome_of b \<longleftrightarrow> a = b"
  by (cases res; cases a; cases b; auto simp: outcome_of_def)+

lemma run_store_call:
  assumes "store_call fits refusal update m (aw_rc w)" "run_rc m w = Some (res, w')"
  shows "saved_or fits refusal res" "desired_of (aw_rc w') = (if res = Ok () then update (desired_of (aw_rc w)) else desired_of (aw_rc w))"
  using assms run_rc_answer [OF assms(2)] by (auto simp: store_call_def)

lemma tick_settles: "tick ag w = Some w' \<Longrightarrow> settles (desired_of (aw_rc w)) (desired_of (aw_rc w'))"
  unfolding tick_def by (auto dest!: run_rc_answer store_reconcile)

text \<open>The two shapes of a writing command: a call followed by a pass, and a call alone.\<close>

lemma dstep_call_tick:
  assumes "run_rc m w = Some (res, w1)" "tick ag w1 = Some w2" "ticks c"
    and "dreply ag (desired_of (aw_rc w)) c (AResult res)"
    and "desired_of (aw_rc w1) = (if res = Ok () then dcommit c (desired_of (aw_rc w)) else desired_of (aw_rc w))"
  shows "dstep ag c (AResult res) (desired_of (aw_rc w)) (desired_of (aw_rc w2))"
  using assms tick_settles [OF assms(2)] by (intro dstep_pass) (auto simp: dupdate_def split: if_splits)

lemma then_tick_Some:
  "Option.bind (run_rc m w) (then_tick ag) = Some (r, w2) \<longleftrightarrow>
     (\<exists>res w1. run_rc m w = Some (res, w1) \<and> tick ag w1 = Some w2 \<and> r = AResult res)"
  by (cases "run_rc m w") (auto simp: then_tick_def)

text \<open>Commands that leave the store alone.\<close>

lemma dstep_reads:
  assumes "dreply ag d c r" "\<not> ticks c" "dcommit c d = d"
  shows "dstep ag c r d d"
  using dstep_plain [OF assms(1,2)] assms(3) by (auto simp: dupdate_def split: if_splits)

lemma dstep_host:
  assumes "run_rc m w = Some (res, w')" "\<And>d. keepsA (store_is d) m"
    and "dreply ag (desired_of (aw_rc w)) c r" "\<not> ticks c" "\<And>d. dcommit c d = d"
  shows "dstep ag c r (desired_of (aw_rc w)) (desired_of (aw_rc w'))"
proof -
  have "desired_of (aw_rc w') = desired_of (aw_rc w)"
    using keepsAE [OF assms(2) run_rc_answer [OF assms(1)]] by (simp add: store_is_def)
  with dstep_reads [OF assms(3,4)] assms(5) show ?thesis by simp
qed

lemma store_host_calls:
  "keepsA (store_is d) (rc_add_route ag s g)" "keepsA (store_is d) (rc_remove_route ag s)"
  "keepsA (store_is d) (rc_add_alias ag b a)" "keepsA (store_is d) (rc_remove_alias ag b a)"
  "keepsA (store_is d) (get_volume ag n)" "keepsA (store_is d) (delete_volume ag n)"
  unfolding rc_add_route_def rc_remove_route_def rc_add_alias_def rc_remove_alias_def get_volume_def delete_volume_def Let_def
  by (intro store_steps)+

text \<open>The commands that write a record.\<close>

lemma dstep_store_tick:
  assumes "store_call fits refusal (dcommit c) m (aw_rc w)" "\<And>res. saved_or fits refusal res \<Longrightarrow> dreply ag (desired_of (aw_rc w)) c (AResult res)"
    and "run_rc m w = Some (res, w1)" "tick ag w1 = Some w2" "ticks c"
  shows "dstep ag c (AResult res) (desired_of (aw_rc w)) (desired_of (aw_rc w2))"
  using dstep_call_tick [OF assms(3-5)] run_store_call [OF assms(1,3)] assms(2) by blast

lemma dstep_store:
  assumes "store_call fits refusal (dcommit c) m (aw_rc w)" "\<And>res. saved_or fits refusal res \<Longrightarrow> dreply ag (desired_of (aw_rc w)) c (AResult res)"
    and "run_rc m w = Some (res, w1)" "\<not> ticks c"
  shows "dstep ag c (AResult res) (desired_of (aw_rc w)) (desired_of (aw_rc w1))"
  using dstep_plain [OF assms(2) assms(4), of res] run_store_call [OF assms(1,3)] by (auto simp: dupdate_def split: if_splits)

lemma dstep_writes:
  assumes "handle_acommand ag u c w = Some (r, w')"
    and "(\<exists>spec. c = AApply spec) \<or> (\<exists>n t. c = ASetReplicateTo n t) \<or> (\<exists>i. c = AApplyIngress i) \<or> (\<exists>n. c = ADeleteIngress n)"
  shows "dstep ag c r (desired_of (aw_rc w)) (desired_of (aw_rc w'))"
proof -
  let ?d = "desired_of (aw_rc w)"
  consider (a) spec where "c = AApply spec" | (t) n t where "c = ASetReplicateTo n t" | (i) i where "c = AApplyIngress i"
    | (d) n where "c = ADeleteIngress n"
    using assms(2) by blast
  then show ?thesis
  proof cases
    case a
    with assms(1) obtain res w1 w2 where c: "run_rc (apply_jail ag spec) w = Some (res, w1)" "tick ag w1 = Some w2"
        "r = AResult res" "aw_rc w' = aw_rc w2"
      by (auto simp: bind_eq_Some_conv split: if_splits)
    from dstep_store_tick [OF store_apply_jail re_apply c(1,2)] show ?thesis by (simp add: a c(3,4))
  next
    case t
    with assms(1) obtain res where c: "run_rc (set_replicate_to ag n t) w = Some (res, w')" "r = AResult res" by auto
    from dstep_store [OF store_set_replicate_to re_target c(1)] show ?thesis by (simp add: t c(2))
  next
    case i
    with assms(1) obtain res w1 where c: "run_rc (apply_ingress ag i) w = Some (res, w1)" "tick ag w1 = Some w'" "r = AResult res"
      by (auto simp: then_tick_Some)
    from dstep_store_tick [OF store_apply_ingress re_apply_ingress c(1,2)] show ?thesis by (simp add: i c(3))
  next
    case d
    with assms(1) obtain res w1 where c: "run_rc (delete_ingress ag n) w = Some (res, w1)" "tick ag w1 = Some w'" "r = AResult res"
      by (auto simp: then_tick_Some)
    from dstep_store_tick [OF store_delete_ingress re_delete_ingress c(1,2)] show ?thesis by (simp add: d c(3))
  qed
qed

lemma dstep_delete:
  assumes "handle_acommand ag u (ADelete n) w = Some (r, w')"
  shows "dstep ag (ADelete n) r (desired_of (aw_rc w)) (desired_of (aw_rc w'))"
proof -
  from assms obtain res w1 where c: "run_rc (delete_jail ag n) w = Some (res, w1)" "tick ag w1 = Some w'" "r = AResult res"
    by (auto simp: then_tick_Some)
  from store_delete_jail [OF run_rc_answer [OF c(1)]] have "dreply ag (desired_of (aw_rc w)) (ADelete n) (AResult res)"
    "desired_of (aw_rc w1) = (if res = Ok () then dcommit (ADelete n) (desired_of (aw_rc w)) else desired_of (aw_rc w))"
    using delete_jail_fails [of ag n "aw_rc w"] run_rc_answer [OF c(1)] by (auto simp: desired_jails intro!: re_delete)
  then show ?thesis unfolding c(3) by (intro dstep_call_tick [OF c(1,2)]) simp_all
qed

lemma dstep_get:
  assumes "handle_acommand ag u (AGet n) w = Some (r, w')" "hm_wf (rc_records (aw_rc w))"
  shows "dstep ag (AGet n) r (desired_of (aw_rc w)) (desired_of (aw_rc w'))"
proof (cases n)
  case (Some m)
  with assms obtain res where c: "run_rc (get_jail ag (h_instant_now (ag_ops ag) (rc_host (aw_rc w))) m) w = Some (res, w')"
      "r = AStatuses (case res of Ok (Some x) \<Rightarrow> [x] | _ \<Rightarrow> [])"
    by (auto simp: Let_def)
  from store_get_jail [OF run_rc_answer [OF c(1)]] obtain x where "res = Ok x"
      "ds_jails (desired_of (aw_rc w)) m = map_option (jrec_spec \<circ> jst_record) x" "desired_of (aw_rc w') = desired_of (aw_rc w)" by auto
  with c(2) Some show ?thesis by (auto intro!: dstep_reads dreply.intros split: option.splits)
next
  case None
  with assms obtain res where c: "run_rc (list_jails ag (h_instant_now (ag_ops ag) (rc_host (aw_rc w)))) w = Some (res, w')"
      "r = AStatuses (case res of Ok xs \<Rightarrow> xs | Err _ \<Rightarrow> [])"
    by (auto simp: Let_def)
  from store_list_jails [OF run_rc_answer [OF c(1)] _ assms(2)] c(2) None show ?thesis
    by (auto intro!: dstep_reads dreply.intros)
qed

lemma dstep_get_ingress:
  assumes "handle_acommand ag u (AGetIngress n) w = Some (r, w')" "hm_wf (rc_ingress_records (aw_rc w))"
  shows "dstep ag (AGetIngress n) r (desired_of (aw_rc w)) (desired_of (aw_rc w'))"
proof (cases n)
  case (Some m)
  with assms(1) show ?thesis
    by (auto simp: get_ingress_def desired_ingresses intro!: dstep_reads dreply.intros split: option.splits)
next
  case None
  obtain ns where "distinct ns" "set ns = dom (ds_ingresses (desired_of (aw_rc w)))"
      "map irec_spec (list_ingress (aw_rc w)) = map (the \<circ> ds_ingresses (desired_of (aw_rc w))) ns"
    using store_list_ingress [OF assms(2)] by blast
  with None assms(1) show ?thesis by (auto intro!: dstep_reads intro: re_list_ingress)
qed

lemma dstep_host_commands:
  assumes "handle_acommand ag u c w = Some (r, w')"
    and "(\<exists>s g. c = AAddRoute s g) \<or> (\<exists>s. c = ARemoveRoute s) \<or> (\<exists>b a. c = AAddServiceAlias b a) \<or> (\<exists>b a. c = ARemoveServiceAlias b a) \<or>
      (\<exists>n. c = AGetVolume n) \<or> (\<exists>n. c = ADeleteVolume n)"
  shows "dstep ag c r (desired_of (aw_rc w)) (desired_of (aw_rc w'))"
  using assms(2)
proof (elim disjE exE)
  show ?thesis if "c = AAddRoute s g" for s g
    using assms(1) by (auto simp: that intro!: dreply.intros dstep_host [OF _ store_host_calls(1)])
  show ?thesis if "c = ARemoveRoute s" for s
    using assms(1) by (auto simp: that intro!: dreply.intros dstep_host [OF _ store_host_calls(2)])
  show ?thesis if "c = AAddServiceAlias b a" for b a
    using assms(1) by (auto simp: that intro!: dreply.intros dstep_host [OF _ store_host_calls(3)])
  show ?thesis if "c = ARemoveServiceAlias b a" for b a
    using assms(1) by (auto simp: that intro!: dreply.intros dstep_host [OF _ store_host_calls(4)])
  show ?thesis if "c = AGetVolume n" for n
    using assms(1) by (auto simp: that intro!: dreply.intros dstep_host [OF _ store_host_calls(5)])
  show ?thesis if "c = ADeleteVolume n" for n
    using assms(1) by (auto simp: that intro!: dreply.intros dstep_host [OF _ store_host_calls(6)])
qed

lemma dstep_simulates:
  assumes "handle_acommand ag u c w = Some (r, w')" "agent_inv ag D V (aw_rc w)"
  shows "dstep ag c r (desired_of (aw_rc w)) (desired_of (aw_rc w'))"
proof -
  have wf: "hm_wf (rc_records (aw_rc w))" "hm_wf (rc_ingress_records (aw_rc w))"
    using assms(2) by (auto simp: agent_inv_def rc_inv_def mirrors_def)
  note writes = dstep_writes [OF assms(1)] and hosts = dstep_host_commands [OF assms(1)]
  show ?thesis
  proof (cases c)
    case (ADelete n)
    then show ?thesis using dstep_delete assms(1) by blast
  next
    case (AGet n)
    then show ?thesis using dstep_get [OF _ wf(1)] assms(1) by blast
  next
    case (AGetIngress n)
    then show ?thesis using dstep_get_ingress [OF _ wf(2)] assms(1) by blast
  next
    case ATick
    with assms(1) show ?thesis by (auto simp: dupdate_def intro!: dstep_pass dreply.intros tick_settles)
  next
    case ACommittedResources
    with assms(1) committed_total [OF assms(2)] show ?thesis
      by (auto simp: run_rc_def intro!: dstep_reads dreply.intros)
  next
    case AResumeReplicationLoops
    with assms(1) obtain res w1 where c: "run_rc (list_jails ag (h_instant_now (ag_ops ag) (rc_host (aw_rc w)))) w = Some (res, w1)"
        "r = AUnit" "aw_rc w' = aw_rc w1" by auto
    from store_list_jails [OF run_rc_answer [OF c(1)] _ wf(1)] c(2,3) AResumeReplicationLoops show ?thesis
      by (auto intro!: dstep_reads dreply.intros)
  qed (use writes hosts in blast)+
qed

sublocale agent_host \<subseteq> ds: refining_server "handle_acommand ag" "\<lambda>w. agent_inv ag datasets V (aw_rc w)" "harmless ag V"
    "\<lambda>w. desired_of (aw_rc w)" "dstep ag"
  by unfold_locales (rule dstep_simulates)

context agent_host
begin

lemma run_agent_refines:
  assumes "inv (aw_rc w)" "\<forall>c \<in> set cmds. harmless ag V c"
  shows "\<exists>rs w'. run_agent ag cmds w = Some (rs, w') \<and> inv (aw_rc w') \<and>
    run_of (dstep ag) cmds rs (desired_of (aw_rc w)) (desired_of (aw_rc w'))"
  using ds.serve_refines [of w "map (Pair ()) cmds"] assms by (auto simp: run_agent_def comp_def)

end

text \<open>C2: The worker thread of an agent implements the store: whatever the host and the disk do, it answers
  every sequence of commands, and there is a run of the store with the same commands and the same answers
  that leads from what the agent wanted before to what it wants after; all of it is on disk.\<close>

theorem agent_refines_store:
  assumes "agent_host ag D V" "agent_inv ag D V (aw_rc w)" "\<forall>c \<in> set cmds. harmless ag V c"
  shows "\<exists>rs w'. run_agent ag cmds w = Some (rs, w') \<and>
    run_of (dstep ag) cmds rs (desired_of (aw_rc w)) (desired_of (aw_rc w')) \<and>
    mirrors (jail_codec ag) (ag_state_dir ag) (rc_records (aw_rc w')) (rc_fs (aw_rc w')) \<and>
    mirrors (ingress_codec ag) (ingress_dir (ag_state_dir ag)) (rc_ingress_records (aw_rc w')) (rc_fs (aw_rc w'))"
  using agent_host.run_agent_refines [OF assms] by (auto simp: agent_inv_def rc_inv_def)

theorem agent_refines_store_witness:
  "\<exists>rs w'. run_agent (aex_agent ipnet_ref) [AApply (aex_spec ''10.0.1.2/24''), ADelete ''k'', AGet None] aex_aw = Some (rs, w') \<and>
    run_of (dstep (aex_agent ipnet_ref)) [AApply (aex_spec ''10.0.1.2/24''), ADelete ''k'', AGet None] rs
      (desired_of (aw_rc aex_aw)) (desired_of (aw_rc w'))"
proof -
  have "\<forall>c \<in> set [AApply (aex_spec ''10.0.1.2/24''), ADelete ''k'', AGet None]. harmless (aex_agent ipnet_ref) {volume_dataset_path ''p'' ''v''} c"
    by (auto simp: aex_agent_def ipnet_ref_def split: result.splits)
  from agent_refines_store [OF exa.agent_host_axioms aex_inv this] show ?thesis by blast
qed

section \<open>What a client may rely on\<close>

text \<open>Commands that do not name the jail.\<close>

fun spares :: "string \<Rightarrow> acommand \<Rightarrow> bool" where
  "spares n (AApply spec) = (md_name (js_metadata spec) \<noteq> n)"
| "spares n (ADelete m) = (m \<noteq> n)"
| "spares n (ASetReplicateTo m _) = (m \<noteq> n)"
| "spares n _ = True"

lemma settles_keeps: "settles d d' \<Longrightarrow> ds_jails d n = Some s \<Longrightarrow> ds_jails d' n = Some s"
  by (auto simp: settles_def)

lemma dupdate_spares: "spares n c \<Longrightarrow> ds_jails (dupdate c r d) n = ds_jails d n"
  by (cases c) (auto simp: dupdate_def)

lemma dstep_spares:
  assumes "dstep ag c r d d'" "spares n c" "ds_jails d n = Some s"
  shows "ds_jails d' n = Some s"
  using assms by (cases rule: dstep.cases) (metis dupdate_spares settles_keeps)+

lemma dstep_applied:
  assumes "dstep ag (AApply spec) (AResult (Ok ())) d d'"
  shows "ds_jails d' (md_name (js_metadata spec)) = Some spec"
  using assms by (cases rule: dstep.cases) (auto simp: dupdate_def intro: settles_keeps)

inductive_cases dreply_get: "dreply ag d (AGet (Some n)) r"

lemma dstep_get_answer:
  assumes "dstep ag (AGet (Some n)) r d d'" "ds_jails d n = Some s"
  shows "\<exists>st. r = AStatuses [st] \<and> jrec_spec (jst_record st) = s"
  using assms by (cases rule: dstep.cases) (auto elim!: dreply_get)

text \<open>A client that was told its jail is applied finds exactly that spec whenever it asks, after any
  commands of other clients that do not name the jail, whatever the host and the disk do meanwhile.\<close>

lemma applied_jail_stays:
  assumes "agent_host ag D V" "agent_inv ag D V (aw_rc w)" "\<forall>c \<in> set (AApply spec # cs). harmless ag V c"
    and "\<forall>c \<in> set cs. spares (md_name (js_metadata spec)) c"
  shows "\<exists>r rs q w'. run_agent ag (AApply spec # cs @ [AGet (Some (md_name (js_metadata spec)))]) w = Some (r # rs @ [q], w') \<and>
    (r = AResult (Ok ()) \<longrightarrow> (\<exists>st. q = AStatuses [st] \<and> jrec_spec (jst_record st) = spec))"
proof -
  let ?n = "md_name (js_metadata spec)"
  let ?cs = "AApply spec # cs @ [AGet (Some ?n)]"
  have "\<forall>c \<in> set ?cs. harmless ag V c" using assms(3) by auto
  from agent_host.run_agent_refines [OF assms(1,2) this] obtain rs w' where
    run: "run_agent ag ?cs w = Some (rs, w')" "run_of (dstep ag) ?cs rs (desired_of (aw_rc w)) (desired_of (aw_rc w'))" by blast
  then obtain r qs q d1 d2 where rs: "rs = r # qs @ [q]" and d: "dstep ag (AApply spec) r (desired_of (aw_rc w)) d1"
    "run_of (dstep ag) cs qs d1 d2" "dstep ag (AGet (Some ?n)) q d2 (desired_of (aw_rc w'))"
    by (auto simp: run_of_append)
  have "\<exists>st. q = AStatuses [st] \<and> jrec_spec (jst_record st) = spec" if "r = AResult (Ok ())"
  proof -
    have "ds_jails d1 ?n = Some spec" using d(1) that by (auto intro: dstep_applied)
    with d(2) have "ds_jails d2 ?n = Some spec"
      by (rule run_of_keeps [where P = "\<lambda>d. ds_jails d ?n = Some spec"]) (use assms(4) dstep_spares in blast)
    with d(3) show ?thesis by (rule dstep_get_answer)
  qed
  with run(1) rs show ?thesis by blast
qed

end
