(* ===== verification/Ag_Freebsd.thy ===== *)
theory Ag_Freebsd
  imports Ag_Cli Ag_Behaviour
begin

text \<open>
  What the implementations of the agent's host run, whatever the programs do. The interface \<open>host_programs\<close> says of
  a measure on the world that the commands the agent gives keep it, \<open>zfs destroy\<close> apart, which may take the
  dataset it names; under it the implementations satisfy the laws of a host, so that the results on the agent
  hold of the program as it is installed. Nothing is assumed of the programs: the interface is discharged for any
  programs at all, with a record of what was run as part of the world and the datasets that no command so far could have taken
  as the measure.
\<close>

section \<open>Programs and datasets\<close>

lemma cli_run_eq:
  "cli_run tb sp program args s = (case tl_run tb program args (cl_world s) of (r, w) \<Rightarrow>
     (case r of Ok out \<Rightarrow> Val out | Err e \<Rightarrow> Exn (sp program e), s\<lparr>cl_world := w\<rparr>))"
  by (simp add: cli_run_def on_world_def)

lemma cli_checked_eq:
  "cli_checked tb sp fl program args s = (case tl_run tb program args (cl_world s) of (r, w) \<Rightarrow>
     (case r of Ok out \<Rightarrow> if exit_success out then Val ()
          else Exn (fl (program @ '' '' @ join_args args) (out_status out) (lossy (out_stderr out)))
        | Err e \<Rightarrow> Exn (sp program e), s\<lparr>cl_world := w\<rparr>))"
  by (auto simp: cli_checked_def cli_run_eq act_defs split: prod.splits result.splits)

text \<open>The commands that leave every dataset where it is: all the programs but \<open>zfs\<close> that the agent runs, and of
  \<open>zfs\<close> the sub-commands that only look or add.\<close>

definition zfs_adds :: "string list \<Rightarrow> bool" where
  "zfs_adds args \<longleftrightarrow> (case args of
       [cmd, _] \<Rightarrow> cmd = ''snapshot''
     | [cmd, _, _] \<Rightarrow> cmd = ''clone''
     | [cmd, flag, _, _] \<Rightarrow> cmd = ''create'' \<and> flag = ''-o''
     | [cmd, flag, opt, col, _] \<Rightarrow> cmd = ''list'' \<and> flag = ''-H'' \<and> opt = ''-o'' \<and> col = ''name''
     | _ \<Rightarrow> False)"

definition routine :: "string \<Rightarrow> string list \<Rightarrow> bool" where
  "routine program args \<longleftrightarrow>
     program \<in> {''jail'', ''jls'', ''ps'', ''jexec'', ''rctl'', ''mount'', ''umount'', ''ifconfig'', ''route''} \<or>
     program = ''zfs'' \<and> zfs_adds args"

locale host_programs =
  fixes tb :: "'w tools" and D :: "'w \<Rightarrow> string set"
  assumes run: "routine program args \<Longrightarrow> D w \<subseteq> D (snd (tl_run tb program args w))"
    and destroy: "D w - {d} \<subseteq> D (snd (tl_run tb ''zfs'' [''destroy'', d] w))"
    and spawn: "D w \<subseteq> D (snd (tl_spawn tb ''jexec'' args w))"
    and finished: "D w \<subseteq> D (snd (tl_finished tb pid w))" and wait: "D w \<subseteq> D (tl_wait tb pid w)"
    and files: "D w \<subseteq> D (snd (tl_create_dir_all tb p w))" "D w \<subseteq> D (snd (tl_write tb p t w))" "D w \<subseteq> D (snd (tl_rename tb p q w))"
begin

abbreviation keeps_datasets :: "('w, 'a, 'e) cact \<Rightarrow> bool" where
  "keeps_datasets \<equiv> quiet (D \<circ> cl_world)"

lemma quiet_world: "(\<And>w. D w \<subseteq> D (snd (op w))) \<Longrightarrow> keeps_datasets (on_world op f)"
  by (auto simp: quiet_def on_world_def split: prod.splits result.splits) (metis snd_conv subsetD)+

lemma quiet_run: "routine program args \<Longrightarrow> keeps_datasets (cli_run tb sp program args)"
  unfolding cli_run_def by (rule quiet_world) (rule run)

end

lemma quiet_basic [inv_intros]:
  "quiet D (returnA x)" "quiet D (failA e)" "quiet D (getA f)"
  by (simp_all add: quiet_def act_defs)

lemma quiet_bindA [inv_intros]:
  assumes "quiet D m" "\<And>x. quiet D (f x)"
  shows "quiet D (bindA m f)"
  unfolding quiet_def
proof
  fix s
  have m: "fst (m s) \<noteq> Panic" "D s \<subseteq> D (snd (m s))" using assms(1) by (simp_all add: quiet_def)
  then show "fst (bindA m f s) \<noteq> Panic \<and> D s \<subseteq> D (snd (bindA m f s))"
  proof (cases "fst (m s)")
    case (Val x)
    have "fst (f x (snd (m s))) \<noteq> Panic \<and> D (snd (m s)) \<subseteq> D (snd (f x (snd (m s))))" using assms(2) by (simp add: quiet_def)
    with m Val show ?thesis by (cases "m s") (auto simp: bindA_def)
  qed (cases "m s"; auto simp: bindA_def)+
qed

lemma quiet_wrappers [inv_intros]:
  "quiet D m \<Longrightarrow> quiet D (ignoreA m)" "quiet D m \<Longrightarrow> quiet D (resultA m)"
proof -
  assume m: "quiet D m"
  have "fst (m s) \<noteq> Panic \<and> D s \<subseteq> D (snd (m s))" for s using m by (simp add: quiet_def)
  then show "quiet D (ignoreA m)" "quiet D (resultA m)"
    by (auto simp: quiet_def ignoreA_def resultA_def split: prod.splits outcome.splits) (metis fst_conv snd_conv subsetD)+
qed

lemma quiet_if [inv_intros]: "(c \<Longrightarrow> quiet D m) \<Longrightarrow> (\<not> c \<Longrightarrow> quiet D n) \<Longrightarrow> quiet D (if c then m else n)"
  by simp

lemma quiet_forA [inv_intros]: "(\<And>x. x \<in> set xs \<Longrightarrow> quiet D (f x)) \<Longrightarrow> quiet D (forA xs f)"
  by (induction xs) (auto intro!: inv_intros)

lemma quiet_modifyA: "(\<And>s. D s \<subseteq> D (g s)) \<Longrightarrow> quiet D (modifyA g)"
  by (simp add: quiet_def modifyA_def)

lemma quiet_result_case [inv_intros]:
  "(\<And>x. quiet D (f x)) \<Longrightarrow> (\<And>e. quiet D (g e)) \<Longrightarrow> quiet D (case y of Ok x \<Rightarrow> f x | Err e \<Rightarrow> g e)"
  by (cases y) simp_all

lemma quiet_option_case [inv_intros]:
  "quiet D f \<Longrightarrow> (\<And>x. quiet D (g x)) \<Longrightarrow> quiet D (case y of None \<Rightarrow> f | Some x \<Rightarrow> g x)"
  by (cases y) simp_all

context host_programs
begin

lemma quiet_checked: "routine program args \<Longrightarrow> keeps_datasets (cli_checked tb sp fl program args)"
  unfolding cli_checked_def by (intro inv_intros quiet_run)

lemma quiet_tolerant: "routine program args \<Longrightarrow> keeps_datasets (net_tolerant tb program args needles)"
  unfolding net_tolerant_def by (intro inv_intros quiet_run) (simp add: routine_def zfs_adds_def)

lemma retain_children_datasets: "D w \<subseteq> D (snd (retain_children tb cs w))"
proof (induction cs arbitrary: w)
  case (Cons c cs)
  obtain e w1 where e: "tl_finished tb (snd c) w = (e, w1)" by fastforce
  then have "D w \<subseteq> D w1" using finished [of w "snd c"] by simp
  with Cons [of w1] e show ?case by (cases c) (auto split: prod.splits)
qed simp

lemma quiet_reap: "keeps_datasets (reap_finished_children tb)"
  unfolding reap_finished_children_def
proof (rule quiet_modifyA)
  fix s :: "'w cli"
  show "(D \<circ> cl_world) s \<subseteq> (D \<circ> cl_world) (case retain_children tb (cl_children s) (cl_world s) of (cs, w) \<Rightarrow> s\<lparr>cl_children := cs, cl_world := w\<rparr>)"
    using retain_children_datasets [of "cl_world s" "cl_children s"] by (auto split: prod.splits)
qed

lemmas quiet_commands = quiet_run quiet_checked quiet_tolerant quiet_reap

lemma quiet_jails:
  "keeps_datasets (cli_jail_create tb n r v)" "keeps_datasets (cli_jail_exists tb n)"
  "keeps_datasets (cli_start_command tb n c)" "keeps_datasets (cli_jail_destroy tb n)"
  "keeps_datasets (cli_is_running tb n)" "keeps_datasets (cli_set_resource_limits tb n p m)"
  "keeps_datasets (cli_remove_resource_limits tb n)"
proof -
  have j: "keeps_datasets (jid_of tb n)" for n
    unfolding jid_of_def by (intro inv_intros quiet_run) (simp add: routine_def zfs_adds_def)
  show "keeps_datasets (cli_jail_create tb n r v)"
    unfolding cli_jail_create_def by (intro inv_intros quiet_world files quiet_checked) (simp add: routine_def zfs_adds_def)
  show "keeps_datasets (cli_jail_exists tb n)" unfolding cli_jail_exists_def by (intro inv_intros j)
  show "keeps_datasets (cli_start_command tb n c)"
    unfolding cli_start_command_def by (intro inv_intros quiet_world quiet_reap spawn quiet_modifyA) simp
  show "keeps_datasets (cli_jail_destroy tb n)"
    unfolding cli_jail_destroy_def Let_def
    by (intro inv_intros quiet_run quiet_modifyA) (auto simp: routine_def zfs_adds_def intro!: quiet_modifyA subsetD [OF wait])
  show "keeps_datasets (cli_is_running tb n)"
    unfolding cli_is_running_def by (intro inv_intros j quiet_run) (simp add: routine_def zfs_adds_def)
  show "keeps_datasets (cli_set_resource_limits tb n p m)"
    unfolding cli_set_resource_limits_def by (intro inv_intros quiet_checked) (simp_all add: routine_def zfs_adds_def)
  show "keeps_datasets (cli_remove_resource_limits tb n)"
    unfolding cli_remove_resource_limits_def by (intro inv_intros quiet_run) (simp add: routine_def zfs_adds_def)
qed

lemma quiet_mounts:
  "keeps_datasets (cli_ensure_mount_point tb t)" "keeps_datasets (cli_mount_nullfs tb n t)"
  "keeps_datasets (cli_unmount tb t)" "keeps_datasets (cli_is_mounted tb t)"
  unfolding cli_ensure_mount_point_def cli_mount_nullfs_def cli_unmount_def cli_is_mounted_def Let_def
  by (intro inv_intros quiet_world files quiet_run quiet_checked; simp add: routine_def zfs_adds_def)+

lemma quiet_zfs:
  "keeps_datasets (cli_dataset_exists tb d)" "keeps_datasets (cli_clone_from_base tb d t)"
  "keeps_datasets (cli_create_volume tb d q)"
proof -
  show e: "keeps_datasets (cli_dataset_exists tb d)" for d
    unfolding cli_dataset_exists_def by (intro inv_intros quiet_run) (simp add: routine_def zfs_adds_def)
  show "keeps_datasets (cli_clone_from_base tb d t)"
    unfolding cli_clone_from_base_def Let_def by (intro inv_intros e quiet_checked) (simp_all add: routine_def zfs_adds_def)
  show "keeps_datasets (cli_create_volume tb d q)"
    unfolding cli_create_volume_def by (intro inv_intros e quiet_checked) (simp add: routine_def zfs_adds_def)
qed

lemma quiet_gateway: "is_ok (api_parse_ipv4net api a) \<Longrightarrow> keeps_datasets (bridge_gateway api a)"
  by (auto simp: quiet_def bridge_gateway_def act_defs is_ok_iff)

lemma quiet_net:
  "keeps_datasets (cli_ensure_bridge_exists tb b)" "keeps_datasets (cli_detach_jail tb b)"
  "keeps_datasets (cli_add_route tb b g)" "keeps_datasets (cli_remove_route tb b)"
  "keeps_datasets (cli_add_alias tb b g)" "keeps_datasets (cli_remove_alias tb b g)"
  "is_ok (api_parse_ipv4net api a) \<Longrightarrow> keeps_datasets (cli_attach_jail tb api n b e a)"
proof -
  show "keeps_datasets (cli_ensure_bridge_exists tb b)"
    unfolding cli_ensure_bridge_exists_def by (intro inv_intros quiet_run quiet_checked) (simp_all add: routine_def zfs_adds_def)
  have "keeps_datasets (move_to_vnet tb x n)" for x
    unfolding move_to_vnet_def by (intro inv_intros quiet_run) (simp_all add: routine_def zfs_adds_def)
  then show "keeps_datasets (cli_attach_jail tb api n b e a)" if "is_ok (api_parse_ipv4net api a)"
    unfolding cli_attach_jail_def Let_def
    by (intro inv_intros quiet_run quiet_checked quiet_tolerant quiet_gateway that) (simp_all add: routine_def zfs_adds_def)
qed (simp_all add: cli_detach_jail_def cli_add_route_def cli_remove_route_def cli_add_alias_def cli_remove_alias_def quiet_tolerant routine_def)

lemma quiet_nginx:
  "keeps_datasets (cli_write_config tb p n t)" "keeps_datasets (cli_test_config tb n)" "keeps_datasets (cli_reload tb n)"
proof -
  have "keeps_datasets (nginx_command tb n flags f)" for flags f
    unfolding nginx_command_def run_jexec_def by (intro inv_intros quiet_world run) (simp add: routine_def zfs_adds_def)
  then show "keeps_datasets (cli_test_config tb n)" "keeps_datasets (cli_reload tb n)"
    by (simp_all add: cli_test_config_def cli_reload_def)
  show "keeps_datasets (cli_write_config tb p n t)"
    unfolding cli_write_config_def Let_def by (intro inv_intros quiet_world files)
qed

text \<open>The loop of \<open>destroy_dataset\<close> takes nothing but its dataset, and always has an error to report.\<close>

lemma destroy_attempts_keeps:
  "\<exists>r s'. destroy_attempts tb d k le busy s = (r, s') \<and> r \<noteq> Panic \<and> D (cl_world s) - {d} \<subseteq> D (cl_world s') \<and>
    (0 < k \<or> le \<noteq> None \<longrightarrow> (\<forall>b. r \<noteq> Val (Some (None, b))))"
proof (induction k arbitrary: le busy s)
  case 0
  show ?case by (simp add: returnA_def)
next
  case (Suc k)
  obtain r1 s1 where r1: "zfs_checked tb [''destroy'', d] s = (r1, s1)" by fastforce
  then have s1: "D (cl_world s) - {d} \<subseteq> D (cl_world s1)" "r1 \<noteq> Panic"
    using destroy [of "cl_world s" d] by (auto simp: cli_checked_eq split: prod.splits result.splits if_splits; blast)+
  show ?case
  proof (cases r1)
    case (Exn e)
    from Suc [of "Some e" True s1] obtain r s' where "destroy_attempts tb d k (Some e) True s1 = (r, s')" "r \<noteq> Panic"
      "D (cl_world s1) - {d} \<subseteq> D (cl_world s')" "\<forall>b. r \<noteq> Val (Some (None, b))" by auto
    with s1 r1 Exn show ?thesis by (simp add: bindA_def resultA_def failA_def returnA_def Let_def) blast
  qed (use r1 s1 in \<open>simp_all add: bindA_def resultA_def returnA_def\<close>)
qed

lemma destroy_dataset_keeps:
  "fst (cli_destroy_dataset tb d s) \<noteq> Panic \<and> D (cl_world s) - {d} \<subseteq> D (cl_world (snd (cli_destroy_dataset tb d s)))"
proof -
  obtain r s' where "destroy_attempts tb d 10 None False s = (r, s')" "r \<noteq> Panic" "D (cl_world s) - {d} \<subseteq> D (cl_world s')"
      "\<forall>b. r \<noteq> Val (Some (None, b))" using destroy_attempts_keeps [of d 10 None False s] by auto
  then show ?thesis
    by (cases r) (auto simp: cli_destroy_dataset_def act_defs split: option.splits; blast)+
qed

lemma cli_host_laws:
  assumes "\<And>h e. keeps_datasets (acme h e dns)"
  shows "host_laws (cli_host tb api pool dns acme) api (D \<circ> cl_world)"
  by unfold_locales
    (simp_all add: cli_host_def cli_jails_def cli_mounts_def cli_zfs_def cli_net_def cli_nginx_def quiet_jails quiet_mounts quiet_zfs
      quiet_net quiet_nginx assms destroy_dataset_keeps)

end

section \<open>A record of what is run\<close>

datatype deed = Ran string "string list" "(proc_output, io_error) result" | Spawned string "string list"

definition recorded :: "'w tools \<Rightarrow> ('w \<times> deed list) tools" where
  "recorded tb = \<lparr>
     tl_run = (\<lambda>program args (w, ds). case tl_run tb program args w of (r, w') \<Rightarrow> (r, (w', ds @ [Ran program args r]))),
     tl_feed = (\<lambda>program args input (w, ds). case tl_feed tb program args input w of (r, w') \<Rightarrow>
       (r, (w', ds @ [Ran program args (case r of Ok x \<Rightarrow> Ok (fst x) | Err e \<Rightarrow> Err e)]))),
     tl_spawn = (\<lambda>program args (w, ds). case tl_spawn tb program args w of (r, w') \<Rightarrow> (r, (w', ds @ [Spawned program args]))),
     tl_finished = (\<lambda>pid (w, ds). case tl_finished tb pid w of (r, w') \<Rightarrow> (r, (w', ds))),
     tl_wait = (\<lambda>pid (w, ds). (tl_wait tb pid w, ds)),
     tl_create_dir_all = (\<lambda>p (w, ds). case tl_create_dir_all tb p w of (r, w') \<Rightarrow> (r, (w', ds))),
     tl_write = (\<lambda>p t (w, ds). case tl_write tb p t w of (r, w') \<Rightarrow> (r, (w', ds))),
     tl_rename = (\<lambda>p q (w, ds). case tl_rename tb p q w of (r, w') \<Rightarrow> (r, (w', ds))),
     tl_show_io = tl_show_io tb, tl_now = (\<lambda>(w, ds). tl_now tb w), tl_unix_now = (\<lambda>(w, ds). tl_unix_now tb w)\<rparr>"

text \<open>A deed spares a dataset when it is a routine command or the destruction of another one.\<close>

primrec spares :: "deed \<Rightarrow> string \<Rightarrow> bool" where
  "spares (Ran program args r) d \<longleftrightarrow> routine program args \<or> program = ''zfs'' \<and> (\<exists>e. args = [''destroy'', e] \<and> e \<noteq> d)"
| "spares (Spawned program args) d \<longleftrightarrow> routine program args"

definition spared :: "'w \<times> deed list \<Rightarrow> string set" where
  "spared w = {d. \<forall>x \<in> set (snd w). spares x d}"

interpretation recorded: host_programs "recorded tb" spared for tb :: "'w tools"
  by unfold_locales (auto simp: recorded_def spared_def routine_def split: prod.splits)

section \<open>Results\<close>

text \<open>C5: The agent as it runs on FreeBSD, with the implementations that call \<open>jail\<close>, \<open>zfs\<close>, \<open>ifconfig\<close> and the
  rest, whatever these programs do, print and how they exit: it answers each command of any sequence in which no jail is applied
  whose address is not IPv4 and no volume of \<open>V\<close> is deleted, provided the certificate client does not panic and runs
  nothing that takes a volume. The state directory mirrors its records. All it has run are the routine commands, which only
  look at datasets or add to them, and destructions of single datasets none of which is in \<open>V\<close>.\<close>

theorem freebsd_agent_keeps_running:
  assumes "\<forall>h e. quiet (spared \<circ> cl_world) (acme h e dns)" "ipnet_crate (ag_api ag)"
    and "ag_ops ag = cli_host (recorded tb) (ag_api ag) (ag_pool ag) dns acme" "\<forall>n. jail_dataset_path (ag_pool ag) n \<notin> V"
    and "is_ok (api_parse_ipv4net (ag_api ag) (INGRESS_JAIL_BRIDGE_ADDR @ ''/24''))"
    and "agent_inv ag (spared \<circ> cl_world) V (aw_rc w)" "\<forall>c \<in> set cmds. harmless ag V c"
  shows "\<exists>rs w'. run_agent ag cmds w = Some (rs, w') \<and> length rs = length cmds \<and>
    (\<forall>d \<in> V. \<forall>x \<in> set (snd (cl_world (rc_host (aw_rc w')))). spares x d) \<and>
    mirrors (jail_codec ag) (ag_state_dir ag) (rc_records (aw_rc w')) (rc_fs (aw_rc w')) \<and>
    mirrors (ingress_codec ag) (ingress_dir (ag_state_dir ag)) (rc_ingress_records (aw_rc w')) (rc_fs (aw_rc w'))"
proof -
  have "host_laws (ag_ops ag) (ag_api ag) (spared \<circ> cl_world)"
    unfolding assms(3) by (rule recorded.cli_host_laws) (use assms(1) in blast)
  then have "agent_host ag (spared \<circ> cl_world) V"
    by (intro agent_host.intro agent_host_axioms.intro assms(2,5) assms(4) [rule_format])
  from agent_host.run_agent_total [OF this assms(6,7)] obtain rs w' where
    w': "run_agent ag cmds w = Some (rs, w')" "length rs = length cmds" "agent_inv ag (spared \<circ> cl_world) V (aw_rc w')" by auto
  from w'(3) have "V \<subseteq> spared (cl_world (rc_host (aw_rc w')))" by (simp add: agent_inv_def)
  then have "\<forall>d \<in> V. \<forall>x \<in> set (snd (cl_world (rc_host (aw_rc w')))). spares x d" by (auto simp: spared_def)
  with w' show ?thesis by (auto simp: agent_inv_def rc_inv_def)
qed

text \<open>A node whose programs succeed silently, but for the first destructions, which find their dataset busy; no certificate client.\<close>

definition busy_tools :: "nat tools" where
  "busy_tools = \<lparr>tl_run = (\<lambda>program args n. if program = ''zfs'' \<and> take 1 args = [''destroy''] \<and> 0 < n
       then (Ok \<lparr>out_status = 256, out_stdout = [], out_stderr = ''dataset is busy''\<rparr>, n - 1)
       else (Ok \<lparr>out_status = 0, out_stdout = [], out_stderr = []\<rparr>, n)),
     tl_feed = (\<lambda>program args input n. (Err IoOther, n)), tl_spawn = (\<lambda>program args n. (Ok 1, n)),
     tl_finished = (\<lambda>pid n. (False, n)), tl_wait = (\<lambda>pid n. n), tl_create_dir_all = (\<lambda>p n. (Ok (), n)),
     tl_write = (\<lambda>p t n. (Ok (), n)), tl_rename = (\<lambda>p q n. (Ok (), n)), tl_show_io = (\<lambda>e. ''I/O error''),
     tl_now = (\<lambda>n. 0), tl_unix_now = (\<lambda>n. 0)\<rparr>"

definition zex_acme :: "string \<Rightarrow> string \<Rightarrow> (nat \<times> deed list) cli dns_provider \<Rightarrow> (nat \<times> deed list, cert, acme_error) cact" where
  "zex_acme domain email dns = failA (AcmeRequest ''none'')"

definition zex_dns :: "(nat \<times> deed list) cli dns_provider" where
  "zex_dns = \<lparr>dp_create_txt_record = \<lambda>n v. failA (DnsRequest n), dp_delete_txt_record = \<lambda>n. failA (DnsRequest n),
     dp_wait_for_propagation = \<lambda>n v. failA (DnsRequest n)\<rparr>"

definition zex_agent :: "(nat \<times> deed list) cli agent" where
  "zex_agent = \<lparr>ag_ops = cli_host (recorded busy_tools) ipnet_ref ''p'' zex_dns zex_acme, ag_api = ipnet_ref, ag_pool = ''p'', ag_state_dir = ''s'',
     ag_jail_to_yaml = \<lambda>r. ''j'', ag_jail_from_yaml = \<lambda>s. Err ''j'', ag_ingress_to_yaml = \<lambda>r. ''i'', ag_ingress_from_yaml = \<lambda>s. Err ''i''\<rparr>"

definition zex_aw :: "(nat \<times> deed list) cli aw" where
  "zex_aw = \<lparr>aw_rc = \<lparr>rc_host = \<lparr>cl_world = (3, []), cl_children = []\<rparr>,
       rc_fs = aex_fs, rc_records = [], rc_backoff = [], rc_next_epair_ordinal = 1, rc_ingress_records = [], rc_ingress_backoff = [],
       rc_service_vips = []\<rparr>, aw_replicating = {}, aw_spawned = []\<rparr>"

theorem freebsd_agent_keeps_running_witness:
  "\<exists>rs w'. run_agent zex_agent [AApply (aex_spec ''10.0.1.2/24''), ADelete ''j'', ATick] zex_aw = Some (rs, w') \<and>
     volume_dataset_path ''p'' ''v'' \<in> spared (cl_world (rc_host (aw_rc w')))"
proof -
  let ?V = "{volume_dataset_path ''p'' ''v''}"
  have 1: "\<forall>h e. quiet (spared \<circ> cl_world) (zex_acme h e zex_dns)" by (simp add: zex_acme_def inv_intros)
  have 2: "ipnet_crate (ag_api zex_agent)" "ag_ops zex_agent = cli_host (recorded busy_tools) (ag_api zex_agent) (ag_pool zex_agent) zex_dns zex_acme"
    "\<forall>n. jail_dataset_path (ag_pool zex_agent) n \<notin> ?V" "is_ok (api_parse_ipv4net (ag_api zex_agent) (INGRESS_JAIL_BRIDGE_ADDR @ ''/24''))"
    by (simp_all add: zex_agent_def ref.ipnet_crate_axioms ref_parses_ingress)
  have 3: "agent_inv zex_agent (spared \<circ> cl_world) ?V (aw_rc zex_aw)"
    by (simp add: agent_inv_def rc_inv_def mirrors_def zex_aw_def aex_fs_def spared_def)
  have 4: "\<forall>c \<in> set [AApply (aex_spec ''10.0.1.2/24''), ADelete ''j'', ATick]. harmless zex_agent ?V c"
    by (auto simp: zex_agent_def ipnet_ref_def split: result.splits)
  from freebsd_agent_keeps_running [OF 1 2 3 4] show ?thesis by (auto simp: spared_def)
qed

section \<open>Destroying a dataset\<close>

text \<open>What a run of \<open>zfs destroy\<close> says, and what the manager makes of it.\<close>

definition says :: "string \<Rightarrow> (proc_output, io_error) result \<Rightarrow> bool" where
  "says needle r \<longleftrightarrow> (case r of Ok out \<Rightarrow> \<not> exit_success out \<and> stderr_contains out needle | Err _ \<Rightarrow> False)"

definition says_busy :: "(proc_output, io_error) result \<Rightarrow> bool" where
  "says_busy r \<longleftrightarrow> says ''dataset is busy'' r \<and> \<not> says ''dataset does not exist'' r"

definition destroy_verdict :: "string \<Rightarrow> (proc_output, io_error) result \<Rightarrow> (unit, zfs_error) outcome" where
  "destroy_verdict d r = (case r of Err e \<Rightarrow> Exn (ZSpawn ''zfs'' e)
     | Ok out \<Rightarrow> if exit_success out then Val ()
         else if says ''dataset does not exist'' r then Exn (ZNotFound d)
         else if says ''dataset is busy'' r then Exn (ZBusy d)
         else Exn (ZCommandFailed (''zfs destroy '' @ d) (out_status out) (lossy (out_stderr out))))"

lemma recorded_run:
  "zfs_checked (recorded tb) args s = (case tl_run tb ''zfs'' args (fst (cl_world s)) of (r, w) \<Rightarrow>
     (case r of Ok out \<Rightarrow> if exit_success out then Val ()
          else Exn (ZCommandFailed (''zfs '' @ join_args args) (out_status out) (lossy (out_stderr out)))
        | Err e \<Rightarrow> Exn (ZSpawn ''zfs'' e), s\<lparr>cl_world := (w, snd (cl_world s) @ [Ran ''zfs'' args r])\<rparr>))"
  by (cases "cl_world s") (auto simp: cli_checked_eq recorded_def split: prod.splits result.splits)

lemma attempt_step:
  assumes "tl_run tb ''zfs'' [''destroy'', d] (fst (cl_world s)) = (x, w)"
  shows "destroy_attempts (recorded tb) d (Suc k) le busy s =
    (let s1 = s\<lparr>cl_world := (w, snd (cl_world s) @ [Ran ''zfs'' [''destroy'', d] x])\<rparr> in case destroy_verdict d x of
       Val _ \<Rightarrow> (Val None, s1) | Panic \<Rightarrow> (Panic, s1)
     | Exn e \<Rightarrow> if says ''dataset does not exist'' x then (Exn e, s1)
         else if says_busy x then destroy_attempts (recorded tb) d k
           (Some (ZCommandFailed (''zfs destroy '' @ d) (case x of Ok out \<Rightarrow> out_status out | Err _ \<Rightarrow> 0) (case x of Ok out \<Rightarrow> lossy (out_stderr out) | Err _ \<Rightarrow> []))) True s1
         else (Val (Some (Some e, False)), s1))"
  using assms
  by (cases x) (simp_all add: recorded_run bindA_def resultA_def returnA_def failA_def destroy_verdict_def says_def says_busy_def
      zfs_failed_with_def stderr_contains_def Let_def join_args_def)

text \<open>The attempts, seen from outside: those before the last said that the dataset was busy.\<close>

definition attempted_runs :: "string \<Rightarrow> nat \<Rightarrow> ('w \<times> deed list) cli \<Rightarrow> ('w \<times> deed list) cli \<Rightarrow> (proc_output, io_error) result \<Rightarrow> bool" where
  "attempted_runs d n s s' x \<longleftrightarrow> (\<exists>bs. snd (cl_world s') = snd (cl_world s) @ map (Ran ''zfs'' [''destroy'', d]) (bs @ [x]) \<and>
     cl_children s' = cl_children s \<and> length bs < n \<and> list_all says_busy bs \<and> (says_busy x \<longrightarrow> Suc (length bs) = n))"

lemma attempted_runs_Cons:
  assumes "attempted_runs d n (s\<lparr>cl_world := (w, snd (cl_world s) @ [Ran ''zfs'' [''destroy'', d] y])\<rparr>) s' x" "says_busy y"
  shows "attempted_runs d (Suc n) s s' x"
proof -
  from assms(1) obtain bs where "snd (cl_world s') = snd (cl_world s) @ map (Ran ''zfs'' [''destroy'', d]) ((y # bs) @ [x])"
    "cl_children s' = cl_children s" "length (y # bs) < Suc n" "list_all says_busy bs" "says_busy x \<longrightarrow> Suc (length (y # bs)) = Suc n"
    by (auto simp: attempted_runs_def)
  with assms(2) show ?thesis unfolding attempted_runs_def by (intro exI [of _ "y # bs"]) simp
qed

lemma destroy_attempts_runs:
  assumes "destroy_attempts (recorded tb) d (Suc k) le busy s = (r, s')"
  shows "\<exists>x. attempted_runs d (Suc k) s s' x \<and>
    (case destroy_verdict d x of Val _ \<Rightarrow> r = Val None | Panic \<Rightarrow> False
       | Exn e \<Rightarrow> if says ''dataset does not exist'' x then r = Exn e
           else if says_busy x then \<exists>e'. r = Val (Some (Some e', True)) else r = Val (Some (Some e, False)))"
  using assms
proof (induction k arbitrary: le busy s)
  case (0 le busy s)
  obtain x w where x: "tl_run tb ''zfs'' [''destroy'', d] (fst (cl_world s)) = (x, w)" by fastforce
  have "destroy_verdict d x \<noteq> Panic" by (auto simp: destroy_verdict_def split: result.splits)
  with 0 [unfolded attempt_step [OF x]] show ?case
    by (intro exI [of _ x]) (auto simp: attempted_runs_def Let_def returnA_def split: outcome.splits if_splits)
next
  case (Suc k le busy s)
  obtain x w where x: "tl_run tb ''zfs'' [''destroy'', d] (fst (cl_world s)) = (x, w)" by fastforce
  have np: "destroy_verdict d x \<noteq> Panic" by (auto simp: destroy_verdict_def split: result.splits)
  show ?case
  proof (cases "says_busy x")
    case True
    then have "\<exists>e. destroy_verdict d x = Exn e" "\<not> says ''dataset does not exist'' x"
      by (auto simp: says_busy_def says_def destroy_verdict_def split: result.splits)
    with Suc.prems [unfolded attempt_step [OF x]] True
    obtain le' where "destroy_attempts (recorded tb) d (Suc k) le' True (s\<lparr>cl_world := (w, snd (cl_world s) @ [Ran ''zfs'' [''destroy'', d] x])\<rparr>) = (r, s')"
      by (auto simp: Let_def simp del: destroy_attempts.simps)
    from Suc.IH [OF this] show ?thesis by (elim exE conjE, intro exI conjI) (erule attempted_runs_Cons [OF _ True], assumption)
  next
    case False
    with Suc.prems [unfolded attempt_step [OF x]] np show ?thesis
      by (intro exI [of _ x]) (auto simp: attempted_runs_def Let_def split: outcome.splits if_splits simp del: destroy_attempts.simps)
  qed
qed

text \<open>C11: Destroying a dataset with \<open>CliZfsManager\<close>, whatever \<open>zfs\<close> does: it runs \<open>zfs destroy\<close> on the dataset at most ten
  times and nothing else, again only after a run that said the dataset was busy, and the last run decides: success is reported only
  if it exited with 0, \<open>NotFound\<close> only if it said that the dataset does not exist, \<open>Busy\<close> only if it was the tenth to say so; any other failure is
  reported as it is.\<close>

theorem destroy_dataset_outcome:
  assumes "cli_destroy_dataset (recorded tb) d s = (r, s')"
  shows "\<exists>bs x. snd (cl_world s') = snd (cl_world s) @ map (Ran ''zfs'' [''destroy'', d]) (bs @ [x]) \<and> cl_children s' = cl_children s \<and>
    length bs < 10 \<and> list_all says_busy bs \<and> (says_busy x \<longrightarrow> length bs = 9) \<and> r = destroy_verdict d x"
proof -
  obtain q s1 where a: "destroy_attempts (recorded tb) d (Suc 9) None False s = (q, s1)" by fastforce
  from destroy_attempts_runs [OF a] obtain x where x: "attempted_runs d (Suc 9) s s1 x"
    "case destroy_verdict d x of Val _ \<Rightarrow> q = Val None | Panic \<Rightarrow> False
       | Exn e \<Rightarrow> if says ''dataset does not exist'' x then q = Exn e
           else if says_busy x then \<exists>e'. q = Val (Some (Some e', True)) else q = Val (Some (Some e, False))" by blast
  have "cli_destroy_dataset (recorded tb) d s = (destroy_verdict d x, s1)"
    using a x(2) by (auto simp: cli_destroy_dataset_def numeral_eq_Suc bindA_def returnA_def failA_def expectA_def ok_or_def destroy_verdict_def
        says_busy_def says_def split: result.splits if_splits simp del: destroy_attempts.simps)
  with assms x(1) show ?thesis unfolding attempted_runs_def by auto
qed

theorem destroy_dataset_outcome_witness:
  "\<exists>bs x. length bs < 10 \<and> list_all says_busy bs \<and> destroy_verdict ''p/j'' x = Val () \<and>
     snd (cl_world (snd (cli_destroy_dataset (recorded busy_tools) ''p/j'' \<lparr>cl_world = (2, []), cl_children = []\<rparr>))) =
       map (Ran ''zfs'' [''destroy'', ''p/j'']) (bs @ [x]) \<and> length bs = 2"
proof -
  let ?s = "\<lparr>cl_world = (2, []), cl_children = []\<rparr> :: (nat \<times> deed list) cli"
  have l: "lossy ''dataset is busy'' = ''dataset is busy''" by code_simp
  have e: "fst (cli_destroy_dataset (recorded busy_tools) ''p/j'' ?s) = Val ()"
    "length (snd (cl_world (snd (cli_destroy_dataset (recorded busy_tools) ''p/j'' ?s)))) = 3"
    by (simp_all add: cli_destroy_dataset_def numeral_eq_Suc cli_checked_eq recorded_def busy_tools_def bindA_def resultA_def returnA_def failA_def
        exit_success_def zfs_failed_with_def l prefix_def Let_def)
  obtain r s' where r: "cli_destroy_dataset (recorded busy_tools) ''p/j'' ?s = (r, s')" by fastforce
  from destroy_dataset_outcome [OF r] e r show ?thesis by fastforce
qed

end
