(* ===== verification/Ag_Http.thy ===== *)
theory Ag_Http
  imports Ag_Replication Keel_Http
begin

text \<open>
  The agent's HTTP interface (\<open>keel-agentd/src/http.rs\<close>), which clients reach over a Unix socket and
  the control plane over TLS: reading a request and writing the answer is the framing of
  \<open>Keel_Http\<close>; here are the routes and the handlers. A handler talks to the worker thread
  (\<open>None\<close> once it has panicked) by one command. Texts of errors are values of \<open>amessage\<close>; parsing
  and rendering YAML are arguments and the type \<open>abody\<close>.
\<close>

datatype amessage =
    AmNotRunning
  | AmNoResponse
  | AmInvalidYaml string
  | AmNameMismatch string string
  | AmOutsideSubnet string ipv4net
  | AmUnknownService string
  | AmReconcile reconcile_error
  | AmNoJail string
  | AmNoIngress string
  | AmNoTarget string
  | AmNotReplicatedYet string
  | AmNoRoute string string

datatype abody =
    AbEmpty
  | AbError amessage
  | AbJail jail_status
  | AbJails "jail_status list"
  | AbVolume string
  | AbTargetReady string
  | AbIngress ingress_record
  | AbIngresses "ingress_record list"

type_synonym aresponse = "nat \<times> abody"

record ayaml =
  ay_jail :: "string \<Rightarrow> (jail_spec, string) result"
  ay_ingress :: "string \<Rightarrow> (ingress_spec, string) result"
  ay_replicate_to :: "string \<Rightarrow> (string, string) result"

definition aerror :: "nat \<Rightarrow> amessage \<Rightarrow> aresponse" where
  "aerror status m = (status, AbError m)"

definition status_for_error :: "reconcile_error \<Rightarrow> nat" where
  "status_for_error e = (case e of
       RInvalidSpec (ImmutableField _) \<Rightarrow> 409
     | RInvalidSpec _ \<Rightarrow> 400
     | RNotFound _ \<Rightarrow> 404
     | RZfs (ZNotFound _) \<Rightarrow> 404
     | RZfs (ZBusy _) \<Rightarrow> 409
     | _ \<Rightarrow> 500)"

text \<open>\<open>commands.send\<close> followed by \<open>reply_rx.recv\<close>.\<close>

datatype asent = ANotRunning | ANoResponse | AReply areply

definition asend :: "'s agent \<Rightarrow> acommand \<Rightarrow> 's aw option \<Rightarrow> asent \<times> 's aw option" where
  "asend ag c worker = (case worker of
       None \<Rightarrow> (ANotRunning, None)
     | Some w \<Rightarrow> (case handle_acommand ag () c w of
         None \<Rightarrow> (ANoResponse, None)
       | Some (r, w') \<Rightarrow> (AReply r, Some w')))"

definition aworker_failed :: "asent \<Rightarrow> aresponse" where
  "aworker_failed s = aerror 500 (if s = ANotRunning then AmNotRunning else AmNoResponse)"

text \<open>The answer to a command that replies with a \<open>Result<(), ReconcileError>\<close>.\<close>

definition answer_result :: "abody \<Rightarrow> asent \<Rightarrow> aresponse" where
  "answer_result done_body s = (case s of
       AReply (AResult (Ok _)) \<Rightarrow> (200, done_body)
     | AReply (AResult (Err e)) \<Rightarrow> aerror (status_for_error e) (AmReconcile e)
     | _ \<Rightarrow> aworker_failed s)"

definition on_worker :: "'s agent \<Rightarrow> acommand \<Rightarrow> (asent \<Rightarrow> aresponse) \<Rightarrow> 's aw option \<Rightarrow> aresponse \<times> 's aw option" where
  "on_worker ag c f worker = (case asend ag c worker of (s, worker') \<Rightarrow> (f s, worker'))"

section \<open>Handlers\<close>

definition handle_get_replica_target :: "string \<Rightarrow> 'r standby \<Rightarrow> aresponse" where
  "handle_get_replica_target name targets = (case targets_get targets name of
       None \<Rightarrow> aerror 404 (AmNoTarget name)
     | Some t \<Rightarrow> if tg_last_snapshot t = None then aerror 409 (AmNotReplicatedYet name) else (200, AbTargetReady name))"

definition handle_apply :: "'s agent \<Rightarrow> ayaml \<Rightarrow> string \<Rightarrow> string \<Rightarrow> ipv4net option \<Rightarrow> 's aw option \<Rightarrow> aresponse \<times> 's aw option" where
  "handle_apply ag y path_name body pod_cidr worker = (case ay_jail y body of
       Err e \<Rightarrow> (aerror 400 (AmInvalidYaml e), worker)
     | Ok spec \<Rightarrow>
         if md_name (js_metadata spec) \<noteq> path_name
         then (aerror 400 (AmNameMismatch path_name (md_name (js_metadata spec))), worker)
         else case (pod_cidr, api_parse_ipnet (ag_api ag) (ns_address (sp_network (js_spec spec)))) of
           (Some cidr, Ok address) \<Rightarrow>
             if \<not> api_contains (ag_api ag) (V4 cidr) (ipnet_addr address)
             then (aerror 400 (AmOutsideSubnet (ns_address (sp_network (js_spec spec))) cidr), worker)
             else on_worker ag (AApply spec) (answer_result AbEmpty) worker
         | _ \<Rightarrow> on_worker ag (AApply spec) (answer_result AbEmpty) worker)"

definition vip_slot_names :: "(string, string \<times> nat) hmap \<Rightarrow> string set" where
  "vip_slot_names slot = fst ` set slot"

definition handle_apply_ingress :: "'s agent \<Rightarrow> ayaml \<Rightarrow> string \<Rightarrow> string \<Rightarrow> (string, string \<times> nat) hmap \<Rightarrow>
    's aw option \<Rightarrow> aresponse \<times> 's aw option" where
  "handle_apply_ingress ag y path_name body vips worker = (case ay_ingress y body of
       Err e \<Rightarrow> (aerror 400 (AmInvalidYaml e), worker)
     | Ok spec \<Rightarrow>
         if md_name (is_metadata spec) \<noteq> path_name
         then (aerror 400 (AmNameMismatch path_name (md_name (is_metadata spec))), worker)
         else if ib_service (ig_backend (is_spec spec)) \<notin> vip_slot_names vips
         then (aerror 400 (AmUnknownService (ib_service (ig_backend (is_spec spec)))), worker)
         else on_worker ag (AApplyIngress spec) (answer_result AbEmpty) worker)"

definition handle_get_ingress :: "'s agent \<Rightarrow> string option \<Rightarrow> 's aw option \<Rightarrow> aresponse \<times> 's aw option" where
  "handle_get_ingress ag name = on_worker ag (AGetIngress name) (\<lambda>s. case s of
       AReply (AIngresses xs) \<Rightarrow> (case name of
           Some n \<Rightarrow> (case xs of x # _ \<Rightarrow> (200, AbIngress x) | [] \<Rightarrow> aerror 404 (AmNoIngress n))
         | None \<Rightarrow> (200, AbIngresses xs))
     | _ \<Rightarrow> aworker_failed s)"

definition handle_delete_ingress :: "'s agent \<Rightarrow> string \<Rightarrow> 's aw option \<Rightarrow> aresponse \<times> 's aw option" where
  "handle_delete_ingress ag name = on_worker ag (ADeleteIngress name) (answer_result AbEmpty)"

definition handle_set_replicate_to :: "'s agent \<Rightarrow> ayaml \<Rightarrow> string \<Rightarrow> string \<Rightarrow> 's aw option \<Rightarrow> aresponse \<times> 's aw option" where
  "handle_set_replicate_to ag y name body worker =
     (if body = [] then on_worker ag (ASetReplicateTo name None) (answer_result AbEmpty) worker
      else case ay_replicate_to y body of
        Err e \<Rightarrow> (aerror 400 (AmInvalidYaml e), worker)
      | Ok t \<Rightarrow> on_worker ag (ASetReplicateTo name (Some t)) (answer_result AbEmpty) worker)"

definition handle_get :: "'s agent \<Rightarrow> string option \<Rightarrow> 's aw option \<Rightarrow> aresponse \<times> 's aw option" where
  "handle_get ag name = on_worker ag (AGet name) (\<lambda>s. case s of
       AReply (AStatuses xs) \<Rightarrow> (case name of
           Some n \<Rightarrow> (case xs of x # _ \<Rightarrow> (200, AbJail x) | [] \<Rightarrow> aerror 404 (AmNoJail n))
         | None \<Rightarrow> (200, AbJails xs))
     | _ \<Rightarrow> aworker_failed s)"

definition handle_delete :: "'s agent \<Rightarrow> string \<Rightarrow> 's aw option \<Rightarrow> aresponse \<times> 's aw option" where
  "handle_delete ag name = on_worker ag (ADelete name) (answer_result AbEmpty)"

definition handle_get_volume :: "'s agent \<Rightarrow> string \<Rightarrow> 's aw option \<Rightarrow> aresponse \<times> 's aw option" where
  "handle_get_volume ag name = on_worker ag (AGetVolume name) (answer_result (AbVolume name))"

definition handle_delete_volume :: "'s agent \<Rightarrow> string \<Rightarrow> 's aw option \<Rightarrow> aresponse \<times> 's aw option" where
  "handle_delete_volume ag name = on_worker ag (ADeleteVolume name) (answer_result AbEmpty)"

section \<open>Routes\<close>

text \<open>What the connection threads share with the rest of the agent: the slot with the node's own block, the
  service addresses and the replica targets.\<close>

record 'r aslots =
  as_pod_cidr :: "ipv4net option"
  as_vips :: "(string, string \<times> nat) hmap"
  as_targets :: "'r standby"

definition aroute :: "'s agent \<Rightarrow> ayaml \<Rightarrow> 'r aslots \<Rightarrow> parsed_request \<Rightarrow> 's aw option \<Rightarrow> aresponse \<times> 's aw option" where
  "aroute ag y slots request worker =
     (let m = pr_method request; segments = path_segments (pr_path request); body = pr_body request;
          no_route = (aerror 404 (AmNoRoute m (pr_path request)), worker)
      in case segments of
        [a] \<Rightarrow>
          if m = ''GET'' \<and> a = ''jails'' then handle_get ag None worker
          else if m = ''GET'' \<and> a = ''ingress'' then handle_get_ingress ag None worker
          else no_route
      | [a, name] \<Rightarrow>
          if m = ''PUT'' \<and> a = ''jails'' then handle_apply ag y name body (as_pod_cidr slots) worker
          else if m = ''GET'' \<and> a = ''jails'' then handle_get ag (Some name) worker
          else if m = ''DELETE'' \<and> a = ''jails'' then handle_delete ag name worker
          else if m = ''GET'' \<and> a = ''volumes'' then handle_get_volume ag name worker
          else if m = ''DELETE'' \<and> a = ''volumes'' then handle_delete_volume ag name worker
          else if m = ''GET'' \<and> a = ''replica-targets'' then (handle_get_replica_target name (as_targets slots), worker)
          else if m = ''PUT'' \<and> a = ''ingress'' then handle_apply_ingress ag y name body (as_vips slots) worker
          else if m = ''GET'' \<and> a = ''ingress'' then handle_get_ingress ag (Some name) worker
          else if m = ''DELETE'' \<and> a = ''ingress'' then handle_delete_ingress ag name worker
          else no_route
      | [a, name, b] \<Rightarrow>
          if m = ''PUT'' \<and> a = ''jails'' \<and> b = ''replicate-to'' then handle_set_replicate_to ag y name body worker
          else no_route
      | _ \<Rightarrow> no_route)"

fun aroute_all :: "'s agent \<Rightarrow> ayaml \<Rightarrow> 'r aslots \<Rightarrow> parsed_request list \<Rightarrow> 's aw option \<Rightarrow> aresponse list \<times> 's aw option" where
  "aroute_all ag y slots [] worker = ([], worker)"
| "aroute_all ag y slots (q # qs) worker = (case aroute ag y slots q worker of (r, worker1) \<Rightarrow>
     (case aroute_all ag y slots qs worker1 of (rs, worker2) \<Rightarrow> (r # rs, worker2)))"

text \<open>A whole connection: nothing is written when no complete request arrives (or reading it panics, which
  ends this connection's thread only). The rendering of a body is an argument.\<close>

definition areason_phrase :: "nat \<Rightarrow> string" where
  "areason_phrase status =
     (if status = 200 then ''OK'' else if status = 400 then ''Bad Request'' else if status = 401 then ''Unauthorized''
      else if status = 404 then ''Not Found'' else if status = 409 then ''Conflict''
      else if status = 500 then ''Internal Server Error'' else ''Unknown'')"

definition awrite_response :: "nat \<Rightarrow> string \<Rightarrow> string" where
  "awrite_response status body =
     ''HTTP/1.1 '' @ show_nat status @ '' '' @ areason_phrase status @ crlf @
     ''Content-Length: '' @ show_nat (length body) @ crlf @
     ''Content-Type: application/yaml'' @ crlf @ ''Connection: close'' @ crlf @ crlf @ body"

definition aread_request :: "(string \<Rightarrow> request_head parse_status) \<Rightarrow> reads \<Rightarrow> (parsed_request option, string) result option" where
  "aread_request parse reads = read_request parse reads"

definition aconnection :: "'s agent \<Rightarrow> ayaml \<Rightarrow> 'r aslots \<Rightarrow> (string \<Rightarrow> request_head parse_status) \<Rightarrow> (abody \<Rightarrow> string) \<Rightarrow>
    reads \<Rightarrow> 's aw option \<Rightarrow> string option \<times> 's aw option" where
  "aconnection ag y slots parse render reads worker =
     (case aread_request parse reads of
        Some (Ok (Some q)) \<Rightarrow>
          (case aroute ag y slots q worker of ((status, body), worker') \<Rightarrow> (Some (awrite_response status (render body)), worker'))
      | _ \<Rightarrow> (None, worker))"

section \<open>Requests and the worker\<close>

text \<open>A request that asks for the deletion of a volume in \<open>V\<close>.\<close>

definition drops_volume :: "'s agent \<Rightarrow> string set \<Rightarrow> parsed_request \<Rightarrow> bool" where
  "drops_volume ag V q \<longleftrightarrow> pr_method q = ''DELETE'' \<and>
     (\<exists>name. path_segments (pr_path q) = [''volumes'', name] \<and> volume_dataset_path (ag_pool ag) name \<in> V)"

definition worker_died :: "aresponse \<Rightarrow> bool" where
  "worker_died r \<longleftrightarrow> r = aerror 500 AmNotRunning \<or> r = aerror 500 AmNoResponse"

text \<open>Every route is at most one command, which is harmless when the node knows its block.\<close>

definition one_command :: "'s agent \<Rightarrow> string set \<Rightarrow> 's aw option \<Rightarrow> aresponse \<times> 's aw option \<Rightarrow> bool" where
  "one_command ag V worker out \<longleftrightarrow> (snd out = worker \<and> \<not> worker_died (fst out)) \<or>
     (\<exists>c f. harmless ag V c \<and> out = on_worker ag c f worker \<and> (\<forall>r w w'. handle_acommand ag () c w = Some (r, w') \<longrightarrow> \<not> worker_died (f (AReply r))))"

lemma worker_died_simps [simp]:
  "\<not> worker_died (aerror 400 m)" "\<not> worker_died (aerror 404 m)" "\<not> worker_died (aerror 409 m)" "\<not> worker_died (200, b)"
  "\<not> worker_died (aerror n (AmReconcile e))"
  by (simp_all add: worker_died_def aerror_def)

lemma one_command_same: "\<not> worker_died r \<Longrightarrow> one_command ag V worker (r, worker)"
  by (simp add: one_command_def)

lemma answer_result_ok: "\<exists>x. r = AResult x \<Longrightarrow> \<not> worker_died (answer_result b (AReply r))"
  by (auto simp: answer_result_def split: result.splits)

lemma one_command_result:
  assumes "harmless ag V c" "\<And>r w w'. handle_acommand ag () c w = Some (r, w') \<Longrightarrow> \<exists>x. r = AResult x"
  shows "one_command ag V worker (on_worker ag c (answer_result b) worker)"
  using assms answer_result_ok unfolding one_command_def by blast

lemma result_commands:
  "handle_acommand ag () (AApply spec) w = Some (r, w') \<Longrightarrow> \<exists>x. r = AResult x"
  "handle_acommand ag () (ADelete n) w = Some (r, w') \<Longrightarrow> \<exists>x. r = AResult x"
  "handle_acommand ag () (AGetVolume n) w = Some (r, w') \<Longrightarrow> \<exists>x. r = AResult x"
  "handle_acommand ag () (ADeleteVolume n) w = Some (r, w') \<Longrightarrow> \<exists>x. r = AResult x"
  "handle_acommand ag () (ASetReplicateTo n t) w = Some (r, w') \<Longrightarrow> \<exists>x. r = AResult x"
  "handle_acommand ag () (AApplyIngress i) w = Some (r, w') \<Longrightarrow> \<exists>x. r = AResult x"
  "handle_acommand ag () (ADeleteIngress n) w = Some (r, w') \<Longrightarrow> \<exists>x. r = AResult x"
  by (auto simp: then_tick_def bind_eq_Some_conv)

lemma status_commands:
  "handle_acommand ag () (AGet n) w = Some (r, w') \<Longrightarrow> \<exists>xs. r = AStatuses xs"
  "handle_acommand ag () (AGetIngress n) w = Some (r, w') \<Longrightarrow> \<exists>xs. r = AIngresses xs"
  by (auto simp: Let_def split: option.splits)

lemma one_commands:
  "harmless ag V (AApply spec) \<Longrightarrow> one_command ag V worker (on_worker ag (AApply spec) (answer_result b) worker)"
  "harmless ag V (ADelete n) \<Longrightarrow> one_command ag V worker (on_worker ag (ADelete n) (answer_result b) worker)"
  "harmless ag V (AGetVolume n) \<Longrightarrow> one_command ag V worker (on_worker ag (AGetVolume n) (answer_result b) worker)"
  "harmless ag V (ADeleteVolume n) \<Longrightarrow> one_command ag V worker (on_worker ag (ADeleteVolume n) (answer_result b) worker)"
  "harmless ag V (ASetReplicateTo n t) \<Longrightarrow> one_command ag V worker (on_worker ag (ASetReplicateTo n t) (answer_result b) worker)"
  "harmless ag V (AApplyIngress i) \<Longrightarrow> one_command ag V worker (on_worker ag (AApplyIngress i) (answer_result b) worker)"
  "harmless ag V (ADeleteIngress n) \<Longrightarrow> one_command ag V worker (on_worker ag (ADeleteIngress n) (answer_result b) worker)"
  by (rule one_command_result, assumption, erule result_commands)+

lemma one_command_apply:
  assumes "ipnet_crate (ag_api ag)"
  shows "one_command ag V worker (handle_apply ag y name body (Some cidr) worker)"
proof (cases "ay_jail y body")
  case (Ok spec)
  let ?p = "api_parse_ipnet (ag_api ag) (ns_address (sp_network (js_spec spec)))"
  have "harmless ag V (AApply spec)" if "\<forall>a. ?p = Ok a \<longrightarrow> api_contains (ag_api ag) (V4 cidr) (ipnet_addr a)"
    using that ipnet_crate.contains_v6 [OF assms] by auto
  then show ?thesis
    by (cases ?p) (auto simp: handle_apply_def Ok intro!: one_command_same one_commands simp del: harmless.simps handle_acommand.simps)
qed (simp add: handle_apply_def one_command_same)

lemma one_command_gets:
  "one_command ag V worker (handle_get ag n worker)" "one_command ag V worker (handle_get_ingress ag n worker)"
proof -
  show "one_command ag V worker (handle_get ag n worker)"
    unfolding one_command_def handle_get_def
    by (intro disjI2 exI conjI, rule_tac [2] refl)
       (auto dest!: status_commands(1) split: option.split_asm list.split_asm simp del: handle_acommand.simps)
  show "one_command ag V worker (handle_get_ingress ag n worker)"
    unfolding one_command_def handle_get_ingress_def
    by (intro disjI2 exI conjI, rule_tac [2] refl)
       (auto dest!: status_commands(2) split: option.split_asm list.split_asm simp del: handle_acommand.simps)
qed

lemma one_command_others:
  "one_command ag V worker (handle_delete ag n worker)" "one_command ag V worker (handle_get_volume ag n worker)"
  "one_command ag V worker (handle_set_replicate_to ag y n body worker)" "one_command ag V worker (handle_apply_ingress ag y n body vips worker)"
  "one_command ag V worker (handle_delete_ingress ag n worker)"
  "volume_dataset_path (ag_pool ag) n \<notin> V \<Longrightarrow> one_command ag V worker (handle_delete_volume ag n worker)"
  unfolding handle_delete_def handle_get_volume_def handle_set_replicate_to_def handle_apply_ingress_def handle_delete_ingress_def handle_delete_volume_def
  by (auto intro!: one_command_same one_commands split: result.split simp del: handle_acommand.simps)

lemma one_command_if:
  "(c \<Longrightarrow> one_command ag V worker x) \<Longrightarrow> (\<not> c \<Longrightarrow> one_command ag V worker z) \<Longrightarrow> one_command ag V worker (if c then x else z)"
  by simp

lemma one_command_target: "one_command ag V worker (handle_get_replica_target name targets, worker)"
  by (intro one_command_same) (simp add: handle_get_replica_target_def split: option.split)

lemma one_command_route:
  assumes c: "ipnet_crate (ag_api ag)" and p: "as_pod_cidr slots = Some cidr" and d: "\<not> drops_volume ag V q"
  shows "one_command ag V worker (aroute ag y slots q worker)"
proof -
  let ?n = "one_command ag V worker (aerror 404 (AmNoRoute (pr_method q) (pr_path q)), worker)"
  have n: ?n by (simp add: one_command_same)
  note routes = one_command_if n one_command_apply [OF c] one_command_gets one_command_others(1-5) one_command_target
  consider "path_segments (pr_path q) = []" | a where "path_segments (pr_path q) = [a]"
    | a name where "path_segments (pr_path q) = [a, name]" | a name b where "path_segments (pr_path q) = [a, name, b]"
    | a name b e es where "path_segments (pr_path q) = a # name # b # e # es"
    by (metis list.exhaust)
  then show ?thesis
  proof cases
    case (3 a name)
    have v: "one_command ag V worker (handle_delete_volume ag name worker)" if "pr_method q = ''DELETE'' \<and> a = ''volumes''"
      using one_command_others(6) d 3 that by (auto simp: drops_volume_def)
    show ?thesis
      unfolding aroute_def Let_def 3 p by (simp only: list.case) (intro routes v; assumption?)
  qed (unfold aroute_def Let_def p, (simp only: list.case, intro routes)+)
qed

end
