(* ===== verification/Ag_Limits.thy ===== *)
theory Ag_Limits
  imports Ag_Behaviour
begin

text \<open>
  Behaviours of the agent that the comments of the sources do not announce: an IPv6 address passes the
  validation and then ends the worker thread, a jail that is deleted and applied again is no longer
  replicated, and an ingress without a certificate is part of the nginx configuration.
\<close>

section \<open>IPv6 addresses\<close>

lemma fake_provision_panics:
  assumes f: "ag_ops ag = fake_host_ops (ag_api ag)"
    and a: "\<not> is_ok (api_parse_ipv4net (ag_api ag) (ns_address (sp_network (js_spec (jrec_spec r)))))"
    and i: "base_dataset_path (ag_pool ag) (sp_image (js_spec (jrec_spec r))) \<in> fk_datasets (rc_host st)"
  shows "\<exists>st'. provision ag name r st = (Panic, st')"
proof -
  let ?sp = "js_spec (jrec_spec r)" and ?rootfs = "jail_rootfs_path (ag_pool ag) name"
  have e: "\<exists>x. api_parse_ipv4net (ag_api ag) (ns_address (sp_network ?sp)) = Err x"
    using a by (cases "api_parse_ipv4net (ag_api ag) (ns_address (sp_network ?sp))") auto
  have cfg: "\<exists>s'. configure_networking_and_limits ag name r s = (Panic, s')" for s
    using e by (auto simp: configure_networking_and_limits_def Let_def f fake_host_ops_def fake_ensure_bridge_exists_def
        fake_attach_jail_def bridge_gateway_def on_host_def act_defs)
  have "\<exists>s. provision ag name r st = bindA (configure_networking_and_limits ag name r) (\<lambda>_.
      on_host RJail (jr_start_command (jr ag) (jail_name name) (sp_command ?sp))) s"
    using i unfolding provision_def Let_def
    by (simp add: f fake_host_ops_def fake_dataset_exists_def fake_clone_from_base_def fake_jail_create_def on_host_def
        returnA_def failA_def bindA_def getA_def modifyA_def map_exnA_def zoomA_def fake_volumes [OF f, unfolded on_host_def]) blast
  then obtain s where s: "provision ag name r st = bindA (configure_networking_and_limits ag name r) (\<lambda>_.
      on_host RJail (jr_start_command (jr ag) (jail_name name) (sp_command ?sp))) s" by blast
  obtain s' where "configure_networking_and_limits ag name r s = (Panic, s')" using cfg by blast
  with s show ?thesis by (simp add: bindA_def)
qed

lemma fake_reconcile_one_panics:
  assumes f: "ag_ops ag = fake_host_ops (ag_api ag)" and g: "hm_get (rc_records st) name = Some r"
    and a: "\<not> is_ok (api_parse_ipv4net (ag_api ag) (ns_address (sp_network (js_spec (jrec_spec r)))))"
    and i: "base_dataset_path (ag_pool ag) (sp_image (js_spec (jrec_spec r))) \<in> fk_datasets (rc_host st)"
    and j: "hm_get (fk_jails (rc_host st)) (jail_name name) = None" and b: "hm_get (rc_backoff st) name = None"
  shows "\<exists>st'. reconcile_one ag now name st = (Panic, st')"
proof -
  let ?s1 = "st\<lparr>rc_backoff := hm_insert name backoff_new (rc_backoff st)\<rparr>"
  obtain st' where "provision ag name r ?s1 = (Panic, st')" using fake_provision_panics [OF f a] i by fastforce
  moreover have "reconcile_one ag now name st =
      bindA (resultA (provision ag name r)) (\<lambda>result. bindA (jail_attempt name now) (\<lambda>_.
        bindA (if is_ok result then returnA () else rollback_provision ag name r) (\<lambda>_. checkA id result))) ?s1"
    using f g j b by (simp add: reconcile_one_def can_retry_new on_host_def act_defs fake_host_ops_def fake_jail_exists_def)
  ultimately show ?thesis by (simp add: bindA_def resultA_def)
qed

lemma fake_reconcile_no_ingress:
  assumes "ag_ops ag = fake_host_ops (ag_api ag)" "rc_ingress_records st = []"
  shows "\<exists>h. (\<forall>now. reconcile ag now st = reconcile_names ag now (map fst (rc_records st)) (st\<lparr>rc_host := h\<rparr>)) \<and>
    fk_jails h = fk_jails (rc_host st) \<and> fk_datasets h = fk_datasets (rc_host st)"
proof -
  have "\<exists>h. reconcile_ingress_config ag st = (Val (), st\<lparr>rc_host := h\<rparr>) \<and>
      fk_jails h = fk_jails (rc_host st) \<and> fk_datasets h = fk_datasets (rc_host st)"
    by (cases "fk_fail_test (rc_host st)")
       (simp add: reconcile_ingress_config_def assms(1) fake_host_ops_def fake_write_config_def fake_test_config_def fake_reload_def
        on_host_def act_defs, rule exI, rule conjI, rule refl, simp)+
  then obtain h where h: "reconcile_ingress_config ag st = (Val (), st\<lparr>rc_host := h\<rparr>)"
      "fk_jails h = fk_jails (rc_host st)" "fk_datasets h = fk_datasets (rc_host st)" by blast
  have "reconcile ag now st = reconcile_names ag now (map fst (rc_records st)) (st\<lparr>rc_host := h\<rparr>)" for now
    using assms(2) by (simp add: reconcile_def ensure_ingress_jail_def reconcile_certs_def ignoreA_def bindA_def getA_def returnA_def h(1))
  with h show ?thesis by blast
qed

lemma reconcile_names_panics:
  "reconcile_one ag now n s = (Panic, s') \<Longrightarrow> reconcile_names ag now (n # ns) s = (Panic, s')"
  by (simp add: act_defs)

lemma tick_panics:
  "\<exists>s. reconcile ag (h_instant_now (ag_ops ag) (rc_host (aw_rc w))) (aw_rc w) = (Panic, s) \<Longrightarrow> tick ag w = None"
  by (auto simp: tick_def run_rc_def)

text \<open>C35: A jail with an IPv6 address passes every check of the agent and its record is written to disk, but
  the first pass over it panics, and with it the thread that serves all commands.\<close>

theorem ipv6_address_kills_agent:
  assumes "ag_ops ag = fake_host_ops (ag_api ag)" "ipnet_crate (ag_api ag)" "spec_ok ag spec"
    and "api_parse_ipnet (ag_api ag) (ns_address (sp_network (js_spec spec))) = Ok (V6 a)"
    and "rc_records (aw_rc w) = []" "rc_ingress_records (aw_rc w) = []" "rc_backoff (aw_rc w) = []" "\<forall>t. fs_fault (rc_fs (aw_rc w)) t = None"
    and "base_dataset_path (ag_pool ag) (sp_image (js_spec spec)) \<in> fk_datasets (rc_host (aw_rc w))"
    and "hm_get (fk_jails (rc_host (aw_rc w))) (jail_name (md_name (js_metadata spec))) = None"
  shows "\<exists>st'. apply_jail ag spec (aw_rc w) = (Val (), st') \<and>
    hm_get (fs_files (rc_fs st')) (ag_state_dir ag, yaml_file (md_name (js_metadata spec))) =
      Some (ag_jail_to_yaml ag \<lparr>jrec_spec = spec, jrec_epair_ordinal = rc_next_epair_ordinal (aw_rc w)\<rparr>) \<and>
    handle_acommand ag () (AApply spec) w = None"
proof -
  let ?st = "aw_rc w" and ?n = "md_name (js_metadata spec)"
  let ?r = "\<lparr>jrec_spec = spec, jrec_epair_ordinal = rc_next_epair_ordinal ?st\<rparr>"
  have a: "\<not> is_ok (api_parse_ipv4net (ag_api ag) (ns_address (sp_network (js_spec spec))))"
    using assms(4) ipnet_crate.parse_v4 [OF assms(2)] unfolding is_ok_iff by (metis ipnet.distinct(1) result.inject(1))
  obtain x d where e: "store_save (jail_codec ag) (ag_state_dir ag) ?r (rc_fs ?st) = (x, d)" by (metis surj_pair)
  have x: "x = Val ()"
    using e assms(8) by (auto simp: store_save_def create_dir_all_def fs_write_def fs_rename_def fs_try_def fs_put_def act_defs)
  let ?st1 = "?st\<lparr>rc_next_epair_ordinal := u32_succ (rc_next_epair_ordinal ?st), rc_fs := d, rc_records := [(?n, ?r)]\<rparr>"
  have ap: "apply_jail ag spec ?st = (Val (), ?st1)"
    using assms(5) e x by (simp add: apply_jail_valid [OF assms(3)] save_jail_def on_fs_def act_defs)
  from fake_reconcile_no_ingress [OF assms(1), of ?st1] assms(6) obtain h where
    h: "\<And>now. reconcile ag now ?st1 = reconcile_names ag now [?n] (?st1\<lparr>rc_host := h\<rparr>)"
    "fk_jails h = fk_jails (rc_host ?st)" "fk_datasets h = fk_datasets (rc_host ?st)" by auto
  have "\<exists>s. reconcile_one ag now ?n (?st1\<lparr>rc_host := h\<rparr>) = (Panic, s)" for now
    using assms(7,9,10) h a by (intro fake_reconcile_one_panics [OF assms(1), where r = ?r]) simp_all
  then have "\<exists>s. reconcile ag now ?st1 = (Panic, s)" for now
    unfolding h(1) using reconcile_names_panics by blast
  then have t: "tick ag (w\<lparr>aw_rc := ?st1\<rparr>) = None" by (intro tick_panics) simp
  have disk: "hm_get (fs_files d) (ag_state_dir ag, yaml_file ?n) = Some (ag_jail_to_yaml ag ?r)"
    using store_save_files [OF e] x by (simp add: spec_name_of_def)
  have "run_rc (apply_jail ag spec) w = Some (Ok (), w\<lparr>aw_rc := ?st1\<rparr>)" by (simp add: run_rc_def ap)
  then have "handle_acommand ag () (AApply spec) w = None" by (simp add: t)
  with ap disk show ?thesis by simp
qed

definition ipnet_with_v6 :: ipnet_api where
  "ipnet_with_v6 = ipnet_ref\<lparr>api_parse_ipnet := \<lambda>s. if s = ''::1/64'' then Ok (V6 \<lparr>net6_addr = 1, net6_prefix_len = 64\<rparr>)
     else api_parse_ipnet ipnet_ref s\<rparr>"

lemma v6_not_v4: "\<not> is_ok (ref_parse ''::1/64'')"
proof -
  have "rsplit_once CHR ''/'' ''::1/64'' = Some (''::1'', ''64'')" by (simp add: rsplit_once_Some_iff)
  then show ?thesis by (simp add: ref_parse_def parse_ipv4addr_def parse_octet_def is_ascii_digit_def)
qed

lemma ipnet_crate_with_v6: "ipnet_crate ipnet_with_v6"
  using ref.network ref.hosts ref.contains_v4 ref.contains_v6 ref.parse_prefix ref.parse_show ref.parse_v4 v6_not_v4
  by unfold_locales (auto simp: ipnet_with_v6_def is_ok_iff ipnet_ref_def)

theorem ipv6_address_kills_agent_witness:
  "handle_acommand (aex_agent ipnet_with_v6) () (AApply (aex_spec ''::1/64'')) aex_aw = None"
proof -
  let ?ag = "aex_agent ipnet_with_v6" and ?sp = "aex_spec ''::1/64''"
  have ag: "ag_ops ?ag = fake_host_ops (ag_api ?ag)" "ipnet_crate (ag_api ?ag)"
    by (simp_all add: aex_agent_def ipnet_crate_with_v6)
  have ok: "spec_ok ?ag ?sp"
    by (auto simp: spec_ok_def aex_spec_def aex_agent_def aex_resources is_ok_iff validate_name_Ok_iff is_ascii_lowercase_def
        validate_address_def ipnet_with_v6_def)
  have v6: "api_parse_ipnet (ag_api ?ag) (ns_address (sp_network (js_spec ?sp))) = Ok (V6 \<lparr>net6_addr = 1, net6_prefix_len = 64\<rparr>)"
    by (simp add: aex_agent_def aex_spec_def ipnet_with_v6_def)
  have w: "rc_records (aw_rc aex_aw) = []" "rc_ingress_records (aw_rc aex_aw) = []" "rc_backoff (aw_rc aex_aw) = []"
    "\<forall>t. fs_fault (rc_fs (aw_rc aex_aw)) t = None"
    by (simp_all add: aex_aw_def aex_rc_def aex_fs_def)
  have h: "base_dataset_path (ag_pool ?ag) (sp_image (js_spec ?sp)) \<in> fk_datasets (rc_host (aw_rc aex_aw))"
    "hm_get (fk_jails (rc_host (aw_rc aex_aw))) (jail_name (md_name (js_metadata ?sp))) = None"
    by (simp_all add: aex_aw_def aex_rc_def aex_host_def aex_agent_def aex_spec_def base_dataset_path_def)
  show ?thesis using ipv6_address_kills_agent [OF ag ok v6 w h] by (auto simp del: handle_acommand.simps)
qed

section \<open>Replication loops\<close>

lemma run_rc_loops: "run_rc m w = Some (r, w') \<Longrightarrow> aw_replicating w' = aw_replicating w \<and> aw_spawned w' = aw_spawned w"
  by (auto simp: run_rc_def split: prod.splits outcome.splits)

lemma tick_loops: "tick ag w = Some w' \<Longrightarrow> aw_replicating w' = aw_replicating w \<and> aw_spawned w' = aw_spawned w"
  by (auto simp: tick_def dest!: run_rc_loops)

text \<open>The loops started so far have distinct names, and the thread remembers all of them.\<close>

definition loops_ok :: "'s aw \<Rightarrow> bool" where
  "loops_ok w \<longleftrightarrow> distinct (map fst (aw_spawned w)) \<and> set (map fst (aw_spawned w)) \<subseteq> aw_replicating w"

definition more_loops :: "'s aw \<Rightarrow> 's aw \<Rightarrow> bool" where
  "more_loops w w' \<longleftrightarrow> aw_replicating w \<subseteq> aw_replicating w' \<and>
     (\<exists>new. aw_spawned w' = aw_spawned w @ new \<and> fst ` set new \<inter> aw_replicating w = {}) \<and> (loops_ok w \<longrightarrow> loops_ok w')"

lemma more_loops_refl: "aw_replicating w' = aw_replicating w \<and> aw_spawned w' = aw_spawned w \<Longrightarrow> more_loops w w'"
  by (simp add: more_loops_def loops_ok_def)

lemma more_loops_trans: "more_loops w w1 \<Longrightarrow> more_loops w1 w2 \<Longrightarrow> more_loops w w2"
  unfolding more_loops_def by (fastforce simp: image_Un)

lemma more_loops_spawn: "more_loops w (spawn_loop n w)"
  by (auto simp: more_loops_def spawn_loop_def loops_ok_def)

lemma more_loops_resume: "more_loops w (resume_loops sts w)"
  unfolding resume_loops_def
proof (induction sts arbitrary: w)
  case (Cons st sts)
  then show ?case by (cases "stateful_and_replicated (jrec_spec (jst_record st))")
      (auto intro: more_loops_trans more_loops_spawn)
qed (simp add: more_loops_refl)

lemma run_rc_more_loops: "map_option (\<lambda>(r, w'). (f r, w')) (run_rc m w) = Some (x, w') \<Longrightarrow> more_loops w w'"
  by (auto dest!: run_rc_loops intro!: more_loops_refl)

lemma then_tick_more_loops:
  assumes "Option.bind (run_rc m w) (then_tick ag) = Some (x, w')"
  shows "more_loops w w'"
proof -
  obtain r w1 where 1: "run_rc m w = Some (r, w1)" "tick ag w1 = Some w'"
    using assms by (auto simp: then_tick_def bind_eq_Some_conv)
  then show ?thesis using run_rc_loops [OF 1(1)] tick_loops [OF 1(2)] by (auto intro: more_loops_refl)
qed

lemma handle_acommand_loops:
  assumes "handle_acommand ag u c w = Some (r, w')"
  shows "more_loops w w'"
proof (cases c)
  case (AApply spec)
  with assms obtain res w1 w2 where 1: "run_rc (apply_jail ag spec) w = Some (res, w1)" "tick ag w1 = Some w2"
    "w' = w2 \<or> w' = spawn_loop (md_name (js_metadata spec)) w2"
    by (auto simp: bind_eq_Some_conv split: if_splits)
  then show ?thesis
    using run_rc_loops [OF 1(1)] tick_loops [OF 1(2)] more_loops_refl [of w2 w] more_loops_trans more_loops_spawn
    by metis
next
  case AResumeReplicationLoops
  with assms obtain res w1 where 1: "run_rc (list_jails ag (h_instant_now (ag_ops ag) (rc_host (aw_rc w)))) w = Some (res, w1)"
    "w' = resume_loops (case res of Ok xs \<Rightarrow> xs | Err _ \<Rightarrow> []) w1" by auto
  then show ?thesis
    using more_loops_refl [OF run_rc_loops [OF 1(1)]] more_loops_trans more_loops_resume by metis
next
  case (AGet n)
  with assms show ?thesis by (cases n) (auto simp: Let_def dest!: run_rc_loops intro!: more_loops_refl)
next
  case ACommittedResources
  with assms obtain x w1 where 1: "run_rc committed_resources w = Some (x, w1)" by (cases "run_rc committed_resources w") auto
  moreover have "w' = w1" using assms 1 ACommittedResources by (cases x) auto
  ultimately show ?thesis by (auto dest!: run_rc_loops intro!: more_loops_refl)
next
  case ATick
  with assms show ?thesis by (auto dest!: tick_loops intro!: more_loops_refl)
next
  case (AGetIngress n)
  with assms show ?thesis by (auto intro!: more_loops_refl)
qed ((insert assms)[1], simp only: handle_acommand.simps, (erule run_rc_more_loops | erule then_tick_more_loops))+

lemma serve_loops:
  assumes "serve (handle_acommand ag) cs w = Some (rs, w')"
  shows "more_loops w w'"
  using assms
proof (induction cs arbitrary: w rs)
  case (Cons c cs)
  obtain u d where c: "c = (u, d)" by (cases c)
  from Cons.prems obtain r w1 rs1 where "handle_acommand ag u d w = Some (r, w1)" "serve (handle_acommand ag) cs w1 = Some (rs1, w')"
    by (auto simp: c simp del: handle_acommand.simps split: option.splits prod.splits)
  with Cons.IH handle_acommand_loops more_loops_trans show ?case by blast
qed (simp add: more_loops_refl)

text \<open>Over the life of the thread a jail name gets at most one replication loop. Deleting the jail ends
  its loop but does not free the name, so a jail that is deleted and applied again has no loop: no command
  after the first one that started it starts another.\<close>

lemma one_replication_loop_per_name:
  assumes "run_agent ag cmds w = Some (rs, w')" "loops_ok w"
  shows "distinct (map fst (aw_spawned w')) \<and>
    (\<exists>new. aw_spawned w' = aw_spawned w @ new \<and> fst ` set new \<inter> aw_replicating w = {})"
  using serve_loops [of ag _ w rs w'] assms by (auto simp: run_agent_def more_loops_def loops_ok_def)

section \<open>Ingresses without a certificate\<close>

text \<open>The configuration given to nginx has a server block for every ingress whose service has an
  address, with the path of its certificate, also when no certificate has ever been issued for it.\<close>

lemma config_includes_uncertified:
  assumes "hm_get (rc_ingress_records st) n = Some r" "irec_cert_expires_at_unix r = None"
    and "hm_get (rc_service_vips st) (ib_service (ig_backend (is_spec (irec_spec r)))) = Some (vip, port)"
  shows "\<exists>a z. render_nginx_config (ingress_backends st) = a @ render_server \<lparr>ibc_host = ig_host (is_spec (irec_spec r)),
    ibc_vip = vip, ibc_port = port, ibc_cert_path = ''/usr/local/etc/nginx/certs/'' @ ig_host (is_spec (irec_spec r)) @ ''.crt'',
    ibc_key_path = ''/usr/local/etc/nginx/certs/'' @ ig_host (is_spec (irec_spec r)) @ ''.key''\<rparr> @ z"
proof -
  let ?b = "\<lparr>ibc_host = ig_host (is_spec (irec_spec r)), ibc_vip = vip, ibc_port = port,
    ibc_cert_path = ''/usr/local/etc/nginx/certs/'' @ ig_host (is_spec (irec_spec r)) @ ''.crt'',
    ibc_key_path = ''/usr/local/etc/nginx/certs/'' @ ig_host (is_spec (irec_spec r)) @ ''.key''\<rparr>"
  have "ingress_backend_of (rc_service_vips st) r = Some ?b" using assms(3) by (simp add: ingress_backend_of_def vip_slot_get_def Let_def)
  moreover have "r \<in> set (map snd (rc_ingress_records st))" using map_of_SomeD [OF assms(1)] by force
  ultimately have "?b \<in> set (ingress_backends st)" by (force simp: ingress_backends_def List.map_filter_def)
  then obtain xs ys where "ingress_backends st = xs @ ?b # ys" by (meson split_list)
  then have "\<exists>a z. concat (map render_server (ingress_backends st)) = a @ render_server ?b @ z" by auto
  then obtain a z where "concat (map render_server (ingress_backends st)) = a @ render_server ?b @ z" by blast
  then have "\<exists>h. render_nginx_config (ingress_backends st) = h @ (a @ render_server ?b @ z) @ ''}'' @ nl"
    unfolding render_nginx_config_def by (metis append.assoc)
  then obtain h where "render_nginx_config (ingress_backends st) = (h @ a) @ render_server ?b @ (z @ ''}'' @ nl)" by auto
  then show ?thesis by blast
qed

definition aex_ingress :: ingress_record where
  "aex_ingress = \<lparr>irec_spec = \<lparr>is_api_version = ''keel/v1'', is_kind = ''Ingress'', is_metadata = \<lparr>md_name = ''i''\<rparr>,
     is_spec = \<lparr>ig_host = ''h'', ig_backend = \<lparr>ib_service = ''web'', ib_port = 80\<rparr>, ig_tls = \<lparr>it_email = ''e''\<rparr>\<rparr>\<rparr>,
     irec_cert_expires_at_unix = None\<rparr>"

end
