(* ===== verification/Cp_Subnet.thy ===== *)
theory Cp_Subnet
  imports Keel_Ipnet
begin

text \<open>
  \<open>keel-controlplane/src/subnet.rs\<close> (the FNV-1a hash, a node's pod block, a service's VIP) and
  \<open>addresses.rs\<close> (the addresses in use per node). A panic of the code is \<open>None\<close>.
\<close>

section \<open>subnet.rs\<close>

definition POD_PREFIX_LEN :: nat where
  "POD_PREFIX_LEN = 24"

definition fnv1a :: "string \<Rightarrow> u32" where
  "fnv1a bytes = foldl (\<lambda>hash byte. (hash XOR of_char byte) * 0x01000193) 0x811c9dc5 bytes"

definition derive_pod_cidr :: "ipnet_api \<Rightarrow> string \<Rightarrow> ipv4net \<Rightarrow> ipv4net option" where
  "derive_pod_cidr api node_id cluster_cidr =
     (if net_prefix_len cluster_cidr \<le> POD_PREFIX_LEN then
        (let block_count = push_bit (POD_PREFIX_LEN - net_prefix_len cluster_cidr) (1 :: u32);
             index = fnv1a node_id mod block_count;
             base = api_network api cluster_cidr;
             block_addr = base + index * push_bit (32 - POD_PREFIX_LEN) 1
         in Some \<lparr>net_addr = block_addr, net_prefix_len = POD_PREFIX_LEN\<rparr>)
      else None)"

definition derive_service_vip :: "ipnet_api \<Rightarrow> string \<Rightarrow> ipv4net \<Rightarrow> u32 \<Rightarrow> u32 option" where
  "derive_service_vip api service_name service_cidr attempt =
     (if net_prefix_len service_cidr > 0 then
        (let host_count = push_bit (32 - net_prefix_len service_cidr) (1 :: u32);
             index = (fnv1a service_name + attempt) mod host_count;
             base = api_network api service_cidr
         in Some (base + index))
      else None)"

lemma unat_push_bit_1: "k < 32 \<Longrightarrow> unat (push_bit k (1 :: u32)) = 2 ^ k"
proof -
  assume "k < 32"
  then have "(2 :: nat) ^ k mod 2 ^ 32 = 2 ^ k"
    by (intro mod_less power_strict_increasing) auto
  moreover have "unat (push_bit k (1 :: u32)) = take_bit 32 (push_bit k 1)"
    by (simp only: unsigned_push_bit_eq) simp
  ultimately show ?thesis
    by (simp only: push_bit_eq_mult take_bit_eq_mod mult_1)
qed

text \<open>A derived pod block has a 24-bit prefix, no host bits, and lies in the cluster's network.\<close>

lemma derive_pod_cidr_in_cluster:
  assumes "ipnet_crate api" "derive_pod_cidr api nid cluster = Some pod"
  shows "net_prefix_len pod = 24 \<and> net_addr pod = first_addr pod \<and>
    (\<forall>a. in_net pod a \<longrightarrow> in_net cluster a)"
proof -
  let ?p = "net_prefix_len cluster" and ?bc = "push_bit (24 - net_prefix_len cluster) (1 :: u32)"
  define i where "i = unat (fnv1a nid mod ?bc)"
  from assms(2) have p: "?p \<le> 24"
    and pod: "pod = \<lparr>net_addr = api_network api cluster + (fnv1a nid mod ?bc) * push_bit 8 1,
        net_prefix_len = 24\<rparr>"
    by (auto simp: derive_pod_cidr_def POD_PREFIX_LEN_def Let_def split: if_splits)
  have net: "api_network api cluster = first_addr cluster"
    using ipnet_crate.network [OF assms(1)] p by simp
  have bc: "unat ?bc = 2 ^ (24 - ?p)"
    by (rule unat_push_bit_1) simp
  have i: "i < 2 ^ (24 - ?p)"
    unfolding i_def unat_mod bc by simp
  have hb: "host_bits cluster = (24 - ?p) + 8" using p by (simp add: host_bits_def)
  have i256: "i * 256 + j < 2 ^ host_bits cluster" if "j < 256" for j
  proof -
    have "i * 256 + j < (i + 1) * 256" using that by simp
    also have "\<dots> \<le> 2 ^ (24 - ?p) * 256" using i by (intro mult_le_mono1) simp
    finally show ?thesis by (simp add: hb power_add)
  qed
  have addr: "net_addr pod = first_addr cluster + of_nat (i * 256)"
    by (simp add: pod net i_def push_bit_eq_mult)
  have ua: "unat (net_addr pod) = unat (first_addr cluster) + i * 256"
    unfolding addr by (rule first_addr_offset(1)) (use i256 [of 0] in simp)
  have "unat (first_addr cluster) mod 256 = 0"
    by (simp add: unat_first_addr hb power_add mult.assoc [symmetric])
  then have m: "unat (net_addr pod) mod 256 = 0" by (simp add: ua)
  have hp: "host_bits pod = 8" by (simp add: host_bits_def pod)
  have "unat (first_addr pod) = unat (net_addr pod)"
    using m by (simp add: unat_first_addr hp) (metis add.right_neutral div_mult_mod_eq)
  then have fa: "net_addr pod = first_addr pod" by (simp add: word_unat_eq_iff)
  have "in_net cluster a" if "in_net pod a" for a
  proof -
    from in_net_offset [OF that] obtain j where j: "j < 256" "a = first_addr pod + of_nat j"
      by (auto simp: hp)
    then have "a = first_addr cluster + of_nat (i * 256 + j)"
      by (simp add: addr flip: fa)
    with first_addr_offset(2) [OF i256 [OF j(1)]] show ?thesis by simp
  qed
  with fa show ?thesis by (simp add: pod)
qed

lemma derive_pod_cidr_Some_iff:
  "(\<exists>pod. derive_pod_cidr api nid cluster = Some pod) \<longleftrightarrow> net_prefix_len cluster \<le> 24"
  by (simp add: derive_pod_cidr_def POD_PREFIX_LEN_def Let_def)

text \<open>The probe sequence of a service name: attempt \<open>k\<close> is the \<open>(h + k) mod n\<close>-th address.\<close>

lemma derive_service_vip_eq:
  assumes "ipnet_crate api" "0 < net_prefix_len cidr" "net_prefix_len cidr \<le> 32"
  shows "derive_service_vip api name cidr (of_nat k) =
    Some (first_addr cidr + of_nat ((unat (fnv1a name) + k) mod 2 ^ host_bits cidr))"
proof -
  let ?h = "host_bits cidr"
  have h: "?h < 32" "32 - net_prefix_len cidr = ?h" using assms by (auto simp: host_bits_def)
  have dvd: "(2 :: nat) ^ ?h dvd 2 ^ 32" using h by (intro le_imp_power_dvd) simp
  have "unat (fnv1a name + of_nat k) = (unat (fnv1a name) + k) mod 2 ^ 32"
    by (simp add: unat_word_ariths unat_of_nat mod_add_right_eq)
  then have "(fnv1a name + of_nat k) mod push_bit ?h 1 =
      of_nat ((unat (fnv1a name) + k) mod 2 ^ 32 mod 2 ^ ?h)"
    by (simp only: word_arith_nat_mod [of "fnv1a name + of_nat k"] unat_push_bit_1 [OF h(1)])
  also have "(unat (fnv1a name) + k) mod 2 ^ 32 mod 2 ^ ?h = (unat (fnv1a name) + k) mod 2 ^ ?h"
    using dvd by (rule mod_mod_cancel)
  finally have "(fnv1a name + of_nat k) mod push_bit ?h 1 =
      of_nat ((unat (fnv1a name) + k) mod 2 ^ ?h)" .
  then show ?thesis
    using assms h ipnet_crate.network [OF assms(1)] by (simp add: derive_service_vip_def Let_def)
qed

lemma derive_service_vip_in_cidr:
  assumes "ipnet_crate api" "net_prefix_len cidr \<le> 32"
    "derive_service_vip api name cidr attempt = Some vip"
  shows "in_net cidr vip"
proof -
  have p: "0 < net_prefix_len cidr"
    using assms(3) by (auto simp: derive_service_vip_def split: if_splits)
  have "derive_service_vip api name cidr (of_nat (unat attempt)) = Some vip"
    using assms(3) by simp
  then have "vip = first_addr cidr + of_nat ((unat (fnv1a name) + unat attempt) mod 2 ^ host_bits cidr)"
    by (simp only: derive_service_vip_eq [OF assms(1) p assms(2)] option.inject)
  then show ?thesis by (simp add: first_addr_offset(2))
qed

text \<open>Within one lap the probe visits every address of the network.\<close>

lemma derive_service_vip_surj:
  assumes "ipnet_crate api" "0 < net_prefix_len cidr" "net_prefix_len cidr \<le> 32" "in_net cidr a"
  obtains k where "k < 2 ^ host_bits cidr" "derive_service_vip api name cidr (of_nat k) = Some a"
proof -
  let ?n = "2 ^ host_bits cidr :: nat" and ?f = "unat (fnv1a name)"
  from in_net_offset [OF assms(4)] obtain i where i: "i < ?n" "a = first_addr cidr + of_nat i"
    by auto
  define k where "k = (i + (?n - ?f mod ?n)) mod ?n"
  have "(?f + k) mod ?n = (?f mod ?n + (i + (?n - ?f mod ?n))) mod ?n"
    unfolding k_def by (metis mod_add_eq mod_mod_trivial)
  also have "?f mod ?n + (i + (?n - ?f mod ?n)) = i + ?n"
  proof -
    have "?f mod ?n \<le> ?n" by (simp add: less_imp_le)
    then show ?thesis by linarith
  qed
  finally have "(?f + k) mod ?n = i" using i(1) by simp
  moreover have "k < ?n" by (simp add: k_def)
  ultimately show ?thesis
    using that derive_service_vip_eq [OF assms(1-3), of name k] i(2) by simp
qed

section \<open>addresses.rs\<close>

record used_addresses =
  used_by_node :: "(string, u32 set) hmap"
  by_jail :: "(string, string \<times> u32) hmap"

definition ua_new :: used_addresses where
  "ua_new = \<lparr>used_by_node = [], by_jail = []\<rparr>"

definition is_used :: "used_addresses \<Rightarrow> string \<Rightarrow> u32 \<Rightarrow> bool" where
  "is_used u node_id addr =
     (case hm_get (used_by_node u) node_id of None \<Rightarrow> False | Some s \<Rightarrow> addr \<in> s)"

definition release :: "string \<Rightarrow> used_addresses \<Rightarrow> used_addresses" where
  "release jail_name u =
     (case hm_get (by_jail u) jail_name of None \<Rightarrow> u
      | Some (node_id, addr) \<Rightarrow>
          (let u' = u\<lparr>by_jail := hm_remove jail_name (by_jail u)\<rparr>
           in case hm_get (used_by_node u') node_id of None \<Rightarrow> u'
              | Some s \<Rightarrow> u'\<lparr>used_by_node := hm_insert node_id (s - {addr}) (used_by_node u')\<rparr>))"

definition ua_record :: "string \<Rightarrow> string \<Rightarrow> u32 \<Rightarrow> used_addresses \<Rightarrow> used_addresses" where
  "ua_record jail_name node_id addr u =
     (let u1 = release jail_name u;
          s = (case hm_get (used_by_node u1) node_id of None \<Rightarrow> {} | Some s \<Rightarrow> s)
      in \<lparr>used_by_node = hm_insert node_id (insert addr s) (used_by_node u1),
          by_jail = hm_insert jail_name (node_id, addr) (by_jail u1)\<rparr>)"

definition address_of :: "used_addresses \<Rightarrow> string \<Rightarrow> u32 option" where
  "address_of u jail_name = map_option snd (hm_get (by_jail u) jail_name)"

definition first_free_address :: "ipnet_api \<Rightarrow> ipv4net \<Rightarrow> string \<Rightarrow> used_addresses \<Rightarrow> u32 option" where
  "first_free_address api pod_cidr node_id used =
     find (\<lambda>addr. \<not> is_used used node_id addr) (drop 1 (api_hosts api pod_cidr))"

text \<open>The bookkeeping agrees with itself when every jail's address is marked used on its node
  and no two jails have the same address on one node.\<close>

definition ua_inv :: "used_addresses \<Rightarrow> bool" where
  "ua_inv u \<longleftrightarrow>
     (\<forall>j n a. hm_get (by_jail u) j = Some (n, a) \<longrightarrow> is_used u n a) \<and>
     (\<forall>j j' p. hm_get (by_jail u) j = Some p \<longrightarrow> hm_get (by_jail u) j' = Some p \<longrightarrow> j = j')"

lemma ua_inv_new [inv_intros]: "ua_inv ua_new"
  by (simp add: ua_inv_def ua_new_def)

lemma by_jail_release [simp]: "hm_get (by_jail (release j u)) = (hm_get (by_jail u))(j := None)"
  by (auto simp: release_def Let_def fun_eq_iff split: option.splits)

lemma is_used_release:
  "is_used (release j u) n a \<longleftrightarrow> is_used u n a \<and> hm_get (by_jail u) j \<noteq> Some (n, a)"
  by (auto simp: release_def is_used_def Let_def split: option.splits)

lemma by_jail_record [simp]:
  "hm_get (by_jail (ua_record j n a u)) = (hm_get (by_jail u))(j \<mapsto> (n, a))"
  by (simp add: ua_record_def Let_def fun_eq_iff)

lemma is_used_record:
  "is_used (ua_record j n a u) m b \<longleftrightarrow> (m = n \<and> b = a) \<or> is_used (release j u) m b"
  by (auto simp: ua_record_def is_used_def Let_def split: option.splits)

lemma ua_inv_release [inv_intros]: "ua_inv u \<Longrightarrow> ua_inv (release j u)"
  unfolding ua_inv_def by (auto simp: is_used_release split: if_splits)

lemma ua_inv_record [inv_intros]:
  assumes "ua_inv u" "\<not> is_used u n a"
  shows "ua_inv (ua_record j n a u)"
proof -
  have fresh: "hm_get (by_jail u) i \<noteq> Some (n, a)" for i
    using assms by (auto simp: ua_inv_def)
  have "is_used (ua_record j n a u) m b" if "hm_get (by_jail (ua_record j n a u)) i = Some (m, b)" for i m b
    using that assms(1) by (auto simp: ua_inv_def is_used_record is_used_release split: if_splits)
  moreover have "i = i'"
    if "hm_get (by_jail (ua_record j n a u)) i = Some p" "hm_get (by_jail (ua_record j n a u)) i' = Some p"
    for i i' p
    using that fresh assms(1) unfolding ua_inv_def by (metis by_jail_record fun_upd_apply option.inject)
  ultimately show ?thesis unfolding ua_inv_def by blast
qed

lemma first_free_address_free:
  assumes "first_free_address api pod n u = Some a"
  shows "\<not> is_used u n a" and "a \<in> set (drop 1 (api_hosts api pod))"
proof -
  from assms obtain i where "i < length (drop 1 (api_hosts api pod))"
    "\<not> is_used u n (drop 1 (api_hosts api pod) ! i)" "a = drop 1 (api_hosts api pod) ! i"
    by (auto simp: first_free_address_def find_Some_iff)
  then show "\<not> is_used u n a" "a \<in> set (drop 1 (api_hosts api pod))"
    by (metis, metis nth_mem)
qed

lemma hosts_drop_1:
  assumes "ipnet_crate api" "net_prefix_len pod \<le> 30"
  shows "set (drop (Suc 0) (api_hosts api pod)) =
    (\<lambda>i. first_addr pod + of_nat i) ` {i. 2 \<le> i \<and> i < 2 ^ host_bits pod - 1}"
  using ipnet_crate.hosts [OF assms] by (auto simp: drop_map numeral_2_eq_2)

text \<open>An address handed out lies in the node's block and is none of the network address, the
  bridge gateway (first host) or the broadcast address.\<close>

lemma first_free_address_range:
  assumes "ipnet_crate api" "net_prefix_len pod \<le> 30" "first_free_address api pod n u = Some a"
  shows "\<exists>i. 2 \<le> i \<and> i < 2 ^ host_bits pod - 1 \<and> a = first_addr pod + of_nat i \<and> in_net pod a"
proof -
  from first_free_address_free(2) [OF assms(3)] obtain i
    where "2 \<le> i" "i < 2 ^ host_bits pod - 1" "a = first_addr pod + of_nat i"
    by (auto simp: hosts_drop_1 [OF assms(1,2)])
  moreover from this have "in_net pod a" by (auto intro: first_addr_offset(2))
  ultimately show ?thesis by blast
qed

text \<open>No address is handed out exactly when every usable one is taken.\<close>

lemma first_free_address_None_iff:
  assumes "ipnet_crate api" "net_prefix_len pod \<le> 30"
  shows "first_free_address api pod n u = None \<longleftrightarrow>
    (\<forall>i. 2 \<le> i \<and> i < 2 ^ host_bits pod - 1 \<longrightarrow> is_used u n (first_addr pod + of_nat i))"
  by (auto simp: first_free_address_def find_None_iff hosts_drop_1 [OF assms])

end
