(* ===== verification/Cp_Registry.thy ===== *)
theory Cp_Registry
  imports Cp_Subnet Keel_F64
begin

text \<open>
  The control plane's tables: \<open>placements.rs\<close>, \<open>standbys.rs\<close>, \<open>pending_fences.rs\<close>, the wire
  types of \<open>wire.rs\<close>, the node registry of \<open>registry.rs\<close> and the scheduler of
  \<open>scheduler.rs\<close>. The current time is an argument of every operation that reads the clock.
\<close>

section \<open>placements.rs, standbys.rs, pending_fences.rs\<close>

type_synonym placements = "(string, string) hmap"

definition placements_new :: placements where
  "placements_new = []"

definition placements_get :: "placements \<Rightarrow> string \<Rightarrow> string option" where
  "placements_get p jail_name = hm_get p jail_name"

definition placements_set :: "string \<Rightarrow> string \<Rightarrow> placements \<Rightarrow> placements" where
  "placements_set jail_name node_id p = hm_insert jail_name node_id p"

definition placements_remove :: "string \<Rightarrow> placements \<Rightarrow> placements" where
  "placements_remove jail_name p = hm_remove jail_name p"

definition placements_iter :: "placements \<Rightarrow> (string \<times> string) list" where
  "placements_iter p = p"

type_synonym standbys = "(string, string) hmap"

definition standbys_new :: standbys where
  "standbys_new = []"

definition standbys_get :: "standbys \<Rightarrow> string \<Rightarrow> string option" where
  "standbys_get s replica_name = hm_get s replica_name"

definition standbys_set :: "string \<Rightarrow> string \<Rightarrow> standbys \<Rightarrow> standbys" where
  "standbys_set replica_name node_id s = hm_insert replica_name node_id s"

definition standbys_remove :: "string \<Rightarrow> standbys \<Rightarrow> standbys" where
  "standbys_remove replica_name s = hm_remove replica_name s"

type_synonym pending_fences = "(string, string) hmap"

definition fences_new :: pending_fences where
  "fences_new = []"

definition fences_set :: "string \<Rightarrow> string \<Rightarrow> pending_fences \<Rightarrow> pending_fences" where
  "fences_set replica_name node_id f = hm_insert replica_name node_id f"

definition fences_remove :: "string \<Rightarrow> pending_fences \<Rightarrow> pending_fences" where
  "fences_remove replica_name f = hm_remove replica_name f"

definition fences_for_node :: "pending_fences \<Rightarrow> string \<Rightarrow> string list" where
  "fences_for_node f node_id = map fst (filter (\<lambda>(_, owed_node). owed_node = node_id) f)"

lemmas table_defs [keel_defs] =
  placements_new_def placements_get_def placements_set_def placements_remove_def placements_iter_def
  standbys_new_def standbys_get_def standbys_set_def standbys_remove_def
  fences_new_def fences_set_def fences_remove_def

interpretation placements: table placements_new placements_get placements_set placements_remove
  by unfold_locales (auto simp: table_defs)

interpretation standbys: table standbys_new standbys_get standbys_set standbys_remove
  by unfold_locales (auto simp: table_defs)

interpretation fences: table fences_new hm_get fences_set fences_remove
  by unfold_locales (auto simp: table_defs)

lemma fences_for_node_iff:
  "hm_wf f \<Longrightarrow> r \<in> set (fences_for_node f n) \<longleftrightarrow> hm_get f r = Some n"
  by (force simp: fences_for_node_def hm_get_iff [symmetric])

section \<open>wire.rs\<close>

datatype node_state = Alive | Dead

record node_status =
  st_id :: string
  st_addr :: string
  st_pod_cidr :: string
  st_status :: node_state
  st_last_seen_secs :: nat
  st_capacity_cpu :: f64
  st_capacity_memory :: nat
  st_committed_cpu :: f64
  st_committed_memory :: nat

record jail_health =
  jh_name :: string
  jh_running :: bool

record service_replica =
  sr_name :: string
  sr_node :: string
  sr_address :: string

record service_summary =
  sm_name :: string
  sm_desired_replicas :: nat
  sm_vip :: string
  sm_port :: nat

record service_proxy_entry =
  pe_name :: string
  pe_vip :: string
  pe_port :: nat
  pe_replicas :: "service_replica list"

section \<open>registry.rs\<close>

definition DEAD_THRESHOLD :: duration where
  "DEAD_THRESHOLD = from_secs 15"

record node_record =
  nr_addr :: string
  nr_replicate_addr :: "string option"
  nr_last_heartbeat :: instant
  nr_capacity_cpu :: f64
  nr_capacity_memory :: nat
  nr_committed_cpu :: f64
  nr_committed_memory :: nat
  nr_pod_cidr :: ipv4net
  nr_running_jails :: "(string, bool) hmap"

record registry =
  rg_cluster_cidr :: ipv4net
  rg_nodes :: "(string, node_record) hmap"

datatype resolve_error = ResolveUnknown string | ResolveDead string nat

record pod_cidr_collision =
  pc_node_id :: string
  pc_derived :: string
  pc_conflicting_node_id :: string

definition registry_new :: "ipv4net \<Rightarrow> registry" where
  "registry_new cluster_cidr = \<lparr>rg_cluster_cidr = cluster_cidr, rg_nodes = []\<rparr>"

text \<open>\<open>None\<close> is the panic of \<open>derive_pod_cidr\<close>'s assertion.\<close>

definition register ::
    "ipnet_api \<Rightarrow> string \<Rightarrow> string \<Rightarrow> string option \<Rightarrow> f64 \<Rightarrow> nat \<Rightarrow> instant \<Rightarrow> registry \<Rightarrow>
     ((ipv4net, pod_cidr_collision) result \<times> registry) option" where
  "register api node_id addr replicate_addr capacity_cpu capacity_memory now rg =
     (case derive_pod_cidr api node_id (rg_cluster_cidr rg) of
        None \<Rightarrow> None
      | Some pod_cidr \<Rightarrow>
          (case find (\<lambda>(other_id, rec). other_id \<noteq> node_id \<and> nr_pod_cidr rec = pod_cidr) (rg_nodes rg) of
             Some (conflicting_id, _) \<Rightarrow>
               Some (Err \<lparr>pc_node_id = node_id, pc_derived = api_show_ipv4net api pod_cidr,
                 pc_conflicting_node_id = conflicting_id\<rparr>, rg)
           | None \<Rightarrow>
               Some (Ok pod_cidr, rg\<lparr>rg_nodes := hm_insert node_id
                 \<lparr>nr_addr = addr, nr_replicate_addr = replicate_addr, nr_last_heartbeat = now,
                  nr_capacity_cpu = capacity_cpu, nr_capacity_memory = capacity_memory,
                  nr_committed_cpu = Fin 0, nr_committed_memory = 0, nr_pod_cidr = pod_cidr,
                  nr_running_jails = []\<rparr> (rg_nodes rg)\<rparr>)))"

definition running_map :: "jail_health list \<Rightarrow> (string, bool) hmap" where
  "running_map jails = foldl (\<lambda>m j. hm_insert (jh_name j) (jh_running j) m) [] jails"

definition heartbeat ::
    "string \<Rightarrow> f64 \<Rightarrow> nat \<Rightarrow> jail_health list \<Rightarrow> instant \<Rightarrow> registry \<Rightarrow> (unit, string) result \<times> registry" where
  "heartbeat node_id committed_cpu committed_memory jails now rg =
     (case hm_get (rg_nodes rg) node_id of
        Some rec \<Rightarrow>
          (Ok (), rg\<lparr>rg_nodes := hm_insert node_id
             (rec\<lparr>nr_last_heartbeat := now, nr_committed_cpu := committed_cpu,
                nr_committed_memory := committed_memory, nr_running_jails := running_map jails\<rparr>)
             (rg_nodes rg)\<rparr>)
      | None \<Rightarrow> (Err node_id, rg))"

definition is_jail_running :: "registry \<Rightarrow> string \<Rightarrow> string \<Rightarrow> bool" where
  "is_jail_running rg node_id jail_name =
     (case hm_get (rg_nodes rg) node_id of None \<Rightarrow> False
      | Some rec \<Rightarrow> (case hm_get (nr_running_jails rec) jail_name of None \<Rightarrow> False | Some b \<Rightarrow> b))"

definition pod_cidr :: "registry \<Rightarrow> string \<Rightarrow> ipv4net option" where
  "pod_cidr rg node_id = map_option nr_pod_cidr (hm_get (rg_nodes rg) node_id)"

definition replicate_addr :: "registry \<Rightarrow> string \<Rightarrow> string option" where
  "replicate_addr rg node_id = Option.bind (hm_get (rg_nodes rg) node_id) nr_replicate_addr"

definition node_status_of :: "ipnet_api \<Rightarrow> instant \<Rightarrow> string \<times> node_record \<Rightarrow> node_status" where
  "node_status_of api now = (\<lambda>(nid, rec).
     (let elapsed = saturating_duration_since now (nr_last_heartbeat rec)
      in \<lparr>st_id = nid, st_addr = nr_addr rec, st_pod_cidr = api_show_ipv4net api (nr_pod_cidr rec),
          st_status = (if elapsed < DEAD_THRESHOLD then Alive else Dead),
          st_last_seen_secs = as_secs elapsed,
          st_capacity_cpu = nr_capacity_cpu rec, st_capacity_memory = nr_capacity_memory rec,
          st_committed_cpu = nr_committed_cpu rec, st_committed_memory = nr_committed_memory rec\<rparr>))"

definition registry_list :: "ipnet_api \<Rightarrow> instant \<Rightarrow> registry \<Rightarrow> node_status list" where
  "registry_list api now rg = sort_key st_id (map (node_status_of api now) (rg_nodes rg))"

definition resolve :: "registry \<Rightarrow> string \<Rightarrow> instant \<Rightarrow> (string, resolve_error) result" where
  "resolve rg node_id now =
     (case hm_get (rg_nodes rg) node_id of
        None \<Rightarrow> Err (ResolveUnknown node_id)
      | Some rec \<Rightarrow>
          (let elapsed = saturating_duration_since now (nr_last_heartbeat rec)
           in if elapsed \<ge> DEAD_THRESHOLD then Err (ResolveDead node_id (as_secs elapsed))
              else Ok (nr_addr rec)))"

subsection \<open>Invariant\<close>

text \<open>Node ids are unique, every node's block is the one derived from its id, and two nodes never
  share a block.\<close>

definition registry_inv :: "ipnet_api \<Rightarrow> registry \<Rightarrow> bool" where
  "registry_inv api rg \<longleftrightarrow>
     hm_wf (rg_nodes rg) \<and>
     (\<forall>n r. hm_get (rg_nodes rg) n = Some r \<longrightarrow>
        derive_pod_cidr api n (rg_cluster_cidr rg) = Some (nr_pod_cidr r)) \<and>
     (\<forall>n n' r r'. hm_get (rg_nodes rg) n = Some r \<longrightarrow> hm_get (rg_nodes rg) n' = Some r' \<longrightarrow>
        nr_pod_cidr r = nr_pod_cidr r' \<longrightarrow> n = n')"

lemma registry_inv_new [inv_intros]: "registry_inv api (registry_new cidr)"
  by (simp add: registry_inv_def registry_new_def)

lemma register_cases:
  assumes "register api nid addr ra cc cm now rg = Some (res, rg')"
  obtains
    (ok) pod rec where "derive_pod_cidr api nid (rg_cluster_cidr rg) = Some pod" "res = Ok pod"
      "rg' = rg\<lparr>rg_nodes := hm_insert nid rec (rg_nodes rg)\<rparr>" "nr_pod_cidr rec = pod"
      "nr_addr rec = addr" "nr_replicate_addr rec = ra" "nr_last_heartbeat rec = now"
      "nr_running_jails rec = []" "nr_capacity_cpu rec = cc" "nr_committed_cpu rec = Fin 0"
      "\<And>n r. (n, r) \<in> set (rg_nodes rg) \<Longrightarrow> nr_pod_cidr r = pod \<Longrightarrow> n = nid"
  | (collision) e r where "res = Err e" "rg' = rg"
      "(pc_conflicting_node_id e, r) \<in> set (rg_nodes rg)" "pc_conflicting_node_id e \<noteq> nid"
      "derive_pod_cidr api nid (rg_cluster_cidr rg) = Some (nr_pod_cidr r)" "pc_node_id e = nid"
proof -
  from assms obtain pod where pod: "derive_pod_cidr api nid (rg_cluster_cidr rg) = Some pod"
    by (auto simp: register_def split: option.splits)
  show ?thesis
  proof (cases "find (\<lambda>(o_id, rec). o_id \<noteq> nid \<and> nr_pod_cidr rec = pod) (rg_nodes rg)")
    case None
    then have fresh: "n = nid" if "(n, r) \<in> set (rg_nodes rg)" "nr_pod_cidr r = pod" for n r
      using that by (auto simp: find_None_iff)
    show ?thesis
      by (rule ok [OF pod _ _ _ _ _ _ _ _ _ fresh]) (use assms pod None in \<open>auto simp: register_def\<close>)
  next
    case (Some p)
    obtain c r where p: "p = (c, r)" by (cases p)
    from Some have "(c, r) \<in> set (rg_nodes rg)" "c \<noteq> nid" "nr_pod_cidr r = pod"
      by (auto simp: find_Some_iff p dest!: nth_mem)
    with assms pod Some show ?thesis
      by (intro collision [where r = r]) (auto simp: register_def p)
  qed
qed

lemma registry_inv_register [inv_intros]:
  assumes "registry_inv api rg" "register api nid addr ra cc cm now rg = Some (res, rg')"
  shows "registry_inv api rg'"
  using assms(2)
proof (cases rule: register_cases)
  case (ok pod rec)
  with assms(1) show ?thesis
    unfolding registry_inv_def by (auto simp: hm_get_iff split: if_splits)
next
  case (collision e r)
  with assms(1) show ?thesis by simp
qed

lemma registry_inv_heartbeat [inv_intros]:
  assumes "registry_inv api rg"
  shows "registry_inv api (snd (heartbeat nid cpu mem jails now rg))"
  using assms unfolding registry_inv_def heartbeat_def
  by (auto split: option.splits if_splits)

lemma register_cluster_cidr:
  "register api nid addr ra cc cm now rg = Some (res, rg') \<Longrightarrow> rg_cluster_cidr rg' = rg_cluster_cidr rg"
  by (auto elim: register_cases)

lemma register_total:
  "net_prefix_len (rg_cluster_cidr rg) \<le> 24 \<Longrightarrow>
     \<exists>res rg'. register api nid addr ra cc cm now rg = Some (res, rg')"
  using derive_pod_cidr_Some_iff [of api nid "rg_cluster_cidr rg"]
  by (auto simp: register_def split: option.splits)

lemma registry_inv_pod_cidr_inj:
  assumes "registry_inv api rg" "pod_cidr rg n = Some c" "pod_cidr rg n' = Some c"
  shows "n = n'"
  using assms by (auto simp: registry_inv_def pod_cidr_def)

text \<open>The blocks of two registered nodes do not overlap.\<close>

lemma registry_inv_disjoint:
  assumes "ipnet_crate api" "registry_inv api rg" "pod_cidr rg n = Some c" "pod_cidr rg n' = Some c'"
    "in_net c a" "in_net c' a"
  shows "n = n'"
proof -
  from assms obtain r r' where
    d: "derive_pod_cidr api n (rg_cluster_cidr rg) = Some c" "derive_pod_cidr api n' (rg_cluster_cidr rg) = Some c'"
    by (auto simp: registry_inv_def pod_cidr_def)
  from derive_pod_cidr_in_cluster [OF assms(1) d(1)] derive_pod_cidr_in_cluster [OF assms(1) d(2)]
  have p: "net_prefix_len c = 24" "net_prefix_len c' = 24" "net_addr c = first_addr c" "net_addr c' = first_addr c'"
    by auto
  with assms(5,6) have "first_addr c = first_addr c'"
    unfolding in_net_def first_addr_def host_bits_def by (simp only:)
  with p have "c = c'" by (cases c; cases c') auto
  with assms show ?thesis by (blast intro: registry_inv_pod_cidr_inj)
qed

subsection \<open>Liveness\<close>

text \<open>A node resolves exactly while it is registered and its last heartbeat is less than fifteen
  seconds old; \<open>registry_list\<close> calls exactly those nodes alive.\<close>

lemma resolve_Ok_iff:
  "resolve rg n now = Ok a \<longleftrightarrow>
     (\<exists>r. hm_get (rg_nodes rg) n = Some r \<and> a = nr_addr r \<and> now - nr_last_heartbeat r < DEAD_THRESHOLD)"
  by (auto simp: resolve_def saturating_duration_since_def Let_def split: option.splits if_splits)

lemma set_registry_list: "set (registry_list api now rg) = node_status_of api now ` set (rg_nodes rg)"
  by (simp add: registry_list_def)

lemma sorted_registry_list: "sorted (map st_id (registry_list api now rg))"
  by (simp add: registry_list_def)

lemma map_st_id: "map (st_id \<circ> node_status_of api now) xs = map fst xs"
  by (auto simp: node_status_of_def Let_def)

lemma distinct_registry_list: "hm_wf (rg_nodes rg) \<Longrightarrow> distinct (map st_id (registry_list api now rg))"
proof -
  assume "hm_wf (rg_nodes rg)"
  then have "distinct (map st_id (map (node_status_of api now) (rg_nodes rg)))"
    by (simp add: map_st_id hm_wf_def)
  moreover have "mset (map st_id (registry_list api now rg)) =
      mset (map st_id (map (node_status_of api now) (rg_nodes rg)))"
    unfolding registry_list_def mset_map mset_sort ..
  ultimately show ?thesis by (metis mset_eq_imp_distinct_iff)
qed

lemma alive_iff_resolve:
  assumes "hm_wf (rg_nodes rg)"
  shows "(\<exists>s \<in> set (registry_list api now rg). st_id s = n \<and> st_status s = Alive) \<longleftrightarrow>
    is_ok (resolve rg n now)"
proof -
  have "(\<exists>s \<in> set (registry_list api now rg). st_id s = n \<and> st_status s = Alive) \<longleftrightarrow>
      (\<exists>r. (n, r) \<in> set (rg_nodes rg) \<and> now - nr_last_heartbeat r < DEAD_THRESHOLD)"
    by (force simp: set_registry_list node_status_of_def Let_def saturating_duration_since_def
        split: if_splits)
  then show ?thesis by (simp add: is_ok_iff resolve_Ok_iff hm_get_iff [OF assms])
qed

text \<open>The listing does not depend on the table's iteration order.\<close>

lemma registry_list_perm:
  assumes "hm_wf (rg_nodes rg)" "mset ns = mset (rg_nodes rg)"
  shows "registry_list api now (rg\<lparr>rg_nodes := ns\<rparr>) = registry_list api now rg"
proof (rule map_sorted_distinct_set_unique [where f = st_id])
  have wf: "hm_wf ns" using assms by (metis hm_wf_def mset_eq_imp_distinct_iff mset_map)
  show "sorted (map st_id (registry_list api now (rg\<lparr>rg_nodes := ns\<rparr>)))"
    "sorted (map st_id (registry_list api now rg))"
    by (rule sorted_registry_list)+
  show "distinct (map st_id (registry_list api now (rg\<lparr>rg_nodes := ns\<rparr>)))"
    using wf by (intro distinct_registry_list) simp
  show "distinct (map st_id (registry_list api now rg))"
    using assms(1) by (rule distinct_registry_list)
  have s: "set ns = set (rg_nodes rg)" using assms(2) by (rule mset_eq_setD)
  then show eq: "set (registry_list api now (rg\<lparr>rg_nodes := ns\<rparr>)) = set (registry_list api now rg)"
    by (simp add: set_registry_list)
  show "inj_on st_id (set (registry_list api now (rg\<lparr>rg_nodes := ns\<rparr>)) \<union> set (registry_list api now rg))"
    unfolding eq using distinct_registry_list [OF assms(1), of api now] by (simp add: distinct_map)
qed

lemma heartbeat_resolves:
  assumes "heartbeat n cpu mem jails t rg = (Ok (), rg')" "now - t < DEAD_THRESHOLD"
  shows "is_ok (resolve rg' n now)"
  using assms by (auto simp: heartbeat_def is_ok_iff resolve_Ok_iff split: option.splits)

section \<open>scheduler.rs\<close>

datatype schedule_error = NoAvailableNodes

record node_resources =
  res_id :: string
  res_capacity_cpu :: f64
  res_capacity_memory :: nat
  res_committed_cpu :: f64
  res_committed_memory :: nat

definition headroom_score :: "node_resources \<Rightarrow> f64" where
  "headroom_score n =
     (let cpu_frac = (if f64_less (Fin 0) (res_capacity_cpu n)
            then f64_div (f64_sub (res_capacity_cpu n) (res_committed_cpu n)) (res_capacity_cpu n)
            else Fin 0);
          mem_frac = (if res_capacity_memory n > 0
            then f64_div (f64_sub (f64_of_nat (res_capacity_memory n)) (f64_of_nat (res_committed_memory n)))
                   (f64_of_nat (res_capacity_memory n))
            else Fin 0)
      in f64_min cpu_frac mem_frac)"

definition better :: "f64 \<times> string \<Rightarrow> f64 \<times> string \<Rightarrow> bool" where
  "better candidate current \<longleftrightarrow>
     f64_less (fst current) (fst candidate) \<or>
     (f64_eq (fst candidate) (fst current) \<and> snd candidate < snd current)"

definition pick_step :: "(f64 \<times> string) option \<Rightarrow> f64 \<times> string \<Rightarrow> (f64 \<times> string) option" where
  "pick_step best candidate =
     (case best of None \<Rightarrow> Some candidate
      | Some current \<Rightarrow> if better candidate current then Some candidate else best)"

definition pick_node :: "node_resources list \<Rightarrow> (string, schedule_error) result" where
  "pick_node nodes =
     ok_or NoAvailableNodes (map_option snd
       (foldl pick_step None (map (\<lambda>n. (headroom_score n, res_id n)) nodes)))"

definition resources_of :: "node_status \<Rightarrow> node_resources" where
  "resources_of s = \<lparr>res_id = st_id s, res_capacity_cpu = st_capacity_cpu s,
     res_capacity_memory = st_capacity_memory s, res_committed_cpu = st_committed_cpu s,
     res_committed_memory = st_committed_memory s\<rparr>"

definition alive_nodes :: "ipnet_api \<Rightarrow> instant \<Rightarrow> registry \<Rightarrow> node_resources list" where
  "alive_nodes api now rg =
     map resources_of (filter (\<lambda>s. st_status s = Alive) (registry_list api now rg))"

subsection \<open>The fold\<close>

lemma pick_step_simps [simp]:
  "pick_step None c = Some c"
  "pick_step (Some p) c = Some (if better c p then c else p)"
  by (simp_all add: pick_step_def)

lemma foldl_pick_step_Some: "\<exists>q. foldl pick_step (Some p) cs = Some q"
  by (induction cs arbitrary: p) auto

lemma foldl_pick_step_in:
  "foldl pick_step (Some p) cs = Some q \<Longrightarrow> q \<in> insert p (set cs)"
proof (induction cs arbitrary: p)
  case (Cons c cs)
  from Cons.IH [of "if better c p then c else p"] Cons.prems show ?case
    by (auto split: if_splits)
qed simp

lemma better_trans: "better x y \<Longrightarrow> better y z \<Longrightarrow> better x z"
  by (auto simp: better_def f64_eq_def dest: f64_less_trans)

lemma better_irrefl: "\<not> better x x"
  by (simp add: better_def)

lemma better_linear:
  assumes "fst x \<noteq> NaN" "fst y \<noteq> NaN"
  shows "better x y \<or> x = y \<or> better y x"
  using f64_less_linear [OF assms] assms by (cases x; cases y) (auto simp: better_def f64_eq_def)

lemma foldl_pick_step_best:
  assumes "foldl pick_step (Some p) cs = Some q" "\<And>c. c \<in> insert p (set cs) \<Longrightarrow> fst c \<noteq> NaN"
    "c \<in> insert p (set cs)"
  shows "\<not> better c q"
  using assms
proof (induction cs arbitrary: p c)
  case Nil
  then show ?case by (simp add: better_irrefl)
next
  case (Cons d cs)
  let ?p = "if better d p then d else p"
  have f: "foldl pick_step (Some ?p) cs = Some q"
    using Cons.prems(1) by simp
  have nn: "fst x \<noteq> NaN" if "x \<in> insert ?p (set cs)" for x
    using Cons.prems(2) [of x] that by (auto simp del: prod.collapse split: if_splits)
  note IH = Cons.IH [OF f nn]
  have p: "\<not> better ?p q" by (rule IH) simp_all
  have np: "\<not> better x ?p" if "x = d \<or> x = p" for x
    using that better_trans [of d p d] better_trans [of p d p] better_irrefl [of d] better_irrefl [of p]
    by (auto split: if_splits)
  have "fst q \<noteq> NaN" using foldl_pick_step_in [OF f] nn by blast
  then have "q = ?p \<or> better q ?p"
    using p better_linear [of q ?p] nn [of ?p] by blast
  then have "\<not> better x q" if "x = d \<or> x = p" for x
    using np [OF that] better_trans [of x q ?p] by metis
  moreover have "\<not> better x q" if "x \<in> set cs" for x by (rule IH) (use that in auto)
  ultimately show ?case using Cons.prems(3) by (metis insert_iff list.simps(15))
qed

text \<open>Every node has a score that is a number when its resources are finite.\<close>

definition finite_resources :: "node_resources \<Rightarrow> bool" where
  "finite_resources n \<longleftrightarrow> is_finite (res_capacity_cpu n) \<and> is_finite (res_committed_cpu n) \<and>
     res_capacity_memory n \<le> u64_max \<and> res_committed_memory n \<le> u64_max"

lemma is_finite_Fin: "is_finite x \<longleftrightarrow> (\<exists>r. x = Fin r)"
  by (cases x) auto

lemma fl_round_bounded:
  assumes "\<bar>x\<bar> \<le> 2 ^ 64"
  shows "\<exists>r. fl_round x = Fin r"
proof -
  have "fl_round (2 ^ 64) = Fin (2 ^ 64)" "fl_round (- (2 ^ 64)) = Fin (- (2 ^ 64))"
    using fl_round_exact [where x = "2 ^ 64" and m = 1 and q = 64]
      fl_round_exact [where x = "- (2 ^ 64)" and m = "-1" and q = 64]
    by simp_all
  moreover have "f64_le (fl_round x) (fl_round (2 ^ 64))" "f64_le (fl_round (- (2 ^ 64))) (fl_round x)"
    using assms by (intro fl_round_mono; simp)+
  ultimately show ?thesis
    by (cases "fl_round x") (auto simp: f64_le_def f64_eq_def)
qed

lemma f64_of_nat_pos:
  assumes "0 < n" "n \<le> u64_max"
  shows "\<exists>r. f64_of_nat n = Fin r \<and> 0 < r"
proof -
  from assms have "n \<le> 2 ^ 64" by simp
  then have "\<bar>of_nat n :: rat\<bar> \<le> of_nat (2 ^ 64)" by (simp only: abs_of_nat of_nat_le_iff)
  then obtain r where r: "fl_round (of_nat n) = Fin r"
    using fl_round_bounded [of "of_nat n"] by auto
  have "f64_le (fl_round 1) (fl_round (of_nat n))" using assms by (intro fl_round_mono) simp
  moreover have "fl_round 1 = Fin 1" using fl_round_int [of 1] by simp
  ultimately show ?thesis using r by (auto simp: f64_of_nat_def)
qed

lemma headroom_score_not_NaN:
  assumes "finite_resources n"
  shows "headroom_score n \<noteq> NaN"
proof -
  from assms obtain c k where c: "res_capacity_cpu n = Fin c" "res_committed_cpu n = Fin k"
    by (auto simp: finite_resources_def is_finite_Fin)
  have "\<exists>r. f64_of_nat m = Fin r" if "m \<le> u64_max" for m
    using f64_of_nat_pos [of m] that by (cases "m = 0") (auto simp: f64_of_nat_def)
  with assms obtain k' where k': "f64_of_nat (res_committed_memory n) = Fin k'"
    by (auto simp: finite_resources_def)
  show ?thesis
  proof (cases "res_capacity_memory n = 0")
    case False
    with assms obtain m where "f64_of_nat (res_capacity_memory n) = Fin m" "0 < m"
      using f64_of_nat_pos by (auto simp: finite_resources_def)
    with c k' False show ?thesis
      by (simp add: headroom_score_def Let_def f64_min_not_NaN f64_div_not_NaN del: f64_div.simps)
  qed (use c in \<open>simp add: headroom_score_def Let_def f64_min_not_NaN f64_div_not_NaN
          del: f64_div.simps\<close>)
qed

lemma pick_node_Err_iff: "pick_node ns = Err NoAvailableNodes \<longleftrightarrow> ns = []"
proof (cases ns)
  case (Cons n ms)
  have "foldl pick_step (pick_step None (headroom_score n, res_id n))
      (map (\<lambda>n. (headroom_score n, res_id n)) ms) \<noteq> None"
    using foldl_pick_step_Some by (auto simp: pick_step_def)
  with Cons show ?thesis by (simp add: pick_node_def)
qed (simp add: pick_node_def)

lemma pick_node_in: "pick_node ns = Ok i \<Longrightarrow> i \<in> res_id ` set ns"
proof (cases ns)
  case (Cons n ms)
  assume "pick_node ns = Ok i"
  then obtain q where "foldl pick_step (Some (headroom_score n, res_id n))
      (map (\<lambda>n. (headroom_score n, res_id n)) ms) = Some q" "snd q = i"
    by (auto simp: pick_node_def Cons pick_step_def)
  with foldl_pick_step_in [OF this(1)] Cons show ?thesis by auto
qed (simp add: pick_node_def)

text \<open>The node picked has the highest score, and the least id among those that share it.\<close>

lemma pick_node_best:
  assumes "pick_node ns = Ok i" "\<And>n. n \<in> set ns \<Longrightarrow> finite_resources n"
  shows "\<exists>n \<in> set ns. res_id n = i \<and> (\<forall>m \<in> set ns. f64_le (headroom_score m) (headroom_score n) \<and>
    (headroom_score m = headroom_score n \<longrightarrow> i \<le> res_id m))"
proof (cases ns)
  case (Cons n0 ms)
  let ?c = "\<lambda>n. (headroom_score n, res_id n)"
  from assms(1) obtain q where q: "foldl pick_step (Some (?c n0)) (map ?c ms) = Some q" "snd q = i"
    by (auto simp: pick_node_def Cons pick_step_def)
  from foldl_pick_step_in [OF q(1)] obtain n where n: "n \<in> set ns" "q = ?c n" by (auto simp: Cons)
  have nn: "headroom_score m \<noteq> NaN" if "m \<in> set ns" for m
    using assms(2) that headroom_score_not_NaN by blast
  have "\<not> better (?c m) q" if "m \<in> set ns" for m
    by (rule foldl_pick_step_best [OF q(1)]) (use nn that Cons in auto)
  then have "f64_le (headroom_score m) (headroom_score n) \<and>
      (headroom_score m = headroom_score n \<longrightarrow> i \<le> res_id m)" if "m \<in> set ns" for m
    using that n q(2) nn [OF that] nn [OF n(1)]
      f64_less_linear [of "headroom_score m" "headroom_score n"]
    by (fastforce simp: better_def f64_le_def f64_eq_def)
  with n q(2) show ?thesis by auto
qed (use assms in \<open>simp add: pick_node_def\<close>)

text \<open>The result does not depend on the order in which the nodes are listed.\<close>

lemma pick_node_perm:
  assumes "set ns = set ms" "\<And>n. n \<in> set ns \<Longrightarrow> finite_resources n"
  shows "pick_node ns = pick_node ms"
proof (cases "ns = []")
  case False
  then have "ms \<noteq> []" using assms(1) by auto
  with False obtain i j where ij: "pick_node ns = Ok i" "pick_node ms = Ok j"
    using pick_node_Err_iff by (metis (full_types) result.exhaust schedule_error.exhaust)
  from pick_node_best [OF ij(1) assms(2)] pick_node_best [OF ij(2)] assms
  obtain n m where n: "n \<in> set ns" "res_id n = i"
      "\<forall>k \<in> set ns. f64_le (headroom_score k) (headroom_score n) \<and> (headroom_score k = headroom_score n \<longrightarrow> i \<le> res_id k)"
    and m: "m \<in> set ns" "res_id m = j"
      "\<forall>k \<in> set ns. f64_le (headroom_score k) (headroom_score m) \<and> (headroom_score k = headroom_score m \<longrightarrow> j \<le> res_id k)"
    by auto
  from n m have "f64_le (headroom_score m) (headroom_score n)" "f64_le (headroom_score n) (headroom_score m)"
    by auto
  then have "headroom_score m = headroom_score n"
    by (auto simp: f64_le_def f64_eq_def dest: f64_less_trans)
  with n m have "i \<le> j" "j \<le> i" by auto
  with ij show ?thesis by simp
qed (use assms in auto)

text \<open>With equal capacities, a node with less committed of both resources scores at least as
  high, whatever the rounding of the divisions does.\<close>

lemma headroom_score_mono:
  assumes "finite_resources n" "finite_resources m"
    and "res_capacity_cpu m = res_capacity_cpu n" "res_capacity_memory m = res_capacity_memory n"
    and "f64_le (res_committed_cpu m) (res_committed_cpu n)"
    and "res_committed_memory m \<le> res_committed_memory n"
  shows "f64_le (headroom_score n) (headroom_score m)"
proof -
  from assms obtain c k l where c: "res_capacity_cpu n = Fin c" "res_capacity_cpu m = Fin c"
      "res_committed_cpu n = Fin k" "res_committed_cpu m = Fin l" "l \<le> k"
    by (auto simp: finite_resources_def is_finite_Fin)
  have fin: "\<exists>r. f64_of_nat m = Fin r" if "m \<le> u64_max" for m
    using f64_of_nat_pos [of m] that by (cases "m = 0") (auto simp: f64_of_nat_def)
  have memle: "f64_le (f64_of_nat (res_committed_memory m)) (f64_of_nat (res_committed_memory n))"
    unfolding f64_of_nat_def using assms(6) by (intro fl_round_mono) simp
  obtain a b where ab: "f64_of_nat (res_committed_memory n) = Fin a"
      "f64_of_nat (res_committed_memory m) = Fin b" "b \<le> a"
    using memle fin assms(1,2) unfolding finite_resources_def by (metis f64_le_Fin)
  have cpu: "f64_le (if f64_less (Fin 0) (Fin c) then f64_div (f64_sub (Fin c) (Fin k)) (Fin c) else Fin 0)
      (if f64_less (Fin 0) (Fin c) then f64_div (f64_sub (Fin c) (Fin l)) (Fin c) else Fin 0)"
    using c(5) by (auto intro!: f64_div_mono fl_round_mono simp del: f64_div.simps)
  have mem: "f64_le (if res_capacity_memory n > 0
        then f64_div (f64_sub (f64_of_nat (res_capacity_memory n)) (Fin a)) (f64_of_nat (res_capacity_memory n))
        else Fin 0)
      (if res_capacity_memory n > 0
        then f64_div (f64_sub (f64_of_nat (res_capacity_memory n)) (Fin b)) (f64_of_nat (res_capacity_memory n))
        else Fin 0)"
  proof (cases "res_capacity_memory n = 0")
    case False
    with assms(1) obtain r where "f64_of_nat (res_capacity_memory n) = Fin r" "0 < r"
      using f64_of_nat_pos by (auto simp: finite_resources_def)
    with ab(3) False show ?thesis
      by (auto intro!: f64_div_mono fl_round_mono simp del: f64_div.simps)
  qed simp
  show ?thesis
    unfolding headroom_score_def Let_def assms(3,4) c ab by (rule f64_min_mono [OF cpu mem])
qed

subsection \<open>The interface to the services\<close>

text \<open>What the rest of the control plane relies on of a node picker: it answers whenever there is
  a candidate, with one of the candidates.\<close>

locale picker =
  fixes pick :: "node_resources list \<Rightarrow> (string, schedule_error) result"
  assumes pick_total: "ns \<noteq> [] \<Longrightarrow> \<exists>i. pick ns = Ok i"
    and pick_mem: "pick ns = Ok i \<Longrightarrow> i \<in> res_id ` set ns"
begin

text \<open>Filtering first and falling back to all candidates still answers whenever there is one, and
  leaves the preferred set only when no candidate is in it.\<close>

lemma pick_prefer:
  assumes "(if filter P ns \<noteq> [] then pick (filter P ns) else pick ns) = Ok i"
  shows "i \<in> res_id ` set ns"
    and "\<exists>n \<in> set ns. P n \<Longrightarrow> i \<in> res_id ` {n \<in> set ns. P n}"
  using assms pick_mem by (force split: if_splits simp: filter_empty_conv)+

lemma pick_prefer_total: "ns \<noteq> [] \<Longrightarrow> \<exists>i. (if filter P ns \<noteq> [] then pick (filter P ns) else pick ns) = Ok i"
  using pick_total by auto

end

interpretation sched: picker pick_node
proof unfold_locales
  show "\<exists>i. pick_node ns = Ok i" if "ns \<noteq> []" for ns
    using that pick_node_Err_iff by (metis (full_types) result.exhaust schedule_error.exhaust)
qed (rule pick_node_in)

lemma alive_nodes_ids:
  assumes "hm_wf (rg_nodes rg)"
  shows "res_id ` set (alive_nodes api now rg) = {n. is_ok (resolve rg n now)}"
  unfolding alive_iff_resolve [OF assms, of api now, symmetric]
  by (auto simp: alive_nodes_def resources_of_def image_image)

lemma alive_nodes_Nil_iff:
  "hm_wf (rg_nodes rg) \<Longrightarrow> alive_nodes api now rg = [] \<longleftrightarrow> (\<forall>n. \<not> is_ok (resolve rg n now))"
  using alive_nodes_ids [of rg api now] by auto

end
