(* ===== verification/Cp_Services.thy ===== *)
theory Cp_Services
  imports Cp_Registry Keel_Spec
begin

text \<open>
  \<open>keel-controlplane/src/services.rs\<close>: the table of services with their virtual addresses, the
  naming of replicas, the owner of a name, the difference between the wanted and the present
  replicas and the choice of a node for a replica.
\<close>

section \<open>The table\<close>

record service_record =
  srv_desired_replicas :: nat
  srv_template :: jail_template
  srv_vip :: u32
  srv_port :: nat

record services =
  sv_service_cidr :: ipv4net
  sv_by_name :: "(string, service_record) hmap"

datatype owner = Unmanaged | OwnedBy string

fun show_owner :: "owner \<Rightarrow> string" where
  "show_owner Unmanaged = ''an unmanaged jail''"
| "show_owner (OwnedBy name) = ''service '' @ [CHR 0x27] @ name @ [CHR 0x27]"

datatype apply_service_error =
    NameConflict string owner
  | TemplateChanged string
  | PortChanged string
  | VipPoolExhausted string

definition services_new :: "ipv4net \<Rightarrow> services" where
  "services_new cidr = \<lparr>sv_service_cidr = cidr, sv_by_name = []\<rparr>"

definition services_get :: "services \<Rightarrow> string \<Rightarrow> service_record option" where
  "services_get s name = hm_get (sv_by_name s) name"

definition services_names :: "services \<Rightarrow> string list" where
  "services_names s = map fst (sv_by_name s)"

definition services_list :: "services \<Rightarrow> (string \<times> service_record) list" where
  "services_list s = sort_key fst (sv_by_name s)"

text \<open>The lazy search over \<open>0..host_count\<close>: it stops at the first address not taken. \<open>None\<close>
  is the panic of \<open>derive_service_vip\<close>, \<open>Some None\<close> a search that found nothing.\<close>

fun probe_vip :: "ipnet_api \<Rightarrow> string \<Rightarrow> ipv4net \<Rightarrow> u32 set \<Rightarrow> nat \<Rightarrow> nat \<Rightarrow> u32 option option" where
  "probe_vip api name cidr taken attempt left =
     (if left = 0 then Some None
      else case derive_service_vip api name cidr (of_nat attempt) of
        None \<Rightarrow> None
      | Some addr \<Rightarrow> if addr \<in> taken then probe_vip api name cidr taken (attempt + 1) (left - 1)
                     else Some (Some addr))"

declare probe_vip.simps [simp del]

text \<open>\<open>1u32 << (32 - prefix_len)\<close>: a shift by 32 is a shift by 0 in a release build.\<close>

definition vip_host_count :: "ipv4net \<Rightarrow> nat" where
  "vip_host_count cidr = 2 ^ ((32 - net_prefix_len cidr) mod 32)"

definition services_apply ::
    "ipnet_api \<Rightarrow> string \<Rightarrow> nat \<Rightarrow> jail_template \<Rightarrow> nat \<Rightarrow> services \<Rightarrow>
     ((unit, apply_service_error) result \<times> services) option" where
  "services_apply api name desired_replicas template port s =
     (case hm_get (sv_by_name s) name of
        Some existing \<Rightarrow>
          if srv_template existing \<noteq> template then Some (Err (TemplateChanged name), s)
          else if srv_port existing \<noteq> port then Some (Err (PortChanged name), s)
          else Some (Ok (), s\<lparr>sv_by_name := hm_insert name
            \<lparr>srv_desired_replicas = desired_replicas, srv_template = template,
             srv_vip = srv_vip existing, srv_port = port\<rparr> (sv_by_name s)\<rparr>)
      | None \<Rightarrow>
          (let taken = set (map (\<lambda>(_, r). srv_vip r) (sv_by_name s))
           in case probe_vip api name (sv_service_cidr s) taken 0 (vip_host_count (sv_service_cidr s)) of
                None \<Rightarrow> None
              | Some None \<Rightarrow> Some (Err (VipPoolExhausted name), s)
              | Some (Some vip) \<Rightarrow> Some (Ok (), s\<lparr>sv_by_name := hm_insert name
                  \<lparr>srv_desired_replicas = desired_replicas, srv_template = template,
                   srv_vip = vip, srv_port = port\<rparr> (sv_by_name s)\<rparr>)))"

definition services_remove :: "string \<Rightarrow> services \<Rightarrow> services" where
  "services_remove name s = s\<lparr>sv_by_name := hm_remove name (sv_by_name s)\<rparr>"

section \<open>Replica names\<close>

definition replica_name :: "string \<Rightarrow> nat \<Rightarrow> string" where
  "replica_name service_name index = service_name @ ''-'' @ show_nat index"

definition replica_index :: "string \<Rightarrow> string \<Rightarrow> nat option" where
  "replica_index service_name jail_name =
     (case strip_prefix service_name jail_name of None \<Rightarrow> None
      | Some rest \<Rightarrow> (case strip_prefix ''-'' rest of None \<Rightarrow> None
          | Some sfx \<Rightarrow> (case parse_uint u32_max sfx of None \<Rightarrow> None
              | Some index \<Rightarrow> if show_nat index = sfx then Some index else None)))"

definition owner_of :: "string \<Rightarrow> placements \<Rightarrow> services \<Rightarrow> owner option" where
  "owner_of name p s =
     (case placements_get p name of None \<Rightarrow> None
      | Some _ \<Rightarrow>
          (case find (\<lambda>service_name. replica_index service_name name \<noteq> None) (services_names s) of
             Some service_name \<Rightarrow> Some (OwnedBy service_name)
           | None \<Rightarrow> Some Unmanaged))"

section \<open>Differences and choices\<close>

text \<open>\<open>(0u32..).filter(|i| !healthy.contains(i)).take(k)\<close>, counting on from \<open>i\<close>.\<close>

function missing_from :: "nat list \<Rightarrow> nat \<Rightarrow> nat \<Rightarrow> nat list" where
  "missing_from healthy i k =
     (if k = 0 then []
      else if i \<in> set healthy then missing_from healthy (i + 1) k
      else i # missing_from healthy (i + 1) (k - 1))"
  by pat_completeness auto

lemma missing_from_measure:
  assumes "(i :: nat) \<in> set healthy"
  shows "length (filter (\<lambda>j. i + 1 \<le> j) healthy) < length (filter (\<lambda>j. i \<le> j) healthy)"
  using assms
proof (induction healthy)
  case (Cons h hs)
  have "length (filter (\<lambda>j. i + 1 \<le> j) hs) \<le> length (filter (\<lambda>j. i \<le> j) hs)"
    by (induction hs) auto
  with Cons show ?case by auto
qed simp

termination missing_from
proof (relation "measures [\<lambda>(h, i, k). k, \<lambda>(h, i, k). length (filter (\<lambda>j. i \<le> j) h)]", goal_cases)
  case (2 healthy i k)
  then show ?case using missing_from_measure by auto
qed auto

declare missing_from.simps [simp del]

text \<open>The healthy indices come as a \<open>BTreeSet<u32>\<close>: a strictly ascending list.\<close>

definition diff_replicas :: "nat \<Rightarrow> nat list \<Rightarrow> nat list \<times> nat list" where
  "diff_replicas desired healthy_indices =
     (let healthy_count = length healthy_indices mod 2 ^ 32
      in if healthy_count < desired then (missing_from healthy_indices 0 (desired - healthy_count), [])
         else if healthy_count > desired
           then ([], take (healthy_count - desired) (rev healthy_indices))
         else ([], []))"

definition nodes_hosting_service :: "string \<Rightarrow> placements \<Rightarrow> string set" where
  "nodes_hosting_service service_name p =
     set (map snd (filter (\<lambda>(jail_name, _). replica_index service_name jail_name \<noteq> None) (placements_iter p)))"

definition pick_node_for_service ::
    "node_resources list \<Rightarrow> string set \<Rightarrow> (string, schedule_error) result" where
  "pick_node_for_service candidates busy_nodes =
     (let filtered = filter (\<lambda>n. res_id n \<notin> busy_nodes) candidates
      in if filtered \<noteq> [] then pick_node filtered else pick_node candidates)"

section \<open>Facts about names\<close>

lemma strip_prefix_dash: "strip_prefix ''-'' r = Some t \<longleftrightarrow> r = CHR ''-'' # t"
  by (simp add: strip_prefix_Some_iff)

lemma parse_uint_canonical: "parse_uint m (show_nat n) = Some k \<longleftrightarrow> k = n \<and> n \<le> m"
proof (cases "n \<le> m")
  case False
  have "k = n" if "parse_uint m (show_nat n) = Some k"
  proof -
    have "(case show_nat n of [] \<Rightarrow> [] | c # cs \<Rightarrow> if c = CHR ''+'' then cs else show_nat n) = show_nat n"
      using show_nat_notin(2) [of n] by (auto split: list.splits)
    with that show ?thesis by (simp add: parse_uint_def Let_def split: if_splits)
  qed
  with False show ?thesis by (auto dest: parse_uint_bound)
qed auto

text \<open>An index is read back exactly when the name is the canonical one for that index.\<close>

lemma replica_index_Some_iff:
  "replica_index s n = Some i \<longleftrightarrow> i \<le> u32_max \<and> n = replica_name s i"
proof -
  have "replica_index s n = Some i \<longleftrightarrow>
      (\<exists>t. n = s @ CHR ''-'' # t \<and> parse_uint u32_max t = Some i \<and> show_nat i = t)"
  proof (cases "\<exists>t. n = s @ CHR ''-'' # t")
    case True
    then show ?thesis by (auto simp: replica_index_def split: option.splits)
  next
    case False
    then have "strip_prefix s n = None \<or> (\<exists>r. strip_prefix s n = Some r \<and> strip_prefix ''-'' r = None)"
      by (metis not_None_eq strip_prefix_Some_iff strip_prefix_dash)
    then have "replica_index s n = None" by (auto simp: replica_index_def)
    with False show ?thesis by simp
  qed
  also have "\<dots> \<longleftrightarrow> i \<le> u32_max \<and> n = replica_name s i"
    by (auto simp: replica_name_def parse_uint_canonical)
  finally show ?thesis .
qed

lemma replica_index_replica_name [simp]: "i \<le> u32_max \<Longrightarrow> replica_index s (replica_name s i) = Some i"
  by (simp add: replica_index_Some_iff)

lemma replica_name_inj [simp]: "replica_name s i = replica_name t j \<longleftrightarrow> s = t \<and> i = j"
proof -
  have r: "rsplit_once CHR ''-'' (replica_name s i) = Some (s, show_nat i)" for s i
    by (simp add: rsplit_once_Some_iff replica_name_def show_nat_notin)
  show ?thesis
  proof
    assume "replica_name s i = replica_name t j"
    with r [of s i] r [of t j] show "s = t \<and> i = j"
      by (metis Pair_inject option.inject show_nat_inj)
  qed simp
qed

text \<open>A name is a replica of at most one service.\<close>

lemma replica_index_unique:
  "replica_index s n = Some i \<Longrightarrow> replica_index t n = Some j \<Longrightarrow> s = t \<and> i = j"
  by (simp add: replica_index_Some_iff)

lemma owner_of_iff:
  "owner_of n p s = Some (OwnedBy t) \<longleftrightarrow>
     placements_get p n \<noteq> None \<and> t \<in> set (services_names s) \<and> (\<exists>i. replica_index t n = Some i)"
proof -
  let ?P = "\<lambda>service_name. replica_index service_name n \<noteq> None"
  have "find ?P xs = Some t \<longleftrightarrow> t \<in> set xs \<and> ?P t" for xs
    by (induction xs) (auto dest: replica_index_unique)
  from this [of "services_names s"] show ?thesis
    by (auto simp: owner_of_def simp del: not_None_eq split: option.splits)
qed

lemma owner_of_None_iff: "owner_of n p s = None \<longleftrightarrow> placements_get p n = None"
  by (auto simp: owner_of_def split: option.splits)

lemma owner_of_Unmanaged_iff:
  "owner_of n p s = Some Unmanaged \<longleftrightarrow>
     placements_get p n \<noteq> None \<and> (\<forall>t \<in> set (services_names s). replica_index t n = None)"
  by (auto simp: owner_of_def find_None_iff find_Some_iff split: option.splits)

section \<open>Facts about the difference\<close>

lemma missing_from_props:
  "length (missing_from h i k) = k \<and> sorted_wrt (<) (missing_from h i k) \<and>
   (\<forall>x \<in> set (missing_from h i k). i \<le> x \<and> x \<notin> set h \<and>
      (\<forall>y. i \<le> y \<longrightarrow> y < x \<longrightarrow> y \<in> set h \<union> set (missing_from h i k)))"
proof (induction h i k rule: missing_from.induct)
  case (1 h i k)
  consider "k = 0" | "k \<noteq> 0" "i \<in> set h" | "k \<noteq> 0" "i \<notin> set h" by blast
  then show ?case
  proof cases
    case 2
    have e: "missing_from h i k = missing_from h (i + 1) k" by (subst missing_from.simps) (use 2 in simp)
    have "y \<in> set h \<union> set (missing_from h (i + 1) k)"
      if "x \<in> set (missing_from h (i + 1) k)" "i \<le> y" "y < x" for x y
      using 1(1) [OF 2] that 2(2) by (cases "y = i") auto
    then show ?thesis using 1(1) [OF 2] unfolding e by (auto dest: Suc_leD)
  next
    case 3
    have e: "missing_from h i k = i # missing_from h (i + 1) (k - 1)"
      by (subst missing_from.simps) (use 3 in simp)
    note IH = 1(2) [OF 3]
    have "y \<in> set h \<union> set (i # missing_from h (i + 1) (k - 1))"
      if "x \<in> set (i # missing_from h (i + 1) (k - 1))" "i \<le> y" "y < x" for x y
      using IH that by (cases "y = i") auto
    moreover have "length (i # missing_from h (i + 1) (k - 1)) = k" using IH 3 by simp
    moreover have "sorted_wrt (<) (i # missing_from h (i + 1) (k - 1))" using IH by (auto simp: Suc_le_eq)
    moreover have "i \<le> x \<and> x \<notin> set h" if "x \<in> set (i # missing_from h (i + 1) (k - 1))" for x
      using IH that 3 by auto
    ultimately show ?thesis unfolding e by blast
  qed (simp add: missing_from.simps)
qed

lemma missing_from_bound:
  assumes "x \<in> set (missing_from h 0 k)"
  shows "x < length h + k"
proof -
  have "y \<in> set h \<union> set (missing_from h 0 k)" if "y \<le> x" for y
    using missing_from_props [of h 0 k] assms that by (cases "y = x") auto
  then have "{y. y \<le> x} \<subseteq> set h \<union> set (missing_from h 0 k)" by blast
  then have "card {y. y \<le> x} \<le> card (set h \<union> set (missing_from h 0 k))"
    by (intro card_mono) auto
  also have "\<dots> \<le> card (set h) + card (set (missing_from h 0 k))" by (rule card_Un_le)
  also have "\<dots> \<le> length h + k"
    using card_length [of h] card_length [of "missing_from h 0 k"] missing_from_props [of h 0 k] by simp
  finally show ?thesis by (simp add: card_Collect_le_nat)
qed

text \<open>Starting replicas: exactly as many as are missing, the lowest free indices, all below the
  wanted number, so the unbounded counter never gets near the end of \<open>u32\<close>.\<close>

lemma diff_replicas_add:
  assumes "diff_replicas d h = (add, rem)" "length h < d" "d \<le> u32_max"
  shows "length add = d - length h" and "rem = []" and "sorted_wrt (<) add"
    and "set add \<inter> set h = {}" and "\<forall>x \<in> set add. x < d"
    and "\<forall>x \<in> set add. \<forall>y < x. y \<in> set h \<union> set add"
proof -
  have e: "add = missing_from h 0 (d - length h)" "rem = []"
    using assms by (auto simp: diff_replicas_def Let_def)
  show "length add = d - length h" "rem = []" "sorted_wrt (<) add" "set add \<inter> set h = {}"
    "\<forall>x \<in> set add. \<forall>y < x. y \<in> set h \<union> set add"
    using missing_from_props [of h 0 "d - length h"] by (auto simp: e)
  show "\<forall>x \<in> set add. x < d"
    using missing_from_bound [of _ h "d - length h"] assms(2) by (auto simp: e)
qed

lemma sorted_wrt_take_rev:
  assumes "sorted_wrt (<) (h :: nat list)" "x \<in> set (take k (rev h))" "y \<in> set h" "y \<notin> set (take k (rev h))"
  shows "y < x"
proof -
  have "sorted_wrt (>) (take k (rev h) @ drop k (rev h))"
    using assms(1) by (simp add: sorted_wrt_rev)
  moreover have "y \<in> set (drop k (rev h))"
    using assms(3,4) by (metis Un_iff append_take_drop_id set_append set_rev)
  ultimately show ?thesis using assms(2) unfolding sorted_wrt_append by blast
qed

text \<open>Removing replicas: exactly the surplus, the highest indices first.\<close>

lemma diff_replicas_remove:
  assumes "diff_replicas d h = (add, rem)" "d < length h" "length h \<le> u32_max" "sorted_wrt (<) h"
  shows "add = []" and "length rem = length h - d" and "set rem \<subseteq> set h" and "sorted_wrt (>) rem"
    and "\<forall>x \<in> set rem. \<forall>y \<in> set h - set rem. y < x"
proof -
  have e: "rem = take (length h - d) (rev h)" "add = []"
    using assms by (auto simp: diff_replicas_def Let_def)
  show "add = []" "length rem = length h - d" "set rem \<subseteq> set h"
    using assms(2) by (auto simp: e dest: in_set_takeD)
  show "sorted_wrt (>) rem"
    using assms(4) unfolding e by (intro sorted_wrt_take) (simp add: sorted_wrt_rev)
  show "\<forall>x \<in> set rem. \<forall>y \<in> set h - set rem. y < x"
    using sorted_wrt_take_rev [OF assms(4)] by (auto simp: e)
qed

lemma diff_replicas_done:
  "length h \<le> u32_max \<Longrightarrow> diff_replicas d h = ([], []) \<longleftrightarrow> length h = d"
  using missing_from_props [of h 0 "d - length h"]
  by (auto simp: diff_replicas_def Let_def dest: arg_cong [where f = length])

section \<open>Facts about the table\<close>

definition services_inv :: "services \<Rightarrow> bool" where
  "services_inv s \<longleftrightarrow> hm_wf (sv_by_name s) \<and>
     0 < net_prefix_len (sv_service_cidr s) \<and> net_prefix_len (sv_service_cidr s) \<le> 32 \<and>
     (\<forall>n r. hm_get (sv_by_name s) n = Some r \<longrightarrow> in_net (sv_service_cidr s) (srv_vip r)) \<and>
     (\<forall>m n q r. hm_get (sv_by_name s) m = Some q \<longrightarrow> hm_get (sv_by_name s) n = Some r \<longrightarrow>
        srv_vip q = srv_vip r \<longrightarrow> m = n)"

lemma services_inv_new [inv_intros]:
  "0 < net_prefix_len cidr \<Longrightarrow> net_prefix_len cidr \<le> 32 \<Longrightarrow> services_inv (services_new cidr)"
  by (simp add: services_inv_def services_new_def)

lemma services_inv_remove [inv_intros]: "services_inv s \<Longrightarrow> services_inv (services_remove n s)"
  unfolding services_inv_def services_remove_def by (auto split: if_splits)

text \<open>The search answers with the first address of the probe sequence that is not taken.\<close>

lemma probe_vip_eq:
  assumes "0 < net_prefix_len cidr"
  shows "probe_vip api name cidr taken k n =
    Some (find (\<lambda>a. a \<notin> taken) (map (\<lambda>j. the (derive_service_vip api name cidr (of_nat j))) [k..<k + n]))"
proof (induction n arbitrary: k)
  case 0
  then show ?case by (simp add: probe_vip.simps)
next
  case (Suc n)
  have "\<exists>a. derive_service_vip api name cidr (of_nat k) = Some a"
    using assms by (simp add: derive_service_vip_def Let_def)
  then obtain a where a: "derive_service_vip api name cidr (of_nat k) = Some a" ..
  have "[k..<k + Suc n] = k # [Suc k..<Suc k + n]" by (simp add: upt_conv_Cons del: upt_Suc)
  with Suc [of "Suc k"] a show ?case by (subst probe_vip.simps) simp
qed

lemma vip_host_count_eq: "0 < net_prefix_len cidr \<Longrightarrow> net_prefix_len cidr \<le> 32 \<Longrightarrow>
    vip_host_count cidr = 2 ^ host_bits cidr"
  by (simp add: vip_host_count_def host_bits_def)

lemma probe_vip_Some:
  assumes "ipnet_crate api" "0 < net_prefix_len cidr" "net_prefix_len cidr \<le> 32"
    "probe_vip api name cidr taken 0 (vip_host_count cidr) = Some (Some vip)"
  shows "in_net cidr vip" and "vip \<notin> taken"
proof -
  from assms(4) obtain j where j: "vip = the (derive_service_vip api name cidr (of_nat j))" and "vip \<notin> taken"
    unfolding probe_vip_eq [OF assms(2)] by (auto simp: find_Some_iff)
  then show "vip \<notin> taken" by simp
  have "\<exists>a. derive_service_vip api name cidr (of_nat j) = Some a"
    using assms(2) by (simp add: derive_service_vip_def Let_def)
  then show "in_net cidr vip" using j derive_service_vip_in_cidr [OF assms(1,3)] by auto
qed

lemma probe_vip_None_iff:
  assumes "ipnet_crate api" "0 < net_prefix_len cidr" "net_prefix_len cidr \<le> 32"
  shows "probe_vip api name cidr taken 0 (vip_host_count cidr) = Some None \<longleftrightarrow>
    (\<forall>a. in_net cidr a \<longrightarrow> a \<in> taken)"
proof -
  have tot: "\<exists>a. derive_service_vip api name cidr w = Some a" for w
    using assms(2) by (simp add: derive_service_vip_def Let_def)
  have "probe_vip api name cidr taken 0 (vip_host_count cidr) = Some None \<longleftrightarrow>
      (\<forall>j < 2 ^ host_bits cidr. the (derive_service_vip api name cidr (of_nat j)) \<in> taken)"
    using vip_host_count_eq [OF assms(2,3)]
    by (auto simp: probe_vip_eq [OF assms(2)] find_None_iff)
  also have "\<dots> \<longleftrightarrow> (\<forall>a. in_net cidr a \<longrightarrow> a \<in> taken)"
  proof (intro iffI allI impI)
    fix a assume *: "\<forall>j < 2 ^ host_bits cidr. the (derive_service_vip api name cidr (of_nat j)) \<in> taken"
      "in_net cidr a"
    from derive_service_vip_surj [OF assms *(2)] *(1) show "a \<in> taken" by (metis option.sel)
  next
    fix j assume "\<forall>a. in_net cidr a \<longrightarrow> a \<in> taken"
    then show "the (derive_service_vip api name cidr (of_nat j)) \<in> taken"
      using tot [of "of_nat j"] derive_service_vip_in_cidr [OF assms(1,3)] by auto
  qed
  finally show ?thesis .
qed

lemma services_apply_total:
  assumes "services_inv s"
  shows "\<exists>r s'. services_apply api n d t p s = Some (r, s')"
  using assms probe_vip_eq [of "sv_service_cidr s"]
  by (auto simp: services_inv_def services_apply_def Let_def split: option.splits)

lemma services_inv_apply [inv_intros]:
  assumes "ipnet_crate api" "services_inv s" "services_apply api n d t p s = Some (r, s')"
  shows "services_inv s'"
proof (cases "hm_get (sv_by_name s) n")
  case (Some e)
  then show ?thesis
    using assms(2,3) unfolding services_inv_def services_apply_def
    by (auto split: if_splits)
next
  case None
  let ?taken = "set (map (\<lambda>(_, r). srv_vip r) (sv_by_name s))"
  from assms(2) have c: "0 < net_prefix_len (sv_service_cidr s)" "net_prefix_len (sv_service_cidr s) \<le> 32"
    and wf: "hm_wf (sv_by_name s)" by (auto simp: services_inv_def)
  have fresh: "srv_vip r \<noteq> v" if "v \<notin> ?taken" "hm_get (sv_by_name s) m = Some r" for v m r
    using that wf by (force simp: hm_get_iff [symmetric])
  show ?thesis
  proof (cases "probe_vip api n (sv_service_cidr s) ?taken 0 (vip_host_count (sv_service_cidr s))")
    case (Some w)
    show ?thesis
    proof (cases w)
      case (Some v)
      note v = probe_vip_Some [OF assms(1) c \<open>probe_vip _ _ _ _ _ _ = Some w\<close> [unfolded Some]]
      have "s' = s\<lparr>sv_by_name := hm_insert n \<lparr>srv_desired_replicas = d, srv_template = t, srv_vip = v,
          srv_port = p\<rparr> (sv_by_name s)\<rparr>"
        using assms(3) None \<open>probe_vip _ _ _ _ _ _ = Some w\<close> Some by (simp add: services_apply_def Let_def)
      with assms(2) v(1) fresh [OF v(2)] fresh [OF v(2), symmetric] show ?thesis
        unfolding services_inv_def by (auto split: if_splits)
    qed (use assms None \<open>probe_vip _ _ _ _ _ _ = Some w\<close> in \<open>simp add: services_apply_def Let_def\<close>)
  qed (use assms None in \<open>simp add: services_apply_def Let_def\<close>)
qed

text \<open>A service keeps its address for as long as it exists.\<close>

lemma services_apply_vip_stable:
  assumes "services_apply api n d t p s = Some (r, s')" "services_get s m = Some q"
  shows "\<exists>q'. services_get s' m = Some q' \<and> srv_vip q' = srv_vip q \<and> srv_template q' = srv_template q \<and>
    srv_port q' = srv_port q"
  using assms by (auto simp: services_apply_def services_get_def Let_def split: option.splits if_splits)

lemma services_apply_exhausted_iff:
  assumes "ipnet_crate api" "services_inv s"
  shows "services_apply api n d t p s = Some (Err (VipPoolExhausted n), s) \<longleftrightarrow>
    services_get s n = None \<and>
    (\<forall>a. in_net (sv_service_cidr s) a \<longrightarrow> (\<exists>m q. services_get s m = Some q \<and> srv_vip q = a))"
proof -
  have c: "0 < net_prefix_len (sv_service_cidr s)" "net_prefix_len (sv_service_cidr s) \<le> 32"
    and wf: "hm_wf (sv_by_name s)" using assms(2) by (auto simp: services_inv_def)
  have "a \<in> set (map (\<lambda>(_, r). srv_vip r) (sv_by_name s)) \<longleftrightarrow>
      (\<exists>m q. services_get s m = Some q \<and> srv_vip q = a)" for a
    by (force simp: services_get_def hm_get_iff [OF wf, symmetric])
  with probe_vip_None_iff [OF assms(1) c, of n "set (map (\<lambda>(_, r). srv_vip r) (sv_by_name s))"]
  show ?thesis
    by (auto simp: services_apply_def services_get_def Let_def split: option.splits if_splits)
qed

lemma services_list_perm:
  assumes "hm_wf (sv_by_name s)" "mset bs = mset (sv_by_name s)"
  shows "services_list (s\<lparr>sv_by_name := bs\<rparr>) = services_list s"
proof -
  have d: "distinct (map fst (sv_by_name s))" using assms(1) by (simp add: hm_wf_def)
  have "distinct (map fst bs)" using assms by (metis d mset_eq_imp_distinct_iff mset_map)
  then show ?thesis
    using assms(2) d unfolding services_list_def
    by (intro map_sorted_distinct_set_unique [where f = fst])
       (auto simp: distinct_map dest: mset_eq_setD)
qed

section \<open>Facts about the choice of a node\<close>

lemma pick_node_for_service_mem:
  "pick_node_for_service ns busy = Ok i \<Longrightarrow> i \<in> res_id ` set ns"
  unfolding pick_node_for_service_def Let_def by (rule sched.pick_prefer(1))

text \<open>A node that already hosts the service is chosen only when every candidate does.\<close>

lemma pick_node_for_service_spreads:
  assumes "pick_node_for_service ns busy = Ok i" "n \<in> set ns" "res_id n \<notin> busy"
  shows "i \<notin> busy"
proof -
  have "i \<in> res_id ` {n \<in> set ns. res_id n \<notin> busy}"
    using assms sched.pick_prefer(2) [of "\<lambda>n. res_id n \<notin> busy" ns i]
    unfolding pick_node_for_service_def Let_def by blast
  then show ?thesis by auto
qed

lemma pick_node_for_service_total: "(\<exists>i. pick_node_for_service ns busy = Ok i) \<longleftrightarrow> ns \<noteq> []"
proof
  assume "\<exists>i. pick_node_for_service ns busy = Ok i"
  then show "ns \<noteq> []" using pick_node_for_service_mem by fastforce
next
  assume "ns \<noteq> []"
  then show "\<exists>i. pick_node_for_service ns busy = Ok i"
    unfolding pick_node_for_service_def Let_def by (rule sched.pick_prefer_total)
qed

end
