(* ===== verification/Cp_Worker.thy ===== *)
theory Cp_Worker
  imports Cp_Services
begin

text \<open>
  \<open>keel-controlplane/src/worker.rs\<close>: the single thread that owns the control plane's state and
  answers one command at a time. A command with its arguments is a value of \<open>command\<close>; what is
  sent on its reply channel is a value of \<open>reply\<close>. Each arm of \<open>handle_command\<close> that does more
  than call one table is a definition of its own. The clock is read once per command, so the
  current time is an argument. \<open>None\<close> is a panic of the thread.
\<close>

section \<open>Errors and actions\<close>

datatype schedule_or_resolve_error = SrSchedule schedule_error | SrResolve resolve_error

datatype placement_error = PlNotPlaced string | PlResolve resolve_error

record force_repin_prep =
  fp_old_node_id :: string
  fp_standby_node_id :: string
  fp_standby_addr :: string
  fp_template :: jail_template
  fp_fresh_standby_node_id :: string
  fp_fresh_standby_addr :: string
  fp_address :: u32
  fp_prefix_len :: nat

datatype force_repin_error =
    FrNotPlaced string
  | FrNotStateful string
  | FrPrimaryStillAlive string
  | FrStandbyUnresolvable resolve_error
  | FrNoFreshStandby
  | FrNoFreeAddress

record schedule_action =
  sa_replica_name :: string
  sa_node_id :: string
  sa_node_addr :: string
  sa_template :: jail_template
  sa_address :: u32
  sa_prefix_len :: nat
  sa_standby_node_id :: "string option"
  sa_standby_addr :: "string option"

datatype replica_action =
    Schedule schedule_action
  | TearDown string string string

datatype command =
    CRegister string string "string option" f64 nat
  | CHeartbeat string f64 nat "jail_health list"
  | CList
  | CResolve string
  | CResolveOrSchedule string
  | CResolvePlacement string
  | CRecordPlacement string string
  | CRemovePlacement string
  | COwnerOf string
  | CApplyService string nat jail_template nat
  | CReconcileServices
  | CDiscoverService string
  | CListServices
  | CListServiceProxyEntries
  | CDeleteService string
  | CRecordReplicaAddress string string u32
  | CReleaseReplicaAddress string
  | CRecordStandby string string
  | CRecordPendingFence string string
  | CPendingFencesForNode string
  | CRemovePendingFence string
  | CPrepareForceRepin string

datatype reply =
    RUnit
  | RRegister "(ipv4net, pod_cidr_collision) result"
  | RHeartbeat "(unit, string) result"
  | RList "node_status list"
  | RResolve "(string, resolve_error) result"
  | RResolveOrSchedule "(string \<times> string, schedule_or_resolve_error) result"
  | RResolvePlacement "(string \<times> string, placement_error) result"
  | ROwnerOf "owner option"
  | RApplyService "(unit, apply_service_error) result"
  | RActions "replica_action list"
  | RDiscover "(service_replica list, string) result"
  | RSummaries "service_summary list"
  | REntries "service_proxy_entry list"
  | RDelete "(replica_action list, string) result"
  | RNames "string list"
  | RPrepare "(force_repin_prep, force_repin_error) result"

record cp_state =
  cp_registry :: registry
  cp_placements :: placements
  cp_services :: services
  cp_used :: used_addresses
  cp_standbys :: standbys
  cp_fences :: pending_fences

definition cp_init :: "ipv4net \<Rightarrow> ipv4net \<Rightarrow> cp_state" where
  "cp_init cluster_cidr service_cidr =
     \<lparr>cp_registry = registry_new cluster_cidr, cp_placements = placements_new,
      cp_services = services_new service_cidr, cp_used = ua_new, cp_standbys = standbys_new,
      cp_fences = fences_new\<rparr>"

section \<open>The arms of the command handler\<close>

primrec map_ok :: "('a \<Rightarrow> 'b) \<Rightarrow> ('a, 'e) result \<Rightarrow> ('b, 'e) result" where
  "map_ok f (Ok x) = Ok (f x)"
| "map_ok f (Err e) = Err e"

definition resolve_or_schedule ::
    "ipnet_api \<Rightarrow> instant \<Rightarrow> string \<Rightarrow> cp_state \<Rightarrow> (string \<times> string, schedule_or_resolve_error) result" where
  "resolve_or_schedule api now jail_name st =
     (case placements_get (cp_placements st) jail_name of
        Some node_id \<Rightarrow> map_err SrResolve (map_ok (Pair node_id) (resolve (cp_registry st) node_id now))
      | None \<Rightarrow>
          and_then (map_err SrSchedule (pick_node (alive_nodes api now (cp_registry st)))) (\<lambda>node_id.
            map_err SrResolve (map_ok (Pair node_id) (resolve (cp_registry st) node_id now))))"

definition resolve_placement_cmd ::
    "instant \<Rightarrow> string \<Rightarrow> cp_state \<Rightarrow> (string \<times> string, placement_error) result" where
  "resolve_placement_cmd now jail_name st =
     (case placements_get (cp_placements st) jail_name of
        None \<Rightarrow> Err (PlNotPlaced jail_name)
      | Some node_id \<Rightarrow> map_err PlResolve (map_ok (Pair node_id) (resolve (cp_registry st) node_id now)))"

text \<open>The loop over \<open>0..replicas\<close> returns at the first name another owner holds.\<close>

function name_conflict :: "string \<Rightarrow> placements \<Rightarrow> services \<Rightarrow> nat \<Rightarrow> nat \<Rightarrow> apply_service_error option" where
  "name_conflict name p s i replicas =
     (if i \<ge> replicas then None
      else case owner_of (replica_name name i) p s of
        Some ow \<Rightarrow> if ow = OwnedBy name then name_conflict name p s (i + 1) replicas
                   else Some (NameConflict (replica_name name i) ow)
      | None \<Rightarrow> name_conflict name p s (i + 1) replicas)"
  by pat_completeness auto

termination name_conflict
  by (relation "measure (\<lambda>(_, _, _, i, replicas). replicas - i)") auto

declare name_conflict.simps [simp del]

definition apply_service ::
    "ipnet_api \<Rightarrow> string \<Rightarrow> nat \<Rightarrow> jail_template \<Rightarrow> nat \<Rightarrow> cp_state \<Rightarrow>
     ((unit, apply_service_error) result \<times> cp_state) option" where
  "apply_service api name replicas template port st =
     (case name_conflict name (cp_placements st) (cp_services st) 0 replicas of
        Some e \<Rightarrow> Some (Err e, st)
      | None \<Rightarrow> map_option (\<lambda>(r, s). (r, st\<lparr>cp_services := s\<rparr>))
          (services_apply api name replicas template port (cp_services st)))"

definition placed_replicas :: "string \<Rightarrow> placements \<Rightarrow> (nat \<times> string \<times> string) list" where
  "placed_replicas service_name p =
     List.map_filter (\<lambda>(jail_name, node_id).
       map_option (\<lambda>idx. (idx, jail_name, node_id)) (replica_index service_name jail_name)) (placements_iter p)"

text \<open>A replica without volumes counts when its node resolves; one with volumes always counts.
  The result is a \<open>BTreeSet\<close>.\<close>

definition present_indices :: "registry \<Rightarrow> instant \<Rightarrow> service_record \<Rightarrow> (nat \<times> string \<times> string) list \<Rightarrow> nat list" where
  "present_indices rg now rec placed =
     sort (remdups (map fst
       (if jt_volumes (srv_template rec) = []
        then filter (\<lambda>(_, _, node_id). is_ok (resolve rg node_id now)) placed else placed)))"

text \<open>What the loops carry: the actions so far, the addresses as they will be, the busy nodes.\<close>

record plan =
  pl_actions :: "replica_action list"
  pl_used :: used_addresses
  pl_busy :: "string set"

definition pick_standby ::
    "registry \<Rightarrow> node_resources list \<Rightarrow> string set \<Rightarrow> string \<Rightarrow> (string \<times> string) option" where
  "pick_standby rg alive busy node_id =
     (case pick_node_for_service alive busy of
        Err _ \<Rightarrow> None
      | Ok standby_id \<Rightarrow>
          if standby_id \<noteq> node_id
          then map_option (Pair standby_id) (replicate_addr rg standby_id) else None)"

definition plan_add ::
    "ipnet_api \<Rightarrow> instant \<Rightarrow> registry \<Rightarrow> node_resources list \<Rightarrow> string \<Rightarrow> service_record \<Rightarrow> nat \<Rightarrow> plan \<Rightarrow> plan" where
  "plan_add api now rg alive service_name rec idx pl =
     (case pick_node_for_service alive (pl_busy pl) of
        Err _ \<Rightarrow> pl
      | Ok node_id \<Rightarrow>
     (case pod_cidr rg node_id of
        None \<Rightarrow> pl
      | Some cidr \<Rightarrow>
     (case first_free_address api cidr node_id (pl_used pl) of
        None \<Rightarrow> pl
      | Some address \<Rightarrow>
     (case resolve rg node_id now of
        Err _ \<Rightarrow> pl
      | Ok node_addr \<Rightarrow>
          (let busy = insert node_id (pl_busy pl);
               standby = (if jt_volumes (srv_template rec) = [] then None
                          else pick_standby rg alive busy node_id)
           in \<lparr>pl_actions = pl_actions pl @ [Schedule
                \<lparr>sa_replica_name = replica_name service_name idx, sa_node_id = node_id,
                 sa_node_addr = node_addr, sa_template = srv_template rec, sa_address = address,
                 sa_prefix_len = net_prefix_len cidr,
                 sa_standby_node_id = map_option fst standby, sa_standby_addr = map_option snd standby\<rparr>],
               pl_used = ua_record (replica_name service_name idx) node_id address (pl_used pl),
               pl_busy = busy\<rparr>)))))"

definition plan_remove ::
    "instant \<Rightarrow> registry \<Rightarrow> placements \<Rightarrow> string \<Rightarrow> nat \<Rightarrow> plan \<Rightarrow> plan" where
  "plan_remove now rg p service_name idx pl =
     (case placements_get p (replica_name service_name idx) of
        None \<Rightarrow> pl
      | Some node_id \<Rightarrow>
     (case resolve rg node_id now of
        Err _ \<Rightarrow> pl
      | Ok node_addr \<Rightarrow>
          pl\<lparr>pl_actions := pl_actions pl @ [TearDown (replica_name service_name idx) node_id node_addr]\<rparr>))"

definition plan_service ::
    "ipnet_api \<Rightarrow> instant \<Rightarrow> cp_state \<Rightarrow> node_resources list \<Rightarrow> string \<times> service_record \<Rightarrow> plan \<Rightarrow> plan" where
  "plan_service api now st alive = (\<lambda>(service_name, rec) pl.
     (let placed = placed_replicas service_name (cp_placements st);
          (to_add, to_remove) = diff_replicas (srv_desired_replicas rec)
            (present_indices (cp_registry st) now rec placed);
          pl1 = pl\<lparr>pl_busy := nodes_hosting_service service_name (cp_placements st)\<rparr>;
          pl2 = fold (plan_add api now (cp_registry st) alive service_name rec) to_add pl1
      in fold (plan_remove now (cp_registry st) (cp_placements st) service_name) to_remove pl2))"

definition plan_services :: "ipnet_api \<Rightarrow> instant \<Rightarrow> cp_state \<Rightarrow> plan" where
  "plan_services api now st =
     fold (plan_service api now st (alive_nodes api now (cp_registry st))) (services_list (cp_services st))
       \<lparr>pl_actions = [], pl_used = cp_used st, pl_busy = {}\<rparr>"

definition reconcile_services :: "ipnet_api \<Rightarrow> instant \<Rightarrow> cp_state \<Rightarrow> replica_action list" where
  "reconcile_services api now st = pl_actions (plan_services api now st)"

definition healthy_replicas ::
    "string \<Rightarrow> placements \<Rightarrow> registry \<Rightarrow> used_addresses \<Rightarrow> instant \<Rightarrow> service_replica list" where
  "healthy_replicas name p rg used now =
     sort_key sr_name (List.map_filter (\<lambda>(jail_name, node_id).
       case replica_index name jail_name of
         None \<Rightarrow> None
       | Some _ \<Rightarrow>
           if is_ok (resolve rg node_id now) \<and> is_jail_running rg node_id jail_name
           then map_option (\<lambda>address. \<lparr>sr_name = jail_name, sr_node = node_id,
             sr_address = show_ipv4addr address\<rparr>) (address_of used jail_name)
           else None) (placements_iter p))"

definition discover_service :: "instant \<Rightarrow> string \<Rightarrow> cp_state \<Rightarrow> (service_replica list, string) result" where
  "discover_service now name st =
     (if services_get (cp_services st) name = None then Err name
      else Ok (healthy_replicas name (cp_placements st) (cp_registry st) (cp_used st) now))"

definition list_services :: "cp_state \<Rightarrow> service_summary list" where
  "list_services st =
     map (\<lambda>(name, rec). \<lparr>sm_name = name, sm_desired_replicas = srv_desired_replicas rec,
       sm_vip = show_ipv4addr (srv_vip rec), sm_port = srv_port rec\<rparr>) (services_list (cp_services st))"

definition list_service_proxy_entries :: "instant \<Rightarrow> cp_state \<Rightarrow> service_proxy_entry list" where
  "list_service_proxy_entries now st =
     map (\<lambda>(name, rec). \<lparr>pe_name = name, pe_vip = show_ipv4addr (srv_vip rec), pe_port = srv_port rec,
       pe_replicas = healthy_replicas name (cp_placements st) (cp_registry st) (cp_used st) now\<rparr>)
       (services_list (cp_services st))"

definition delete_service ::
    "instant \<Rightarrow> string \<Rightarrow> cp_state \<Rightarrow> (replica_action list, string) result \<times> cp_state" where
  "delete_service now name st =
     (if services_get (cp_services st) name = None then (Err name, st)
      else
        (Ok (List.map_filter (\<lambda>(jail_name, node_id).
           case replica_index name jail_name of
             None \<Rightarrow> None
           | Some _ \<Rightarrow> map_option (\<lambda>node_addr. TearDown jail_name node_id node_addr)
               (ok (resolve (cp_registry st) node_id now))) (placements_iter (cp_placements st))),
         st\<lparr>cp_services := services_remove name (cp_services st)\<rparr>))"

definition prepare_force_repin ::
    "ipnet_api \<Rightarrow> instant \<Rightarrow> string \<Rightarrow> cp_state \<Rightarrow> (force_repin_prep, force_repin_error) result" where
  "prepare_force_repin api now replica st =
     and_then (ok_or (FrNotPlaced replica) (placements_get (cp_placements st) replica)) (\<lambda>old_node_id.
     and_then (ok_or (FrNotStateful replica) (standbys_get (cp_standbys st) replica)) (\<lambda>standby_node_id.
     if is_ok (resolve (cp_registry st) old_node_id now) then Err (FrPrimaryStillAlive old_node_id) else
     and_then (map_err FrStandbyUnresolvable (resolve (cp_registry st) standby_node_id now)) (\<lambda>standby_addr.
     and_then (ok_or (FrNotStateful replica)
       (case owner_of replica (cp_placements st) (cp_services st) of
          Some (OwnedBy name) \<Rightarrow> Some name | _ \<Rightarrow> None)) (\<lambda>service_name.
     and_then (ok_or (FrNotStateful replica)
       (map_option srv_template (services_get (cp_services st) service_name))) (\<lambda>template.
     and_then (ok_or FrNoFreshStandby
       (case pick_node_for_service (alive_nodes api now (cp_registry st)) {old_node_id, standby_node_id} of
          Err _ \<Rightarrow> None
        | Ok nid \<Rightarrow> if nid \<notin> {old_node_id, standby_node_id} then Some nid else None)) (\<lambda>fresh_standby_node_id.
     and_then (ok_or FrNoFreshStandby (replicate_addr (cp_registry st) fresh_standby_node_id)) (\<lambda>fresh_standby_addr.
     and_then (ok_or FrNoFreeAddress (pod_cidr (cp_registry st) standby_node_id)) (\<lambda>cidr.
     and_then (ok_or FrNoFreeAddress (first_free_address api cidr standby_node_id (cp_used st))) (\<lambda>address.
       Ok \<lparr>fp_old_node_id = old_node_id, fp_standby_node_id = standby_node_id,
           fp_standby_addr = standby_addr, fp_template = template,
           fp_fresh_standby_node_id = fresh_standby_node_id, fp_fresh_standby_addr = fresh_standby_addr,
           fp_address = address, fp_prefix_len = net_prefix_len cidr\<rparr>)))))))))"

section \<open>The command handler\<close>

fun handle_command :: "ipnet_api \<Rightarrow> instant \<Rightarrow> command \<Rightarrow> cp_state \<Rightarrow> (reply \<times> cp_state) option" where
  "handle_command api now (CRegister nid addr ra ccpu cmem) st =
     map_option (\<lambda>(r, rg). (RRegister r, st\<lparr>cp_registry := rg\<rparr>))
       (register api nid addr ra ccpu cmem now (cp_registry st))"
| "handle_command api now (CHeartbeat nid ccpu cmem jails) st =
     (let (r, rg) = heartbeat nid ccpu cmem jails now (cp_registry st)
      in Some (RHeartbeat r, st\<lparr>cp_registry := rg\<rparr>))"
| "handle_command api now CList st = Some (RList (registry_list api now (cp_registry st)), st)"
| "handle_command api now (CResolve nid) st = Some (RResolve (resolve (cp_registry st) nid now), st)"
| "handle_command api now (CResolveOrSchedule jail) st =
     Some (RResolveOrSchedule (resolve_or_schedule api now jail st), st)"
| "handle_command api now (CResolvePlacement jail) st =
     Some (RResolvePlacement (resolve_placement_cmd now jail st), st)"
| "handle_command api now (CRecordPlacement jail nid) st =
     Some (RUnit, st\<lparr>cp_placements := placements_set jail nid (cp_placements st)\<rparr>)"
| "handle_command api now (CRemovePlacement jail) st =
     Some (RUnit, st\<lparr>cp_placements := placements_remove jail (cp_placements st)\<rparr>)"
| "handle_command api now (COwnerOf name) st =
     Some (ROwnerOf (owner_of name (cp_placements st) (cp_services st)), st)"
| "handle_command api now (CApplyService name n t p) st =
     map_option (\<lambda>(r, st'). (RApplyService r, st')) (apply_service api name n t p st)"
| "handle_command api now CReconcileServices st = Some (RActions (reconcile_services api now st), st)"
| "handle_command api now (CDiscoverService name) st = Some (RDiscover (discover_service now name st), st)"
| "handle_command api now CListServices st = Some (RSummaries (list_services st), st)"
| "handle_command api now CListServiceProxyEntries st =
     Some (REntries (list_service_proxy_entries now st), st)"
| "handle_command api now (CDeleteService name) st =
     (let (r, st') = delete_service now name st in Some (RDelete r, st'))"
| "handle_command api now (CRecordReplicaAddress jail nid a) st =
     Some (RUnit, st\<lparr>cp_used := ua_record jail nid a (cp_used st)\<rparr>)"
| "handle_command api now (CReleaseReplicaAddress jail) st =
     Some (RUnit, st\<lparr>cp_used := release jail (cp_used st)\<rparr>)"
| "handle_command api now (CRecordStandby replica nid) st =
     Some (RUnit, st\<lparr>cp_standbys := standbys_set replica nid (cp_standbys st)\<rparr>)"
| "handle_command api now (CRecordPendingFence replica nid) st =
     Some (RUnit, st\<lparr>cp_fences := fences_set replica nid (cp_fences st)\<rparr>)"
| "handle_command api now (CPendingFencesForNode nid) st =
     Some (RNames (fences_for_node (cp_fences st) nid), st)"
| "handle_command api now (CRemovePendingFence replica) st =
     Some (RUnit, st\<lparr>cp_fences := fences_remove replica (cp_fences st)\<rparr>)"
| "handle_command api now (CPrepareForceRepin replica) st =
     Some (RPrepare (prepare_force_repin api now replica st), st)"

text \<open>The worker thread: the commands of the channel in order.\<close>

definition run_worker :: "ipnet_api \<Rightarrow> (instant \<times> command) list \<Rightarrow> cp_state \<Rightarrow> (reply list \<times> cp_state) option" where
  "run_worker api = serve (handle_command api)"

section \<open>The invariant of the state\<close>

definition cp_inv :: "ipnet_api \<Rightarrow> cp_state \<Rightarrow> bool" where
  "cp_inv api st \<longleftrightarrow>
     registry_inv api (cp_registry st) \<and> net_prefix_len (rg_cluster_cidr (cp_registry st)) \<le> 24 \<and>
     services_inv (cp_services st) \<and> hm_wf (cp_placements st) \<and> hm_wf (cp_standbys st) \<and>
     hm_wf (cp_fences st)"

lemma cp_inv_init [inv_intros]:
  assumes "net_prefix_len cluster \<le> 24" "0 < net_prefix_len service" "net_prefix_len service \<le> 32"
  shows "cp_inv api (cp_init cluster service)"
  using assms by (simp add: cp_inv_def cp_init_def inv_intros table_defs) (simp add: registry_new_def)

lemma apply_service_services:
  assumes "apply_service api n d t p st = Some (r, st')"
  shows "st' = st \<or> (\<exists>r s. services_apply api n d t p (cp_services st) = Some (r, s) \<and> st' = st\<lparr>cp_services := s\<rparr>)"
  using assms by (auto simp: apply_service_def split: option.splits)

lemma cp_inv_handle_command [inv_intros]:
  assumes "ipnet_crate api" "cp_inv api st" "handle_command api now c st = Some (r, st')"
  shows "cp_inv api st'"
proof (cases c)
  case (CRegister nid addr ra ccpu cmem)
  with assms show ?thesis
    by (auto simp: cp_inv_def register_cluster_cidr dest: registry_inv_register)
next
  case (CHeartbeat nid ccpu cmem jails)
  have "rg_cluster_cidr (snd (heartbeat nid ccpu cmem jails now rg)) = rg_cluster_cidr rg" for rg
    by (simp add: heartbeat_def split: option.splits)
  with CHeartbeat assms show ?thesis
    by (auto simp: cp_inv_def split: prod.splits) (metis registry_inv_heartbeat snd_conv)+
next
  case (CApplyService n d t p)
  with assms obtain r' where "apply_service api n d t p st = Some (r', st')" by auto
  from apply_service_services [OF this] assms(1,2) show ?thesis
    by (auto simp: cp_inv_def intro: services_inv_apply)
next
  case (CDeleteService n)
  with assms show ?thesis
    by (auto simp: cp_inv_def delete_service_def inv_intros split: prod.splits if_splits)
qed (use assms in \<open>auto simp: cp_inv_def table_defs\<close>)

text \<open>No command makes the worker panic while the invariant holds.\<close>

lemma handle_command_total:
  assumes "cp_inv api st"
  shows "\<exists>r st'. handle_command api now c st = Some (r, st')"
proof (cases c)
  case (CRegister nid addr ra ccpu cmem)
  with assms register_total [of "cp_registry st" api nid addr ra ccpu cmem now] show ?thesis
    by (auto simp: cp_inv_def)
next
  case (CApplyService n d t p)
  with assms services_apply_total [of "cp_services st" api n d t p] show ?thesis
    by (auto simp: cp_inv_def apply_service_def split: option.splits)
qed (auto split: prod.splits)

text \<open>With an address crate that behaves as documented the worker is a server in the sense of the
  prelude.\<close>

sublocale ipnet_crate \<subseteq> cp: server "handle_command api" "cp_inv api"
  by unfold_locales (rule handle_command_total, assumption, rule cp_inv_handle_command [OF ipnet_crate_axioms])

context ipnet_crate
begin

lemma run_worker_total:
  assumes "cp_inv api st"
  shows "\<exists>rs st'. run_worker api cmds st = Some (rs, st') \<and> length rs = length cmds \<and> cp_inv api st'"
  unfolding run_worker_def using assms by (rule cp.serve_total)

end

end
