(* ===== verification/Cp_Example.thy ===== *)
theory Cp_Example
  imports Cp_Worker
begin

text \<open>
  A small cluster on which the properties of the control plane are evaluated: three nodes \<open>a\<close>,
  \<open>b\<close> and \<open>c\<close>, a service \<open>w\<close> of two replicas with one volume. The nodes \<open>b\<close> and \<open>c\<close> have just
  sent a heartbeat; when \<open>a\<close> last did is an argument.
\<close>

definition ex_now :: instant where
  "ex_now = from_secs 15"

definition ex_cluster :: ipv4net where
  "ex_cluster = \<lparr>net_addr = 0x0A000000, net_prefix_len = 16\<rparr>"

definition ex_node :: "string \<Rightarrow> instant \<Rightarrow> u32 \<Rightarrow> node_record" where
  "ex_node nid seen block = \<lparr>nr_addr = nid, nr_replicate_addr = Some (nid @ ''r''), nr_last_heartbeat = seen,
     nr_capacity_cpu = Fin 0, nr_capacity_memory = 0, nr_committed_cpu = Fin 0, nr_committed_memory = 0,
     nr_pod_cidr = \<lparr>net_addr = block, net_prefix_len = 24\<rparr>,
     nr_running_jails = [(''w-0'', True), (''w-1'', True)]\<rparr>"

definition ex_template :: jail_template where
  "ex_template = \<lparr>jt_image = ''i'', jt_command = [''c''], jt_network = \<lparr>tn_vnet = True, tn_bridge = ''k''\<rparr>,
     jt_resources = \<lparr>rs_cpu = ''1'', rs_memory = ''1M''\<rparr>, jt_restart_policy = Always,
     jt_volumes = [\<lparr>vm_name = ''v'', vm_mount_path = ''/v'', vm_size = ''1G''\<rparr>]\<rparr>"

definition ex_service :: service_record where
  "ex_service = \<lparr>srv_desired_replicas = 2, srv_template = ex_template, srv_vip = 0x0A010001, srv_port = 80\<rparr>"

definition ex_cp :: "instant \<Rightarrow> placements \<Rightarrow> standbys \<Rightarrow> used_addresses \<Rightarrow> cp_state" where
  "ex_cp seen p sb used = \<lparr>cp_registry = \<lparr>rg_cluster_cidr = ex_cluster,
       rg_nodes = [(''a'', ex_node ''a'' seen 0x0A002C00), (''b'', ex_node ''b'' ex_now 0x0A00E500),
         (''c'', ex_node ''c'' ex_now 0x0A005200)]\<rparr>,
     cp_placements = p,
     cp_services = \<lparr>sv_service_cidr = \<lparr>net_addr = 0x0A010000, net_prefix_len = 16\<rparr>,
       sv_by_name = [(''w'', ex_service)]\<rparr>,
     cp_used = used, cp_standbys = sb, cp_fences = []\<rparr>"

abbreviation ex_start :: cp_state where
  "ex_start \<equiv> ex_cp ex_now [] [] ua_new"

lemma ex_pods:
  "derive_pod_cidr ipnet_ref ''a'' ex_cluster = Some \<lparr>net_addr = 0x0A002C00, net_prefix_len = 24\<rparr>"
  "derive_pod_cidr ipnet_ref ''b'' ex_cluster = Some \<lparr>net_addr = 0x0A00E500, net_prefix_len = 24\<rparr>"
  "derive_pod_cidr ipnet_ref ''c'' ex_cluster = Some \<lparr>net_addr = 0x0A005200, net_prefix_len = 24\<rparr>"
  by (simp_all add: derive_pod_cidr_def ex_cluster_def POD_PREFIX_LEN_def ipnet_ref_def first_addr_def
      host_bits_def fnv1a_def)

lemma ex_inv: "hm_wf p \<Longrightarrow> hm_wf sb \<Longrightarrow> cp_inv ipnet_ref (ex_cp seen p sb used)"
  by (auto simp: cp_inv_def ex_cp_def registry_inv_def services_inv_def hm_wf_def ex_node_def ex_pods
      in_net_def host_bits_def ex_service_def split: if_splits) (simp_all add: ex_cluster_def)

lemma ex_alive: "alive_nodes ipnet_ref ex_now (cp_registry (ex_cp ex_now p sb used)) =
    map (\<lambda>i. \<lparr>res_id = i, res_capacity_cpu = Fin 0, res_capacity_memory = 0,
      res_committed_cpu = Fin 0, res_committed_memory = 0\<rparr>) [''a'', ''b'', ''c'']"
  by (simp add: alive_nodes_def registry_list_def node_status_of_def ex_cp_def ex_node_def resources_of_def
      DEAD_THRESHOLD_def from_secs_def saturating_duration_since_def Let_def)

lemma ex_alive_dead: "alive_nodes ipnet_ref ex_now (cp_registry (ex_cp 0 p sb used)) =
    map (\<lambda>i. \<lparr>res_id = i, res_capacity_cpu = Fin 0, res_capacity_memory = 0,
      res_committed_cpu = Fin 0, res_committed_memory = 0\<rparr>) [''b'', ''c'']"
  by (simp add: alive_nodes_def registry_list_def node_status_of_def ex_cp_def ex_node_def resources_of_def
      DEAD_THRESHOLD_def from_secs_def saturating_duration_since_def ex_now_def Let_def)

lemma ex_resolve:
  "resolve (cp_registry (ex_cp ex_now p sb used)) ''a'' ex_now = Ok ''a''"
  "resolve (cp_registry (ex_cp 0 p sb used)) ''a'' ex_now = Err (ResolveDead ''a'' 15)"
  "resolve (cp_registry (ex_cp t p sb used)) ''b'' ex_now = Ok ''b''"
  "resolve (cp_registry (ex_cp t p sb used)) ''c'' ex_now = Ok ''c''"
  by (simp_all add: ex_cp_def ex_node_def resolve_def DEAD_THRESHOLD_def from_secs_def ex_now_def
      saturating_duration_since_def as_secs_def)

lemma ex_nodes:
  "pod_cidr (cp_registry (ex_cp t p sb used)) ''a'' = Some \<lparr>net_addr = 0x0A002C00, net_prefix_len = 24\<rparr>"
  "pod_cidr (cp_registry (ex_cp t p sb used)) ''b'' = Some \<lparr>net_addr = 0x0A00E500, net_prefix_len = 24\<rparr>"
  "replicate_addr (cp_registry (ex_cp t p sb used)) ''b'' = Some ''br''"
  "replicate_addr (cp_registry (ex_cp t p sb used)) ''c'' = Some ''cr''"
  by (simp_all add: ex_cp_def ex_node_def pod_cidr_def replicate_addr_def)

lemma ex_first_addr:
  "first_addr \<lparr>net_addr = 0x0A002C00, net_prefix_len = 24\<rparr> = 0x0A002C00"
  "first_addr \<lparr>net_addr = 0x0A00E500, net_prefix_len = 24\<rparr> = 0x0A00E500"
  by (simp_all add: first_addr_def host_bits_def)

text \<open>The first address handed out on an unused block is the third of the block.\<close>

lemma first_free_second:
  assumes "ipnet_crate api" "net_prefix_len pod \<le> 29" "\<not> is_used u n (first_addr pod + 2)"
  shows "first_free_address api pod n u = Some (first_addr pod + 2)"
proof -
  let ?n = "2 ^ host_bits pod - 1 :: nat"
  have "(2::nat) ^ 3 \<le> 2 ^ host_bits pod"
    using assms(2) by (intro power_increasing) (auto simp: host_bits_def)
  then have n: "1 < ?n" "2 < ?n" by simp_all
  have "[1..<?n] = 1 # [2..<?n]" using upt_conv_Cons [OF n(1)] by (simp add: numeral_2_eq_2)
  moreover have "[2..<?n] = 2 # [Suc 2..<?n]" using n(2) by (rule upt_conv_Cons)
  moreover have "api_hosts api pod = map (\<lambda>i. first_addr pod + of_nat i) [1..<?n]"
    using ipnet_crate.hosts [OF assms(1), of pod] assms(2) by simp
  ultimately have "api_hosts api pod =
      (first_addr pod + 1) # (first_addr pod + 2) # map (\<lambda>i. first_addr pod + of_nat i) [Suc 2..<?n]"
    by (simp only: list.map of_nat_1 of_nat_numeral)
  then show ?thesis using assms(3) by (simp add: first_free_address_def)
qed

lemma ex_names: "replica_name ''w'' 0 = ''w-0''" "replica_name ''w'' 1 = ''w-1''" "replica_name ''w'' (Suc 0) = ''w-1''"
  by code_simp+

lemma not_used_new: "\<not> is_used ua_new n a"
  by (simp add: is_used_def ua_new_def)

lemmas ex_pick = pick_node_for_service_def pick_node_def headroom_score_def f64_min_def better_def f64_eq_def

section \<open>The plan for the empty cluster\<close>

definition ex_acts :: "replica_action list" where
  "ex_acts =
     [Schedule \<lparr>sa_replica_name = ''w-0'', sa_node_id = ''a'', sa_node_addr = ''a'',
        sa_template = ex_template, sa_address = 0x0A002C02, sa_prefix_len = 24,
        sa_standby_node_id = Some ''b'', sa_standby_addr = Some ''br''\<rparr>,
      Schedule \<lparr>sa_replica_name = ''w-1'', sa_node_id = ''b'', sa_node_addr = ''b'',
        sa_template = ex_template, sa_address = 0x0A00E502, sa_prefix_len = 24,
        sa_standby_node_id = Some ''c'', sa_standby_addr = Some ''cr''\<rparr>]"

lemma ex_plan: "reconcile_services ipnet_ref ex_now ex_start = ex_acts"
proof -
  let ?rg = "cp_registry ex_start"
  let ?alive = "map (\<lambda>i. \<lparr>res_id = i, res_capacity_cpu = Fin 0, res_capacity_memory = 0,
     res_committed_cpu = Fin 0, res_committed_memory = 0\<rparr>) [''a'', ''b'', ''c'']"
  let ?pl0 = "\<lparr>pl_actions = [], pl_used = ua_new, pl_busy = {}\<rparr>"
  let ?pl1 = "\<lparr>pl_actions = [hd ex_acts], pl_used = ua_record ''w-0'' ''a'' 0x0A002C02 ua_new, pl_busy = {''a''}\<rparr>"
  let ?pl2 = "\<lparr>pl_actions = ex_acts, pl_used = ua_record ''w-1'' ''b'' 0x0A00E502 (pl_used ?pl1), pl_busy = {''a'', ''b''}\<rparr>"
  note ff = first_free_second [OF ref.ipnet_crate_axioms]
  have s: "services_list (cp_services ex_start) = [(''w'', ex_service)]" "cp_placements ex_start = []"
    "cp_used ex_start = ua_new"
    by (simp_all add: services_list_def ex_cp_def)
  have d: "diff_replicas 2 [] = ([0, 1], [])" by (simp add: diff_replicas_def missing_from.simps)
  have u1: "\<not> is_used (ua_record ''w-0'' ''a'' 0x0A002C02 ua_new) ''b'' a" for a
    by (simp add: is_used_record is_used_release not_used_new)
  have p: "pick_node_for_service ?alive {} = Ok ''a''" "pick_node_for_service ?alive {''a''} = Ok ''b''"
    "pick_node_for_service ?alive {''a'', ''b''} = Ok ''c''" "pick_node_for_service ?alive {''b'', ''a''} = Ok ''c''"
    by (simp_all add: ex_pick)
  note ev = ex_nodes ex_resolve ff p [simplified] ex_first_addr ex_names ex_acts_def ex_service_def ex_template_def
  have a0: "plan_add ipnet_ref ex_now ?rg ?alive ''w'' ex_service 0 ?pl0 = ?pl1"
    unfolding plan_add_def pick_standby_def by (simp add: ev not_used_new)
  have a1: "plan_add ipnet_ref ex_now ?rg ?alive ''w'' ex_service 1 ?pl1 = ?pl2"
    unfolding plan_add_def pick_standby_def by (simp add: ev u1 insert_commute)
  have "srv_desired_replicas ex_service = 2" by (simp add: ex_service_def)
  then have "plan_service ipnet_ref ex_now ex_start ?alive (''w'', ex_service) ?pl0 = ?pl2"
    unfolding plan_service_def placed_replicas_def placements_iter_def s nodes_hosting_service_def
      present_indices_def Let_def
    using a0 a1 d by simp
  then show ?thesis unfolding reconcile_services_def plan_services_def ex_alive s by simp
qed

section \<open>The preparation of a re-pin\<close>

abbreviation ex_failed :: cp_state where
  "ex_failed \<equiv> ex_cp 0 [(''w-0'', ''a'')] [(''w-0'', ''b'')] (ua_record ''w-0'' ''a'' 0x0A002C02 ua_new)"

definition ex_prep :: force_repin_prep where
  "ex_prep = \<lparr>fp_old_node_id = ''a'', fp_standby_node_id = ''b'', fp_standby_addr = ''b'',
     fp_template = ex_template, fp_fresh_standby_node_id = ''c'', fp_fresh_standby_addr = ''cr'',
     fp_address = 0x0A00E502, fp_prefix_len = 24\<rparr>"

lemma ex_prepare: "prepare_force_repin ipnet_ref ex_now ''w-0'' ex_failed = Ok ex_prep"
proof -
  have o: "owner_of ''w-0'' (cp_placements ex_failed) (cp_services ex_failed) = Some (OwnedBy ''w'')"
    unfolding owner_of_iff replica_index_Some_iff
    using ex_names(1) by (auto simp: ex_cp_def services_names_def table_defs intro!: exI [of _ 0])
  have g: "services_get (cp_services ex_failed) ''w'' = Some ex_service" by (simp add: services_get_def ex_cp_def)
  have u: "\<not> is_used (cp_used ex_failed) ''b'' x" for x
    by (simp add: ex_cp_def is_used_record is_used_release not_used_new)
  have t: "placements_get (cp_placements ex_failed) ''w-0'' = Some ''a''"
    "standbys_get (cp_standbys ex_failed) ''w-0'' = Some ''b''"
    by (simp_all add: table_defs ex_cp_def)
  show ?thesis
    unfolding prepare_force_repin_def t ex_alive_dead o
    by (simp add: ex_resolve ex_nodes g first_free_second [OF ref.ipnet_crate_axioms] u ex_first_addr
        ex_pick ex_prep_def ex_service_def)
qed

section \<open>The plan for a surplus\<close>

abbreviation ex_surplus :: cp_state where
  "ex_surplus \<equiv> ex_cp ex_now [(''w-0'', ''a''), (''w-1'', ''b''), (''w-2'', ''c'')] [] ua_new"

lemma ex_index: "replica_index ''w'' ''w-0'' = Some 0" "replica_index ''w'' ''w-1'' = Some 1"
  "replica_index ''w'' ''w-2'' = Some 2"
proof -
  have "replica_name ''w'' 2 = ''w-2''" by code_simp
  then show "replica_index ''w'' ''w-0'' = Some 0" "replica_index ''w'' ''w-1'' = Some 1"
    "replica_index ''w'' ''w-2'' = Some 2"
    by (simp_all add: replica_index_Some_iff ex_names)
qed

lemma ex_surplus_plan: "reconcile_services ipnet_ref ex_now ex_surplus = [TearDown ''w-2'' ''c'' ''c'']"
proof -
  have s: "services_list (cp_services ex_surplus) = [(''w'', ex_service)]"
    "cp_placements ex_surplus = [(''w-0'', ''a''), (''w-1'', ''b''), (''w-2'', ''c'')]"
    by (simp_all add: services_list_def ex_cp_def)
  have pr: "present_indices rg now ex_service (placed_replicas ''w'' [(''w-0'', ''a''), (''w-1'', ''b''), (''w-2'', ''c'')])
      = [0, 1, 2]" for rg now
    by (simp add: present_indices_def placed_replicas_def placements_iter_def ex_index ex_service_def
        ex_template_def List.map_filter_def)
  have d: "diff_replicas (srv_desired_replicas ex_service) [0, 1, 2] = ([], [2])"
    by (simp add: diff_replicas_def ex_service_def)
  have n: "replica_name ''w'' 2 = ''w-2''" by code_simp
  show ?thesis
    unfolding reconcile_services_def plan_services_def s plan_service_def
    by (simp add: pr d [unfolded One_nat_def] plan_remove_def n placements_get_def ex_resolve)
qed

end
