(* ===== verification/Cp_Plan.thy ===== *)
theory Cp_Plan
  imports Cp_Example
begin

text \<open>
  What the control plane's plans guarantee: the actions of \<open>ReconcileServices\<close>, the preparation
  of a forced re-pin, the healthy replicas that are advertised and the names a service may use.
\<close>

lemma map_filter_simps [simp]:
  "List.map_filter f [] = []"
  "List.map_filter f (x # xs) = (case f x of None \<Rightarrow> List.map_filter f xs | Some y \<Rightarrow> y # List.map_filter f xs)"
  by (simp_all add: List.map_filter_def split: option.splits)

lemma set_map_filter: "set (List.map_filter f xs) = {y. \<exists>x \<in> set xs. f x = Some y}"
  by (induction xs) (auto split: option.splits)

lemma distinct_map_filter_key:
  assumes "distinct (List.map_filter f xs)"
    and "\<And>x y k. x \<in> set xs \<Longrightarrow> y \<in> set xs \<Longrightarrow> g x = Some k \<Longrightarrow> g y = Some k \<Longrightarrow> f x = f y \<and> f x \<noteq> None"
  shows "distinct (List.map_filter g xs)"
  using assms
proof (induction xs)
  case (Cons x xs)
  have "distinct (List.map_filter g xs)"
  proof (rule Cons.IH)
    show "distinct (List.map_filter f xs)" using Cons.prems(1) by (simp split: option.splits)
  qed (use Cons.prems(2) in auto)
  moreover have "k \<notin> set (List.map_filter g xs)" if k: "g x = Some k" for k
  proof
    assume "k \<in> set (List.map_filter g xs)"
    then obtain y where y: "y \<in> set xs" "g y = Some k" by (auto simp: set_map_filter)
    then have "f x = f y \<and> f x \<noteq> None" using k by (intro Cons.prems(2)) simp_all
    then obtain l where "f x = Some l" "f y = Some l" by (metis not_None_eq)
    with Cons.prems(1) y(1) show False by (auto simp: set_map_filter)
  qed
  ultimately show ?case by (simp split: option.splits)
qed simp

section \<open>Present replicas\<close>

lemma set_placed_replicas:
  "(i, j, n) \<in> set (placed_replicas s p) \<longleftrightarrow> (j, n) \<in> set p \<and> replica_index s j = Some i"
  by (force simp: placed_replicas_def set_map_filter placements_iter_def)

lemma length_map_filter: "length (List.map_filter f xs) \<le> length xs"
  by (induction xs) (auto split: option.splits)

lemma length_present: "length (present_indices rg now rec (placed_replicas s p)) \<le> length p"
proof -
  have "length (present_indices rg now rec placed) \<le> length placed" for placed
    unfolding present_indices_def by (auto intro!: order_trans [OF length_remdups_leq])
  also have "length (placed_replicas s p) \<le> length p"
    using length_map_filter by (auto simp: placed_replicas_def placements_iter_def)
  finally show ?thesis .
qed

lemma sorted_present: "sorted_wrt (<) (present_indices rg now rec placed)"
  by (simp add: present_indices_def strict_sorted_iff distinct_sort)

text \<open>The indices that count as present.\<close>

lemma set_present:
  assumes "hm_wf p"
  shows "i \<in> set (present_indices rg now rec (placed_replicas s p)) \<longleftrightarrow>
    i \<le> u32_max \<and> (\<exists>n. placements_get p (replica_name s i) = Some n \<and>
      (jt_volumes (srv_template rec) = [] \<longrightarrow> is_ok (resolve rg n now)))"
proof -
  have "i \<in> set (present_indices rg now rec (placed_replicas s p)) \<longleftrightarrow>
      (\<exists>j n. (i, j, n) \<in> set (placed_replicas s p) \<and>
        (jt_volumes (srv_template rec) = [] \<longrightarrow> is_ok (resolve rg n now)))"
    by (force simp: present_indices_def)
  also have "\<dots> \<longleftrightarrow> i \<le> u32_max \<and> (\<exists>n. placements_get p (replica_name s i) = Some n \<and>
      (jt_volumes (srv_template rec) = [] \<longrightarrow> is_ok (resolve rg n now)))"
    by (auto simp: set_placed_replicas replica_index_Some_iff placements_get_def hm_get_iff [OF assms, symmetric])
  finally show ?thesis .
qed

section \<open>The invariant of the loops\<close>

text \<open>\<open>D\<close> holds the replica names handled so far: each scheduled name is one of them and the
  working copy of the addresses has the action's node and address for it.\<close>

definition schedule_ok :: "ipnet_api \<Rightarrow> instant \<Rightarrow> registry \<Rightarrow> schedule_action \<Rightarrow> bool" where
  "schedule_ok api now rg a \<longleftrightarrow>
     resolve rg (sa_node_id a) now = Ok (sa_node_addr a) \<and>
     (\<exists>cidr. pod_cidr rg (sa_node_id a) = Some cidr \<and> sa_prefix_len a = net_prefix_len cidr \<and>
        sa_address a \<in> set (drop 1 (api_hosts api cidr))) \<and>
     (case sa_standby_node_id a of None \<Rightarrow> sa_standby_addr a = None
      | Some n \<Rightarrow> n \<noteq> sa_node_id a \<and> is_ok (resolve rg n now) \<and> replicate_addr rg n \<noteq> None \<and>
          sa_standby_addr a = replicate_addr rg n \<and> jt_volumes (sa_template a) \<noteq> [])"

definition plan_inv :: "ipnet_api \<Rightarrow> instant \<Rightarrow> cp_state \<Rightarrow> string set \<Rightarrow> plan \<Rightarrow> bool" where
  "plan_inv api now st D pl \<longleftrightarrow>
     ua_inv (pl_used pl) \<and>
     (\<forall>a. Schedule a \<in> set (pl_actions pl) \<longrightarrow> sa_replica_name a \<in> D \<and>
        schedule_ok api now (cp_registry st) a \<and>
        hm_get (by_jail (pl_used pl)) (sa_replica_name a) = Some (sa_node_id a, sa_address a)) \<and>
     (\<forall>k. (\<forall>b. Schedule b \<in> set (pl_actions pl) \<longrightarrow> sa_replica_name b \<noteq> k) \<longrightarrow>
        hm_get (by_jail (pl_used pl)) k = hm_get (by_jail (cp_used st)) k) \<and>
     distinct (List.map_filter (\<lambda>a. case a of Schedule b \<Rightarrow> Some (sa_replica_name b) | _ \<Rightarrow> None) (pl_actions pl))"

lemma map_filter_append [simp]: "List.map_filter f (xs @ ys) = List.map_filter f xs @ List.map_filter f ys"
  by (simp add: List.map_filter_def)

lemma plan_inv_busy [simp]: "plan_inv api now st D (pl\<lparr>pl_busy := b\<rparr>) = plan_inv api now st D pl"
  by (simp add: plan_inv_def)

lemma plan_inv_mono: "plan_inv api now st D pl \<Longrightarrow> D \<subseteq> D' \<Longrightarrow> plan_inv api now st D' pl"
  unfolding plan_inv_def by blast

lemma pick_standby_Some:
  assumes "pick_standby rg alive busy n = Some (s, addr)" "res_id ` set alive = {n. is_ok (resolve rg n now)}"
  shows "s \<noteq> n" "is_ok (resolve rg s now)" "replicate_addr rg s = Some addr"
  using assms pick_node_for_service_mem [of alive busy s]
  by (auto simp: pick_standby_def split: result.splits if_splits)

text \<open>One index more.\<close>

lemma plan_inv_add:
  assumes pl: "plan_inv api now st D pl" and alive: "res_id ` set alive = {n. is_ok (resolve (cp_registry st) n now)}"
    and new: "replica_name s i \<notin> D"
  shows "plan_inv api now st (insert (replica_name s i) D) (plan_add api now (cp_registry st) alive s rec i pl)"
    (is "plan_inv _ _ _ ?D' ?pl'")
proof (cases "?pl' = pl")
  case True
  then show ?thesis using plan_inv_mono [OF pl, of ?D'] by auto
next
  case False
  then obtain n cidr ad na where *: "pod_cidr (cp_registry st) n = Some cidr"
      "first_free_address api cidr n (pl_used pl) = Some ad" "resolve (cp_registry st) n now = Ok na"
    and "?pl' = plan_add api now (cp_registry st) alive s rec i pl" "pick_node_for_service alive (pl_busy pl) = Ok n"
    by (auto simp: plan_add_def split: option.splits result.splits)
  define standby where "standby = (if jt_volumes (srv_template rec) = [] then None
      else pick_standby (cp_registry st) alive (insert n (pl_busy pl)) n)"
  define a where "a = \<lparr>sa_replica_name = replica_name s i, sa_node_id = n, sa_node_addr = na,
      sa_template = srv_template rec, sa_address = ad, sa_prefix_len = net_prefix_len cidr,
      sa_standby_node_id = map_option fst standby, sa_standby_addr = map_option snd standby\<rparr>"
  have pl': "?pl' = \<lparr>pl_actions = pl_actions pl @ [Schedule a],
      pl_used = ua_record (replica_name s i) n ad (pl_used pl), pl_busy = insert n (pl_busy pl)\<rparr>"
    using * \<open>pick_node_for_service alive (pl_busy pl) = Ok n\<close>
    by (simp add: plan_add_def Let_def a_def standby_def)
  note free = first_free_address_free [OF *(2)]
  have "schedule_ok api now (cp_registry st) a"
  proof (cases standby)
    case (Some sb)
    then have "pick_standby (cp_registry st) alive (insert n (pl_busy pl)) n = Some (fst sb, snd sb)"
      "jt_volumes (srv_template rec) \<noteq> []" by (auto simp: standby_def split: if_splits)
    with pick_standby_Some [OF this(1) alive] Some * free show ?thesis
      by (simp add: schedule_ok_def a_def)
  qed (use * free in \<open>simp add: schedule_ok_def a_def\<close>)
  moreover have "sa_replica_name b \<noteq> replica_name s i" if "Schedule b \<in> set (pl_actions pl)" for b
    using that pl new by (auto simp: plan_inv_def)
  moreover have "ua_inv (pl_used ?pl')"
    using pl free by (auto simp: pl' plan_inv_def intro: ua_inv_record)
  ultimately show ?thesis
    using pl unfolding plan_inv_def pl'
    by (auto simp: a_def set_map_filter split: replica_action.splits)
qed

lemma plan_inv_remove:
  assumes "plan_inv api now st D pl"
  shows "plan_inv api now st D (plan_remove now rg p s i pl)"
  using assms unfolding plan_inv_def plan_remove_def
  by (auto split: option.splits result.splits)

lemma plan_inv_fold_remove:
  "plan_inv api now st D pl \<Longrightarrow> plan_inv api now st D (fold (plan_remove now rg p s) is pl)"
  by (induction "is" arbitrary: pl) (auto intro: plan_inv_remove)

lemma plan_inv_fold_add:
  assumes "res_id ` set alive = {n. is_ok (resolve (cp_registry st) n now)}"
    and "plan_inv api now st D pl" "distinct is" "\<forall>i \<in> set is. replica_name s i \<notin> D"
  shows "plan_inv api now st (D \<union> replica_name s ` set is)
    (fold (plan_add api now (cp_registry st) alive s rec) is pl)"
  using assms(2-)
proof (induction "is" arbitrary: D pl)
  case (Cons i "is")
  have "plan_inv api now st (insert (replica_name s i) D \<union> replica_name s ` set is)
      (fold (plan_add api now (cp_registry st) alive s rec) is (plan_add api now (cp_registry st) alive s rec i pl))"
    using Cons.prems by (intro Cons.IH plan_inv_add assms(1)) auto
  then show ?case by simp
qed simp

lemma distinct_diff_add: "distinct (fst (diff_replicas d h))"
  using missing_from_props [of h 0 "d - length h mod 2 ^ 32"]
  by (auto simp: diff_replicas_def Let_def strict_sorted_iff)

lemma plan_inv_service:
  assumes "res_id ` set alive = {n. is_ok (resolve (cp_registry st) n now)}"
    and "plan_inv api now st D pl" "\<And>i. replica_name s i \<notin> D"
  shows "plan_inv api now st (D \<union> range (replica_name s)) (plan_service api now st alive (s, rec) pl)"
proof -
  let ?d = "diff_replicas (srv_desired_replicas rec)
      (present_indices (cp_registry st) now rec (placed_replicas s (cp_placements st)))"
  have "plan_inv api now st (D \<union> replica_name s ` set (fst ?d))
      (fold (plan_add api now (cp_registry st) alive s rec) (fst ?d)
        (pl\<lparr>pl_busy := nodes_hosting_service s (cp_placements st)\<rparr>))"
    using assms distinct_diff_add by (intro plan_inv_fold_add) auto
  then have "plan_inv api now st (D \<union> range (replica_name s))
      (fold (plan_add api now (cp_registry st) alive s rec) (fst ?d)
        (pl\<lparr>pl_busy := nodes_hosting_service s (cp_placements st)\<rparr>))"
    by (rule plan_inv_mono) auto
  then show ?thesis
    by (auto simp: plan_service_def Let_def split: prod.splits intro: plan_inv_fold_remove)
qed

lemma plan_inv_services:
  assumes "res_id ` set alive = {n. is_ok (resolve (cp_registry st) n now)}"
    and "plan_inv api now st D pl" "distinct (map fst ss)" "\<forall>s \<in> fst ` set ss. \<forall>i. replica_name s i \<notin> D"
  shows "\<exists>D'. plan_inv api now st D' (fold (plan_service api now st alive) ss pl)"
  using assms(2-)
proof (induction ss arbitrary: D pl)
  case (Cons x ss)
  obtain s rec where x: "x = (s, rec)" by (cases x)
  have "plan_inv api now st (D \<union> range (replica_name s)) (plan_service api now st alive x pl)"
    unfolding x using Cons.prems x by (intro plan_inv_service assms(1)) auto
  moreover have "\<forall>t \<in> fst ` set ss. \<forall>i. replica_name t i \<notin> D \<union> range (replica_name s)"
    using Cons.prems x by force
  ultimately show ?case
    using Cons.IH [of "D \<union> range (replica_name s)" "plan_service api now st alive x pl"] Cons.prems by simp
qed auto

lemma distinct_services_list: "hm_wf (sv_by_name s) \<Longrightarrow> distinct (map fst (services_list s))"
  unfolding services_list_def hm_wf_def
  by (metis distinct_map distinct_sort inj_on_def mset_sort mset_eq_imp_distinct_iff mset_map)

theorem plan_services_inv:
  assumes "cp_inv api st" "ua_inv (cp_used st)"
  shows "\<exists>D. plan_inv api now st D (plan_services api now st)"
  unfolding plan_services_def
proof (rule plan_inv_services [where D = "{}"])
  show "res_id ` set (alive_nodes api now (cp_registry st)) = {n. is_ok (resolve (cp_registry st) n now)}"
    using assms(1) by (intro alive_nodes_ids) (simp add: cp_inv_def registry_inv_def)
  show "plan_inv api now st {} \<lparr>pl_actions = [], pl_used = cp_used st, pl_busy = {}\<rparr>"
    using assms(2) by (simp add: plan_inv_def)
  show "distinct (map fst (services_list (cp_services st)))"
    using assms(1) by (intro distinct_services_list) (simp add: cp_inv_def services_inv_def)
qed simp

section \<open>Where the actions come from\<close>

abbreviation replica_diff :: "instant \<Rightarrow> cp_state \<Rightarrow> string \<Rightarrow> service_record \<Rightarrow> nat list \<times> nat list" where
  "replica_diff now st s rec \<equiv> diff_replicas (srv_desired_replicas rec)
     (present_indices (cp_registry st) now rec (placed_replicas s (cp_placements st)))"

definition planned :: "instant \<Rightarrow> cp_state \<Rightarrow> string \<times> service_record \<Rightarrow> replica_action \<Rightarrow> bool" where
  "planned now st = (\<lambda>(s, rec) act. case act of
     Schedule a \<Rightarrow> \<exists>i \<in> set (fst (replica_diff now st s rec)).
       sa_replica_name a = replica_name s i \<and> sa_template a = srv_template rec \<and>
       resolve (cp_registry st) (sa_node_id a) now = Ok (sa_node_addr a)
   | TearDown j n addr \<Rightarrow> \<exists>i \<in> set (snd (replica_diff now st s rec)). j = replica_name s i \<and>
       placements_get (cp_placements st) j = Some n \<and> resolve (cp_registry st) n now = Ok addr)"

lemma fold_actions:
  assumes "\<And>x pl. x \<in> set xs \<Longrightarrow> set (pl_actions (f x pl)) \<subseteq> set (pl_actions pl) \<union> {a. P a}"
  shows "set (pl_actions (fold f xs pl)) \<subseteq> set (pl_actions pl) \<union> {a. P a}"
  using assms
proof (induction xs arbitrary: pl)
  case (Cons x xs)
  have "set (pl_actions (fold f xs (f x pl))) \<subseteq> set (pl_actions (f x pl)) \<union> {a. P a}"
    using Cons.prems by (intro Cons.IH) simp
  also have "\<dots> \<subseteq> set (pl_actions pl) \<union> {a. P a}" using Cons.prems [of x pl] by auto
  finally show ?case by simp
qed simp

lemma plan_service_actions:
  "set (pl_actions (plan_service api now st alive x pl)) \<subseteq> set (pl_actions pl) \<union> {a. planned now st x a}"
proof (cases x)
  case (Pair s rec)
  obtain add rem where d: "replica_diff now st s rec = (add, rem)" by (cases "replica_diff now st s rec")
  have "set (pl_actions (fold (plan_add api now (cp_registry st) alive s rec) add q))
      \<subseteq> set (pl_actions q) \<union> {a. planned now st x a}" for q
    by (rule fold_actions)
       (auto simp: plan_add_def planned_def Pair d Let_def split: option.splits result.splits)
  moreover have "set (pl_actions (fold (plan_remove now (cp_registry st) (cp_placements st) s) rem q))
      \<subseteq> set (pl_actions q) \<union> {a. planned now st x a}" for q
    by (rule fold_actions)
       (auto simp: plan_remove_def planned_def Pair d split: option.splits result.splits)
  ultimately show ?thesis
    by (fastforce simp: plan_service_def Pair d Let_def)
qed

lemma set_services_list: "hm_wf (sv_by_name s) \<Longrightarrow> (n, r) \<in> set (services_list s) \<longleftrightarrow> services_get s n = Some r"
  by (simp add: services_list_def services_get_def hm_get_iff)

lemma reconcile_planned:
  assumes "cp_inv api st" "act \<in> set (reconcile_services api now st)"
  obtains s rec where "services_get (cp_services st) s = Some rec" "planned now st (s, rec) act"
proof -
  have wf: "hm_wf (sv_by_name (cp_services st))" using assms(1) by (simp add: cp_inv_def services_inv_def)
  let ?P = "\<lambda>a. \<exists>x \<in> set (services_list (cp_services st)). planned now st x a"
  have "set (pl_actions (plan_services api now st)) \<subseteq>
      set (pl_actions \<lparr>pl_actions = [], pl_used = cp_used st, pl_busy = {}\<rparr>) \<union> {a. ?P a}"
    unfolding plan_services_def
    by (rule fold_actions) (use plan_service_actions in fastforce)
  with assms(2) obtain x where "x \<in> set (services_list (cp_services st))" "planned now st x act"
    by (auto simp: reconcile_services_def)
  with that set_services_list [OF wf] show ?thesis by (metis surj_pair)
qed

lemma mem_fst_diff: "i \<in> set (fst (diff_replicas d h)) \<Longrightarrow> i \<notin> set h"
  using missing_from_props [of h 0 "d - length h mod 2 ^ 32"]
  by (auto simp: diff_replicas_def Let_def split: if_splits)

lemma mem_snd_diff: "i \<in> set (snd (diff_replicas d h)) \<Longrightarrow> i \<in> set h"
  by (auto simp: diff_replicas_def Let_def split: if_splits dest: in_set_takeD)

section \<open>Standbys\<close>

text \<open>What a scheduled replica of service \<open>s\<close> is, in a plan with the actions \<open>A\<close>. A node is to spare when it lives, hosts no
  replica of the service and is chosen by none of the actions.\<close>

definition scheduled_nodes :: "replica_action set \<Rightarrow> string set" where
  "scheduled_nodes A = {sa_node_id b |b. Schedule b \<in> A}"

definition node_to_spare :: "cp_state \<Rightarrow> instant \<Rightarrow> string \<Rightarrow> replica_action set \<Rightarrow> bool" where
  "node_to_spare st now s A \<longleftrightarrow> (\<exists>n. is_ok (resolve (cp_registry st) n now) \<and>
     n \<notin> nodes_hosting_service s (cp_placements st) \<and> n \<notin> scheduled_nodes A)"

definition well_scheduled :: "ipnet_api \<Rightarrow> instant \<Rightarrow> cp_state \<Rightarrow> string \<times> service_record \<Rightarrow> replica_action set \<Rightarrow> replica_action \<Rightarrow> bool" where
  "well_scheduled api now st = (\<lambda>(s, rec) A act. case act of TearDown _ _ _ \<Rightarrow> True
     | Schedule a \<Rightarrow> schedule_ok api now (cp_registry st) a \<and> (\<exists>i. sa_replica_name a = replica_name s i) \<and> sa_template a = srv_template rec \<and>
         (jt_volumes (sa_template a) \<noteq> [] \<longrightarrow> node_to_spare st now s A \<longrightarrow>
          (\<forall>n. is_ok (resolve (cp_registry st) n now) \<longrightarrow> replicate_addr (cp_registry st) n \<noteq> None) \<longrightarrow>
          (\<exists>n. sa_standby_node_id a = Some n \<and> n \<notin> nodes_hosting_service s (cp_placements st))))"

lemma well_scheduled_mono: "well_scheduled api now st x A act \<Longrightarrow> A \<subseteq> B \<Longrightarrow> well_scheduled api now st x B act"
proof -
  assume w: "well_scheduled api now st x A act" and "A \<subseteq> B"
  then have "node_to_spare st now s B \<Longrightarrow> node_to_spare st now s A" for s
    unfolding node_to_spare_def scheduled_nodes_def by blast
  with w show ?thesis by (cases x; cases act) (auto simp: well_scheduled_def)
qed

text \<open>Steps of the plan that add actions of a kind.\<close>

definition adds :: "(replica_action set \<Rightarrow> replica_action \<Rightarrow> bool) \<Rightarrow> plan \<Rightarrow> plan \<Rightarrow> bool" where
  "adds P pl pl' \<longleftrightarrow> set (pl_actions pl) \<subseteq> set (pl_actions pl') \<and>
     (\<forall>act \<in> set (pl_actions pl'). act \<in> set (pl_actions pl) \<or> P (set (pl_actions pl')) act)"

lemma adds_refl [simp]: "adds P pl pl"
  by (simp add: adds_def)

lemma adds_trans:
  assumes "\<And>A B act. P A act \<Longrightarrow> A \<subseteq> B \<Longrightarrow> P B act" "adds P pl pl1" "adds P pl1 pl2"
  shows "adds P pl pl2"
  using assms(2,3) assms(1) [of "set (pl_actions pl1)" _ "set (pl_actions pl2)"] unfolding adds_def by blast

text \<open>While a service is planned, its busy nodes are those that host it and those just chosen.\<close>

definition busy_ok :: "string set \<Rightarrow> plan \<Rightarrow> bool" where
  "busy_ok H pl \<longleftrightarrow> H \<subseteq> pl_busy pl \<and> pl_busy pl \<subseteq> H \<union> scheduled_nodes (set (pl_actions pl))"

lemma standby_found:
  assumes live: "res_id ` set ns = {n. is_ok (resolve rg n now)}" and n0: "is_ok (resolve rg n0 now)" "n0 \<notin> busy"
    and addr: "\<And>n. is_ok (resolve rg n now) \<Longrightarrow> replicate_addr rg n \<noteq> None" and n: "n \<in> busy"
  shows "\<exists>sb ad. pick_standby rg ns busy n = Some (sb, ad) \<and> sb \<notin> busy"
proof -
  obtain x where x: "x \<in> set ns" "res_id x = n0" using live n0(1) by (metis (mono_tags, lifting) imageE mem_Collect_eq)
  then obtain sb where sb: "pick_node_for_service ns busy = Ok sb" using pick_node_for_service_total [of ns busy] by fastforce
  have "sb \<notin> busy" using pick_node_for_service_spreads [OF sb x(1)] x(2) n0(2) by simp
  moreover have "is_ok (resolve rg sb now)" using pick_node_for_service_mem [OF sb] live by auto
  ultimately show ?thesis using sb addr [of sb] n by (auto simp: pick_standby_def)
qed

lemma plan_add_adds:
  assumes live: "res_id ` set live = {n. is_ok (resolve (cp_registry st) n now)}"
    and H: "H = nodes_hosting_service s (cp_placements st)" and b: "busy_ok H pl"
  shows "busy_ok H (plan_add api now (cp_registry st) live s rec i pl) \<and>
    adds (well_scheduled api now st (s, rec)) pl (plan_add api now (cp_registry st) live s rec i pl)"
    (is "busy_ok H ?pl' \<and> adds ?P pl ?pl'")
proof (cases "?pl' = pl")
  case False
  then obtain n cidr ad na where *: "pod_cidr (cp_registry st) n = Some cidr"
      "first_free_address api cidr n (pl_used pl) = Some ad" "resolve (cp_registry st) n now = Ok na"
    and k: "pick_node_for_service live (pl_busy pl) = Ok n"
    by (auto simp: plan_add_def split: option.splits result.splits)
  define standby where "standby = (if jt_volumes (srv_template rec) = [] then None
      else pick_standby (cp_registry st) live (insert n (pl_busy pl)) n)"
  define a where "a = \<lparr>sa_replica_name = replica_name s i, sa_node_id = n, sa_node_addr = na,
      sa_template = srv_template rec, sa_address = ad, sa_prefix_len = net_prefix_len cidr,
      sa_standby_node_id = map_option fst standby, sa_standby_addr = map_option snd standby\<rparr>"
  have pl': "?pl' = \<lparr>pl_actions = pl_actions pl @ [Schedule a],
      pl_used = ua_record (replica_name s i) n ad (pl_used pl), pl_busy = insert n (pl_busy pl)\<rparr>"
    using * k by (simp add: plan_add_def Let_def a_def standby_def)
  let ?A = "insert (Schedule a) (set (pl_actions pl))"
  have sn: "scheduled_nodes ?A = insert n (scheduled_nodes (set (pl_actions pl)))"
  proof -
    have "sa_node_id a = n" by (simp add: a_def)
    then show ?thesis unfolding scheduled_nodes_def by blast
  qed
  have "schedule_ok api now (cp_registry st) a"
    using pick_standby_Some [OF _ live, of "insert n (pl_busy pl)" n] * first_free_address_free [OF *(2)]
    by (auto simp: schedule_ok_def a_def standby_def split: option.splits if_splits)
  moreover have "\<exists>m. sa_standby_node_id a = Some m \<and> m \<notin> H"
    if sp: "jt_volumes (srv_template rec) \<noteq> []" "node_to_spare st now s ?A" "\<forall>n. is_ok (resolve (cp_registry st) n now) \<longrightarrow> replicate_addr (cp_registry st) n \<noteq> None"
  proof -
    obtain n0 where n0: "is_ok (resolve (cp_registry st) n0 now)" "n0 \<notin> insert n (pl_busy pl)"
      using sp(2) b unfolding node_to_spare_def sn busy_ok_def H by blast
    from standby_found [OF live n0, of n] sp(3) obtain sb x where
      "pick_standby (cp_registry st) live (insert n (pl_busy pl)) n = Some (sb, x)" "sb \<notin> insert n (pl_busy pl)" by blast
    with sp(1) b show ?thesis by (auto simp: a_def standby_def busy_ok_def)
  qed
  ultimately have "?P ?A (Schedule a)" using H by (auto simp: well_scheduled_def a_def)
  then show ?thesis using b sn unfolding pl' by (auto simp: adds_def busy_ok_def)
qed (use b in simp)

lemma plan_adds_adds:
  assumes live: "res_id ` set live = {n. is_ok (resolve (cp_registry st) n now)}"
    and H: "H = nodes_hosting_service s (cp_placements st)" and b: "busy_ok H pl"
  shows "adds (well_scheduled api now st (s, rec)) pl (fold (plan_add api now (cp_registry st) live s rec) is pl)"
  using b
proof (induction "is" arbitrary: pl)
  case (Cons i "is")
  from plan_add_adds [OF live H Cons.prems, of api rec i] Cons.IH show ?case
    by (auto intro: adds_trans [OF well_scheduled_mono])
qed simp

lemma plan_remove_adds: "adds (well_scheduled api now st x) pl (fold (plan_remove now rg p s) is pl)"
proof (induction "is" arbitrary: pl)
  case (Cons i "is")
  have "adds (well_scheduled api now st x) pl (plan_remove now rg p s i pl)"
    by (cases x) (auto simp: adds_def plan_remove_def well_scheduled_def split: option.splits result.splits)
  with Cons.IH show ?case by (auto intro: adds_trans [OF well_scheduled_mono])
qed simp

lemma plan_service_adds:
  assumes live: "res_id ` set live = {n. is_ok (resolve (cp_registry st) n now)}"
  shows "adds (well_scheduled api now st (s, rec)) pl (plan_service api now st live (s, rec) pl)"
proof -
  obtain add rem where d: "replica_diff now st s rec = (add, rem)" by (cases "replica_diff now st s rec")
  let ?pl = "pl\<lparr>pl_busy := nodes_hosting_service s (cp_placements st)\<rparr>"
  have "adds (well_scheduled api now st (s, rec)) ?pl (fold (plan_add api now (cp_registry st) live s rec) add ?pl)"
    by (rule plan_adds_adds [OF live refl]) (simp add: busy_ok_def)
  then have "adds (well_scheduled api now st (s, rec)) pl (fold (plan_add api now (cp_registry st) live s rec) add ?pl)" by (simp add: adds_def)
  from adds_trans [OF well_scheduled_mono this plan_remove_adds] show ?thesis by (simp add: plan_service_def d Let_def)
qed

lemma reconcile_well_scheduled:
  assumes "cp_inv api st" "act \<in> set (reconcile_services api now st)"
  obtains s rec where "services_get (cp_services st) s = Some rec" "well_scheduled api now st (s, rec) (set (reconcile_services api now st)) act"
proof -
  let ?live = "alive_nodes api now (cp_registry st)"
  have live: "res_id ` set ?live = {n. is_ok (resolve (cp_registry st) n now)}"
    using assms(1) by (intro alive_nodes_ids) (simp add: cp_inv_def registry_inv_def)
  let ?P = "\<lambda>A act. \<exists>x \<in> set (services_list (cp_services st)). well_scheduled api now st x A act"
  have mono: "?P A act \<Longrightarrow> A \<subseteq> B \<Longrightarrow> ?P B act" for A B act using well_scheduled_mono by blast
  have "adds ?P pl (fold (plan_service api now st ?live) xs pl)" if "set xs \<subseteq> set (services_list (cp_services st))" for xs pl
    using that
  proof (induction xs arbitrary: pl)
    case (Cons x xs)
    have "adds (well_scheduled api now st x) pl (plan_service api now st ?live x pl)" using plan_service_adds [OF live] by (cases x) simp
    then have "adds ?P pl (plan_service api now st ?live x pl)" using Cons.prems unfolding adds_def by auto
    from adds_trans [OF mono this Cons.IH] Cons.prems show ?case by simp
  qed simp
  from this [OF order_refl] assms(2) have "?P (set (reconcile_services api now st)) act"
    unfolding reconcile_services_def plan_services_def adds_def by fastforce
  moreover have "hm_wf (sv_by_name (cp_services st))" using assms(1) by (simp add: cp_inv_def services_inv_def)
  ultimately show ?thesis using that set_services_list by (metis surj_pair)
qed

section \<open>Properties of the plan\<close>

text \<open>C7: Every replica that a reconcile pass schedules goes to a node that resolves at that moment,
  gets an address of that node's own /24 block that is neither the network address, the bridge
  gateway nor the broadcast address. If it gets a standby, that is another live node that
  listens for replication, and the service has volumes. A replica of a service with volumes does get one, on a node that hosts no replica of the service, whenever the live nodes listen for
  replication and one of them is to spare: it hosts no replica of the service and the pass places none on it.\<close>

theorem reconcile_schedule_sound:
  assumes "ipnet_crate api" "cp_inv api st" "Schedule a \<in> set (reconcile_services api now st)"
  shows "resolve (cp_registry st) (sa_node_id a) now = Ok (sa_node_addr a) \<and>
    (\<exists>cidr i. pod_cidr (cp_registry st) (sa_node_id a) = Some cidr \<and> sa_prefix_len a = 24 \<and>
       2 \<le> i \<and> i < 255 \<and> sa_address a = net_addr cidr + of_nat i \<and> in_net cidr (sa_address a)) \<and>
    (\<forall>n. sa_standby_node_id a = Some n \<longrightarrow> n \<noteq> sa_node_id a \<and> is_ok (resolve (cp_registry st) n now) \<and>
       sa_standby_addr a = replicate_addr (cp_registry st) n \<and> sa_standby_addr a \<noteq> None \<and>
       jt_volumes (sa_template a) \<noteq> []) \<and>
    (\<exists>s rec k. services_get (cp_services st) s = Some rec \<and> sa_replica_name a = replica_name s k \<and> sa_template a = srv_template rec \<and>
       (jt_volumes (sa_template a) \<noteq> [] \<and> node_to_spare st now s (set (reconcile_services api now st)) \<and>
          (\<forall>n. is_ok (resolve (cp_registry st) n now) \<longrightarrow> replicate_addr (cp_registry st) n \<noteq> None) \<longrightarrow>
        (\<exists>n. sa_standby_node_id a = Some n \<and> n \<notin> nodes_hosting_service s (cp_placements st))))"
proof -
  obtain s rec where s: "services_get (cp_services st) s = Some rec" "well_scheduled api now st (s, rec) (set (reconcile_services api now st)) (Schedule a)"
    by (rule reconcile_well_scheduled [OF assms(2,3)])
  then have ok: "schedule_ok api now (cp_registry st) a" by (simp add: well_scheduled_def)
  then obtain cidr where c: "pod_cidr (cp_registry st) (sa_node_id a) = Some cidr"
      "sa_prefix_len a = net_prefix_len cidr" "sa_address a \<in> set (drop 1 (api_hosts api cidr))"
    by (auto simp: schedule_ok_def)
  from c(1) assms(2) have "derive_pod_cidr api (sa_node_id a) (rg_cluster_cidr (cp_registry st)) = Some cidr"
    by (auto simp: cp_inv_def registry_inv_def pod_cidr_def)
  from derive_pod_cidr_in_cluster [OF assms(1) this]
  have p: "net_prefix_len cidr = 24" "net_addr cidr = first_addr cidr" by auto
  with c(3) hosts_drop_1 [OF assms(1), of cidr] obtain i where
    i: "2 \<le> i" "i < 255" "sa_address a = first_addr cidr + of_nat i" by (auto simp: host_bits_def)
  moreover from i p have "in_net cidr (sa_address a)"
    using first_addr_offset(2) [of i cidr] by (simp add: host_bits_def)
  ultimately have addr: "\<exists>cidr i. pod_cidr (cp_registry st) (sa_node_id a) = Some cidr \<and> sa_prefix_len a = 24 \<and>
       2 \<le> i \<and> i < 255 \<and> sa_address a = net_addr cidr + of_nat i \<and> in_net cidr (sa_address a)"
    using c(1,2) p by auto
  have "\<exists>s rec k. services_get (cp_services st) s = Some rec \<and> sa_replica_name a = replica_name s k \<and> sa_template a = srv_template rec \<and>
       (jt_volumes (sa_template a) \<noteq> [] \<and> node_to_spare st now s (set (reconcile_services api now st)) \<and>
          (\<forall>n. is_ok (resolve (cp_registry st) n now) \<longrightarrow> replicate_addr (cp_registry st) n \<noteq> None) \<longrightarrow>
        (\<exists>n. sa_standby_node_id a = Some n \<and> n \<notin> nodes_hosting_service s (cp_placements st)))"
    using s by (auto simp: well_scheduled_def)
  with ok addr show ?thesis by (auto simp: schedule_ok_def)
qed

theorem reconcile_schedule_sound_witness:
  "\<exists>a n. Schedule a \<in> set (reconcile_services ipnet_ref ex_now ex_start) \<and>
     resolve (cp_registry ex_start) (sa_node_id a) ex_now = Ok (sa_node_addr a) \<and> sa_prefix_len a = 24 \<and>
     sa_standby_node_id a = Some n \<and> n \<noteq> sa_node_id a"
proof -
  obtain a where h: "hd ex_acts = Schedule a" "sa_template a = ex_template" by (simp add: ex_acts_def)
  then have a: "Schedule a \<in> set (reconcile_services ipnet_ref ex_now ex_start)" "sa_template a = ex_template"
    unfolding ex_plan by (simp_all add: ex_acts_def)
  have inv: "cp_inv ipnet_ref ex_start" by (rule ex_inv) simp_all
  have "\<forall>b. Schedule b \<in> set ex_acts \<longrightarrow> sa_node_id b \<noteq> ''c''" by (simp add: ex_acts_def)
  then have "''c'' \<notin> scheduled_nodes (set ex_acts)" unfolding scheduled_nodes_def by auto
  then have c: "node_to_spare ex_start ex_now s (set (reconcile_services ipnet_ref ex_now ex_start))" for s
    unfolding node_to_spare_def ex_plan
    by (intro exI [of _ "''c''"]) (simp add: ex_resolve, simp add: ex_cp_def nodes_hosting_service_def placements_iter_def)
  have l: "replicate_addr (cp_registry ex_start) n \<noteq> None" if "is_ok (resolve (cp_registry ex_start) n ex_now)" for n
  proof -
    have "hm_get (rg_nodes (cp_registry ex_start)) n \<noteq> None" using that unfolding resolve_def by (auto split: option.splits)
    then show ?thesis by (auto simp: replicate_addr_def ex_cp_def ex_node_def split: if_splits)
  qed
  have v: "jt_volumes (sa_template a) \<noteq> []" by (simp add: a ex_template_def)
  from reconcile_schedule_sound [OF ref.ipnet_crate_axioms inv a(1)] c l v a(1) show ?thesis by blast
qed

text \<open>C8: Given consistent bookkeeping of the addresses of replicas (no two of them recorded with the same address on a node, which passes that race can break): the replicas that one pass schedules have
  different names, no two of them share an address on a node, and the address of each of them is recorded for no replica that the pass does not itself
  schedule anew. Jails that were not scheduled as replicas have no recorded address.\<close>

theorem reconcile_addresses_distinct:
  assumes "cp_inv api st" "ua_inv (cp_used st)" "acts = reconcile_services api now st"
  shows "distinct (List.map_filter (\<lambda>x. case x of Schedule b \<Rightarrow> Some (sa_replica_name b) | TearDown _ _ _ \<Rightarrow> None) acts) \<and>
    distinct (List.map_filter (\<lambda>x. case x of Schedule b \<Rightarrow> Some (sa_node_id b, sa_address b) | TearDown _ _ _ \<Rightarrow> None) acts) \<and>
    (\<forall>a k. Schedule a \<in> set acts \<longrightarrow> hm_get (by_jail (cp_used st)) k = Some (sa_node_id a, sa_address a) \<longrightarrow>
       (\<exists>c. Schedule c \<in> set acts \<and> sa_replica_name c = k))"
proof -
  let ?f = "\<lambda>x. case x of Schedule b \<Rightarrow> Some (sa_replica_name b) | TearDown _ _ _ \<Rightarrow> None"
  from plan_services_inv [OF assms(1,2), of now] obtain D where
    pl: "plan_inv api now st D (plan_services api now st)" by blast
  let ?u = "pl_used (plan_services api now st)"
  have acts: "pl_actions (plan_services api now st) = acts" using assms(3) by (simp add: reconcile_services_def)
  have bj: "hm_get (by_jail ?u) (sa_replica_name c) = Some (sa_node_id c, sa_address c)" if "Schedule c \<in> set acts" for c
    using pl that by (simp add: plan_inv_def acts)
  have inv: "ua_inv ?u" and d: "distinct (List.map_filter ?f acts)" using pl by (simp_all add: plan_inv_def acts)
  have same: "sa_replica_name a = sa_replica_name b"
    if "Schedule a \<in> set acts" "Schedule b \<in> set acts" "(sa_node_id a, sa_address a) = (sa_node_id b, sa_address b)" for a b
    using bj [OF that(1)] bj [OF that(2)] that(3) inv unfolding ua_inv_def by metis
  have "\<exists>c. Schedule c \<in> set acts \<and> sa_replica_name c = k"
    if a: "Schedule a \<in> set acts" and k: "hm_get (by_jail (cp_used st)) k = Some (sa_node_id a, sa_address a)" for a k
  proof (rule ccontr)
    assume n: "\<not> ?thesis"
    then have "hm_get (by_jail ?u) k = Some (sa_node_id a, sa_address a)"
      using pl k unfolding plan_inv_def acts by (metis (no_types, lifting))
    with bj [OF a] inv have "k = sa_replica_name a" unfolding ua_inv_def by blast
    with n a show False by blast
  qed
  moreover have "distinct (List.map_filter (\<lambda>x. case x of Schedule b \<Rightarrow> Some (sa_node_id b, sa_address b) | TearDown _ _ _ \<Rightarrow> None) acts)"
  proof (rule distinct_map_filter_key [OF d])
    fix x y k
    assume m: "x \<in> set acts" "y \<in> set acts" and "(case x of Schedule b \<Rightarrow> Some (sa_node_id b, sa_address b) | TearDown _ _ _ \<Rightarrow> None) = Some k"
      "(case y of Schedule b \<Rightarrow> Some (sa_node_id b, sa_address b) | TearDown _ _ _ \<Rightarrow> None) = Some k"
    then obtain a b where "x = Schedule a" "y = Schedule b" "(sa_node_id a, sa_address a) = (sa_node_id b, sa_address b)"
      by (auto split: replica_action.splits)
    with same [of a b] m show "?f x = ?f y \<and> ?f x \<noteq> None" by simp
  qed
  ultimately show ?thesis using d by blast
qed

theorem reconcile_addresses_distinct_witness:
  "ex_acts = reconcile_services ipnet_ref ex_now ex_start \<and>
   distinct (List.map_filter (\<lambda>x. case x of Schedule b \<Rightarrow> Some (sa_node_id b, sa_address b) | TearDown _ _ _ \<Rightarrow> None) ex_acts)"
proof -
  have u: "ua_inv (cp_used ex_start)" by (simp add: ex_cp_def ua_inv_new)
  have "cp_inv ipnet_ref ex_start" by (rule ex_inv) simp_all
  from reconcile_addresses_distinct [OF this u ex_plan [symmetric]] ex_plan show ?thesis by simp
qed

text \<open>C9: A reconcile pass never schedules a second copy of a replica that is recorded on a node
  when the service has volumes, whatever happens to that node, nor when the node resolves.\<close>

theorem reconcile_keeps_pinned:
  assumes "cp_inv api st" "services_get (cp_services st) s = Some rec"
    and "placements_get (cp_placements st) (replica_name s i) = Some n" "i \<le> u32_max"
    and "jt_volumes (srv_template rec) \<noteq> [] \<or> is_ok (resolve (cp_registry st) n now)"
  shows "Schedule a \<in> set (reconcile_services api now st) \<Longrightarrow> sa_replica_name a \<noteq> replica_name s i"
proof
  assume a: "Schedule a \<in> set (reconcile_services api now st)" "sa_replica_name a = replica_name s i"
  from reconcile_planned [OF assms(1) a(1)] obtain t q where
    t: "services_get (cp_services st) t = Some q" and pl: "planned now st (t, q) (Schedule a)" .
  from pl obtain k where k: "k \<in> set (fst (replica_diff now st t q))" "sa_replica_name a = replica_name t k"
    by (auto simp: planned_def)
  with a(2) t assms(2) have e: "t = s" "k = i" "q = rec" by auto
  from mem_fst_diff [OF k(1)] have "i \<notin> set (present_indices (cp_registry st) now rec (placed_replicas s (cp_placements st)))"
    by (simp add: e)
  moreover have "hm_wf (cp_placements st)" using assms(1) by (simp add: cp_inv_def)
  ultimately show False
    using set_present [of "cp_placements st" i "cp_registry st" now rec s] assms(3-5) by auto
qed

theorem reconcile_keeps_pinned_witness:
  "\<nexists>a. Schedule a \<in> set (reconcile_services ipnet_ref ex_now ex_failed) \<and> sa_replica_name a = ''w-0''"
proof -
  have inv: "cp_inv ipnet_ref ex_failed" by (rule ex_inv) (simp_all add: hm_wf_def)
  have g: "services_get (cp_services ex_failed) ''w'' = Some ex_service" by (simp add: services_get_def ex_cp_def)
  have p: "placements_get (cp_placements ex_failed) (replica_name ''w'' 0) = Some ''a''"
    by (simp add: table_defs ex_cp_def ex_names)
  have v: "jt_volumes (srv_template ex_service) \<noteq> []" by (simp add: ex_service_def ex_template_def)
  show ?thesis
    using reconcile_keeps_pinned [OF inv g p _ disjI1 [OF v], of _ ex_now] by (auto simp: ex_names)
qed

text \<open>C27: A replica is torn down only when its service has more replicas present than wanted; at
  least the wanted number of replicas with smaller indices stays, the replica is recorded on the
  node the request is sent to and that node resolves.\<close>

theorem reconcile_teardown_sound:
  assumes "cp_inv api st" "TearDown j n addr \<in> set (reconcile_services api now st)"
    and "length (cp_placements st) \<le> u32_max"
  shows "placements_get (cp_placements st) j = Some n \<and> resolve (cp_registry st) n now = Ok addr \<and>
    (\<exists>s rec i. services_get (cp_services st) s = Some rec \<and> j = replica_name s i \<and>
       srv_desired_replicas rec \<le> card {k \<in> set (present_indices (cp_registry st) now rec
         (placed_replicas s (cp_placements st))). k < i})"
proof -
  from reconcile_planned [OF assms(1,2)] obtain s rec where
    s: "services_get (cp_services st) s = Some rec" and pl: "planned now st (s, rec) (TearDown j n addr)" .
  let ?h = "present_indices (cp_registry st) now rec (placed_replicas s (cp_placements st))"
  let ?rem = "snd (replica_diff now st s rec)"
  from pl obtain i where i: "i \<in> set ?rem" "j = replica_name s i"
    "placements_get (cp_placements st) j = Some n" "resolve (cp_registry st) n now = Ok addr"
    by (auto simp: planned_def)
  have h: "length ?h \<le> u32_max" using length_present assms(3) by (rule order_trans)
  then have lt: "srv_desired_replicas rec < length ?h"
    using i(1) by (auto simp: diff_replicas_def Let_def split: if_splits)
  note rem = diff_replicas_remove [OF surjective_pairing lt h sorted_present]
  have dh: "distinct ?h" using sorted_present by (metis strict_sorted_iff)
  have "srv_desired_replicas rec = length ?h - length ?rem" using rem(2) lt by simp
  also have "\<dots> \<le> card (set ?h) - card (set ?rem)"
    using card_length [of ?rem] dh by (simp add: distinct_card)
  also have "\<dots> \<le> card (set ?h - set ?rem)" using rem(3) by (simp add: card_Diff_subset)
  also have "\<dots> \<le> card {k \<in> set ?h. k < i}" using rem(5) i(1) by (intro card_mono) auto
  finally show ?thesis using s i by blast
qed

theorem reconcile_teardown_sound_witness:
  "placements_get (cp_placements ex_surplus) ''w-2'' = Some ''c'' \<and>
   resolve (cp_registry ex_surplus) ''c'' ex_now = Ok ''c''"
proof -
  have inv: "cp_inv ipnet_ref ex_surplus" by (rule ex_inv) (simp_all add: hm_wf_def)
  have "length (cp_placements ex_surplus) \<le> u32_max" by (simp add: ex_cp_def)
  from reconcile_teardown_sound [OF inv _ this, of "''w-2''" "''c''" "''c''" ex_now]
  show ?thesis by (simp add: ex_surplus_plan)
qed

text \<open>When every service has exactly the wanted number of replicas present, a reconcile pass
  does nothing.\<close>

lemma reconcile_converged:
  assumes "cp_inv api st" "length (cp_placements st) \<le> u32_max"
    and "\<And>s rec. services_get (cp_services st) s = Some rec \<Longrightarrow>
      length (present_indices (cp_registry st) now rec (placed_replicas s (cp_placements st)))
        = srv_desired_replicas rec"
  shows "reconcile_services api now st = []"
proof (rule ccontr)
  assume "reconcile_services api now st \<noteq> []"
  then obtain act where "act \<in> set (reconcile_services api now st)" by (meson hd_in_set)
  from reconcile_planned [OF assms(1) this] obtain s rec where
    s: "services_get (cp_services st) s = Some rec" and pl: "planned now st (s, rec) act" .
  have "length (present_indices (cp_registry st) now rec (placed_replicas s (cp_placements st))) \<le> u32_max"
    using length_present assms(2) by (rule order_trans)
  from diff_replicas_done [OF this] have "replica_diff now st s rec = ([], [])"
    using assms(3) [OF s] by blast
  with pl show False by (auto simp: planned_def split: replica_action.splits)
qed

section \<open>Properties of the forced re-pin\<close>

text \<open>C16: A forced re-pin is prepared only for a replica whose current node does not resolve and
  whose standby does. The new primary is the recorded standby, the fresh standby is a third live node
  that listens for replication, the address is a free one of the new primary's block and the template is
  that of the service the replica belongs to.\<close>

theorem prepare_force_repin_safe:
  assumes "ipnet_crate api" "cp_inv api st" "prepare_force_repin api now r st = Ok p"
  shows "placements_get (cp_placements st) r = Some (fp_old_node_id p) \<and>
    standbys_get (cp_standbys st) r = Some (fp_standby_node_id p) \<and>
    \<not> is_ok (resolve (cp_registry st) (fp_old_node_id p) now) \<and>
    resolve (cp_registry st) (fp_standby_node_id p) now = Ok (fp_standby_addr p) \<and>
    fp_old_node_id p \<noteq> fp_standby_node_id p \<and>
    fp_fresh_standby_node_id p \<notin> {fp_old_node_id p, fp_standby_node_id p} \<and>
    is_ok (resolve (cp_registry st) (fp_fresh_standby_node_id p) now) \<and>
    replicate_addr (cp_registry st) (fp_fresh_standby_node_id p) = Some (fp_fresh_standby_addr p) \<and>
    \<not> is_used (cp_used st) (fp_standby_node_id p) (fp_address p) \<and>
    (\<exists>cidr. pod_cidr (cp_registry st) (fp_standby_node_id p) = Some cidr \<and> in_net cidr (fp_address p) \<and>
       fp_prefix_len p = 24) \<and>
    (\<exists>s rec i. services_get (cp_services st) s = Some rec \<and> replica_index s r = Some i \<and>
       fp_template p = srv_template rec)"
proof -
  have wf: "hm_wf (rg_nodes (cp_registry st))" using assms(2) by (simp add: cp_inv_def registry_inv_def)
  obtain s rec cidr where
    o: "owner_of r (cp_placements st) (cp_services st) = Some (OwnedBy s)"
      "services_get (cp_services st) s = Some rec" "fp_template p = srv_template rec"
    and old: "placements_get (cp_placements st) r = Some (fp_old_node_id p)"
      "\<not> is_ok (resolve (cp_registry st) (fp_old_node_id p) now)"
    and sb: "standbys_get (cp_standbys st) r = Some (fp_standby_node_id p)"
      "resolve (cp_registry st) (fp_standby_node_id p) now = Ok (fp_standby_addr p)"
    and fresh: "pick_node_for_service (alive_nodes api now (cp_registry st)) {fp_old_node_id p, fp_standby_node_id p}
        = Ok (fp_fresh_standby_node_id p)"
      "fp_fresh_standby_node_id p \<notin> {fp_old_node_id p, fp_standby_node_id p}"
      "replicate_addr (cp_registry st) (fp_fresh_standby_node_id p) = Some (fp_fresh_standby_addr p)"
    and ad: "pod_cidr (cp_registry st) (fp_standby_node_id p) = Some cidr"
      "first_free_address api cidr (fp_standby_node_id p) (cp_used st) = Some (fp_address p)"
      "fp_prefix_len p = net_prefix_len cidr"
    using assms(3) unfolding prepare_force_repin_def
    by (auto split: if_splits option.splits owner.splits result.splits)
  from ad(1) assms(2) have "derive_pod_cidr api (fp_standby_node_id p) (rg_cluster_cidr (cp_registry st)) = Some cidr"
    by (auto simp: cp_inv_def registry_inv_def pod_cidr_def)
  from derive_pod_cidr_in_cluster [OF assms(1) this] have c: "net_prefix_len cidr = 24" by simp
  with first_free_address_range [OF assms(1) _ ad(2)] have "in_net cidr (fp_address p)" by auto
  moreover have "is_ok (resolve (cp_registry st) (fp_fresh_standby_node_id p) now)"
    using pick_node_for_service_mem [OF fresh(1)] alive_nodes_ids [OF wf] by blast
  moreover have "fp_old_node_id p \<noteq> fp_standby_node_id p" using old(2) sb(2) by auto
  moreover have "\<not> is_used (cp_used st) (fp_standby_node_id p) (fp_address p)"
    using first_free_address_free(1) [OF ad(2)] .
  moreover have "\<exists>i. replica_index s r = Some i" using o(1) by (simp add: owner_of_iff)
  ultimately show ?thesis using o old sb fresh ad c by auto
qed

theorem prepare_force_repin_safe_witness:
  "prepare_force_repin ipnet_ref ex_now ''w-0'' ex_failed = Ok ex_prep \<and>
   \<not> is_ok (resolve (cp_registry ex_failed) (fp_old_node_id ex_prep) ex_now) \<and>
   fp_fresh_standby_node_id ex_prep \<notin> {fp_old_node_id ex_prep, fp_standby_node_id ex_prep}"
proof -
  have "cp_inv ipnet_ref ex_failed" by (rule ex_inv) (simp_all add: hm_wf_def)
  from prepare_force_repin_safe [OF ref.ipnet_crate_axioms this ex_prepare] ex_prepare show ?thesis by blast
qed

section \<open>Properties of discovery\<close>

lemma set_healthy:
  assumes "hm_wf p"
  shows "r \<in> set (healthy_replicas name p rg used now) \<longleftrightarrow>
    (\<exists>i a. i \<le> u32_max \<and> sr_name r = replica_name name i \<and>
       placements_get p (sr_name r) = Some (sr_node r) \<and> is_ok (resolve rg (sr_node r) now) \<and>
       is_jail_running rg (sr_node r) (sr_name r) \<and> address_of used (sr_name r) = Some a \<and>
       sr_address r = show_ipv4addr a)"
proof -
  have "r \<in> set (healthy_replicas name p rg used now) \<longleftrightarrow>
    (\<exists>j n i a. (j, n) \<in> set p \<and> replica_index name j = Some i \<and> is_ok (resolve rg n now) \<and>
       is_jail_running rg n j \<and> address_of used j = Some a \<and>
       r = \<lparr>sr_name = j, sr_node = n, sr_address = show_ipv4addr a\<rparr>)"
    by (force simp: healthy_replicas_def set_map_filter placements_iter_def split: option.splits if_splits)
  also have "\<dots> \<longleftrightarrow> (\<exists>i a. i \<le> u32_max \<and> sr_name r = replica_name name i \<and>
       placements_get p (sr_name r) = Some (sr_node r) \<and> is_ok (resolve rg (sr_node r) now) \<and>
       is_jail_running rg (sr_node r) (sr_name r) \<and> address_of used (sr_name r) = Some a \<and>
       sr_address r = show_ipv4addr a)"
    by (cases r) (auto simp: replica_index_Some_iff placements_get_def hm_get_iff [OF assms, symmetric])
  finally show ?thesis .
qed

text \<open>C28: \<open>GET /services/name\<close> and the entries sent with every heartbeat list the same replicas: all
  and only those recorded under one of the service's names on a node that resolves, reported running
  by that node's last heartbeat, with a recorded address.\<close>

theorem discovery_exact:
  assumes "cp_inv api st" "services_get (cp_services st) name = Some rec"
  shows "\<exists>rs. discover_service now name st = Ok rs \<and>
    (\<exists>e \<in> set (list_service_proxy_entries now st). pe_name e = name \<and> pe_replicas e = rs \<and>
       pe_vip e = show_ipv4addr (srv_vip rec)) \<and>
    sorted (map sr_name rs) \<and>
    (\<forall>r. r \<in> set rs \<longleftrightarrow> (\<exists>i a. i \<le> u32_max \<and> sr_name r = replica_name name i \<and>
       placements_get (cp_placements st) (sr_name r) = Some (sr_node r) \<and>
       is_ok (resolve (cp_registry st) (sr_node r) now) \<and>
       is_jail_running (cp_registry st) (sr_node r) (sr_name r) \<and>
       address_of (cp_used st) (sr_name r) = Some a \<and> sr_address r = show_ipv4addr a))"
proof -
  let ?rs = "healthy_replicas name (cp_placements st) (cp_registry st) (cp_used st) now"
  have wf: "hm_wf (cp_placements st)" "hm_wf (sv_by_name (cp_services st))"
    using assms(1) by (auto simp: cp_inv_def services_inv_def)
  have "discover_service now name st = Ok ?rs" using assms(2) by (simp add: discover_service_def)
  moreover have "\<exists>e \<in> set (list_service_proxy_entries now st). pe_name e = name \<and> pe_replicas e = ?rs \<and>
      pe_vip e = show_ipv4addr (srv_vip rec)"
    using set_services_list [OF wf(2), of name rec] assms(2)
    by (force simp: list_service_proxy_entries_def)
  moreover have "sorted (map sr_name ?rs)" by (simp add: healthy_replicas_def)
  ultimately show ?thesis using set_healthy [OF wf(1)] by blast
qed

theorem discovery_exact_witness:
  "\<exists>rs. discover_service ex_now ''w'' ex_failed = Ok rs \<and> sorted (map sr_name rs) \<and>
     (\<forall>r \<in> set rs. is_ok (resolve (cp_registry ex_failed) (sr_node r) ex_now))"
proof -
  have inv: "cp_inv ipnet_ref ex_failed" by (rule ex_inv) (simp_all add: hm_wf_def)
  have "services_get (cp_services ex_failed) ''w'' = Some ex_service" by (simp add: services_get_def ex_cp_def)
  from discovery_exact [OF inv this, of ex_now] show ?thesis by blast
qed

section \<open>Properties of applying and deleting a service\<close>

lemma all_from: "(i :: nat) < d \<Longrightarrow>
    (\<forall>k. i \<le> k \<longrightarrow> k < d \<longrightarrow> P k) \<longleftrightarrow> P i \<and> (\<forall>k. i + 1 \<le> k \<longrightarrow> k < d \<longrightarrow> P k)"
  by (metis Suc_eq_plus1 Suc_le_eq le_neq_implies_less less_imp_le_nat order_refl)

lemma name_conflict_None_iff:
  "name_conflict n p s i d = None \<longleftrightarrow>
     (\<forall>k. i \<le> k \<longrightarrow> k < d \<longrightarrow> owner_of (replica_name n k) p s \<in> {None, Some (OwnedBy n)})"
proof (induction n p s i d rule: name_conflict.induct)
  case (1 n p s i d)
  show ?case
  proof (cases "i \<ge> d")
    case True
    then show ?thesis by (auto simp: name_conflict.simps)
  next
    case False
    then have "i < d" by simp
    note split = all_from [OF this, of "\<lambda>k. owner_of (replica_name n k) p s \<in> {None, Some (OwnedBy n)}"]
    have "name_conflict n p s i d = None \<longleftrightarrow>
        owner_of (replica_name n i) p s \<in> {None, Some (OwnedBy n)} \<and> name_conflict n p s (i + 1) d = None"
      by (subst name_conflict.simps) (use False in \<open>auto split: option.splits\<close>)
    also have "\<dots> \<longleftrightarrow> owner_of (replica_name n i) p s \<in> {None, Some (OwnedBy n)} \<and>
        (\<forall>k. i + 1 \<le> k \<longrightarrow> k < d \<longrightarrow> owner_of (replica_name n k) p s \<in> {None, Some (OwnedBy n)})"
      using 1 False by blast
    finally show ?thesis unfolding split .
  qed
qed

lemma name_conflict_Some:
  "name_conflict n p s i d = Some e \<Longrightarrow>
     \<exists>k ow. i \<le> k \<and> k < d \<and> owner_of (replica_name n k) p s = Some ow \<and> ow \<noteq> OwnedBy n \<and>
       e = NameConflict (replica_name n k) ow"
proof (induction n p s i d rule: name_conflict.induct)
  case (1 n p s i d)
  show ?case
  proof (cases "i \<ge> d \<or> (\<exists>ow. owner_of (replica_name n i) p s = Some ow \<and> ow \<noteq> OwnedBy n)")
    case True
    then show ?thesis using "1.prems" by (subst (asm) name_conflict.simps) (auto split: if_splits)
  next
    case False
    then have "name_conflict n p s (i + 1) d = Some e"
      using "1.prems" by (subst (asm) name_conflict.simps) (auto split: option.splits if_splits)
    with False "1.IH" show ?thesis
      by (cases "owner_of (replica_name n i) p s") (fastforce dest: Suc_leD)+
  qed
qed

lemma services_apply_Ok:
  assumes "services_apply api n d t p s = Some (Ok u, s')"
  shows "\<exists>q. services_get s' n = Some q \<and> srv_desired_replicas q = d \<and> srv_template q = t \<and> srv_port q = p \<and>
    sv_service_cidr s' = sv_service_cidr s \<and>
    (\<forall>old. services_get s n = Some old \<longrightarrow> srv_vip q = srv_vip old)"
  using assms
  by (auto simp: services_apply_def services_get_def Let_def split: option.splits if_splits)

text \<open>Applying a service succeeds only when each replica name it may use is free or already its
  own; a new service then has a virtual address of the service network that no other service has, and
  an existing one keeps its address, template and port. When it fails, the state is unchanged.\<close>

lemma apply_service_spec:
  assumes "ipnet_crate api" "cp_inv api st" "apply_service api n d t p st = Some (r, st')"
  shows "(case r of
      Err e \<Rightarrow> st' = st
    | Ok _ \<Rightarrow> (\<forall>k < d. owner_of (replica_name n k) (cp_placements st) (cp_services st) \<in> {None, Some (OwnedBy n)}) \<and>
       (\<exists>q. services_get (cp_services st') n = Some q \<and> srv_desired_replicas q = d \<and> srv_template q = t \<and>
          srv_port q = p \<and> in_net (sv_service_cidr (cp_services st)) (srv_vip q) \<and>
          (\<forall>m q'. services_get (cp_services st') m = Some q' \<longrightarrow> srv_vip q' = srv_vip q \<longrightarrow> m = n) \<and>
          (\<forall>old. services_get (cp_services st) n = Some old \<longrightarrow> srv_vip q = srv_vip old)))"
proof -
  from assms(3) consider e where "r = Err e" "st' = st" |
    s where "name_conflict n (cp_placements st) (cp_services st) 0 d = None"
      "services_apply api n d t p (cp_services st) = Some (r, s)" "st' = st\<lparr>cp_services := s\<rparr>"
    by (auto simp: apply_service_def split: option.splits)
  then show ?thesis
  proof cases
    case 2
    have inv: "services_inv s" using 2 assms by (auto simp: cp_inv_def intro: services_inv_apply)
    show ?thesis
    proof (cases r)
      case (Ok u)
      from services_apply_Ok [OF 2(2) [unfolded Ok]] Ok 2 inv show ?thesis
        by (auto simp: name_conflict_None_iff services_inv_def services_get_def)
    next
      case (Err e)
      with 2(2) have "s = cp_services st"
        by (auto simp: services_apply_def Let_def split: option.splits if_splits)
      with Err 2 show ?thesis by simp
    qed
  qed auto
qed

text \<open>C32: Deleting a service while the node of one of its replicas is not reachable leaves that
  replica's placement behind, and the service can then not be applied again: the name counts as that of
  an unmanaged jail.\<close>

theorem delete_then_apply_conflicts:
  assumes "cp_inv api st" "services_get (cp_services st) n = Some rec"
    and "placements_get (cp_placements st) (replica_name n 0) = Some node" "0 < d"
    and "\<not> is_ok (resolve (cp_registry st) node now)"
  shows "\<exists>acts st'. delete_service now n st = (Ok acts, st') \<and>
    placements_get (cp_placements st') (replica_name n 0) = Some node \<and>
    (\<forall>m addr. TearDown (replica_name n 0) m addr \<notin> set acts) \<and>
    apply_service api n d t p st' = Some (Err (NameConflict (replica_name n 0) Unmanaged), st')"
proof -
  let ?st' = "st\<lparr>cp_services := services_remove n (cp_services st)\<rparr>"
  obtain acts where acts: "delete_service now n st = (Ok acts, ?st')"
    using assms(2) by (simp add: delete_service_def)
  have wf: "hm_wf (cp_placements st)" using assms(1) by (simp add: cp_inv_def)
  have "TearDown (replica_name n 0) m addr \<notin> set acts" for m addr
  proof
    assume "TearDown (replica_name n 0) m addr \<in> set acts"
    then have "hm_get (cp_placements st) (replica_name n 0) = Some m" "resolve (cp_registry st) m now = Ok addr"
      using acts assms(2) unfolding delete_service_def
      by (auto simp: set_map_filter placements_iter_def hm_get_iff [OF wf] split: option.splits)
    with assms(3,5) show False by (simp add: placements_get_def)
  qed
  moreover have "owner_of (replica_name n 0) (cp_placements ?st') (cp_services ?st') = Some Unmanaged"
    using assms(3) by (auto simp: owner_of_Unmanaged_iff services_names_def services_remove_def delete_keys)
      (metis not_Some_eq replica_index_Some_iff replica_name_inj)
  then have "name_conflict n (cp_placements ?st') (cp_services ?st') 0 d = Some (NameConflict (replica_name n 0) Unmanaged)"
    using assms(4) by (subst name_conflict.simps) simp
  ultimately show ?thesis using acts assms(3) by (auto simp: apply_service_def)
qed

theorem delete_then_apply_conflicts_witness:
  "\<exists>acts st'. delete_service ex_now ''w'' ex_failed = (Ok acts, st') \<and>
     apply_service ipnet_ref ''w'' 2 ex_template 80 st' = Some (Err (NameConflict ''w-0'' Unmanaged), st')"
proof -
  have inv: "cp_inv ipnet_ref ex_failed" by (rule ex_inv) (simp_all add: hm_wf_def)
  have g: "services_get (cp_services ex_failed) ''w'' = Some ex_service" by (simp add: services_get_def ex_cp_def)
  have p: "placements_get (cp_placements ex_failed) (replica_name ''w'' 0) = Some ''a''"
    by (simp add: table_defs ex_cp_def ex_names)
  have d: "\<not> is_ok (resolve (cp_registry ex_failed) ''a'' ex_now)" by (simp add: ex_resolve)
  from delete_then_apply_conflicts [OF inv g p _ d, of 2 ex_template 80] show ?thesis by (auto simp: ex_names)
qed

end
