(* ===== verification/Cp_Http.thy ===== *)
theory Cp_Http
  imports Cp_Plan Keel_Http
begin

text \<open>
  \<open>keel-controlplane/src/http.rs\<close>: the request handlers. A handler talks to the worker thread by
  commands and to the nodes by forwarded requests. Its state is the worker (\<open>None\<close> once that thread
  has panicked) and the world outside, of any type: \<open>env_exchange\<close> is what the network does with a
  request (the bytes received, or an error), \<open>env_now\<close> the clock. The texts of error messages are
  values of \<open>message\<close>, and the YAML rendering of a body is left to the type \<open>resp_body\<close>;
  parsing YAML is an argument.
\<close>

section \<open>Messages, bodies, environment\<close>

datatype message =
    MNotRunning
  | MNoResponse
  | MSchedule schedule_error
  | MResolve resolve_error
  | MPlacement placement_error
  | MUnreachable string string string
  | MForceRepin force_repin_error
  | MNotReplicated string string
  | MReadiness nat string
  | MLossy string
  | MNameInUse string string
  | MInvalidSpec spec_error
  | MNameMismatch string string
  | MApply apply_service_error
  | MUnknownService string
  | MUnknownNode string
  | MInvalidYaml string
  | MCollision pod_cidr_collision
  | MNoRoute string string

datatype resp_body =
    BError message
  | BRaw string
  | BReplicas "service_replica list"
  | BSummaries "service_summary list"
  | BEntries "service_proxy_entry list"
  | BStatuses "node_status list"
  | BPodCidr string

datatype req_body = QRaw string | QSpec jail_spec

type_synonym response = "nat \<times> resp_body"

record node_registration =
  ng_id :: string
  ng_addr :: string
  ng_replicate_addr :: "string option"
  ng_capacity_cpu :: f64
  ng_capacity_memory :: nat

record heartbeat_body =
  hb_committed_cpu :: f64
  hb_committed_memory :: nat
  hb_jails :: "jail_health list"

record 'w env =
  env_api :: ipnet_api
  env_now :: "'w \<Rightarrow> instant"
  env_exchange :: "string \<Rightarrow> string \<Rightarrow> string \<Rightarrow> req_body \<Rightarrow> 'w \<Rightarrow> (string, string) result \<times> 'w"
  env_parse_response :: "string \<Rightarrow> response_head parse_status"
  env_registration :: "string \<Rightarrow> (node_registration, string) result"
  env_heartbeat :: "string \<Rightarrow> (heartbeat_body, string) result"
  env_service :: "string \<Rightarrow> (service_spec, string) result"

type_synonym 'w hstate = "cp_state option \<times> 'w"

datatype sent = NotRunning | NoResponse | Reply reply

text \<open>\<open>commands.send\<close> followed by \<open>reply_rx.recv\<close>: the first fails when the worker is gone, the
  second when it panics on this command.\<close>

definition send :: "'w env \<Rightarrow> command \<Rightarrow> 'w hstate \<Rightarrow> sent \<times> 'w hstate" where
  "send env c = (\<lambda>(worker, w).
     case worker of
       None \<Rightarrow> (NotRunning, (None, w))
     | Some st \<Rightarrow>
         (case handle_command (env_api env) (env_now env w) c st of
            None \<Rightarrow> (NoResponse, (None, w))
          | Some (r, st') \<Rightarrow> (Reply r, (Some st', w))))"

definition error_response :: "nat \<Rightarrow> message \<Rightarrow> response" where
  "error_response status m = (status, BError m)"

text \<open>What every handler answers when the worker does not.\<close>

definition worker_failed :: "sent \<Rightarrow> response" where
  "worker_failed s = error_response 500 (if s = NotRunning then MNotRunning else MNoResponse)"

definition forward ::
    "'w env \<Rightarrow> string \<Rightarrow> string \<Rightarrow> string \<Rightarrow> req_body \<Rightarrow> 'w hstate \<Rightarrow> (nat \<times> string, string) result \<times> 'w hstate" where
  "forward env addr http_method path body = (\<lambda>(worker, w).
     case env_exchange env addr http_method path body w of
       (Ok bytes, w') \<Rightarrow> (check_response (env_parse_response env) bytes, (worker, w'))
     | (Err e, w') \<Rightarrow> (Err e, (worker, w')))"

definition success :: "nat \<Rightarrow> bool" where
  "success status \<longleftrightarrow> 200 \<le> status \<and> status < 300"

section \<open>Single commands\<close>

definition send_record_placement :: "'w env \<Rightarrow> string \<Rightarrow> string \<Rightarrow> 'w hstate \<Rightarrow> 'w hstate" where
  "send_record_placement env name node_id hs = snd (send env (CRecordPlacement name node_id) hs)"

definition send_remove_placement :: "'w env \<Rightarrow> string \<Rightarrow> 'w hstate \<Rightarrow> 'w hstate" where
  "send_remove_placement env name hs = snd (send env (CRemovePlacement name) hs)"

definition send_record_replica_address :: "'w env \<Rightarrow> string \<Rightarrow> string \<Rightarrow> u32 \<Rightarrow> 'w hstate \<Rightarrow> 'w hstate" where
  "send_record_replica_address env name node_id address hs =
     snd (send env (CRecordReplicaAddress name node_id address) hs)"

definition send_release_replica_address :: "'w env \<Rightarrow> string \<Rightarrow> 'w hstate \<Rightarrow> 'w hstate" where
  "send_release_replica_address env name hs = snd (send env (CReleaseReplicaAddress name) hs)"

definition send_record_standby :: "'w env \<Rightarrow> string \<Rightarrow> string \<Rightarrow> 'w hstate \<Rightarrow> 'w hstate" where
  "send_record_standby env name node_id hs = snd (send env (CRecordStandby name node_id) hs)"

definition send_record_pending_fence :: "'w env \<Rightarrow> string \<Rightarrow> string \<Rightarrow> 'w hstate \<Rightarrow> 'w hstate" where
  "send_record_pending_fence env name node_id hs = snd (send env (CRecordPendingFence name node_id) hs)"

definition send_remove_pending_fence :: "'w env \<Rightarrow> string \<Rightarrow> 'w hstate \<Rightarrow> 'w hstate" where
  "send_remove_pending_fence env name hs = snd (send env (CRemovePendingFence name) hs)"

lemmas send_defs = send_record_placement_def send_remove_placement_def send_record_replica_address_def
  send_release_replica_address_def send_record_standby_def send_record_pending_fence_def
  send_remove_pending_fence_def

definition resolve_placement :: "'w env \<Rightarrow> string \<Rightarrow> 'w hstate \<Rightarrow> (string \<times> string, response) result \<times> 'w hstate" where
  "resolve_placement env name hs =
     (case send env (CResolvePlacement name) hs of
        (Reply (RResolvePlacement (Ok pair)), hs') \<Rightarrow> (Ok pair, hs')
      | (Reply (RResolvePlacement (Err e)), hs') \<Rightarrow> (Err (error_response 404 (MPlacement e)), hs')
      | (s, hs') \<Rightarrow> (Err (worker_failed s), hs'))"

definition reject_if_service_owned :: "'w env \<Rightarrow> string \<Rightarrow> 'w hstate \<Rightarrow> response option \<times> 'w hstate" where
  "reject_if_service_owned env name hs =
     (case send env (COwnerOf name) hs of
        (Reply (ROwnerOf (Some (OwnedBy ow))), hs') \<Rightarrow> (Some (error_response 400 (MNameInUse name ow)), hs')
      | (Reply (ROwnerOf _), hs') \<Rightarrow> (None, hs')
      | (s, hs') \<Rightarrow> (Some (worker_failed s), hs'))"

section \<open>Executing a plan\<close>

definition jails_path :: "string \<Rightarrow> string" where
  "jails_path name = ''/jails/'' @ name"

definition replica_spec :: "jail_template \<Rightarrow> string \<Rightarrow> u32 \<Rightarrow> nat \<Rightarrow> string option \<Rightarrow> jail_spec" where
  "replica_spec template name address prefix_len standby_addr =
     (let spec = to_jail_spec template name (show_ipv4addr address @ ''/'' @ show_nat prefix_len)
      in spec\<lparr>js_spec := (js_spec spec)\<lparr>sp_replicate_to := standby_addr\<rparr>\<rparr>)"

fun execute_replica_action :: "'w env \<Rightarrow> replica_action \<Rightarrow> 'w hstate \<Rightarrow> 'w hstate" where
  "execute_replica_action env (Schedule a) hs =
     (case forward env (sa_node_addr a) ''PUT'' (jails_path (sa_replica_name a))
        (QSpec (replica_spec (sa_template a) (sa_replica_name a) (sa_address a) (sa_prefix_len a) (sa_standby_addr a))) hs of
        (Ok (status, _), hs1) \<Rightarrow>
          if success status then
            (let hs2 = send_record_placement env (sa_replica_name a) (sa_node_id a) hs1;
                 hs3 = send_record_replica_address env (sa_replica_name a) (sa_node_id a) (sa_address a) hs2
             in case sa_standby_node_id a of
                  Some standby_id \<Rightarrow> send_record_standby env (sa_replica_name a) standby_id hs3
                | None \<Rightarrow> hs3)
          else hs1
      | (Err _, hs1) \<Rightarrow> hs1)"
| "execute_replica_action env (TearDown name node_id node_addr) hs =
     (case forward env node_addr ''DELETE'' (jails_path name) (QRaw []) hs of
        (Ok (status, _), hs1) \<Rightarrow>
          if success status then send_release_replica_address env name (send_remove_placement env name hs1)
          else hs1
      | (Err _, hs1) \<Rightarrow> hs1)"

definition execute_replica_actions :: "'w env \<Rightarrow> replica_action list \<Rightarrow> 'w hstate \<Rightarrow> 'w hstate" where
  "execute_replica_actions env actions hs = fold (execute_replica_action env) actions hs"

definition reconcile_and_execute :: "'w env \<Rightarrow> 'w hstate \<Rightarrow> 'w hstate" where
  "reconcile_and_execute env hs =
     (case send env CReconcileServices hs of
        (Reply (RActions actions), hs') \<Rightarrow> execute_replica_actions env actions hs'
      | (_, hs') \<Rightarrow> hs')"

definition fence_one :: "'w env \<Rightarrow> string \<Rightarrow> string \<Rightarrow> 'w hstate \<Rightarrow> 'w hstate" where
  "fence_one env addr replica hs =
     (case forward env addr ''DELETE'' (jails_path replica) (QRaw []) hs of
        (Ok (status, _), hs1) \<Rightarrow>
          if success status \<or> status = 404 then send_remove_pending_fence env replica hs1 else hs1
      | (Err _, hs1) \<Rightarrow> hs1)"

definition check_and_execute_fencing :: "'w env \<Rightarrow> string \<Rightarrow> 'w hstate \<Rightarrow> 'w hstate" where
  "check_and_execute_fencing env node_id hs =
     (case send env (CPendingFencesForNode node_id) hs of
        (Reply (RNames names), hs1) \<Rightarrow>
          if names = [] then hs1
          else (case send env (CResolve node_id) hs1 of
             (Reply (RResolve (Ok addr)), hs2) \<Rightarrow> fold (fence_one env addr) names hs2
           | (_, hs2) \<Rightarrow> hs2)
      | (_, hs1) \<Rightarrow> hs1)"

section \<open>The handlers\<close>

definition handle_scheduled_apply :: "'w env \<Rightarrow> string \<Rightarrow> string \<Rightarrow> 'w hstate \<Rightarrow> response \<times> 'w hstate" where
  "handle_scheduled_apply env name body hs =
     (case send env (CResolveOrSchedule name) hs of
        (Reply (RResolveOrSchedule (Ok (node_id, addr))), hs1) \<Rightarrow>
          (case forward env addr ''PUT'' (jails_path name) (QRaw body) hs1 of
             (Ok (status, resp), hs2) \<Rightarrow>
               ((status, BRaw resp),
                if success status then send_record_placement env name node_id hs2 else hs2)
           | (Err e, hs2) \<Rightarrow> (error_response 500 (MUnreachable node_id addr e), hs2))
      | (Reply (RResolveOrSchedule (Err (SrSchedule e))), hs1) \<Rightarrow> (error_response 503 (MSchedule e), hs1)
      | (Reply (RResolveOrSchedule (Err (SrResolve e))), hs1) \<Rightarrow> (error_response 404 (MResolve e), hs1)
      | (s, hs1) \<Rightarrow> (worker_failed s, hs1))"

definition handle_scheduled_read :: "'w env \<Rightarrow> string \<Rightarrow> 'w hstate \<Rightarrow> response \<times> 'w hstate" where
  "handle_scheduled_read env name hs =
     (case resolve_placement env name hs of
        (Err r, hs1) \<Rightarrow> (r, hs1)
      | (Ok (node_id, addr), hs1) \<Rightarrow>
          (case forward env addr ''GET'' (jails_path name) (QRaw []) hs1 of
             (Ok (status, resp), hs2) \<Rightarrow> ((status, BRaw resp), hs2)
           | (Err e, hs2) \<Rightarrow> (error_response 500 (MUnreachable node_id addr e), hs2)))"

definition handle_scheduled_delete :: "'w env \<Rightarrow> string \<Rightarrow> 'w hstate \<Rightarrow> response \<times> 'w hstate" where
  "handle_scheduled_delete env name hs =
     (case resolve_placement env name hs of
        (Err r, hs1) \<Rightarrow> (r, hs1)
      | (Ok (node_id, addr), hs1) \<Rightarrow>
          (case forward env addr ''DELETE'' (jails_path name) (QRaw []) hs1 of
             (Ok (status, resp), hs2) \<Rightarrow>
               ((status, BRaw resp), if success status then send_remove_placement env name hs2 else hs2)
           | (Err e, hs2) \<Rightarrow> (error_response 500 (MUnreachable node_id addr e), hs2)))"

text \<open>\<open>handle_force_repin\<close> in its three steps: prepare, ask the standby whether it is ready,
  provision it and record the new situation.\<close>

definition record_repin :: "'w env \<Rightarrow> string \<Rightarrow> force_repin_prep \<Rightarrow> 'w hstate \<Rightarrow> 'w hstate" where
  "record_repin env name prep hs =
     (let hs1 = send_record_placement env name (fp_standby_node_id prep) hs;
          hs2 = send_record_replica_address env name (fp_standby_node_id prep) (fp_address prep) hs1;
          hs3 = send_record_standby env name (fp_fresh_standby_node_id prep) hs2
      in send_record_pending_fence env name (fp_old_node_id prep) hs3)"

definition provision_repin :: "'w env \<Rightarrow> string \<Rightarrow> force_repin_prep \<Rightarrow> 'w hstate \<Rightarrow> response \<times> 'w hstate" where
  "provision_repin env name prep hs =
     (case forward env (fp_standby_addr prep) ''PUT'' (jails_path name)
        (QSpec (replica_spec (fp_template prep) name (fp_address prep) (fp_prefix_len prep)
          (Some (fp_fresh_standby_addr prep)))) hs of
        (Ok (status, resp), hs1) \<Rightarrow>
          if success status then ((200, BRaw resp), record_repin env name prep hs1)
          else (error_response status (MLossy resp), hs1)
      | (Err e, hs1) \<Rightarrow>
          (error_response 500 (MUnreachable (fp_standby_node_id prep) (fp_standby_addr prep) e), hs1))"

definition handle_force_repin :: "'w env \<Rightarrow> string \<Rightarrow> 'w hstate \<Rightarrow> response \<times> 'w hstate" where
  "handle_force_repin env name hs =
     (case send env (CPrepareForceRepin name) hs of
        (Reply (RPrepare (Ok prep)), hs1) \<Rightarrow>
          (case forward env (fp_standby_addr prep) ''GET'' (''/replica-targets/'' @ name) (QRaw []) hs1 of
             (Ok (status, resp), hs2) \<Rightarrow>
               if success status then provision_repin env name prep hs2
               else if status = 404 \<or> status = 409
                 then (error_response 409 (MNotReplicated (fp_standby_node_id prep) name), hs2)
               else (error_response 500 (MReadiness status resp), hs2)
           | (Err e, hs2) \<Rightarrow>
               (error_response 500 (MUnreachable (fp_standby_node_id prep) (fp_standby_addr prep) e), hs2))
      | (Reply (RPrepare (Err e)), hs1) \<Rightarrow>
          (error_response (case e of FrNotPlaced _ \<Rightarrow> 404 | FrNotStateful _ \<Rightarrow> 400
             | FrPrimaryStillAlive _ \<Rightarrow> 409 | _ \<Rightarrow> 503) (MForceRepin e), hs1)
      | (s, hs1) \<Rightarrow> (worker_failed s, hs1))"

definition handle_apply_service :: "'w env \<Rightarrow> string \<Rightarrow> string \<Rightarrow> 'w hstate \<Rightarrow> response \<times> 'w hstate" where
  "handle_apply_service env name body hs =
     (case parse_and_validate_service (env_service env) body of
        Err e \<Rightarrow> (error_response 400 (MInvalidSpec e), hs)
      | Ok spec \<Rightarrow>
          if md_name (ss_metadata spec) \<noteq> name
          then (error_response 400 (MNameMismatch name (md_name (ss_metadata spec))), hs)
          else
            (case send env (CApplyService name (sb_replicas (ss_spec spec)) (sb_template (ss_spec spec))
                   (sb_port (ss_spec spec))) hs of
               (Reply (RApplyService (Ok _)), hs1) \<Rightarrow> ((200, BRaw []), reconcile_and_execute env hs1)
             | (Reply (RApplyService (Err e)), hs1) \<Rightarrow>
                 (error_response (case e of TemplateChanged _ \<Rightarrow> 409 | PortChanged _ \<Rightarrow> 409
                    | NameConflict _ _ \<Rightarrow> 400 | VipPoolExhausted _ \<Rightarrow> 503) (MApply e), hs1)
             | (s, hs1) \<Rightarrow> (worker_failed s, hs1)))"

definition handle_get_service :: "'w env \<Rightarrow> string \<Rightarrow> 'w hstate \<Rightarrow> response \<times> 'w hstate" where
  "handle_get_service env name hs =
     (case send env (CDiscoverService name) hs of
        (Reply (RDiscover (Ok replicas)), hs1) \<Rightarrow> ((200, BReplicas replicas), hs1)
      | (Reply (RDiscover (Err e)), hs1) \<Rightarrow> (error_response 404 (MUnknownService e), hs1)
      | (s, hs1) \<Rightarrow> (worker_failed s, hs1))"

definition handle_list_services :: "'w env \<Rightarrow> 'w hstate \<Rightarrow> response \<times> 'w hstate" where
  "handle_list_services env hs =
     (case send env CListServices hs of
        (Reply (RSummaries summaries), hs1) \<Rightarrow> ((200, BSummaries summaries), hs1)
      | (s, hs1) \<Rightarrow> (worker_failed s, hs1))"

definition handle_delete_service :: "'w env \<Rightarrow> string \<Rightarrow> 'w hstate \<Rightarrow> response \<times> 'w hstate" where
  "handle_delete_service env name hs =
     (case send env (CDeleteService name) hs of
        (Reply (RDelete (Ok actions)), hs1) \<Rightarrow> ((200, BRaw []), execute_replica_actions env actions hs1)
      | (Reply (RDelete (Err e)), hs1) \<Rightarrow> (error_response 404 (MUnknownService e), hs1)
      | (s, hs1) \<Rightarrow> (worker_failed s, hs1))"

definition handle_register :: "'w env \<Rightarrow> string \<Rightarrow> 'w hstate \<Rightarrow> response \<times> 'w hstate" where
  "handle_register env body hs =
     (case env_registration env body of
        Err e \<Rightarrow> (error_response 400 (MInvalidYaml e), hs)
      | Ok g \<Rightarrow>
          (case send env (CRegister (ng_id g) (ng_addr g) (ng_replicate_addr g) (ng_capacity_cpu g)
                 (ng_capacity_memory g)) hs of
             (Reply (RRegister (Ok cidr)), hs1) \<Rightarrow> ((200, BPodCidr (api_show_ipv4net (env_api env) cidr)), hs1)
           | (Reply (RRegister (Err e)), hs1) \<Rightarrow> (error_response 409 (MCollision e), hs1)
           | (s, hs1) \<Rightarrow> (worker_failed s, hs1)))"

definition handle_heartbeat :: "'w env \<Rightarrow> string \<Rightarrow> string \<Rightarrow> 'w hstate \<Rightarrow> response \<times> 'w hstate" where
  "handle_heartbeat env nid body hs =
     (case env_heartbeat env body of
        Err e \<Rightarrow> (error_response 400 (MInvalidYaml e), hs)
      | Ok hb \<Rightarrow>
          (case send env (CHeartbeat nid (hb_committed_cpu hb) (hb_committed_memory hb) (hb_jails hb)) hs of
             (Reply (RHeartbeat (Ok _)), hs1) \<Rightarrow>
               (let hs2 = reconcile_and_execute env hs1;
                    hs3 = check_and_execute_fencing env nid hs2
                in case send env CListServiceProxyEntries hs3 of
                     (Reply (REntries entries), hs4) \<Rightarrow> ((200, BEntries entries), hs4)
                   | (s, hs4) \<Rightarrow> (worker_failed s, hs4))
           | (Reply (RHeartbeat (Err e)), hs1) \<Rightarrow> (error_response 404 (MUnknownNode e), hs1)
           | (s, hs1) \<Rightarrow> (worker_failed s, hs1)))"

definition handle_list :: "'w env \<Rightarrow> 'w hstate \<Rightarrow> response \<times> 'w hstate" where
  "handle_list env hs =
     (case send env CList hs of
        (Reply (RList statuses), hs1) \<Rightarrow> ((200, BStatuses statuses), hs1)
      | (s, hs1) \<Rightarrow> (worker_failed s, hs1))"

definition handle_forward ::
    "'w env \<Rightarrow> string \<Rightarrow> string \<Rightarrow> string \<Rightarrow> string \<Rightarrow> 'w hstate \<Rightarrow> response \<times> 'w hstate" where
  "handle_forward env nid http_method path body hs =
     (case send env (CResolve nid) hs of
        (Reply (RResolve (Ok addr)), hs1) \<Rightarrow>
          (case forward env addr http_method path (QRaw body) hs1 of
             (Ok (status, resp), hs2) \<Rightarrow> ((status, BRaw resp), hs2)
           | (Err e, hs2) \<Rightarrow> (error_response 500 (MUnreachable nid addr e), hs2))
      | (Reply (RResolve (Err e)), hs1) \<Rightarrow> (error_response 404 (MResolve e), hs1)
      | (s, hs1) \<Rightarrow> (worker_failed s, hs1))"

definition put_node_jail :: "'w env \<Rightarrow> string \<Rightarrow> string \<Rightarrow> string \<Rightarrow> 'w hstate \<Rightarrow> response \<times> 'w hstate" where
  "put_node_jail env nid name body hs =
     (case reject_if_service_owned env name hs of
        (Some r, hs1) \<Rightarrow> (r, hs1)
      | (None, hs1) \<Rightarrow>
          (case handle_forward env nid ''PUT'' (jails_path name) body hs1 of
             ((status, b), hs2) \<Rightarrow>
               ((status, b), if success status then send_record_placement env name nid hs2 else hs2)))"

definition delete_node_jail :: "'w env \<Rightarrow> string \<Rightarrow> string \<Rightarrow> 'w hstate \<Rightarrow> response \<times> 'w hstate" where
  "delete_node_jail env nid name hs =
     (case handle_forward env nid ''DELETE'' (jails_path name) [] hs of
        ((status, b), hs1) \<Rightarrow>
          ((status, b), if success status then send_remove_placement env name hs1 else hs1))"

definition put_jail :: "'w env \<Rightarrow> string \<Rightarrow> string \<Rightarrow> 'w hstate \<Rightarrow> response \<times> 'w hstate" where
  "put_jail env name body hs =
     (case reject_if_service_owned env name hs of
        (Some r, hs1) \<Rightarrow> (r, hs1)
      | (None, hs1) \<Rightarrow> handle_scheduled_apply env name body hs1)"

definition route :: "'w env \<Rightarrow> parsed_request \<Rightarrow> 'w hstate \<Rightarrow> response \<times> 'w hstate" where
  "route env req hs =
     (let m = pr_method req; body = pr_body req
      in case path_segments (pr_path req) of
        [x] \<Rightarrow>
          if m = ''GET'' \<and> x = ''nodes'' then handle_list env hs
          else if m = ''GET'' \<and> x = ''services'' then handle_list_services env hs
          else (error_response 404 (MNoRoute m (pr_path req)), hs)
      | [x, y] \<Rightarrow>
          if m = ''POST'' \<and> x = ''nodes'' \<and> y = ''register'' then handle_register env body hs
          else if m = ''PUT'' \<and> x = ''jails'' then put_jail env y body hs
          else if m = ''GET'' \<and> x = ''jails'' then handle_scheduled_read env y hs
          else if m = ''DELETE'' \<and> x = ''jails'' then handle_scheduled_delete env y hs
          else if m = ''PUT'' \<and> x = ''services'' then handle_apply_service env y body hs
          else if m = ''GET'' \<and> x = ''services'' then handle_get_service env y hs
          else if m = ''DELETE'' \<and> x = ''services'' then handle_delete_service env y hs
          else (error_response 404 (MNoRoute m (pr_path req)), hs)
      | [x, y, z] \<Rightarrow>
          if m = ''POST'' \<and> x = ''nodes'' \<and> z = ''heartbeat'' then handle_heartbeat env y body hs
          else if m = ''GET'' \<and> x = ''nodes'' \<and> z = ''jails'' then handle_forward env y ''GET'' ''/jails'' [] hs
          else if m = ''POST'' \<and> x = ''replicas'' \<and> z = ''force-repin'' then handle_force_repin env y hs
          else (error_response 404 (MNoRoute m (pr_path req)), hs)
      | [x, y, z, v] \<Rightarrow>
          if m = ''PUT'' \<and> x = ''nodes'' \<and> z = ''jails'' then put_node_jail env y v body hs
          else if m = ''GET'' \<and> x = ''nodes'' \<and> z = ''jails'' then handle_forward env y ''GET'' (jails_path v) [] hs
          else if m = ''DELETE'' \<and> x = ''nodes'' \<and> z = ''jails'' then delete_node_jail env y v hs
          else if m = ''GET'' \<and> x = ''nodes'' \<and> z = ''volumes''
            then handle_forward env y ''GET'' (''/volumes/'' @ v) [] hs
          else if m = ''DELETE'' \<and> x = ''nodes'' \<and> z = ''volumes''
            then handle_forward env y ''DELETE'' (''/volumes/'' @ v) [] hs
          else (error_response 404 (MNoRoute m (pr_path req)), hs)
      | _ \<Rightarrow> (error_response 404 (MNoRoute m (pr_path req)), hs))"

text \<open>A whole connection: nothing is written when no complete request arrives. The rendering of a body is an argument.\<close>

definition cp_connection :: "'w env \<Rightarrow> (string \<Rightarrow> request_head parse_status) \<Rightarrow> (resp_body \<Rightarrow> string) \<Rightarrow> reads \<Rightarrow> 'w hstate \<Rightarrow>
    string option \<times> 'w hstate" where
  "cp_connection env parse render reads hs =
     (case read_request parse reads of
        Some (Ok (Some q)) \<Rightarrow> (case route env q hs of ((status, body), hs') \<Rightarrow> (Some (write_response status (render body)), hs'))
      | _ \<Rightarrow> (None, hs))"

section \<open>The worker survives\<close>

definition hs_ok :: "'w env \<Rightarrow> 'w hstate \<Rightarrow> bool" where
  "hs_ok env hs \<longleftrightarrow> ipnet_crate (env_api env) \<and> (\<exists>st. fst hs = Some st \<and> cp_inv (env_api env) st)"

lemma send_ok:
  assumes "hs_ok env hs"
  obtains r hs' where "send env c hs = (Reply r, hs')" "hs_ok env hs'"
proof -
  obtain st w where hs: "hs = (Some st, w)" "ipnet_crate (env_api env)" "cp_inv (env_api env) st"
    using assms by (cases hs) (auto simp: hs_ok_def)
  obtain r st' where h: "handle_command (env_api env) (env_now env w) c st = Some (r, st')"
    using handle_command_total [OF hs(3)] by blast
  with cp_inv_handle_command [OF hs(2,3) h] hs(1,2) show ?thesis
    by (intro that [of r "(Some st', w)"]) (simp_all add: send_def hs_ok_def)
qed

lemma hs_ok_send [simp, intro]: "hs_ok env hs \<Longrightarrow> hs_ok env (snd (send env c hs))"
  by (metis send_ok snd_conv)

lemma hs_ok_send_eq: "send env c hs = (s, hs') \<Longrightarrow> hs_ok env hs \<Longrightarrow> hs_ok env hs'"
  by (metis hs_ok_send snd_conv)

lemma send_answers: "send env c hs = (s, hs') \<Longrightarrow> hs_ok env hs \<Longrightarrow> \<exists>r. s = Reply r"
  by (metis send_ok fst_conv)

lemma hs_ok_forward: "forward env a m p b hs = (r, hs') \<Longrightarrow> hs_ok env hs \<Longrightarrow> hs_ok env hs'"
  by (auto simp: forward_def hs_ok_def split: prod.splits result.splits)

lemma hs_ok_sends [simp, intro]:
  "hs_ok env hs \<Longrightarrow> hs_ok env (send_record_placement env n i hs)"
  "hs_ok env hs \<Longrightarrow> hs_ok env (send_remove_placement env n hs)"
  "hs_ok env hs \<Longrightarrow> hs_ok env (send_record_replica_address env n i a hs)"
  "hs_ok env hs \<Longrightarrow> hs_ok env (send_release_replica_address env n hs)"
  "hs_ok env hs \<Longrightarrow> hs_ok env (send_record_standby env n i hs)"
  "hs_ok env hs \<Longrightarrow> hs_ok env (send_record_pending_fence env n i hs)"
  "hs_ok env hs \<Longrightarrow> hs_ok env (send_remove_pending_fence env n hs)"
  by (simp_all add: send_defs)

lemma hs_ok_action: "hs_ok env hs \<Longrightarrow> hs_ok env (execute_replica_action env a hs)"
  by (cases a) (auto simp: Let_def dest: hs_ok_forward split: prod.splits result.splits option.splits)

lemma hs_ok_fold: "(\<And>x hs. hs_ok env hs \<Longrightarrow> hs_ok env (f x hs)) \<Longrightarrow> hs_ok env hs \<Longrightarrow> hs_ok env (fold f xs hs)"
  by (induction xs arbitrary: hs) auto

lemma hs_ok_actions [intro]: "hs_ok env hs \<Longrightarrow> hs_ok env (execute_replica_actions env as hs)"
  unfolding execute_replica_actions_def by (rule hs_ok_fold [OF hs_ok_action])

lemma hs_ok_reconcile [intro]: "hs_ok env hs \<Longrightarrow> hs_ok env (reconcile_and_execute env hs)"
  by (auto simp: reconcile_and_execute_def dest: hs_ok_send_eq split: prod.splits sent.splits reply.splits)

lemma hs_ok_fence: "hs_ok env hs \<Longrightarrow> hs_ok env (fence_one env a r hs)"
  by (auto simp: fence_one_def dest: hs_ok_forward split: prod.splits result.splits)

lemma hs_ok_fencing [intro]: "hs_ok env hs \<Longrightarrow> hs_ok env (check_and_execute_fencing env n hs)"
  by (auto simp: check_and_execute_fencing_def intro: hs_ok_fold hs_ok_fence dest: hs_ok_send_eq
      split: prod.splits sent.splits reply.splits result.splits)

text \<open>A handler is good when, started with a running worker, it leaves one and does not answer that
  the worker is gone.\<close>

definition answered :: "'w env \<Rightarrow> response \<times> 'w hstate \<Rightarrow> bool" where
  "answered env r \<longleftrightarrow> hs_ok env (snd r) \<and> snd (fst r) \<notin> {BError MNotRunning, BError MNoResponse}"

lemma answered_error [simp]:
  "answered env (error_response n m, hs) \<longleftrightarrow> hs_ok env hs \<and> m \<notin> {MNotRunning, MNoResponse}"
  by (simp add: answered_def error_response_def)

lemma answered_body [simp]:
  "answered env ((n, BRaw b), hs) \<longleftrightarrow> hs_ok env hs" "answered env ((n, BReplicas rs), hs) \<longleftrightarrow> hs_ok env hs"
  "answered env ((n, BSummaries ss), hs) \<longleftrightarrow> hs_ok env hs" "answered env ((n, BEntries es), hs) \<longleftrightarrow> hs_ok env hs"
  "answered env ((n, BStatuses ts), hs) \<longleftrightarrow> hs_ok env hs" "answered env ((n, BPodCidr c), hs) \<longleftrightarrow> hs_ok env hs"
  by (simp_all add: answered_def)

text \<open>Which reply a command gets.\<close>

definition reply_fits :: "command \<Rightarrow> reply \<Rightarrow> bool" where
  "reply_fits c r \<longleftrightarrow> (case c of
     CRegister _ _ _ _ _ \<Rightarrow> (\<exists>x. r = RRegister x)
   | CHeartbeat _ _ _ _ \<Rightarrow> (\<exists>x. r = RHeartbeat x)
   | CList \<Rightarrow> (\<exists>x. r = RList x)
   | CResolve _ \<Rightarrow> (\<exists>x. r = RResolve x)
   | CResolveOrSchedule _ \<Rightarrow> (\<exists>x. r = RResolveOrSchedule x)
   | CResolvePlacement _ \<Rightarrow> (\<exists>x. r = RResolvePlacement x)
   | COwnerOf _ \<Rightarrow> (\<exists>x. r = ROwnerOf x)
   | CApplyService _ _ _ _ \<Rightarrow> (\<exists>x. r = RApplyService x)
   | CReconcileServices \<Rightarrow> (\<exists>x. r = RActions x)
   | CDiscoverService _ \<Rightarrow> (\<exists>x. r = RDiscover x)
   | CListServices \<Rightarrow> (\<exists>x. r = RSummaries x)
   | CListServiceProxyEntries \<Rightarrow> (\<exists>x. r = REntries x)
   | CDeleteService _ \<Rightarrow> (\<exists>x. r = RDelete x)
   | CPendingFencesForNode _ \<Rightarrow> (\<exists>x. r = RNames x)
   | CPrepareForceRepin _ \<Rightarrow> (\<exists>x. r = RPrepare x)
   | _ \<Rightarrow> r = RUnit)"

lemma handle_command_fits: "handle_command api now c st = Some (r, st') \<Longrightarrow> reply_fits c r"
  by (cases c) (auto simp: reply_fits_def split: prod.splits)

lemma send_replies:
  assumes "send env c hs = (s, hs')" "hs_ok env hs"
  shows "\<exists>r. s = Reply r \<and> reply_fits c r \<and> hs_ok env hs'"
proof -
  from send_answers [OF assms] obtain r where r: "s = Reply r" by blast
  with assms(1) have "reply_fits c r"
    by (auto simp: send_def intro: handle_command_fits split: prod.splits option.splits)
  with r hs_ok_send_eq [OF assms] show ?thesis by blast
qed

lemmas route_splits = prod.splits sent.splits reply.splits result.splits option.splits

lemma answered_forward:
  assumes "hs_ok env hs"
  shows "answered env (handle_forward env n m p b hs)"
  using assms unfolding handle_forward_def
  by (auto dest!: send_replies simp: reply_fits_def dest: hs_ok_forward split: route_splits)

lemma answered_scheduled:
  assumes "hs_ok env hs"
  shows "answered env (handle_scheduled_apply env n b hs)" "answered env (handle_scheduled_read env n hs)"
    "answered env (handle_scheduled_delete env n hs)"
  using assms
  by (auto simp: handle_scheduled_apply_def handle_scheduled_read_def handle_scheduled_delete_def
      resolve_placement_def reply_fits_def dest!: send_replies dest: hs_ok_forward
      split: route_splits schedule_or_resolve_error.splits)

lemma answered_services:
  assumes "hs_ok env hs"
  shows "answered env (handle_apply_service env n b hs)" "answered env (handle_get_service env n hs)"
    "answered env (handle_list_services env hs)" "answered env (handle_delete_service env n hs)"
    "answered env (handle_list env hs)" "answered env (handle_register env b hs)"
  using assms
  by (auto simp: handle_apply_service_def handle_get_service_def handle_list_services_def
      handle_delete_service_def handle_list_def handle_register_def reply_fits_def dest!: send_replies
      split: route_splits)

lemma answered_heartbeat:
  assumes "hs_ok env hs"
  shows "answered env (handle_heartbeat env n b hs)"
  using assms
  by (auto simp: handle_heartbeat_def Let_def reply_fits_def
      dest!: send_replies dest: hs_ok_reconcile hs_ok_fencing split: route_splits)

lemma hs_ok_record_repin: "hs_ok env hs \<Longrightarrow> hs_ok env (record_repin env n p hs)"
  by (simp add: record_repin_def Let_def)

lemma answered_repin:
  assumes "hs_ok env hs"
  shows "answered env (handle_force_repin env n hs)"
  using assms
  by (auto simp: handle_force_repin_def provision_repin_def reply_fits_def intro: hs_ok_record_repin
      dest!: send_replies dest: hs_ok_forward split: route_splits)

lemma answered_jails:
  assumes "hs_ok env hs"
  shows "answered env (put_jail env n b hs)" "answered env (put_node_jail env i n b hs)"
    "answered env (delete_node_jail env i n hs)"
proof -
  have own: "answered env (r, hs') \<and> hs_ok env hs'" if "reject_if_service_owned env n hs = (Some r, hs')" for r hs'
    using that assms
    by (auto simp: reject_if_service_owned_def reply_fits_def dest!: send_replies split: route_splits owner.splits)
  have free: "hs_ok env hs'" if "reject_if_service_owned env n hs = (None, hs')" for hs'
    using that assms
    by (auto simp: reject_if_service_owned_def reply_fits_def dest!: send_replies split: route_splits owner.splits)
  show "answered env (put_jail env n b hs)"
    using own free by (auto simp: put_jail_def answered_scheduled split: prod.splits option.splits)
  have fw: "hs_ok env hs2 \<and> b' \<notin> {BError MNotRunning, BError MNoResponse}"
    if "handle_forward env i m p b hs1 = ((st, b'), hs2)" "hs_ok env hs1" for st b' hs1 hs2 m p b
    using answered_forward [OF that(2), of i m p b] that(1) by (auto simp: answered_def)
  show "answered env (put_node_jail env i n b hs)"
    using own free by (auto simp: put_node_jail_def answered_def dest!: fw split: prod.splits option.splits)
  show "answered env (delete_node_jail env i n hs)"
    using assms by (auto simp: delete_node_jail_def answered_def dest!: fw split: prod.splits)
qed

section \<open>Properties\<close>

text \<open>C25: Serving a request, whatever it is and whatever the network does with the requests that are
  forwarded, leaves the worker running with a well-formed state, and the answer never says that the
  worker is gone.\<close>

theorem route_keeps_worker:
  assumes "ipnet_crate (env_api env)" "cp_inv (env_api env) st"
  shows "\<exists>st'. fst (snd (route env req (Some st, w))) = Some st' \<and> cp_inv (env_api env) st' \<and>
    snd (fst (route env req (Some st, w))) \<notin> {BError MNotRunning, BError MNoResponse}"
proof -
  have ok: "hs_ok env (Some st, w)" using assms by (simp add: hs_ok_def)
  note rules = answered_services [OF ok] answered_scheduled [OF ok] answered_heartbeat [OF ok]
    answered_repin [OF ok] answered_jails [OF ok] answered_forward [OF ok]
  have "answered env (route env req (Some st, w))"
    unfolding route_def Let_def using ok by (auto simp: rules split: list.splits)
  then show ?thesis by (auto simp: answered_def hs_ok_def)
qed

text \<open>An environment on whose network nothing answers.\<close>

definition silent_env :: "unit env" where
  "silent_env = \<lparr>env_api = ipnet_ref, env_now = (\<lambda>_. ex_now),
     env_exchange = (\<lambda>_ _ _ _ w. (Err ''no route to host'', w)),
     env_parse_response = (\<lambda>_. Partial), env_registration = (\<lambda>_. Err []), env_heartbeat = (\<lambda>_. Err []),
     env_service = (\<lambda>_. Err [])\<rparr>"

theorem route_keeps_worker_witness:
  "\<exists>st'. fst (snd (route silent_env \<lparr>pr_method = ''GET'', pr_path = ''/nodes'', pr_body = []\<rparr> (Some ex_start, ()))) = Some st'"
proof -
  have c: "ipnet_crate (env_api silent_env)" by (simp add: silent_env_def ref.ipnet_crate_axioms)
  have "cp_inv (env_api silent_env) ex_start" unfolding silent_env_def by (simp add: ex_inv)
  from route_keeps_worker [OF c this] show ?thesis by blast
qed

end
