(* ===== verification/Ag_Registration.thy ===== *)
theory Ag_Registration
  imports Ag_Http Cp_Http
begin

text \<open>
  The thread that keeps an agent registered (\<open>keel-agentd/src/registration.rs\<close>), with the two slots it fills
  (\<open>podcidr.rs\<close>, \<open>service_vips.rs\<close>), the routes to the other nodes, and the service proxy it drives
  (\<open>proxy.rs\<close>). The control plane is reached through an exchange of bytes that is an argument, as are the
  YAML codecs and the binding of sockets.
\<close>

section \<open>Slots\<close>

type_synonym pod_cidr_slot = "ipv4net option"

definition pod_cidr_set :: "ipv4net \<Rightarrow> pod_cidr_slot \<Rightarrow> pod_cidr_slot" where
  "pod_cidr_set c slot = Some c"

definition vip_set_all :: "service_proxy_entry list \<Rightarrow> (string, string \<times> nat) hmap" where
  "vip_set_all entries = foldl (\<lambda>m e. hm_insert (pe_name e) (pe_vip e, pe_port e) m) [] entries"

section \<open>Routes\<close>

definition routable :: "string \<Rightarrow> node_status \<Rightarrow> bool" where
  "routable self_id p \<longleftrightarrow> st_id p \<noteq> self_id \<and> st_status p = Alive"

definition diff_routes :: "string \<Rightarrow> node_status list \<Rightarrow> (string, string) hmap \<Rightarrow> (string \<times> string) list \<times> string list" where
  "diff_routes self_id peers installed =
     (let to_add = map (\<lambda>p. (st_pod_cidr p, st_addr p))
            (filter (\<lambda>p. routable self_id p \<and> hm_get installed (st_id p) \<noteq> Some (st_pod_cidr p)) peers);
          alive_ids = st_id ` set (filter (routable self_id) peers)
      in (to_add, map snd (filter (\<lambda>(i, c). i \<notin> alive_ids) installed)))"

text \<open>The host part of \<open>host:port\<close>.\<close>

definition strip_port :: "string \<Rightarrow> string" where
  "strip_port a = (case rsplit_once CHR '':'' a of Some (host, _) \<Rightarrow> host | None \<Rightarrow> a)"

definition retain_not :: "string \<Rightarrow> (string, string) hmap \<Rightarrow> (string, string) hmap" where
  "retain_not c m = filter (\<lambda>(_, v). v \<noteq> c) m"

text \<open>The first loop; it stops when the worker is gone (\<open>False\<close>).\<close>

fun remove_routes :: "'s agent \<Rightarrow> string list \<Rightarrow> (string, string) hmap \<times> 's aw option \<Rightarrow> bool \<times> (string, string) hmap \<times> 's aw option" where
  "remove_routes ag [] s = (True, s)"
| "remove_routes ag (c # cs) (installed, worker) =
     (case asend ag (ARemoveRoute c) worker of
        (ANotRunning, worker') \<Rightarrow> (False, installed, worker')
      | (AReply (ANet (Ok _)), worker') \<Rightarrow> remove_routes ag cs (retain_not c installed, worker')
      | (_, worker') \<Rightarrow> remove_routes ag cs (installed, worker'))"

fun add_routes :: "'s agent \<Rightarrow> node_status list \<Rightarrow> (string \<times> string) list \<Rightarrow> (string, string) hmap \<times> 's aw option \<Rightarrow>
    (string, string) hmap \<times> 's aw option" where
  "add_routes ag peers [] s = s"
| "add_routes ag peers ((c, a) # cs) (installed, worker) =
     (case asend ag (AAddRoute c (strip_port a)) worker of
        (ANotRunning, worker') \<Rightarrow> (installed, worker')
      | (AReply (ANet (Ok _)), worker') \<Rightarrow>
          add_routes ag peers cs (case find (\<lambda>p. st_pod_cidr p = c) peers of
            Some p \<Rightarrow> hm_insert (st_id p) c installed | None \<Rightarrow> installed, worker')
      | (_, worker') \<Rightarrow> add_routes ag peers cs (installed, worker'))"

definition reconcile_routes :: "'s agent \<Rightarrow> string \<Rightarrow> node_status list \<Rightarrow> (string, string) hmap \<times> 's aw option \<Rightarrow>
    (string, string) hmap \<times> 's aw option" where
  "reconcile_routes ag self_id peers = (\<lambda>(installed, worker).
     let (to_add, to_remove) = diff_routes self_id peers installed in
     case remove_routes ag to_remove (installed, worker) of
       (True, s) \<Rightarrow> add_routes ag peers to_add s
     | (False, s) \<Rightarrow> s)"

section \<open>The service proxy\<close>

definition PROXY_BRIDGE :: string where
  "PROXY_BRIDGE = ''keel0''"

record proxied_service =
  px_replicas :: "string list"
  px_bridge :: string
  px_vip :: string

definition socket_addr :: "string \<Rightarrow> nat \<Rightarrow> string" where
  "socket_addr host port = host @ '':'' @ show_nat port"

text \<open>What the thread sees of the outside: exchanges with the control plane, the codecs, and which listeners
  can be bound.\<close>

record 'w renv =
  re_exchange :: "string \<Rightarrow> string \<Rightarrow> string \<Rightarrow> string \<Rightarrow> 'w \<Rightarrow> (string, string) result \<times> 'w"
  re_parse_response :: "string \<Rightarrow> response_head parse_status"
  re_show_f64 :: "f64 \<Rightarrow> string"
  re_register_response :: "string \<Rightarrow> (string, string) result"
  re_heartbeat :: "heartbeat_body \<Rightarrow> string"
  re_entries :: "string \<Rightarrow> (service_proxy_entry list, string) result"
  re_nodes :: "string \<Rightarrow> (node_status list, string) result"
  re_parse_socket_addr :: "string \<Rightarrow> bool"
  re_bind :: "string \<Rightarrow> 'w \<Rightarrow> bool \<times> 'w"

definition replica_socket_addrs :: "'w renv \<Rightarrow> service_proxy_entry \<Rightarrow> string list" where
  "replica_socket_addrs env e =
     filter (re_parse_socket_addr env) (map (\<lambda>r. socket_addr (sr_address r) (pe_port e)) (pe_replicas e))"

type_synonym ('s, 'w) pxstate = "(string, proxied_service) hmap \<times> 's aw option \<times> 'w"

text \<open>A service that has disappeared: its listener is stopped and its alias removed, with whatever result.\<close>

definition drop_proxied :: "'s agent \<Rightarrow> string \<Rightarrow> ('s, 'w) pxstate \<Rightarrow> ('s, 'w) pxstate" where
  "drop_proxied ag name = (\<lambda>(proxied, worker, w). case hm_get proxied name of
       None \<Rightarrow> (proxied, worker, w)
     | Some s \<Rightarrow> (hm_remove name proxied, snd (asend ag (ARemoveServiceAlias (px_bridge s) (px_vip s)) worker), w))"

definition proxy_entry :: "'s agent \<Rightarrow> 'w renv \<Rightarrow> service_proxy_entry \<Rightarrow> ('s, 'w) pxstate \<Rightarrow> ('s, 'w) pxstate" where
  "proxy_entry ag env e = (\<lambda>(proxied, worker, w). case hm_get proxied (pe_name e) of
       Some s \<Rightarrow> (hm_insert (pe_name e) (s\<lparr>px_replicas := replica_socket_addrs env e\<rparr>) proxied, worker, w)
     | None \<Rightarrow>
         (case asend ag (AAddServiceAlias PROXY_BRIDGE (pe_vip e)) worker of
            (AReply (ANet (Err _)), worker') \<Rightarrow> (proxied, worker', w)
          | (_, worker') \<Rightarrow>
              (case re_bind env (socket_addr (pe_vip e) (pe_port e)) w of
                 (False, w') \<Rightarrow> (proxied, worker', w')
               | (True, w') \<Rightarrow> (hm_insert (pe_name e) \<lparr>px_replicas = replica_socket_addrs env e,
                     px_bridge = PROXY_BRIDGE, px_vip = pe_vip e\<rparr> proxied, worker', w'))))"

definition proxy_reconcile_services :: "'s agent \<Rightarrow> 'w renv \<Rightarrow> service_proxy_entry list \<Rightarrow> ('s, 'w) pxstate \<Rightarrow> ('s, 'w) pxstate" where
  "proxy_reconcile_services ag env desired = (\<lambda>(proxied, worker, w).
     let gone = filter (\<lambda>n. n \<notin> pe_name ` set desired) (map fst proxied)
     in foldl (\<lambda>s e. proxy_entry ag env e s) (foldl (\<lambda>s n. drop_proxied ag n s) (proxied, worker, w) gone) desired)"

text \<open>The replicas a connection is offered to: at most two, from the position of a counter that every
  connection advances; a 64-bit counter wraps.\<close>

definition relay_targets :: "string list \<Rightarrow> nat \<Rightarrow> string list" where
  "relay_targets snapshot start =
     map (\<lambda>attempt. snapshot ! ((start + attempt) mod 2 ^ 64 mod length snapshot)) [0..<min 2 (length snapshot)]"

text \<open>The first of them that accepts the connection.\<close>

definition relay_connection :: "string list \<Rightarrow> nat \<Rightarrow> (string \<Rightarrow> bool) \<Rightarrow> string option \<times> nat" where
  "relay_connection snapshot counter connects =
     (if snapshot = [] then (None, counter)
      else (find connects (relay_targets snapshot counter), (counter + 1) mod 2 ^ 64))"

section \<open>Talking to the control plane\<close>

record registration_cfg =
  rc_node_id :: string
  rc_advertise_addr :: string
  rc_replicate_addr :: string
  rc_control_plane_addr :: string
  rc_capacity_cpu :: f64
  rc_capacity_memory :: nat

definition send_request :: "'w renv \<Rightarrow> string \<Rightarrow> string \<Rightarrow> string \<Rightarrow> string \<Rightarrow> 'w \<Rightarrow> (string, string) result \<times> 'w" where
  "send_request env addr http_method path body w = (case re_exchange env addr http_method path body w of
       (Err e, w') \<Rightarrow> (Err e, w')
     | (Ok response, w') \<Rightarrow> (case re_parse_response env response of
           Malformed e \<Rightarrow> Err e
         | Partial \<Rightarrow> Err ''incomplete response from control plane''
         | Complete header_len h \<Rightarrow>
             (let status = (case sh_code h of Some c \<Rightarrow> c | None \<Rightarrow> 0) in
              and_then (ok_or ''response missing Content-Length header'' (content_length (sh_headers h))) (\<lambda>clen.
                if length response - header_len \<noteq> clen then Err ''truncated response''
                else if 200 \<le> status \<and> status < 300 then Ok (drop header_len response)
                else Err (''control plane returned status '' @ show_nat status))), w'))"

definition nl_text :: string where
  "nl_text = [CHR 0x0A]"

definition register_body :: "'w renv \<Rightarrow> registration_cfg \<Rightarrow> string" where
  "register_body env cfg = ''id: '' @ rc_node_id cfg @ nl_text @ ''addr: '' @ rc_advertise_addr cfg @ nl_text @
     ''replicate_addr: '' @ rc_replicate_addr cfg @ nl_text @ ''capacity_cpu: '' @ re_show_f64 env (rc_capacity_cpu cfg) @ nl_text @
     ''capacity_memory: '' @ show_nat (rc_capacity_memory cfg) @ nl_text"

definition register_once :: "'s agent \<Rightarrow> 'w renv \<Rightarrow> registration_cfg \<Rightarrow> 'w \<Rightarrow> (ipv4net, string) result \<times> 'w" where
  "register_once ag env cfg w =
     (case send_request env (rc_control_plane_addr cfg) ''POST'' ''/nodes/register'' (register_body env cfg) w of
        (Err e, w') \<Rightarrow> (Err e, w')
      | (Ok bytes, w') \<Rightarrow> (and_then (re_register_response env bytes) (api_parse_ipv4net (ag_api ag)), w'))"

definition heartbeat_of :: "f64 \<times> nat \<Rightarrow> jail_status list \<Rightarrow> heartbeat_body" where
  "heartbeat_of committed statuses = \<lparr>hb_committed_cpu = fst committed, hb_committed_memory = snd committed,
     hb_jails = map (\<lambda>s. \<lparr>jh_name = spec_name_of (jst_record s), jh_running = jst_running s\<rparr>) statuses\<rparr>"

definition heartbeat_once :: "'s agent \<Rightarrow> 'w renv \<Rightarrow> registration_cfg \<Rightarrow> 's aw option \<times> 'w \<Rightarrow>
    (service_proxy_entry list, string) result \<times> 's aw option \<times> 'w" where
  "heartbeat_once ag env cfg = (\<lambda>(worker, w).
     case asend ag ACommittedResources worker of
       (AReply (ACommitted committed), worker1) \<Rightarrow>
         (case asend ag (AGet None) worker1 of
            (AReply (AStatuses statuses), worker2) \<Rightarrow>
              (case send_request env (rc_control_plane_addr cfg) ''POST'' (''/nodes/'' @ rc_node_id cfg @ ''/heartbeat'')
                  (re_heartbeat env (heartbeat_of committed statuses)) w of
                 (Err e, w') \<Rightarrow> (Err e, worker2, w')
               | (Ok bytes, w') \<Rightarrow> (re_entries env bytes, worker2, w'))
          | (_, worker2) \<Rightarrow> (Err ''worker'', worker2, w))
     | (_, worker1) \<Rightarrow> (Err ''worker'', worker1, w))"

definition fetch_nodes :: "'w renv \<Rightarrow> registration_cfg \<Rightarrow> 'w \<Rightarrow> (node_status list, string) result \<times> 'w" where
  "fetch_nodes env cfg w = (case send_request env (rc_control_plane_addr cfg) ''GET'' ''/nodes'' [] w of
       (Err e, w') \<Rightarrow> (Err e, w') | (Ok bytes, w') \<Rightarrow> (re_nodes env bytes, w'))"

section \<open>The loop\<close>

record ('s, 'w) rgstate =
  rg_registered :: bool
  rg_installed :: "(string, string) hmap"
  rg_proxied :: "(string, proxied_service) hmap"
  rg_pod_cidr :: pod_cidr_slot
  rg_vips :: "(string, string \<times> nat) hmap"
  rg_worker :: "'s aw option"
  rg_world :: 'w

text \<open>The service addresses are one slot that the reconciler reads too.\<close>

definition share_vips :: "(string, string \<times> nat) hmap \<Rightarrow> 's aw option \<Rightarrow> 's aw option" where
  "share_vips vips = map_option (\<lambda>w. w\<lparr>aw_rc := (aw_rc w)\<lparr>rc_service_vips := vips\<rparr>\<rparr>)"

definition registration_contact :: "'s agent \<Rightarrow> 'w renv \<Rightarrow> registration_cfg \<Rightarrow> ('s, 'w) rgstate \<Rightarrow> ('s, 'w) rgstate" where
  "registration_contact ag env cfg st =
     (if \<not> rg_registered st then
        (case register_once ag env cfg (rg_world st) of
           (Ok cidr, w) \<Rightarrow> st\<lparr>rg_world := w, rg_pod_cidr := pod_cidr_set cidr (rg_pod_cidr st), rg_registered := True\<rparr>
         | (Err _, w) \<Rightarrow> st\<lparr>rg_world := w\<rparr>)
      else
        (case heartbeat_once ag env cfg (rg_worker st, rg_world st) of
           (Ok entries, worker, w) \<Rightarrow>
             (let vips = vip_set_all entries in
              case proxy_reconcile_services ag env entries (rg_proxied st, share_vips vips worker, w) of
                (proxied, worker', w') \<Rightarrow> st\<lparr>rg_vips := vips, rg_proxied := proxied, rg_worker := worker', rg_world := w'\<rparr>)
         | (Err _, worker, w) \<Rightarrow> st\<lparr>rg_worker := worker, rg_world := w, rg_registered := False\<rparr>))"

definition registration_round :: "'s agent \<Rightarrow> 'w renv \<Rightarrow> registration_cfg \<Rightarrow> ('s, 'w) rgstate \<Rightarrow> ('s, 'w) rgstate" where
  "registration_round ag env cfg st0 =
     (let st = registration_contact ag env cfg st0 in
      case fetch_nodes env cfg (rg_world st) of
        (Err _, w) \<Rightarrow> st\<lparr>rg_world := w\<rparr>
      | (Ok peers, w) \<Rightarrow>
          (case reconcile_routes ag (rc_node_id cfg) peers (rg_installed st, rg_worker st) of
             (installed, worker) \<Rightarrow> st\<lparr>rg_world := w, rg_installed := installed, rg_worker := worker\<rparr>))"

end
