(* ===== verification/Ag_Service.thy ===== *)
theory Ag_Service
  imports Ag_Http Ag_Behaviour
begin

text \<open>
  The agent as its clients see it: requests over HTTP, the worker thread behind them and the state
  directory. A node that knows its own block answers every request, and what it has acknowledged is on disk.
\<close>

section \<open>Requests never end the worker\<close>

lemma one_command_alive:
  assumes h: "agent_host ag D V" and i: "agent_inv ag D V (aw_rc w)" and o: "one_command ag V (Some w) (r, worker')"
  shows "\<exists>w'. worker' = Some w' \<and> agent_inv ag D V (aw_rc w') \<and> \<not> worker_died r"
proof -
  have "(worker' = Some w \<and> \<not> worker_died r) \<or> (\<exists>c f. harmless ag V c \<and> (r, worker') = on_worker ag c f (Some w) \<and>
      (\<forall>r w w'. handle_acommand ag () c w = Some (r, w') \<longrightarrow> \<not> worker_died (f (AReply r))))"
    using o by (auto simp: one_command_def)
  then show ?thesis
  proof
    assume "\<exists>c f. harmless ag V c \<and> (r, worker') = on_worker ag c f (Some w) \<and>
      (\<forall>r w w'. handle_acommand ag () c w = Some (r, w') \<longrightarrow> \<not> worker_died (f (AReply r)))"
    then obtain c f where c: "harmless ag V c" "(r, worker') = on_worker ag c f (Some w)"
      "\<And>r w w'. handle_acommand ag () c w = Some (r, w') \<Longrightarrow> \<not> worker_died (f (AReply r))" by blast
    obtain x w' where "handle_acommand ag () c w = Some (x, w')" "agent_inv ag D V (aw_rc w')"
      using agent_host.handle_acommand_safe [OF h i c(1)] by blast
    with c show ?thesis by (simp add: on_worker_def asend_def)
  qed (use i in blast)
qed

text \<open>An agent that has been given its block answers every request it is sent, from any number of
  clients: no request ends the worker thread, an IPv6 address is turned away, and no volume is lost
  unless its deletion was asked for.\<close>

lemma agent_http_keeps_running:
  assumes "agent_host ag D V" "agent_inv ag D V (aw_rc w)" "as_pod_cidr slots = Some cidr" "\<forall>q \<in> set qs. \<not> drops_volume ag V q"
  shows "\<exists>rs w'. aroute_all ag y slots qs (Some w) = (rs, Some w') \<and> length rs = length qs \<and> list_all (\<lambda>r. \<not> worker_died r) rs \<and>
    V \<subseteq> D (rc_host (aw_rc w')) \<and> mirrors (jail_codec ag) (ag_state_dir ag) (rc_records (aw_rc w')) (rc_fs (aw_rc w'))"
proof -
  have c: "ipnet_crate (ag_api ag)" using assms(1) by (simp add: agent_host_def)
  have "\<exists>rs w'. aroute_all ag y slots qs (Some w) = (rs, Some w') \<and> length rs = length qs \<and> list_all (\<lambda>r. \<not> worker_died r) rs \<and>
      agent_inv ag D V (aw_rc w')"
    using assms(2,4)
  proof (induction qs arbitrary: w)
    case (Cons q qs)
    obtain r worker' where e: "aroute ag y slots q (Some w) = (r, worker')" by (metis surj_pair)
    from one_command_alive [OF assms(1) Cons.prems(1), of r worker'] one_command_route [OF c assms(3), of V q "Some w" y] e Cons.prems(2)
    obtain w1 where w1: "worker' = Some w1" "agent_inv ag D V (aw_rc w1)" "\<not> worker_died r" by auto
    with Cons.IH [of w1] Cons.prems(2) e show ?case by auto
  qed simp
  then show ?thesis by (auto simp: agent_inv_def rc_inv_def)
qed

text \<open>The same for raw connections, whatever bytes arrive on them.\<close>

lemma aconnection_keeps_running:
  assumes "agent_host ag D V" "agent_inv ag D V (aw_rc w)" "as_pod_cidr slots = Some cidr"
    and "\<And>q. aread_request parse reads = Some (Ok (Some q)) \<Longrightarrow> \<not> drops_volume ag V q"
  shows "\<exists>out w'. aconnection ag y slots parse render reads (Some w) = (out, Some w') \<and> agent_inv ag D V (aw_rc w')"
proof (cases "\<exists>q. aread_request parse reads = Some (Ok (Some q))")
  case True
  then obtain q where q: "aread_request parse reads = Some (Ok (Some q))" by blast
  obtain r worker' where e: "aroute ag y slots q (Some w) = (r, worker')" by (metis surj_pair)
  have "ipnet_crate (ag_api ag)" using assms(1) by (simp add: agent_host_def)
  from one_command_alive [OF assms(1,2), of r worker'] one_command_route [OF this assms(3) assms(4) [OF q], of "Some w" y] e
  show ?thesis by (auto simp: aconnection_def q split: prod.splits)
qed (use assms(2) in \<open>auto simp: aconnection_def split: option.splits result.splits\<close>)

section \<open>What has been acknowledged\<close>

lemma keepsA_host_part: "(\<And>st h. P st \<Longrightarrow> P (st\<lparr>rc_host := h\<rparr>)) \<Longrightarrow> keepsA P (on_host f m)"
  by (auto simp: keepsA_def on_host_def map_exnA_def zoomA_def split: prod.splits outcome.splits)

text \<open>A record that is in memory and in the state directory.\<close>

definition has_record :: "'s agent \<Rightarrow> string \<Rightarrow> jail_record \<Rightarrow> 's rc \<Rightarrow> bool" where
  "has_record ag n r st \<longleftrightarrow> hm_get (rc_records st) n = Some r \<and>
     hm_get (fs_files (rc_fs st)) (ag_state_dir ag, yaml_file n) = Some (ag_jail_to_yaml ag r)"

lemma has_record_fields [simp]:
  "has_record ag n r (st\<lparr>rc_host := h\<rparr>) = has_record ag n r st"
  "has_record ag n r (st\<lparr>rc_backoff := b\<rparr>) = has_record ag n r st"
  "has_record ag n r (st\<lparr>rc_ingress_backoff := b\<rparr>) = has_record ag n r st"
  "has_record ag n r (st\<lparr>rc_ingress_records := m\<rparr>) = has_record ag n r st"
  by (simp_all add: has_record_def)

lemma keeps_record_host [inv_intros]: "keepsA (has_record ag n r) (on_host f m)"
  by (rule keepsA_host_part) simp

lemma keeps_record_fs:
  assumes "\<And>d. hm_get (fs_files (snd (m d))) (ag_state_dir ag, yaml_file n) = hm_get (fs_files d) (ag_state_dir ag, yaml_file n)"
  shows "keepsA (has_record ag n r) (on_fs f m)"
  using assms by (auto simp: keepsA_def has_record_def on_fs_def map_exnA_def zoomA_def split: prod.splits outcome.splits) (metis snd_conv)+

lemma keeps_record_neutral: "fs_neutral m \<Longrightarrow> keepsA (has_record ag n r) (on_fs f m)"
  by (rule keeps_record_fs) (simp add: fs_neutral_def)

lemma keeps_record_ingress_save: "keepsA (has_record ag n r) (on_fs f (ingress_save cd (ag_state_dir ag) q))"
proof (rule keeps_record_fs)
  fix d
  obtain res d' where e: "store_save cd (ingress_dir (ag_state_dir ag)) q d = (res, d')" by (metis surj_pair)
  have "ingress_dir (ag_state_dir ag) \<noteq> ag_state_dir ag" by (simp add: ingress_dir_def path_join_def)
  with store_save_files [OF e] e
  show "hm_get (fs_files (snd (ingress_save cd (ag_state_dir ag) q d))) (ag_state_dir ag, yaml_file n) = hm_get (fs_files d) (ag_state_dir ag, yaml_file n)"
    by (auto simp: ingress_save_def)
qed

lemma keepsA_result_case [inv_intros]:
  "(\<And>x. keepsA P (f x)) \<Longrightarrow> (\<And>e. keepsA P (g e)) \<Longrightarrow> keepsA P (case y of Ok x \<Rightarrow> f x | Err e \<Rightarrow> g e)"
  by (cases y) simp_all

lemma keeps_record_reconcile_one: "keepsA (has_record ag n r) (reconcile_one ag now m)"
  unfolding reconcile_one_def provision_def provision_volume_def restart_def rollback_provision_def jail_attempt_def
    configure_networking_and_limits_def bridge_gateway_def Let_def
  by (intro inv_intros keepsA_modifyA) simp_all

lemma keeps_record_names: "keepsA (has_record ag n r) (reconcile_names ag now ns)"
  by (induction ns) (auto intro!: keeps_record_reconcile_one inv_intros)

lemma keeps_record_certs: "keepsA (has_record ag n r) (reconcile_certs ag t)"
  unfolding reconcile_certs_def reconcile_cert_def ingress_attempt_def cert_exists_in_ingress_jail_def write_cert_to_ingress_jail_def Let_def
  by (intro inv_intros keepsA_modifyA keeps_record_neutral neutral_ops keeps_record_ingress_save) (auto intro!: inv_intros keepsA_modifyA)

text \<open>A jail that is applied: when that succeeds its record is kept in both places, and the records of other jails stay.\<close>

lemma save_jail_record:
  assumes "save_jail ag spec k st = (x, st')"
  shows "x = Val () \<longrightarrow> has_record ag (md_name (js_metadata spec)) \<lparr>jrec_spec = spec, jrec_epair_ordinal = k\<rparr> st'"
    and "n \<noteq> md_name (js_metadata spec) \<Longrightarrow> has_record ag n r st \<Longrightarrow> has_record ag n r st'"
proof -
  obtain y d where e: "store_save (jail_codec ag) (ag_state_dir ag) \<lparr>jrec_spec = spec, jrec_epair_ordinal = k\<rparr> (rc_fs st) = (y, d)"
    by (metis surj_pair)
  from store_save_files [OF e]
  have f: "y \<noteq> Panic" "y = Val () \<Longrightarrow> hm_get (fs_files d) (ag_state_dir ag, yaml_file (md_name (js_metadata spec))) =
      Some (ag_jail_to_yaml ag \<lparr>jrec_spec = spec, jrec_epair_ordinal = k\<rparr>)"
    "n \<noteq> md_name (js_metadata spec) \<Longrightarrow>
      hm_get (fs_files d) (ag_state_dir ag, yaml_file n) = hm_get (fs_files (rc_fs st)) (ag_state_dir ag, yaml_file n)"
    by (auto simp: spec_name_of_def)
  show "x = Val () \<longrightarrow> has_record ag (md_name (js_metadata spec)) \<lparr>jrec_spec = spec, jrec_epair_ordinal = k\<rparr> st'"
    using assms f(1,2) by (cases y) (auto simp: save_jail_def has_record_def on_fs_def act_defs e)
  show "n \<noteq> md_name (js_metadata spec) \<Longrightarrow> has_record ag n r st \<Longrightarrow> has_record ag n r st'"
    using assms f(1,3) by (cases y) (auto simp: save_jail_def has_record_def on_fs_def act_defs e)
qed

lemma has_record_ordinal [simp]: "has_record ag n r (st\<lparr>rc_next_epair_ordinal := k\<rparr>) = has_record ag n r st"
  by (simp add: has_record_def)

lemma apply_jail_record:
  assumes "apply_jail ag spec st = (x, st')"
  shows "x = Val () \<longrightarrow> (\<exists>k. has_record ag (md_name (js_metadata spec)) \<lparr>jrec_spec = spec, jrec_epair_ordinal = k\<rparr> st')"
    and "n \<noteq> md_name (js_metadata spec) \<Longrightarrow> has_record ag n r st \<Longrightarrow> has_record ag n r st'"
proof -
  consider e where "x = Exn e" "st' = st" | k s where "save_jail ag spec k s = (x, st')" "s = st \<or> s = st\<lparr>rc_next_epair_ordinal := u32_succ (rc_next_epair_ordinal st)\<rparr>"
    using assms apply_jail_rejects [of ag spec st] apply_jail_valid [of ag spec st]
    by (cases "spec_ok ag spec") (auto split: option.splits result.splits)
  note c = this
  show "x = Val () \<longrightarrow> (\<exists>k. has_record ag (md_name (js_metadata spec)) \<lparr>jrec_spec = spec, jrec_epair_ordinal = k\<rparr> st')"
    by (rule c) (auto dest: save_jail_record(1))
  show "n \<noteq> md_name (js_metadata spec) \<Longrightarrow> has_record ag n r st \<Longrightarrow> has_record ag n r st'"
    by (rule c) (auto intro: save_jail_record(2))
qed

lemma keeps_record_ensure: "keepsA (has_record ag n r) (ensure_ingress_jail ag)"
  unfolding keepsA_def
proof (intro allI impI)
  fix st :: "'a rc"
  assume h: "has_record ag n r st"
  obtain x st' where e: "apply_jail ag ingress_jail_spec st = (x, st')" by (metis surj_pair)
  have "has_record ag n r st'" if "hm_get (rc_records st) ''ingress'' = None"
    by (rule apply_jail_record(2) [OF e _ h]) (use that h in \<open>auto simp: ingress_jail_spec_def has_record_def\<close>)
  with h e show "has_record ag n r (snd (ensure_ingress_jail ag st))"
    by (auto simp: ensure_ingress_jail_def has_record_def bindA_def getA_def returnA_def split: if_splits)
qed

lemma keeps_record_reconcile: "keepsA (has_record ag n r) (reconcile ag now)"
  unfolding reconcile_def reconcile_ingress_config_def
  by (intro inv_intros keeps_record_ensure keeps_record_certs keeps_record_names)

text \<open>When \<open>PUT /jails/<name>\<close> is answered with 200, the jail has been taken over with exactly the spec of
  the request, and its record is in the state directory, whatever happened to the jail itself, on any host.\<close>

lemma handle_apply_accepts:
  assumes "handle_apply ag y n b cidr (Some w) = ((200, out), worker')"
  shows "\<exists>spec w'. ay_jail y b = Ok spec \<and> n = md_name (js_metadata spec) \<and> worker' = Some w' \<and>
    handle_acommand ag () (AApply spec) w = Some (AResult (Ok ()), w') \<and> out = AbEmpty"
proof -
  from assms obtain spec where spec: "ay_jail y b = Ok spec" "n = md_name (js_metadata spec)"
    "on_worker ag (AApply spec) (answer_result AbEmpty) (Some w) = ((200, out), worker')"
    by (auto simp: handle_apply_def aerror_def split: if_splits result.splits option.splits)
  from this(3) have "\<exists>w'. worker' = Some w' \<and> handle_acommand ag () (AApply spec) w = Some (AResult (Ok ()), w') \<and> out = AbEmpty"
    by (auto simp: on_worker_def asend_def answer_result_def aworker_failed_def aerror_def status_for_error_def
        simp del: handle_acommand.simps split: option.splits areply.splits result.splits reconcile_error.splits spec_error.splits zfs_error.splits)
  with spec(1,2) show ?thesis by blast
qed

lemma acknowledged_apply_is_durable:
  assumes "pr_method q = ''PUT''" "path_segments (pr_path q) = [''jails'', n]" "ay_jail y (pr_body q) = Ok spec"
    and "aroute ag y slots q (Some w) = ((200, b), worker')"
  shows "\<exists>w' r. worker' = Some w' \<and> jrec_spec r = spec \<and> has_record ag n r (aw_rc w') \<and> b = AbEmpty"
proof -
  have "handle_apply ag y n (pr_body q) (as_pod_cidr slots) (Some w) = ((200, b), worker')"
    using assms by (simp add: aroute_def)
  from handle_apply_accepts [OF this] assms(3) obtain w' where n: "n = md_name (js_metadata spec)"
    and w': "worker' = Some w'" "handle_acommand ag () (AApply spec) w = Some (AResult (Ok ()), w')" and b: "b = AbEmpty" by auto
  from w'(2) obtain w1 w2 where a: "run_rc (apply_jail ag spec) w = Some (Ok (), w1)" "tick ag w1 = Some w2" "aw_rc w' = aw_rc w2"
    by (auto simp: bind_eq_Some_conv split: if_splits)
  then have "apply_jail ag spec (aw_rc w) = (Val (), aw_rc w1)"
    by (auto simp: run_rc_def split: prod.splits outcome.splits)
  from apply_jail_record(1) [OF this] obtain k where k: "has_record ag n \<lparr>jrec_spec = spec, jrec_epair_ordinal = k\<rparr> (aw_rc w1)"
    by (auto simp: n)
  from a(2) obtain x where "reconcile ag (h_instant_now (ag_ops ag) (rc_host (aw_rc w1))) (aw_rc w1) = (x, aw_rc w2)"
    by (auto simp: tick_def run_rc_def split: prod.splits outcome.splits)
  from keepsAE [OF keeps_record_reconcile this k] w'(1) a(3) b show ?thesis by (metis jail_record.select_convs(1))
qed

text \<open>The example agent behind its block.\<close>

definition aex_slots :: "fake_host aslots" where
  "aex_slots = \<lparr>as_pod_cidr = Some \<lparr>net_addr = 0x0A000100, net_prefix_len = 24\<rparr>, as_vips = [],
     as_targets = \<lparr>sb_host = aex_host, sb_fs = aex_fs, sb_by_name = []\<rparr>\<rparr>"

definition aex_yaml :: ayaml where
  "aex_yaml = \<lparr>ay_jail = \<lambda>s. Ok (aex_spec ''10.0.1.2/24''), ay_ingress = \<lambda>s. Err ''y'', ay_replicate_to = Ok\<rparr>"

definition aex_put :: parsed_request where
  "aex_put = \<lparr>pr_method = ''PUT'', pr_path = ''/jails/j'', pr_body = ''b''\<rparr>"

lemma aex_put_path: "path_segments (pr_path aex_put) = [''jails'', ''j'']"
  by (simp add: aex_put_def path_segments_def trim_start_matches_def)

lemma aex_put_accepted:
  assumes "as_pod_cidr slots = None \<or> as_pod_cidr slots = as_pod_cidr aex_slots"
  shows "\<exists>w'. aroute (aex_agent ipnet_ref) aex_yaml slots aex_put (Some aex_aw) = ((200, AbEmpty), Some w')"
proof -
  let ?ag = "aex_agent ipnet_ref" and ?sp = "aex_spec ''10.0.1.2/24''"
  have "harmless ?ag {volume_dataset_path ''p'' ''v''} (AApply ?sp)"
    by (auto simp: aex_agent_def ipnet_ref_def split: result.splits)
  from exa.handle_acommand_safe [OF aex_inv this, of "()"] obtain x w' where
    h: "handle_acommand ?ag () (AApply ?sp) aex_aw = Some (x, w')" by blast
  have "x = AResult (Ok ())"
    using h aex_apply by (auto simp: run_rc_def aex_aw_def bind_eq_Some_conv)
  with h have "on_worker ?ag (AApply ?sp) (answer_result AbEmpty) (Some aex_aw) = ((200, AbEmpty), Some w')"
    by (simp add: on_worker_def asend_def answer_result_def del: handle_acommand.simps)
  moreover have "api_parse_ipnet ipnet_ref ''10.0.1.2/24'' = Ok (V4 \<lparr>net_addr = 0x0A000102, net_prefix_len = 24\<rparr>)"
    using aex_address by (simp add: ipnet_ref_def)
  moreover have "api_contains ipnet_ref (V4 \<lparr>net_addr = 0x0A000100, net_prefix_len = 24\<rparr>) (IpV4 0x0A000102)"
    by (simp add: ref.contains_v4 in_net_iff host_bits_def)
  ultimately have "handle_apply ?ag aex_yaml ''j'' ''b'' (as_pod_cidr slots) (Some aex_aw) = ((200, AbEmpty), Some w')"
    using assms by (auto simp: aex_slots_def handle_apply_def aex_yaml_def aex_spec_def aex_agent_def)
  then have "aroute ?ag aex_yaml slots aex_put (Some aex_aw) = ((200, AbEmpty), Some w')"
    by (simp add: aroute_def aex_put_path Let_def) (simp add: aex_put_def)
  then show ?thesis by blast
qed

end
