(* ===== verification/Ag_Node.thy ===== *)
theory Ag_Node
  imports Ag_Registration Ag_Service
begin

text \<open>
  A node as a whole: the worker thread, the HTTP connections and the registration thread share the slots and
  the commands. The routes of a node follow the list of peers, the proxy spreads connections over the replicas,
  and no interleaving of the threads, command by command, ends the worker of a node that knows its block.
\<close>

section \<open>Routes follow the peers\<close>

definition node_routes :: "fake_host aw \<Rightarrow> (string, string) hmap" where
  "node_routes w = fk_routes (rc_host (aw_rc w))"

definition with_routes :: "(string, string) hmap \<Rightarrow> fake_host aw \<Rightarrow> fake_host aw" where
  "with_routes R w = w\<lparr>aw_rc := (aw_rc w)\<lparr>rc_host := (rc_host (aw_rc w))\<lparr>fk_routes := R\<rparr>\<rparr>\<rparr>"

lemma with_routes_simps [simp]:
  "node_routes (with_routes R w) = R" "with_routes Q (with_routes R w) = with_routes Q w"
  "with_routes (node_routes w) w = w"
  by (simp_all add: node_routes_def with_routes_def)

lemma asend_routes:
  assumes "ag_ops ag = fake_host_ops (ag_api ag)"
  shows "asend ag (AAddRoute c g) (Some w) = (AReply (ANet (Ok ())), Some (with_routes (hm_insert c g (node_routes w)) w))"
    and "asend ag (ARemoveRoute c) (Some w) = (AReply (ANet (Ok ())), Some (with_routes (hm_remove c (node_routes w)) w))"
  by (simp_all add: asend_def run_rc_def rc_add_route_def rc_remove_route_def assms fake_host_ops_def fake_add_route_def fake_remove_route_def
      on_host_def act_defs with_routes_def node_routes_def)

lemma remove_routes_fake:
  assumes "ag_ops ag = fake_host_ops (ag_api ag)"
  shows "\<exists>R. remove_routes ag cs (installed, Some w) = (True, filter (\<lambda>(_, v). v \<notin> set cs) installed, Some (with_routes R w)) \<and>
    (\<forall>c. hm_get R c = (if c \<in> set cs then None else hm_get (node_routes w) c))"
proof (induction cs arbitrary: installed w)
  case Nil
  show ?case by (intro exI [of _ "node_routes w"]) simp
next
  case (Cons c cs)
  let ?w = "with_routes (hm_remove c (node_routes w)) w"
  from Cons.IH [of "retain_not c installed" ?w] obtain R where
    R: "remove_routes ag cs (retain_not c installed, Some ?w) = (True, filter (\<lambda>(_, v). v \<notin> set cs) (retain_not c installed), Some (with_routes R ?w))"
    "\<forall>d. hm_get R d = (if d \<in> set cs then None else hm_get (node_routes ?w) d)" by blast
  then show ?case
    by (intro exI [of _ R]) (auto simp: asend_routes [OF assms] retain_not_def filter_filter case_prod_unfold intro!: filter_cong)
qed

lemma find_key:
  assumes "distinct (map f xs)"
  shows "find (\<lambda>p. f p = k) xs = Some p \<longleftrightarrow> p \<in> set xs \<and> f p = k"
  using assms by (induction xs) force+

lemma find_key_None: "find (\<lambda>p. f p = k) xs = None \<longleftrightarrow> k \<notin> f ` set xs"
  by (induction xs) auto

definition gateways :: "node_status list \<Rightarrow> (string \<times> string) list" where
  "gateways ps = map (\<lambda>p. (st_pod_cidr p, st_addr p)) ps"

lemma add_routes_fake:
  assumes f: "ag_ops ag = fake_host_ops (ag_api ag)" and d: "distinct (map st_pod_cidr peers)" and s: "set ps \<subseteq> set peers"
    and dp: "distinct (map st_pod_cidr ps)" "distinct (map st_id ps)"
  shows "\<exists>I R. add_routes ag peers (gateways ps) (installed, Some w) = (I, Some (with_routes R w)) \<and>
    (\<forall>i. hm_get I i = (case find (\<lambda>p. st_id p = i) ps of Some p \<Rightarrow> Some (st_pod_cidr p) | None \<Rightarrow> hm_get installed i)) \<and>
    (\<forall>c. hm_get R c = (case find (\<lambda>p. st_pod_cidr p = c) ps of Some p \<Rightarrow> Some (strip_port (st_addr p)) | None \<Rightarrow> hm_get (node_routes w) c)) \<and>
    (hm_wf installed \<longrightarrow> hm_wf I)"
  using s dp
proof (induction ps arbitrary: installed w)
  case Nil
  show ?case by (intro exI [of _ installed] exI [of _ "node_routes w"]) (simp add: gateways_def)
next
  case (Cons p ps)
  let ?c = "st_pod_cidr p"
  let ?w = "with_routes (hm_insert ?c (strip_port (st_addr p)) (node_routes w)) w" and ?i = "hm_insert (st_id p) ?c installed"
  have "q = p" if "find (\<lambda>q. st_pod_cidr q = ?c) peers = Some q" for q
    using that d Cons.prems(1) by (auto simp: find_Some_iff distinct_map inj_on_def)
  moreover have "find (\<lambda>q. st_pod_cidr q = ?c) peers \<noteq> None" using Cons.prems(1) by (auto simp: find_None_iff)
  ultimately have fi: "find (\<lambda>q. st_pod_cidr q = ?c) peers = Some p" by auto
  from Cons.IH [of ?i ?w] Cons.prems obtain I R where
    R: "add_routes ag peers (gateways ps) (?i, Some ?w) = (I, Some (with_routes R ?w))"
    "\<forall>i. hm_get I i = (case find (\<lambda>p. st_id p = i) ps of Some p \<Rightarrow> Some (st_pod_cidr p) | None \<Rightarrow> hm_get ?i i)"
    "\<forall>c. hm_get R c = (case find (\<lambda>p. st_pod_cidr p = c) ps of Some p \<Rightarrow> Some (strip_port (st_addr p)) | None \<Rightarrow> hm_get (node_routes ?w) c)"
    "hm_wf ?i \<longrightarrow> hm_wf I" by auto
  have n: "find (\<lambda>q. st_id q = st_id p) ps = None" "find (\<lambda>q. st_pod_cidr q = ?c) ps = None"
    using Cons.prems(2,3) by (simp_all add: find_key_None)
  show ?case
    using R n fi by (intro exI [of _ I] exI [of _ R]) (auto simp: gateways_def asend_routes [OF f] split: option.splits)
qed

text \<open>The table of installed routes fits the routes of the host, and no peer has been given a new block.\<close>

definition routes_sync :: "node_status list \<Rightarrow> (string, string) hmap \<Rightarrow> (string, string) hmap \<Rightarrow> bool" where
  "routes_sync peers installed routes \<longleftrightarrow> hm_wf installed \<and>
     (\<forall>i c. hm_get installed i = Some c \<longrightarrow> hm_get routes c \<noteq> None \<and> (\<forall>j. hm_get installed j = Some c \<longrightarrow> i = j)) \<and>
     (\<forall>c. hm_get routes c \<noteq> None \<longrightarrow> (\<exists>i. hm_get installed i = Some c)) \<and>
     (\<forall>p \<in> set peers. hm_get installed (st_id p) = None \<or> hm_get installed (st_id p) = Some (st_pod_cidr p)) \<and>
     (\<forall>p \<in> set peers. \<forall>i. hm_get installed i = Some (st_pod_cidr p) \<longrightarrow> i = st_id p)"

lemma routes_syncD:
  assumes "routes_sync peers installed routes"
  shows "hm_wf installed" "hm_get installed i = Some c \<Longrightarrow> hm_get routes c \<noteq> None"
    "hm_get installed i = Some c \<Longrightarrow> hm_get installed j = Some c \<Longrightarrow> i = j"
    "hm_get routes c \<noteq> None \<Longrightarrow> \<exists>i. hm_get installed i = Some c"
    "p \<in> set peers \<Longrightarrow> hm_get installed (st_id p) = Some c \<Longrightarrow> st_pod_cidr p = c"
    "p \<in> set peers \<Longrightarrow> hm_get installed i = Some (st_pod_cidr p) \<Longrightarrow> i = st_id p"
proof -
  note A = assms [unfolded routes_sync_def]
  show "hm_wf installed" using A by (rule conjunct1)
  show "hm_get installed i = Some c \<Longrightarrow> hm_get routes c \<noteq> None" using A by blast
  show "hm_get installed i = Some c \<Longrightarrow> hm_get installed j = Some c \<Longrightarrow> i = j" using A by blast
  show "hm_get routes c \<noteq> None \<Longrightarrow> \<exists>i. hm_get installed i = Some c" using A by blast
  show "i = st_id p" if "p \<in> set peers" "hm_get installed i = Some (st_pod_cidr p)" using A that by blast
  have "hm_get installed (st_id p) = None \<or> hm_get installed (st_id p) = Some (st_pod_cidr p)" if "p \<in> set peers" using A that by blast
  then show "st_pod_cidr p = c" if "p \<in> set peers" "hm_get installed (st_id p) = Some c" using that by auto
qed

definition gone_routes :: "string \<Rightarrow> node_status list \<Rightarrow> (string, string) hmap \<Rightarrow> string set" where
  "gone_routes self peers installed = {c. \<exists>i. hm_get installed i = Some c \<and> (\<forall>p \<in> set peers. routable self p \<longrightarrow> st_id p \<noteq> i)}"

lemma not_gone:
  assumes "\<And>j. hm_get installed j = Some c \<Longrightarrow> j = st_id p" "p \<in> set peers" "routable self p"
  shows "c \<notin> gone_routes self peers installed"
  using assms unfolding gone_routes_def by blast

abbreviation new_peers :: "string \<Rightarrow> node_status list \<Rightarrow> (string, string) hmap \<Rightarrow> node_status list" where
  "new_peers self peers installed \<equiv> filter (\<lambda>p. routable self p \<and> hm_get installed (st_id p) \<noteq> Some (st_pod_cidr p)) peers"

lemma diff_routes_sync:
  assumes "hm_wf installed"
  shows "\<exists>gone. diff_routes self peers installed = (gateways (new_peers self peers installed), gone) \<and> set gone = gone_routes self peers installed"
proof (intro exI conjI)
  let ?gone = "map snd (filter (\<lambda>(i, c). i \<notin> st_id ` set (filter (routable self) peers)) installed)"
  show "diff_routes self peers installed = (gateways (new_peers self peers installed), ?gone)"
    by (simp add: diff_routes_def gateways_def)
  have "c \<in> set ?gone \<longleftrightarrow> c \<in> gone_routes self peers installed" for c
    using hm_get_iff [OF assms, of _ c] by (force simp: gone_routes_def)
  then show "set ?gone = gone_routes self peers installed" by blast
qed

lemma kept_routes:
  assumes "hm_wf installed"
  shows "hm_get (filter (\<lambda>(_, v). v \<notin> G) installed) i = Some c \<longleftrightarrow> hm_get installed i = Some c \<and> c \<notin> G"
proof -
  have "hm_wf (filter (\<lambda>(_, v). v \<notin> G) installed)" using assms by (auto simp: hm_wf_def distinct_map_filter)
  from hm_get_iff [OF this, of i c] hm_get_iff [OF assms, of i c] show ?thesis by auto
qed

lemma installed_after:
  assumes d: "distinct (map st_id peers)" and s: "routes_sync peers installed routes"
    and I: "hm_get I i = (case find (\<lambda>p. st_id p = i) (new_peers self peers installed) of Some p \<Rightarrow> Some (st_pod_cidr p)
      | None \<Rightarrow> hm_get (filter (\<lambda>(_, v). v \<notin> gone_routes self peers installed) installed) i)"
  shows "hm_get I i = Some c \<longleftrightarrow> (\<exists>p \<in> set peers. routable self p \<and> st_id p = i \<and> st_pod_cidr p = c)"
proof (cases "find (\<lambda>p. st_id p = i) (new_peers self peers installed)")
  case (Some p)
  have "distinct (map st_id (new_peers self peers installed))" using d by (simp add: distinct_map_filter)
  from find_key [OF this] Some have p: "p \<in> set (new_peers self peers installed)" "st_id p = i" by auto
  moreover have "q = p" if "q \<in> set peers" "st_id q = i" for q using that p d by (auto simp: distinct_map inj_on_def)
  ultimately show ?thesis using I Some by auto
next
  case None
  note S = routes_syncD [OF s]
  from None have n: "\<forall>p \<in> set (new_peers self peers installed). st_id p \<noteq> i" by (auto simp: find_key_None)
  have I1: "hm_get I i = Some c \<longleftrightarrow> hm_get installed i = Some c \<and> c \<notin> gone_routes self peers installed" 
    using I None kept_routes [OF S(1)] by simp
  have "\<exists>p \<in> set peers. routable self p \<and> st_id p = i \<and> st_pod_cidr p = c" if h: "hm_get installed i = Some c" "c \<notin> gone_routes self peers installed"
  proof -
    obtain p where "p \<in> set peers" "routable self p" "st_id p = i" using h by (auto simp: gone_routes_def)
    with S(5) [of p c] h show ?thesis by blast
  qed
  moreover have "hm_get installed i = Some c \<and> c \<notin> gone_routes self peers installed"
    if p: "p \<in> set peers" "routable self p" "st_id p = i" "st_pod_cidr p = c" for p
  proof -
    have i: "hm_get installed i = Some c" using n p by auto
    moreover have "c \<notin> gone_routes self peers installed"
    proof (rule not_gone [OF _ p(1,2)])
      show "j = st_id p" if "hm_get installed j = Some c" for j using S(3) [OF that i] p(3) by simp
    qed
    ultimately show ?thesis ..
  qed
  ultimately show ?thesis using I1 by blast
qed

lemma kernel_after:
  assumes d: "distinct (map st_pod_cidr peers)" and s: "routes_sync peers installed routes"
    and R: "hm_get R c = (case find (\<lambda>p. st_pod_cidr p = c) (new_peers self peers installed) of Some p \<Rightarrow> Some (strip_port (st_addr p))
      | None \<Rightarrow> if c \<in> gone_routes self peers installed then None else hm_get routes c)"
  shows "hm_get R c = (case find (\<lambda>p. routable self p \<and> st_pod_cidr p = c) peers of
      Some p \<Rightarrow> Some (case hm_get routes c of Some old \<Rightarrow> old | None \<Rightarrow> strip_port (st_addr p)) | None \<Rightarrow> None)"
proof (cases "find (\<lambda>p. routable self p \<and> st_pod_cidr p = c) peers")
  case None
  note S = routes_syncD [OF s]
  from None have n: "\<forall>p \<in> set peers. \<not> (routable self p \<and> st_pod_cidr p = c)" by (auto simp: find_None_iff)
  then have "find (\<lambda>p. st_pod_cidr p = c) (new_peers self peers installed) = None" by (auto simp: find_key_None)
  moreover have "c \<in> gone_routes self peers installed" if h: "hm_get routes c \<noteq> None"
  proof -
    obtain i where i: "hm_get installed i = Some c" using S(4) h by blast
    then have "\<forall>p \<in> set peers. routable self p \<longrightarrow> st_id p \<noteq> i" using n S(5) by blast
    with i show ?thesis by (auto simp: gone_routes_def)
  qed
  ultimately show ?thesis using R None by (cases "hm_get routes c") auto
next
  case (Some p)
  note S = routes_syncD [OF s]
  from Some have p: "p \<in> set peers" "routable self p" "st_pod_cidr p = c" by (auto simp: find_Some_iff)
  have u: "q = p" if "q \<in> set peers" "st_pod_cidr q = c" for q using that p d by (auto simp: distinct_map inj_on_def)
  show ?thesis
  proof (cases "hm_get installed (st_id p) = Some c")
    case False
    have "distinct (map st_pod_cidr (new_peers self peers installed))" using d by (simp add: distinct_map_filter)
    from find_key [OF this] False p have "find (\<lambda>p. st_pod_cidr p = c) (new_peers self peers installed) = Some p" by auto
    moreover have "hm_get routes c = None" using False p S(4) [of c] S(6) [of p] by blast
    ultimately show ?thesis using R Some by simp
  next
    case True
    have "st_pod_cidr q \<noteq> c" if "q \<in> set (new_peers self peers installed)" for q using that u [of q] True by auto
    then have "find (\<lambda>p. st_pod_cidr p = c) (new_peers self peers installed) = None" unfolding find_key_None by blast
    moreover have "c \<notin> gone_routes self peers installed"
    proof (rule not_gone [OF _ p(1,2)])
      show "j = st_id p" if "hm_get installed j = Some c" for j using S(3) [OF that True] .
    qed
    moreover obtain old where "hm_get routes c = Some old" using S(2) [OF True] by blast
    ultimately show ?thesis using R Some by simp
  qed
qed

text \<open>C37: On the in-memory host, when the peers have distinct names and blocks, the table of installed routes fits the
  host's and no peer has been given another block since its route was set, a pass leaves a route to the block of each live
  peer and no other. The routes it adds go through the peer's current address; a route that was already there keeps the gateway it was set with,
  even when the peer has since registered with another address.\<close>

theorem routes_follow_peers:
  assumes "ag_ops ag = fake_host_ops (ag_api ag)" "distinct (map st_id peers)" "distinct (map st_pod_cidr peers)"
    and "routes_sync peers installed (node_routes w)"
  shows "\<exists>I R. reconcile_routes ag self peers (installed, Some w) = (I, Some (with_routes R w)) \<and>
    (\<forall>i c. hm_get I i = Some c \<longleftrightarrow> (\<exists>p \<in> set peers. routable self p \<and> st_id p = i \<and> st_pod_cidr p = c)) \<and>
    (\<forall>c. hm_get R c = (case find (\<lambda>p. routable self p \<and> st_pod_cidr p = c) peers of
       Some p \<Rightarrow> Some (case hm_get (node_routes w) c of Some old \<Rightarrow> old | None \<Rightarrow> strip_port (st_addr p)) | None \<Rightarrow> None))"
proof -
  let ?new = "new_peers self peers installed" and ?G = "gone_routes self peers installed"
  obtain gone where d: "diff_routes self peers installed = (gateways ?new, gone)" "set gone = ?G"
    using diff_routes_sync [OF routes_syncD(1) [OF assms(4)]] by blast
  let ?I = "filter (\<lambda>(_, v). v \<notin> set gone) installed"
  obtain Q where Q: "remove_routes ag gone (installed, Some w) = (True, ?I, Some (with_routes Q w))"
    "\<forall>c. hm_get Q c = (if c \<in> set gone then None else hm_get (node_routes w) c)"
    using remove_routes_fake [OF assms(1)] by blast
  have "distinct (map st_pod_cidr ?new)" "distinct (map st_id ?new)" "set ?new \<subseteq> set peers"
    using assms(2,3) by (auto simp: distinct_map_filter)
  from add_routes_fake [OF assms(1,3) this(3,1,2), of ?I "with_routes Q w", unfolded with_routes_simps] obtain I R where
    R: "add_routes ag peers (gateways ?new) (?I, Some (with_routes Q w)) = (I, Some (with_routes R w))"
    "\<forall>i. hm_get I i = (case find (\<lambda>p. st_id p = i) ?new of Some p \<Rightarrow> Some (st_pod_cidr p) | None \<Rightarrow> hm_get ?I i)"
    "\<forall>c. hm_get R c = (case find (\<lambda>p. st_pod_cidr p = c) ?new of Some p \<Rightarrow> Some (strip_port (st_addr p)) | None \<Rightarrow> hm_get Q c)"
    by blast
  have "reconcile_routes ag self peers (installed, Some w) = (I, Some (with_routes R w))"
    using d(1) Q(1) R(1) by (simp add: reconcile_routes_def)
  moreover have "hm_get I i = Some c \<longleftrightarrow> (\<exists>p \<in> set peers. routable self p \<and> st_id p = i \<and> st_pod_cidr p = c)" for i c
    by (rule installed_after [OF assms(2,4) spec [OF R(2) [unfolded d(2)]]])
  moreover have "hm_get R c = (case find (\<lambda>p. routable self p \<and> st_pod_cidr p = c) peers of
      Some p \<Rightarrow> Some (case hm_get (node_routes w) c of Some old \<Rightarrow> old | None \<Rightarrow> strip_port (st_addr p)) | None \<Rightarrow> None)" for c
    by (rule kernel_after [OF assms(3,4)], subst R(3) [rule_format]) (simp only: Q(2) [unfolded d(2)])
  ultimately show ?thesis by blast
qed

definition rex_peer :: "string \<Rightarrow> string \<Rightarrow> string \<Rightarrow> node_state \<Rightarrow> node_status" where
  "rex_peer i a c s = \<lparr>st_id = i, st_addr = a, st_pod_cidr = c, st_status = s, st_last_seen_secs = 0, st_capacity_cpu = Fin 1,
     st_capacity_memory = 1, st_committed_cpu = Fin 0, st_committed_memory = 0\<rparr>"

text \<open>Of three peers one is new, one has died, and one has moved to another address.\<close>

theorem routes_follow_peers_witness:
  "\<exists>I R. reconcile_routes (aex_agent ipnet_ref) ''me''
       [rex_peer ''a'' ''p:7'' ''A'' Alive, rex_peer ''b'' ''q:7'' ''B'' Dead,
        rex_peer ''c'' ''s:7'' ''C'' Alive]
       ([(''b'', ''B''), (''c'', ''C'')],
        Some (with_routes [(''B'', ''q''), (''C'', ''r'')] aex_aw)) =
      (I, Some (with_routes R (with_routes [(''B'', ''q''), (''C'', ''r'')] aex_aw))) \<and>
     hm_get R ''A'' = Some ''p'' \<and> hm_get R ''B'' = None \<and> hm_get R ''C'' = Some ''r''"
proof -
  let ?ps = "[rex_peer ''a'' ''p:7'' ''A'' Alive, rex_peer ''b'' ''q:7'' ''B'' Dead,
        rex_peer ''c'' ''s:7'' ''C'' Alive]"
  let ?w = "with_routes [(''B'', ''q''), (''C'', ''r'')] aex_aw"
  let ?i = "[(''b'', ''B''), (''c'', ''C'')]"
  have f: "ag_ops (aex_agent ipnet_ref) = fake_host_ops (ag_api (aex_agent ipnet_ref))" by (simp add: aex_agent_def)
  have d: "distinct (map st_id ?ps)" "distinct (map st_pod_cidr ?ps)" by (simp_all add: rex_peer_def)
  have y: "routes_sync ?ps ?i (node_routes ?w)"
    unfolding routes_sync_def with_routes_simps
  proof (intro conjI allI impI)
    fix i c j
    assume h: "hm_get ?i i = Some c"
    show "hm_get [(''B'', ''q''), (''C'', ''r'')] c \<noteq> None" using h by (auto split: if_splits)
    assume "hm_get ?i j = Some c"
    with h show "i = j" by (auto split: if_splits)
  next
    fix c
    assume "hm_get [(''B'', ''q''), (''C'', ''r'')] c \<noteq> None"
    then have "hm_get ?i ''b'' = Some c \<or> hm_get ?i ''c'' = Some c" by (auto split: if_splits)
    then show "\<exists>i. hm_get ?i i = Some c" by blast
  qed (simp_all add: rex_peer_def hm_wf_def)
  obtain I R where R: "reconcile_routes (aex_agent ipnet_ref) ''me'' ?ps (?i, Some ?w) = (I, Some (with_routes R ?w))"
    "\<And>c. hm_get R c = (case find (\<lambda>p. routable ''me'' p \<and> st_pod_cidr p = c) ?ps of
       Some p \<Rightarrow> Some (case hm_get (node_routes ?w) c of Some old \<Rightarrow> old | None \<Rightarrow> strip_port (st_addr p)) | None \<Rightarrow> None)"
    using routes_follow_peers [OF f d y, of "''me''"] by blast
  have "rsplit_once CHR '':'' ''p:7'' = Some (''p'', ''7'')" by (simp add: rsplit_once_Some_iff)
  then have "strip_port ''p:7'' = ''p''" by (simp add: strip_port_def)
  then have "hm_get R ''A'' = Some ''p''" "hm_get R ''B'' = None" "hm_get R ''C'' = Some ''r''"
    unfolding R(2) by (simp_all add: rex_peer_def routable_def)
  with R(1) show ?thesis by blast
qed

section \<open>The proxy spreads connections\<close>

lemma relay_target_rotate:
  assumes "xs \<noteq> []" "c + length xs \<le> 2 ^ 64"
  shows "map (\<lambda>k. hd (relay_targets xs (c + k))) [0..<length xs] = rotate c xs"
proof (rule nth_equalityI)
  fix k
  assume k: "k < length (map (\<lambda>k. hd (relay_targets xs (c + k))) [0..<length xs])"
  have "0 < min 2 (length xs)" using assms(1) by simp
  then have "[0..<min 2 (length xs)] = 0 # [1..<min 2 (length xs)]" by (simp add: upt_conv_Cons)
  then have "hd (relay_targets xs (c + k)) = xs ! ((c + k) mod 2 ^ 64 mod length xs)" by (simp add: relay_targets_def)
  with k assms(2) show "map (\<lambda>k. hd (relay_targets xs (c + k))) [0..<length xs] ! k = rotate c xs ! k" by (simp add: nth_rotate)
qed simp

text \<open>As long as the counter does not wrap, consecutive connections to a service are first offered to all of
  its replicas in turn, each exactly once per cycle; each connection has a second, different position to
  fall back on when there are two replicas, and it is lost only if neither accepts it.\<close>

lemma relay_round_robin:
  assumes "xs \<noteq> []" "c + length xs \<le> 2 ^ 64" "c + 1 < 2 ^ 64"
  shows "mset (map (\<lambda>k. hd (relay_targets xs (c + k))) [0..<length xs]) = mset xs \<and>
    (2 \<le> length xs \<longrightarrow> relay_targets xs c = [xs ! (c mod length xs), xs ! ((c + 1) mod length xs)] \<and>
       c mod length xs \<noteq> (c + 1) mod length xs) \<and>
    (fst (relay_connection xs c f) = None \<longleftrightarrow> (\<nexists>t. t \<in> set (relay_targets xs c) \<and> f t)) \<and>
    set (relay_targets xs c) \<subseteq> set xs"
proof (intro conjI impI)
  show "mset (map (\<lambda>k. hd (relay_targets xs (c + k))) [0..<length xs]) = mset xs"
    unfolding relay_target_rotate [OF assms(1,2)] rotate_drop_take by (metis append_take_drop_id mset_append union_commute)
  assume l: "2 \<le> length xs"
  then have "[0..<min 2 (length xs)] = [0, 1]" by (simp add: upt_conv_Cons min_def)
  then show "relay_targets xs c = [xs ! (c mod length xs), xs ! ((c + 1) mod length xs)]"
    using assms(2,3) by (simp add: relay_targets_def)
  show "c mod length xs \<noteq> (c + 1) mod length xs"
    using l by (metis Suc_1 Suc_eq_plus1 Suc_n_not_le_n add_cancel_left_right diff_add_inverse le_zero_eq mod_eq_dvd_iff_nat nat_dvd_1_iff_1 le_add1)
next
  show "fst (relay_connection xs c f) = None \<longleftrightarrow> (\<nexists>t. t \<in> set (relay_targets xs c) \<and> f t)"
    using assms(1) by (auto simp: relay_connection_def find_None_iff)
  show "set (relay_targets xs c) \<subseteq> set xs" using assms(1) by (auto simp: relay_targets_def)
qed

section \<open>All threads of a node\<close>

definition alive :: "'s agent \<Rightarrow> ('s \<Rightarrow> string set) \<Rightarrow> string set \<Rightarrow> 's aw option \<Rightarrow> bool" where
  "alive ag D V worker \<longleftrightarrow> (\<exists>w. worker = Some w \<and> agent_inv ag D V (aw_rc w))"

lemma alive_asend:
  assumes "agent_host ag D V" "alive ag D V worker" "harmless ag V c" "asend ag c worker = (s, worker')"
  shows "alive ag D V worker'"
proof -
  obtain w where w: "worker = Some w" "agent_inv ag D V (aw_rc w)" using assms(2) by (auto simp: alive_def)
  obtain r w' where "handle_acommand ag () c w = Some (r, w')" "agent_inv ag D V (aw_rc w')"
    using agent_host.handle_acommand_safe [OF assms(1) w(2) assms(3)] by blast
  with w assms(4) show ?thesis by (auto simp: asend_def alive_def)
qed

lemma alive_share: "alive ag D V worker \<Longrightarrow> alive ag D V (share_vips vips worker)"
  by (auto simp: alive_def share_vips_def agent_inv_def rc_inv_def)

text \<open>The commands of the registration thread, and what holds of the worker if every one of them keeps it.\<close>

fun registration_command :: "acommand \<Rightarrow> bool" where
  "registration_command ACommittedResources = True"
| "registration_command (AGet n) = (n = None)"
| "registration_command (AAddRoute c g) = True"
| "registration_command (ARemoveRoute c) = True"
| "registration_command (AAddServiceAlias b a) = True"
| "registration_command (ARemoveServiceAlias b a) = True"
| "registration_command _ = False"

locale sends_closed =
  fixes ag :: "'s agent" and up :: "'s aw option \<Rightarrow> bool"
  assumes closed: "registration_command c \<Longrightarrow> up worker \<Longrightarrow> asend ag c worker = (s, worker') \<Longrightarrow> up worker'"
begin

lemma up_remove_routes: "up worker \<Longrightarrow> remove_routes ag cs (installed, worker) = (b, i, worker') \<Longrightarrow> up worker'"
proof (induction cs arbitrary: installed worker)
  case (Cons c cs)
  obtain s w1 where e: "asend ag (ARemoveRoute c) worker = (s, w1)" by (metis surj_pair)
  have u: "up w1" using closed [OF _ Cons.prems(1) e] by simp
  from Cons.prems(2) e have "w1 = worker' \<or> (\<exists>j. remove_routes ag cs (j, w1) = (b, i, worker'))"
    by (auto split: asent.splits areply.splits result.splits)
  with u Cons.IH show ?case by blast
qed simp

lemma up_add_routes: "up worker \<Longrightarrow> add_routes ag peers cs (installed, worker) = (i, worker') \<Longrightarrow> up worker'"
proof (induction cs arbitrary: installed worker)
  case (Cons ca cs)
  obtain c a where ca: "ca = (c, a)" by (cases ca)
  obtain s w1 where e: "asend ag (AAddRoute c (strip_port a)) worker = (s, w1)" by (metis surj_pair)
  have u: "up w1" using closed [OF _ Cons.prems(1) e] by simp
  from Cons.prems(2) e have "w1 = worker' \<or> (\<exists>j. add_routes ag peers cs (j, w1) = (i, worker'))"
    by (auto simp: ca split: asent.splits areply.splits result.splits)
  with u Cons.IH show ?case by blast
qed simp

lemma up_reconcile_routes:
  assumes "up worker" "reconcile_routes ag self peers (installed, worker) = (i, worker')"
  shows "up worker'"
proof -
  obtain a r where d: "diff_routes self peers installed = (a, r)" by (metis surj_pair)
  obtain b j w1 where e: "remove_routes ag r (installed, worker) = (b, j, w1)" by (metis prod.exhaust)
  from up_remove_routes [OF assms(1) e] up_add_routes assms(2) d e show ?thesis
    by (auto simp: reconcile_routes_def split: bool.splits)
qed

lemma up_drop_proxied:
  assumes "up worker" "drop_proxied ag n (px, worker, w) = (px', worker', w')"
  shows "up worker'"
proof (cases "hm_get px n")
  case (Some x)
  obtain s w1 where e: "asend ag (ARemoveServiceAlias (px_bridge x) (px_vip x)) worker = (s, w1)" by (metis surj_pair)
  have "up w1" using closed [OF _ assms(1) e] by simp
  with assms(2) Some e show ?thesis by (simp add: drop_proxied_def)
qed (use assms in \<open>simp add: drop_proxied_def\<close>)

lemma up_proxy_entry:
  assumes "up worker" "proxy_entry ag env e (px, worker, w) = (px', worker', w')"
  shows "up worker'"
proof -
  obtain s w1 where a: "asend ag (AAddServiceAlias PROXY_BRIDGE (pe_vip e)) worker = (s, w1)" by (metis surj_pair)
  have "up w1" using closed [OF _ assms(1) a] by simp
  moreover have "worker' = worker \<or> worker' = w1"
    using assms(2) a by (auto simp: proxy_entry_def split: option.splits asent.splits areply.splits result.splits prod.splits bool.splits)
  ultimately show ?thesis using assms(1) by blast
qed

lemma up_foldl:
  assumes "\<And>x px w1 w px' w1' w'. up w1 \<Longrightarrow> f (px, w1, w) x = (px', w1', w') \<Longrightarrow> up w1'" "up worker"
    and "foldl f (px, worker, w) xs = (px', worker', w')"
  shows "up worker'"
  using assms(2,3)
proof (induction xs arbitrary: px worker w)
  case (Cons x xs)
  obtain p1 w1 v1 where e: "f (px, worker, w) x = (p1, w1, v1)" by (metis prod.exhaust)
  from assms(1) [OF Cons.prems(1) e] Cons.IH Cons.prems(2) e show ?case by simp
qed simp

lemma up_proxy_reconcile:
  assumes "up worker" "proxy_reconcile_services ag env es (px, worker, w) = (px', worker', w')"
  shows "up worker'"
proof -
  let ?gone = "filter (\<lambda>n. n \<notin> pe_name ` set es) (map fst px)"
  obtain p1 w1 v1 where e: "foldl (\<lambda>s n. drop_proxied ag n s) (px, worker, w) ?gone = (p1, w1, v1)" by (metis prod.exhaust)
  have "up w1" by (rule up_foldl [OF _ assms(1) e]) (rule up_drop_proxied)
  moreover have "foldl (\<lambda>s e. proxy_entry ag env e s) (p1, w1, v1) es = (px', worker', w')"
    using assms(2) e by (simp add: proxy_reconcile_services_def)
  ultimately show ?thesis by (rule up_foldl [rotated]) (rule up_proxy_entry)
qed

lemma up_heartbeat:
  assumes "up worker" "heartbeat_once ag env cfg (worker, w) = (r, worker', w')"
  shows "up worker'"
proof -
  obtain s1 w1 where 1: "asend ag ACommittedResources worker = (s1, w1)" by (metis surj_pair)
  obtain s2 w2 where 2: "asend ag (AGet None) w1 = (s2, w2)" by (metis surj_pair)
  have "up w1" using closed [OF _ assms(1) 1] by simp
  moreover have "up w2" using closed [OF _ calculation 2] by simp
  moreover have "worker' = w1 \<or> worker' = w2"
    using assms(2) 1 2 by (auto simp: heartbeat_once_def split: asent.splits areply.splits result.splits prod.splits)
  ultimately show ?thesis by blast
qed

end

section \<open>The threads of a node\<close>

text \<open>What can happen on a node, in the steps that other threads can see: a request that deletes none of the volumes
  \<open>V\<close> (a request gives the worker one command), one command of the registration thread, its writing of one of the two slots, whatever it
  does by itself and with the control plane, or the timer.\<close>

inductive node_step :: "'s agent \<Rightarrow> ayaml \<Rightarrow> string set \<Rightarrow> ('s, 'w) rgstate \<Rightarrow> ('s, 'w) rgstate \<Rightarrow> bool"
  for ag y V where
  node_request: "\<not> drops_volume ag V q \<Longrightarrow>
     aroute ag y \<lparr>as_pod_cidr = rg_pod_cidr st, as_vips = rg_vips st, as_targets = (targets :: unit standby)\<rparr> q (rg_worker st) = (r, worker') \<Longrightarrow>
     node_step ag y V st (st\<lparr>rg_worker := worker'\<rparr>)"
| node_command: "registration_command c \<Longrightarrow> asend ag c (rg_worker st) = (s, worker') \<Longrightarrow> node_step ag y V st (st\<lparr>rg_worker := worker'\<rparr>)"
| node_block: "node_step ag y V st (st\<lparr>rg_pod_cidr := pod_cidr_set cidr (rg_pod_cidr st)\<rparr>)"
| node_vips: "node_step ag y V st (st\<lparr>rg_vips := vips, rg_worker := share_vips vips (rg_worker st)\<rparr>)"
| node_local: "node_step ag y V st (st\<lparr>rg_registered := b, rg_installed := installed, rg_proxied := proxied, rg_world := w\<rparr>)"
| node_tick: "asend ag ATick (rg_worker st) = (s, worker') \<Longrightarrow> node_step ag y V st (st\<lparr>rg_worker := worker'\<rparr>)"

text \<open>A round of the registration thread is a sequence of such steps, so anything may come between them.\<close>

definition sends :: "'s agent \<Rightarrow> 's aw option \<Rightarrow> 's aw option \<Rightarrow> bool" where
  "sends ag worker worker' \<longleftrightarrow> (\<exists>c s. registration_command c \<and> asend ag c worker = (s, worker'))"

interpretation sent: sends_closed ag "(sends ag)\<^sup>*\<^sup>* worker" for ag :: "'s agent" and worker
  by unfold_locales (erule rtranclp.rtrancl_into_rtrancl, auto simp: sends_def)

lemma sends_node_steps:
  assumes "(sends ag)\<^sup>*\<^sup>* (rg_worker st) worker'"
  shows "(node_step ag y V)\<^sup>*\<^sup>* st (st\<lparr>rg_worker := worker'\<rparr>)"
  using assms
proof (induction rule: rtranclp_induct)
  case (step w1 w2)
  from step.hyps(2) obtain c s where "registration_command c" "asend ag c (rg_worker (st\<lparr>rg_worker := w1\<rparr>)) = (s, w2)" by (auto simp: sends_def)
  from node_command [OF this, of y V] step.IH show ?case by simp
qed simp

lemma node_local_step:
  "rg_pod_cidr st' = rg_pod_cidr st \<Longrightarrow> rg_vips st' = rg_vips st \<Longrightarrow> rg_worker st' = rg_worker st \<Longrightarrow> node_step ag y V st (st' :: ('s, 'w) rgstate)"
proof -
  assume "rg_pod_cidr st' = rg_pod_cidr st" "rg_vips st' = rg_vips st" "rg_worker st' = rg_worker st"
  then have "st' = st\<lparr>rg_registered := rg_registered st', rg_installed := rg_installed st', rg_proxied := rg_proxied st', rg_world := rg_world st'\<rparr>"
    by (intro rgstate.equality) simp_all
  then show ?thesis using node_local by metis
qed

lemma contact_node_steps: "(node_step ag y V)\<^sup>*\<^sup>* st (registration_contact ag env cfg st)"
proof (cases "rg_registered st")
  case False
  obtain r w where r: "register_once ag env cfg (rg_world st) = (r, w)" by fastforce
  show ?thesis
  proof (cases r)
    case (Ok cidr)
    let ?s = "st\<lparr>rg_pod_cidr := pod_cidr_set cidr (rg_pod_cidr st)\<rparr>"
    have "node_step ag y V st ?s" by (rule node_block)
    moreover have "node_step ag y V ?s (registration_contact ag env cfg st)"
      by (rule node_local_step) (use False r Ok in \<open>simp_all add: registration_contact_def\<close>)
    ultimately show ?thesis by (meson converse_rtranclp_into_rtranclp r_into_rtranclp)
  next
    case (Err e)
    have "node_step ag y V st (registration_contact ag env cfg st)"
      by (rule node_local_step) (use False r Err in \<open>simp_all add: registration_contact_def\<close>)
    then show ?thesis by (rule r_into_rtranclp)
  qed
next
  case True
  obtain r w1 v where h: "heartbeat_once ag env cfg (rg_worker st, rg_world st) = (r, w1, v)" by (metis prod.exhaust)
  have 1: "(node_step ag y V)\<^sup>*\<^sup>* st (st\<lparr>rg_worker := w1\<rparr>)"
    by (rule sends_node_steps) (rule sent.up_heartbeat [OF _ h], simp)
  show ?thesis
  proof (cases r)
    case (Ok es)
    let ?v = "vip_set_all es"
    let ?s = "st\<lparr>rg_vips := ?v, rg_worker := share_vips ?v w1\<rparr>"
    obtain p w2 v2 where p: "proxy_reconcile_services ag env es (rg_proxied st, share_vips ?v w1, v) = (p, w2, v2)" by (metis prod.exhaust)
    have "node_step ag y V (st\<lparr>rg_worker := w1\<rparr>) ?s" using node_vips [of ag y V "st\<lparr>rg_worker := w1\<rparr>" ?v] by simp
    with 1 have "(node_step ag y V)\<^sup>*\<^sup>* st ?s" by (rule rtranclp.rtrancl_into_rtrancl)
    moreover have "(node_step ag y V)\<^sup>*\<^sup>* ?s (?s\<lparr>rg_worker := w2\<rparr>)"
      by (rule sends_node_steps) (rule sent.up_proxy_reconcile [OF _ p], simp)
    moreover have "node_step ag y V (?s\<lparr>rg_worker := w2\<rparr>) (registration_contact ag env cfg st)"
      by (rule node_local_step) (use True h Ok p in \<open>simp_all add: registration_contact_def\<close>)
    ultimately show ?thesis by (meson rtranclp.rtrancl_into_rtrancl rtranclp_trans)
  next
    case (Err e)
    have "node_step ag y V (st\<lparr>rg_worker := w1\<rparr>) (registration_contact ag env cfg st)"
      by (rule node_local_step) (use True h Err in \<open>simp_all add: registration_contact_def\<close>)
    with 1 show ?thesis by (rule rtranclp.rtrancl_into_rtrancl)
  qed
qed

lemma round_node_steps: "(node_step ag y V)\<^sup>*\<^sup>* st (registration_round ag env cfg st)"
proof -
  let ?c = "registration_contact ag env cfg st"
  obtain r v where f: "fetch_nodes env cfg (rg_world ?c) = (r, v)" by (metis surj_pair)
  show ?thesis
  proof (cases r)
    case (Ok peers)
    obtain i w1 where e: "reconcile_routes ag (rc_node_id cfg) peers (rg_installed ?c, rg_worker ?c) = (i, w1)" by (metis surj_pair)
    have "(node_step ag y V)\<^sup>*\<^sup>* ?c (?c\<lparr>rg_worker := w1\<rparr>)"
      by (rule sends_node_steps) (rule sent.up_reconcile_routes [OF _ e], simp)
    moreover have "node_step ag y V (?c\<lparr>rg_worker := w1\<rparr>) (registration_round ag env cfg st)"
      by (rule node_local_step) (use Ok f e in \<open>simp_all add: registration_round_def Let_def\<close>)
    ultimately show ?thesis using contact_node_steps by (meson rtranclp.rtrancl_into_rtrancl rtranclp_trans)
  next
    case (Err e)
    have "node_step ag y V ?c (registration_round ag env cfg st)"
      by (rule node_local_step) (use Err f in \<open>simp_all add: registration_round_def Let_def\<close>)
    then show ?thesis using contact_node_steps by (meson rtranclp.rtrancl_into_rtrancl)
  qed
qed

lemma node_step_up:
  assumes "node_step ag y V st st'" "agent_host ag D V" "alive ag D V (rg_worker st)" "rg_pod_cidr st \<noteq> None"
  shows "alive ag D V (rg_worker st') \<and> rg_pod_cidr st' \<noteq> None"
  using assms
proof (induction rule: node_step.induct)
  case (node_request q st targets r worker')
  obtain w cidr where w: "rg_worker st = Some w" "agent_inv ag D V (aw_rc w)" "rg_pod_cidr st = Some cidr"
    using node_request by (auto simp: alive_def)
  have "ipnet_crate (ag_api ag)" using assms(2) by (simp add: agent_host_def)
  from one_command_route [OF this, of "\<lparr>as_pod_cidr = rg_pod_cidr st, as_vips = rg_vips st, as_targets = targets\<rparr>" cidr V q "Some w" y]
    node_request(1,2) w have "one_command ag V (Some w) (r, worker')" by simp
  with one_command_alive [OF assms(2) w(2), of r worker'] node_request.prems(3) show ?case by (auto simp: alive_def)
next
  case (node_command c st s worker')
  then have "harmless ag V c" by (cases c) simp_all
  then show ?case using alive_asend [OF assms(2) _ _ node_command(2)] node_command by simp
next
  case (node_tick st s worker')
  then show ?case using alive_asend [OF assms(2) _ _ node_tick(1)] by simp
qed (simp_all add: alive_share pod_cidr_set_def)

text \<open>C6: Once a node knows its block, its worker thread survives whatever the threads of the node do in whatever
  order, command by command: any requests (those apart that ask to delete a volume of \<open>V\<close>), any answers of the control plane, any failures of a host that obeys the laws. Its records stay mirrored on
  disk and every volume of \<open>V\<close> stays. The rounds of the registration thread are such sequences of steps.\<close>

theorem node_survives:
  assumes "agent_host ag D V" "rg_worker st = Some w" "agent_inv ag D V (aw_rc w)" "rg_pod_cidr st \<noteq> None"
    and "(node_step ag y V)\<^sup>*\<^sup>* st st'"
  shows "(\<exists>w'. rg_worker st' = Some w' \<and> V \<subseteq> D (rc_host (aw_rc w')) \<and>
      mirrors (jail_codec ag) (ag_state_dir ag) (rc_records (aw_rc w')) (rc_fs (aw_rc w'))) \<and>
    rg_pod_cidr st' \<noteq> None \<and> (node_step ag y V)\<^sup>*\<^sup>* st' (registration_round ag env cfg st')"
proof -
  have "alive ag D V (rg_worker st) \<and> rg_pod_cidr st \<noteq> None" using assms(2-4) by (simp add: alive_def)
  with assms(5) have "alive ag D V (rg_worker st') \<and> rg_pod_cidr st' \<noteq> None"
    by (induction rule: rtranclp_induct) (blast dest: node_step_up [OF _ assms(1)])+
  then show ?thesis using round_node_steps by (auto simp: alive_def agent_inv_def rc_inv_def)
qed

text \<open>A control plane that cannot be reached.\<close>

definition mute_env :: "unit renv" where
  "mute_env = \<lparr>re_exchange = \<lambda>_ _ _ _ w. (Err ''down'', w), re_parse_response = \<lambda>_. Partial, re_show_f64 = \<lambda>_. ''1'',
     re_register_response = Err, re_heartbeat = \<lambda>_. [], re_entries = \<lambda>_. Ok [], re_nodes = \<lambda>_. Ok [],
     re_parse_socket_addr = \<lambda>_. True, re_bind = \<lambda>_ w. (True, w)\<rparr>"

definition aex_cfg :: registration_cfg where
  "aex_cfg = \<lparr>rc_node_id = ''me'', rc_advertise_addr = ''a:1'', rc_replicate_addr = ''a:2'', rc_control_plane_addr = ''c:1'',
     rc_capacity_cpu = Fin 1, rc_capacity_memory = 1\<rparr>"

definition aex_rg :: "(fake_host, unit) rgstate" where
  "aex_rg = \<lparr>rg_registered = True, rg_installed = [], rg_proxied = [], rg_pod_cidr = Some \<lparr>net_addr = 0x0A000100, net_prefix_len = 24\<rparr>,
     rg_vips = [], rg_worker = Some aex_aw, rg_world = ()\<rparr>"

theorem node_survives_witness:
  "\<exists>w'. rg_worker (registration_round (aex_agent ipnet_ref) mute_env aex_cfg aex_rg) = Some w' \<and>
     volume_dataset_path ''p'' ''v'' \<in> fk_datasets (rc_host (aw_rc w'))"
proof -
  have "(node_step (aex_agent ipnet_ref) aex_yaml {volume_dataset_path ''p'' ''v''})\<^sup>*\<^sup>* aex_rg
      (registration_round (aex_agent ipnet_ref) mute_env aex_cfg aex_rg)"
    by (rule round_node_steps)
  moreover have "rg_worker aex_rg = Some aex_aw" "rg_pod_cidr aex_rg \<noteq> None" by (simp_all add: aex_rg_def)
  ultimately show ?thesis
    using node_survives [OF exa.agent_host_axioms, of aex_rg aex_aw aex_yaml _ mute_env aex_cfg] aex_inv by blast
qed

end
