(* ===== verification/Ag_Replicas.thy ===== *)
theory Ag_Replicas
  imports Ag_Replication Ag_Behaviour
begin

text \<open>
  What replication achieves between in-memory hosts. A standby that reports a completed snapshot holds the dataset with that
  snapshot, which its sender took; from a fresh start and with a link that works every round moves the standby to the newest snapshot; but a sender and
  a standby that disagree about the last common snapshot, as they do after a restart of the sender,
  never agree again.
\<close>

section \<open>Headers on the wire\<close>

lemma utf8_valid_ascii: "list_all (\<lambda>c. of_char c < (128 :: nat)) s \<Longrightarrow> utf8_valid s"
  by (induction s) (auto simp: cont_def)

lemma digit_ascii: "is_ascii_digit c \<Longrightarrow> of_char c < (128 :: nat)"
  by (simp add: is_ascii_digit_def)

lemma repl_name_inj [simp]: "repl_name s = repl_name t \<longleftrightarrow> s = t"
  by (simp add: repl_name_def)

lemma wire_ok_repl_name:
  assumes "t < 2 ^ 64"
  shows "wire_ok (repl_name t)"
proof -
  have "length (show_nat t) \<le> Suc 19" using assms by (intro length_show_nat) simp
  moreover have "utf8_valid (repl_name t)"
    using show_nat_digits [of t] digit_ascii by (intro utf8_valid_ascii) (auto simp: repl_name_def list_all_iff)
  ultimately show ?thesis by (simp add: wire_ok_def repl_name_def)
qed

lemma wire_ok_valid_name:
  assumes "validate_name n = Ok ()"
  shows "wire_ok n"
proof -
  have "list_all (\<lambda>c. of_char c < (128 :: nat)) n"
    using assms by (auto simp: list_all_iff validate_name_Ok_iff is_ascii_digit_def is_ascii_lowercase_def)
  with assms show ?thesis by (auto simp: wire_ok_def validate_name_Ok_iff utf8_valid_ascii)
qed

definition loop_ok :: "rep_loop \<Rightarrow> bool" where
  "loop_ok lp \<longleftrightarrow> lp_tick lp < 2 ^ 64 \<and> (\<forall>x. lp_last_confirmed lp = Some x \<longrightarrow> wire_ok x)"

lemma read_cut_header:
  assumes w: "wire_ok n" "wire_ok i" "\<forall>x. b = Some x \<longrightarrow> wire_ok x"
    and r: "read_header (cut k (write_header n i b)) = Ok (h, rest)"
  shows "h = \<lparr>hd_replica_name = n, hd_snapshot_id = i, hd_base_snapshot_id = b\<rparr> \<and> rest = []"
proof -
  obtain ys where "write_header n i b = cut k (write_header n i b) @ ys"
    by (cases k) (auto simp: cut_def intro: append_take_drop_id [symmetric])
  with read_header_append [OF r, of ys] read_write_header [OF w, of "[]"] show ?thesis by simp
qed

section \<open>The standby\<close>

definition last_of :: "'r standby \<Rightarrow> string \<Rightarrow> string option" where
  "last_of sb n = Option.bind (targets_get sb n) tg_last_snapshot"

lemma save_target_spec:
  assumes "save_target sc t sb = (x, sb')"
  shows "x \<noteq> Panic \<and> (\<exists>d. sb' = sb\<lparr>sb_fs := d\<rparr>)"
proof -
  obtain y d where e: "replica_target_save (target_codec sc) (sc_state_dir sc) t (sb_fs sb) = (y, d)" by (metis surj_pair)
  with assms store_save_files [OF e [unfolded replica_target_save_def]] show ?thesis
    by (auto simp: save_target_def zoomA_def)
qed

lemma ensure_target_spec:
  assumes "ensure_target sc n d a sb = (x, sb')"
  shows "sb_host sb' = sb_host sb \<and> (\<forall>m. last_of sb' m = last_of sb m) \<and> targets_get sb' n \<noteq> None \<and>
    x \<noteq> Panic \<and> (\<forall>t. x = Val t \<longrightarrow> tg_last_snapshot t = last_of sb n)"
proof -
  let ?t = "case hm_get (sb_by_name sb) n of Some t \<Rightarrow> t\<lparr>tg_source_node_addr := a\<rparr>
    | None \<Rightarrow> \<lparr>tg_replica_name = n, tg_volume_dataset = d, tg_source_node_addr = a, tg_last_snapshot = None\<rparr>"
  let ?sb = "sb\<lparr>sb_by_name := hm_insert n ?t (sb_by_name sb)\<rparr>"
  have t: "tg_last_snapshot ?t = last_of sb n" by (auto simp: last_of_def targets_get_def split: option.splits)
  obtain y sb1 where e: "save_target sc ?t ?sb = (y, sb1)" by (metis surj_pair)
  note s = save_target_spec [OF e]
  have "last_of sb1 m = last_of sb m" for m
    using s t by (auto simp: last_of_def targets_get_def)
  moreover have "x = (case y of Val _ \<Rightarrow> Val ?t | Exn e \<Rightarrow> Exn e | Panic \<Rightarrow> Panic) \<and> sb' = sb1"
    using assms e by (cases y) (auto simp: ensure_target_def act_defs)
  ultimately show ?thesis
    using s t by (auto simp: targets_get_def split: outcome.splits)
qed

lemma accept_header_spec:
  assumes w: "wire_ok n" "wire_ok i" "\<forall>x. b = Some x \<longrightarrow> wire_ok x"
    and e: "accept_header sc peer (cut k (write_header n i b)) sb = (out, sb')"
  shows "sb_host sb' = sb_host sb \<and> (\<forall>m. last_of sb' m = last_of sb m) \<and> out \<noteq> Panic \<and>
    (\<forall>ack h rest. out = Val (ack, h, rest) \<longrightarrow> h = \<lparr>hd_replica_name = n, hd_snapshot_id = i, hd_base_snapshot_id = b\<rparr> \<and>
       rest = [] \<and> ack = (if b \<noteq> last_of sb n then ACK_NEED_FULL else ACK_PROCEED) \<and> targets_get sb' n \<noteq> None)"
proof (cases "read_header (cut k (write_header n i b))")
  case (Err x)
  with e show ?thesis by (auto simp: accept_header_def checkA_def bindA_def)
next
  case (Ok hr)
  obtain h rest where hr: "hr = (h, rest)" by (cases hr)
  with Ok read_cut_header [OF w] have h: "h = \<lparr>hd_replica_name = n, hd_snapshot_id = i, hd_base_snapshot_id = b\<rparr>" "rest = []" by auto
  obtain x sb1 where x: "ensure_target sc n (volume_dataset_path (sc_pool sc) (n @ ''-data'')) peer sb = (x, sb1)" by (metis surj_pair)
  from ensure_target_spec [OF x] x e Ok show ?thesis
    by (cases x) (auto simp: accept_header_def hr h act_defs)
qed

lemma receive_rest_fields:
  assumes "receive_rest sc h bytes sb = (out, sb')" "targets_get sb (hd_replica_name h) \<noteq> None"
    and "zm_receive_snapshot (sc_zfs sc) (volume_dataset_path (sc_pool sc) (hd_replica_name h @ ''-data'')) bytes (sb_host sb) = (x, host)"
  shows "sb_host sb' = host \<and> (\<forall>m. last_of sb' m = (if m = hd_replica_name h \<and> x = Val () then Some (hd_snapshot_id h) else last_of sb m))"
proof -
  obtain t where t: "hm_get (sb_by_name sb) (hd_replica_name h) = Some t" using assms(2) by (auto simp: targets_get_def)
  let ?t = "t\<lparr>tg_last_snapshot := Some (hd_snapshot_id h)\<rparr>"
  let ?sb = "sb\<lparr>sb_host := host, sb_by_name := hm_insert (hd_replica_name h) ?t (sb_by_name sb)\<rparr>"
  obtain y sb1 where e: "save_target sc ?t ?sb = (y, sb1)" by (metis surj_pair)
  show ?thesis
  proof (cases x)
    case (Val u)
    then have "sb' = sb1"
      using assms(1,3) t e by (cases y) (auto simp: receive_rest_def record_snapshot_def act_defs)
    with save_target_spec [OF e] Val show ?thesis by (auto simp: last_of_def targets_get_def)
  qed (use assms(1,3) in \<open>auto simp: receive_rest_def act_defs last_of_def targets_get_def\<close>)
qed

section \<open>Disagreement is for ever\<close>

lemma map_Some_eq: "map_option Some y = Some z \<Longrightarrow> y = z \<and> y \<noteq> None"
  by auto

lemma send_once_mismatch:
  assumes w: "wire_ok n" "wire_ok i" "\<forall>x. b = Some x \<longrightarrow> wire_ok x" and b: "b \<noteq> last_of sb n"
    and e: "send_once zfs sc lk n d i b (s, sb) = (r, s', sb')"
  shows "(\<forall>m. last_of sb' m = last_of sb m) \<and> (r = Exn NeedFull \<or> (\<exists>x. r = Exn (SendIo x)))"
proof (cases "lk_connect lk")
  case True
  obtain out sb1 where a: "accept_header sc (lk_peer lk) (cut (lk_header_cut lk) (write_header n i b)) sb = (out, sb1)" by (metis surj_pair)
  note spec = accept_header_spec [OF w a]
  from e True a spec b show ?thesis
    by (cases out) (auto simp: send_once_def ACK_NEED_FULL_def ACK_PROCEED_def split: if_splits)
qed (use e in \<open>auto simp: send_once_def\<close>)

text \<open>Every standby has completed a snapshot, and the loop, if it runs, agrees with none of them.\<close>

definition out_of_step :: "string \<Rightarrow> (string \<Rightarrow> string option) \<Rightarrow> ('s, 'r) rep_world \<Rightarrow> bool" where
  "out_of_step n L rw \<longleftrightarrow>
     (\<forall>a. map_option (\<lambda>sb. last_of sb n) (hm_get (rw_standbys rw) a) = map_option Some (L a)) \<and>
     (\<forall>lp. rw_loop rw = Some lp \<longrightarrow> loop_ok lp \<and> (\<forall>a x. L a = Some x \<longrightarrow> lp_last_confirmed lp \<noteq> Some x))"

lemma next_tick_ok [simp]:
  "loop_ok lp \<Longrightarrow> loop_ok (next_tick lp)" "lp_last_confirmed (next_tick lp) = lp_last_confirmed lp"
  by (simp_all add: loop_ok_def next_tick_def)

lemma out_of_step_replicate:
  assumes n: "wire_ok n" and o: "out_of_step n L rw" and lp: "loop_ok lp" "\<forall>a x. L a = Some x \<longrightarrow> lp_last_confirmed lp \<noteq> Some x"
  shows "out_of_step n L (replicate_to_standby ag sc lk n d addr lp rw)"
proof -
  let ?id = "repl_name (lp_tick lp)"
  have id: "wire_ok ?id" using lp by (simp add: loop_ok_def wire_ok_repl_name)
  have b: "\<forall>x. lp_last_confirmed lp = Some x \<longrightarrow> wire_ok x" using lp by (simp add: loop_ok_def)
  obtain x s1 where z: "zm_snapshot (zm ag) d ?id (agent_host_of (rw_agent rw)) = (x, s1)" by (metis surj_pair)
  show ?thesis
  proof (cases "\<exists>sb u. hm_get (rw_standbys rw) addr = Some sb \<and> x = Val u")
    case False
    then show ?thesis
      using o lp z
      by (auto simp: replicate_to_standby_def Let_def out_of_step_def split: outcome.split option.split)
  next
    case True
    then obtain sb u where sb: "hm_get (rw_standbys rw) addr = Some sb" "x = Val u" by blast
    obtain y where y: "L addr = Some y" "last_of sb n = Some y"
      using o sb(1) by (cases "L addr") (auto simp: out_of_step_def dest!: spec [of _ addr])
    obtain r s2 sb' where s: "send_once (zm ag) sc lk n d ?id (lp_last_confirmed lp) (s1, sb) = (r, s2, sb')" by (metis prod.exhaust)
    have "lp_last_confirmed lp \<noteq> last_of sb n" using lp(2) y by simp
    from send_once_mismatch [OF n id b this s] have m: "last_of sb' n = Some y" "r = Exn NeedFull \<or> (\<exists>e. r = Exn (SendIo e))" using y by auto
    define w where "w = set_host s2 (rw_agent rw)"
    obtain q where e: "replicate_to_standby ag sc lk n d addr lp rw = rw\<lparr>rw_agent := w, rw_standbys := hm_insert addr sb' (rw_standbys rw), rw_loop := Some q\<rparr>"
        "loop_ok q" "lp_last_confirmed q = None \<or> q = lp"
      using z sb s m(2) lp(1)
      by (auto simp: replicate_to_standby_def Let_def loop_ok_def w_def)
    show ?thesis unfolding e(1) using o lp(2) y m(1) e(2,3) by (auto simp: out_of_step_def)
  qed
qed

lemma out_of_step_round:
  assumes "wire_ok n" "out_of_step n L rw"
  shows "out_of_step n L (loop_round ag sc n v lk rw)"
proof (cases "rw_loop rw")
  case (Some lp0)
  let ?lp = "next_tick lp0"
  have lp: "loop_ok ?lp" "\<forall>a x. L a = Some x \<longrightarrow> lp_last_confirmed ?lp \<noteq> Some x"
    using assms(2) Some by (simp_all add: out_of_step_def)
  have o: "out_of_step n L (rw\<lparr>rw_agent := w\<rparr>)" for w using assms(2) by (simp add: out_of_step_def)
  show ?thesis
    unfolding loop_round_def Some Let_def
    using lp o out_of_step_replicate [OF assms(1) o lp]
    by (auto simp: out_of_step_def simp del: handle_acommand.simps split: option.split areply.split list.split)
qed (use assms in \<open>simp add: loop_round_def\<close>)

lemma out_of_step_step:
  assumes "rep_step ag sc n v rw rw'" "wire_ok n" "out_of_step n L rw"
  shows "out_of_step n L rw'"
  using assms
proof (induction rule: rep_step.induct)
  case (rep_round rw lk)
  then show ?case by (intro out_of_step_round)
next
  case (rep_serve c rw r w)
  then show ?case by (simp add: out_of_step_def)
next
  case (rep_restart rw w)
  then show ?case by (simp add: out_of_step_def spawned_loop_def loop_ok_def)
qed

lemma out_of_step_invariant:
  assumes "(rep_step ag sc n v)\<^sup>*\<^sup>* rw rw'" "wire_ok n" "out_of_step n L rw"
  shows "out_of_step n L rw'"
  using assms by (induction rule: rtranclp_induct) (blast intro: out_of_step_step)+

text \<open>C36: Once every standby of a replica has completed a snapshot and the sender's loop starts over, as it
  does whenever the agent restarts, no snapshot is ever replicated again, whatever the link, the hosts and
  the clients do: the loop offers a full stream or a base of its own, and every standby refuses it.\<close>

theorem restarted_sender_never_replicates:
  assumes "validate_name n = Ok ()" "rw_loop rw = Some spawned_loop"
    and "\<forall>a sb. hm_get (rw_standbys rw) a = Some sb \<longrightarrow> last_of sb n = L a \<and> L a \<noteq> None"
    and "(rep_step ag sc n v)\<^sup>*\<^sup>* rw rw'" "hm_get (rw_standbys rw') a = Some sb"
  shows "last_of sb n = L a \<and> L a \<noteq> None"
proof -
  define L' where "L' = (\<lambda>a. if hm_get (rw_standbys rw) a = None then None else L a)"
  have "out_of_step n L' rw"
    unfolding out_of_step_def
  proof (intro conjI allI impI)
    fix a
    show "map_option (\<lambda>sb. last_of sb n) (hm_get (rw_standbys rw) a) = map_option Some (L' a)"
      using assms(3) by (cases "hm_get (rw_standbys rw) a") (force simp: L'_def)+
  qed (use assms(2) in \<open>auto simp: spawned_loop_def loop_ok_def\<close>)
  from out_of_step_invariant [OF assms(4) wire_ok_valid_name [OF assms(1)] this]
  have "map_option (\<lambda>sb. last_of sb n) (hm_get (rw_standbys rw') a) = map_option Some (L' a)" unfolding out_of_step_def by blast
  then have "map_option Some (L' a) = Some (last_of sb n)" using assms(5) by simp
  then have "L' a = last_of sb n \<and> L' a \<noteq> None" by (rule map_Some_eq)
  then show ?thesis unfolding L'_def by metis
qed

text \<open>A standby at address \<open>n:1\<close>, as the replica \<open>j\<close> of the example agent names it.\<close>

definition rex_cfg :: "fake_host standby_cfg" where
  "rex_cfg = \<lparr>sc_zfs = h_zfs (fake_host_ops ipnet_ref), sc_pool = ''p'', sc_state_dir = ''s'',
     sc_to_yaml = \<lambda>t. ''t'', sc_from_yaml = \<lambda>s. Err ''t''\<rparr>"

definition rex_standby :: "fake_host standby" where
  "rex_standby = \<lparr>sb_host = aex_host, sb_fs = aex_fs, sb_by_name = []\<rparr>"

definition rex_link :: link where
  "rex_link = \<lparr>lk_peer = ''m:2'', lk_connect = True, lk_header_cut = None, lk_ack_lost = False, lk_stream_cut = None,
     lk_cut_noticed = False\<rparr>"

definition rex_target :: replica_target where
  "rex_target = \<lparr>tg_replica_name = ''j'', tg_volume_dataset = ''p/keel/volumes/j-data'', tg_source_node_addr = ''m:2'',
     tg_last_snapshot = Some ''keel-repl-3''\<rparr>"

definition rex_world :: "(fake_host, fake_host) rep_world" where
  "rex_world = \<lparr>rw_agent = \<lparr>aw_rc = applied_rc, aw_replicating = {''j''}, aw_spawned = [(''j'', ''j-data'')]\<rparr>,
     rw_loop = Some spawned_loop, rw_standbys = [(''n:1'', rex_standby\<lparr>sb_by_name := [(''j'', rex_target)]\<rparr>)]\<rparr>"

theorem restarted_sender_never_replicates_witness:
  "\<nexists>a sb. hm_get (rw_standbys (loop_round (aex_agent ipnet_ref) rex_cfg ''j'' ''j-data'' rex_link rex_world)) a = Some sb \<and>
     last_of sb ''j'' \<noteq> Some ''keel-repl-3''"
proof -
  have v: "validate_name ''j'' = Ok ()" by (simp add: validate_name_Ok_iff is_ascii_lowercase_def)
  have l: "rw_loop rex_world = Some spawned_loop" by (simp add: rex_world_def)
  have s: "\<forall>a sb. hm_get (rw_standbys rex_world) a = Some sb \<longrightarrow> last_of sb ''j'' = Some ''keel-repl-3'' \<and> Some ''keel-repl-3'' \<noteq> None"
    by (simp add: rex_world_def rex_standby_def rex_target_def last_of_def targets_get_def)
  have "(rep_step (aex_agent ipnet_ref) rex_cfg ''j'' ''j-data'')\<^sup>*\<^sup>* rex_world
      (loop_round (aex_agent ipnet_ref) rex_cfg ''j'' ''j-data'' rex_link rex_world)"
    by (intro r_into_rtranclp rep_round)
  from restarted_sender_never_replicates [where L = "\<lambda>_. Some ''keel-repl-3''", OF v l s this] show ?thesis by blast
qed

section \<open>A standby that is ready holds the data\<close>

lemma split_once_str_Some: "split_once_str p s = Some (a, b) \<Longrightarrow> s = a @ p @ b"
  by (induction s arbitrary: a) (auto simp: strip_prefix_Some_iff split: if_splits option.splits)

lemma split_once_str_skip:
  assumes "c \<notin> set xs"
  shows "split_once_str (c # p) (xs @ ys) = map_option (\<lambda>(a, b). (xs @ a, b)) (split_once_str (c # p) ys)"
  using assms
proof (induction xs)
  case (Cons x xs)
  have "strip_prefix (c # p) (x # zs) = None" for zs
    using Cons.prems strip_prefix_Some_iff [of "c # p" "x # zs"] by (cases "strip_prefix (c # p) (x # zs)") auto
  with Cons show ?case by (simp add: option.map_comp comp_def case_prod_unfold)
qed (simp add: case_prod_unfold option.map_ident)

lemma split_base:
  assumes e: "rest @ z = body @ '':base='' @ y" and c: "CHR '':'' \<notin> set body" and s: "split_once_str '':base='' rest = Some (a, b)"
  shows "a = body"
proof -
  from e consider us where "rest @ us = body" | us where "rest = body @ us" "us @ z = '':base='' @ y"
    by (auto simp only: append_eq_append_conv2)
  then show ?thesis
  proof cases
    case 1
    with c split_once_str_Some [OF s] have False by auto
    then show ?thesis ..
  next
    case 2
    then obtain a' where a': "split_once_str '':base='' us = Some (a', b)" "a = body @ a'"
      using s split_once_str_skip [OF c, of "''base=''" us] by auto
    have "6 \<le> length us" using split_once_str_Some [OF a'(1)] by simp
    then have "take 6 us = '':base=''" using arg_cong [OF 2(2), of "take 6"] by simp
    then have us: "us = '':base='' @ drop 6 us" by (metis append_take_drop_id)
    have "a' = []" using a'(1) by (subst (asm) us) simp
    with a' show ?thesis by simp
  qed
qed

lemma parse_cut_marker:
  assumes "CHR ''@'' \<notin> set d" "CHR '':'' \<notin> set d" "CHR '':'' \<notin> set i"
    and p: "fake_parse_marker (cut k (fake_marker d i b)) = Some (sn, c)"
  shows "sn = i"
proof -
  define y where "y = (case b of Some b \<Rightarrow> b | None \<Rightarrow> ''none'') @ [CHR 0x0A]"
  obtain z where z: "cut k (fake_marker d i b) @ z = ''keel-zfs-fake-send:'' @ (d @ ''@'' @ i) @ '':base='' @ y"
  proof (cases k)
    case None
    then show ?thesis using that [of "[]"] by (simp add: cut_def fake_marker_def y_def)
  next
    case (Some m)
    then show ?thesis using that [of "drop m (fake_marker d i b)"] by (simp add: cut_def) (simp add: fake_marker_def y_def)
  qed
  from p obtain rest0 where r0: "strip_prefix ''keel-zfs-fake-send:'' (cut k (fake_marker d i b)) = Some rest0"
    by (auto simp: fake_parse_marker_def split: option.splits)
  define rest where "rest = (case strip_suffix [CHR 0x0A] rest0 of Some r \<Rightarrow> r | None \<Rightarrow> rest0)"
  have "\<exists>z'. rest @ z' = rest0"
    by (cases "strip_suffix [CHR 0x0A] rest0") (auto simp: rest_def strip_suffix_Some_iff)
  moreover have "cut k (fake_marker d i b) = ''keel-zfs-fake-send:'' @ rest0" using r0 by (simp only: strip_prefix_Some_iff)
  ultimately obtain z' where "rest @ z' = (d @ ''@'' @ i) @ '':base='' @ y" using z by (metis append.assoc same_append_eq)
  moreover from p obtain sent bp where s: "split_once_str '':base='' rest = Some (sent, bp)" "\<exists>q. split_once CHR ''@'' sent = Some (q, sn)"
    by (auto simp: fake_parse_marker_def r0 rest_def [symmetric] Let_def split: option.splits)
  ultimately have "sent = d @ ''@'' @ i" using assms(2,3) split_base [OF _ _ s(1)] by force
  moreover have "split_once CHR ''@'' (d @ ''@'' @ i) = Some (d, i)" using assms(1) by (simp add: split_once_Some_iff)
  ultimately show ?thesis using s(2) by simp
qed

text \<open>What the in-memory \<open>zfs receive\<close> leaves behind: nothing disappears, and a stream that is accepted leaves
  its snapshot.\<close>

lemma fake_receive_spec:
  assumes "fake_receive_snapshot d bytes h = (x, h')"
  shows "fk_datasets h \<subseteq> fk_datasets h' \<and> fk_snapshots h \<subseteq> fk_snapshots h' \<and>
    (x = Val () \<longrightarrow> d \<in> fk_datasets h' \<and> (\<exists>i b. fake_parse_marker bytes = Some (i, b) \<and> snap_key d i \<in> fk_snapshots h'))"
  using assms by (auto simp: fake_receive_snapshot_def split: option.splits prod.splits if_splits)

abbreviation standby_dataset :: "'r standby_cfg \<Rightarrow> string \<Rightarrow> string" where
  "standby_dataset sc n \<equiv> volume_dataset_path (sc_pool sc) (n @ ''-data'')"

definition has_copies :: "fake_host standby_cfg \<Rightarrow> fake_host standby \<Rightarrow> bool" where
  "has_copies sc sb \<longleftrightarrow> (\<forall>n x. last_of sb n = Some x \<longrightarrow>
     standby_dataset sc n \<in> fk_datasets (sb_host sb) \<and> snap_key (standby_dataset sc n) x \<in> fk_snapshots (sb_host sb))"

lemma has_copies_same: "has_copies sc sb \<Longrightarrow> sb_host sb' = sb_host sb \<Longrightarrow> \<forall>m. last_of sb' m = last_of sb m \<Longrightarrow> has_copies sc sb'"
  by (simp add: has_copies_def)

lemma has_copies_receive:
  assumes f: "sc_zfs sc = h_zfs (fake_host_ops api)" and c: "has_copies sc sb" and t: "targets_get sb (hd_replica_name h) \<noteq> None"
    and m: "\<And>i b. fake_parse_marker bytes = Some (i, b) \<Longrightarrow> i = hd_snapshot_id h"
  shows "has_copies sc (snd (receive_rest sc h bytes sb))"
proof -
  let ?d = "standby_dataset sc (hd_replica_name h)"
  obtain x host where x: "fake_receive_snapshot ?d bytes (sb_host sb) = (x, host)" by (metis surj_pair)
  obtain out sb' where e: "receive_rest sc h bytes sb = (out, sb')" by (metis surj_pair)
  have "zm_receive_snapshot (sc_zfs sc) ?d bytes (sb_host sb) = (x, host)" using x f by (simp add: fake_host_ops_def)
  from receive_rest_fields [OF e t this] have "sb_host sb' = host"
    "last_of sb' n = (if n = hd_replica_name h \<and> x = Val () then Some (hd_snapshot_id h) else last_of sb n)" for n by auto
  with fake_receive_spec [OF x] c m e show ?thesis
    by (fastforce simp: has_copies_def split: if_splits)
qed

lemma has_copies_send:
  assumes z: "zfs = h_zfs (fake_host_ops api')" and f: "sc_zfs sc = h_zfs (fake_host_ops api)" and c: "has_copies sc sb"
    and w: "wire_ok n" "wire_ok i" "\<forall>x. b = Some x \<longrightarrow> wire_ok x"
    and d: "CHR ''@'' \<notin> set d" "CHR '':'' \<notin> set d" "CHR '':'' \<notin> set i"
    and e: "send_once zfs sc lk n d i b (s, sb) = (r, s', sb')"
  shows "has_copies sc sb'"
proof (cases "lk_connect lk")
  case True
  obtain out sb1 where a: "accept_header sc (lk_peer lk) (cut (lk_header_cut lk) (write_header n i b)) sb = (out, sb1)" by (metis surj_pair)
  note spec = accept_header_spec [OF w a]
  have c1: "has_copies sc sb1" using has_copies_same [OF c] spec by blast
  show ?thesis
  proof (cases "\<exists>h rest. out = Val (ACK_PROCEED, h, rest)")
    case False
    then have "sb' = sb1"
      using e True a spec by (cases out) (auto simp: send_once_def ACK_NEED_FULL_def ACK_PROCEED_def split: if_splits)
    with c1 show ?thesis by simp
  next
    case True
    then obtain h where h: "out = Val (ACK_PROCEED, h, [])" "hd_snapshot_id h = i" "targets_get sb1 (hd_replica_name h) \<noteq> None"
      using spec by auto
    have sb': "\<exists>bytes. sb' = snd (receive_rest sc h bytes sb1) \<and> (bytes = [] \<or> bytes = cut (lk_stream_cut lk) (fake_marker d i b))"
      using e \<open>lk_connect lk\<close> a h(1)
      by (auto simp: send_once_def z fake_host_ops_def fake_send_snapshot_def ACK_NEED_FULL_def ACK_PROCEED_def split: if_splits option.splits)
    then obtain bytes where bytes: "sb' = snd (receive_rest sc h bytes sb1)" "bytes = [] \<or> bytes = cut (lk_stream_cut lk) (fake_marker d i b)"
      by blast
    have "j = hd_snapshot_id h" if "fake_parse_marker bytes = Some (j, q)" for j q
      using bytes(2) that parse_cut_marker [OF d] h(2) by (auto simp: fake_parse_marker_def)
    with has_copies_receive [OF f c1 h(3)] bytes(1) show ?thesis by blast
  qed
qed (use e c in \<open>auto simp: send_once_def\<close>)

definition copies_inv :: "fake_host standby_cfg \<Rightarrow> ('s, fake_host) rep_world \<Rightarrow> bool" where
  "copies_inv sc rw \<longleftrightarrow> (\<forall>a sb. hm_get (rw_standbys rw) a = Some sb \<longrightarrow> has_copies sc sb) \<and>
     (\<forall>lp. rw_loop rw = Some lp \<longrightarrow> loop_ok lp)"

lemma repl_name_chars: "CHR '':'' \<notin> set (repl_name t)"
  using show_nat_digits [of t] by (auto simp: repl_name_def list_all_iff is_ascii_digit_def)

lemma copies_replicate:
  assumes g: "ag_ops ag = fake_host_ops (ag_api ag)" and f: "sc_zfs sc = h_zfs (fake_host_ops api)" and n: "wire_ok n"
    and d: "CHR ''@'' \<notin> set d" "CHR '':'' \<notin> set d" and c: "copies_inv sc rw" and lp: "loop_ok lp"
  shows "copies_inv sc (replicate_to_standby ag sc lk n d addr lp rw)"
proof -
  let ?id = "repl_name (lp_tick lp)"
  have id: "wire_ok ?id" using lp by (simp add: loop_ok_def wire_ok_repl_name)
  have b: "\<forall>x. lp_last_confirmed lp = Some x \<longrightarrow> wire_ok x" using lp by (simp add: loop_ok_def)
  have q: "loop_ok (lp\<lparr>lp_last_confirmed := None\<rparr>)" "loop_ok (lp\<lparr>lp_last_confirmed := Some ?id\<rparr>)"
    using lp id by (simp_all add: loop_ok_def)
  obtain x s1 where z: "zm_snapshot (zm ag) d ?id (agent_host_of (rw_agent rw)) = (x, s1)" by (metis surj_pair)
  show ?thesis
  proof (cases "\<exists>sb u. hm_get (rw_standbys rw) addr = Some sb \<and> x = Val u")
    case False
    then show ?thesis
      using c lp z
      by (auto simp: replicate_to_standby_def Let_def copies_inv_def split: outcome.split option.split)
  next
    case True
    then obtain sb u where sb: "hm_get (rw_standbys rw) addr = Some sb" "x = Val u" by blast
    obtain r s2 sb' where s: "send_once (zm ag) sc lk n d ?id (lp_last_confirmed lp) (s1, sb) = (r, s2, sb')" by (metis prod.exhaust)
    have "has_copies sc sb" using c sb(1) by (auto simp: copies_inv_def)
    from has_copies_send [OF _ f this n id b d repl_name_chars s] g have sb': "has_copies sc sb'" by simp
    have "rw_standbys (replicate_to_standby ag sc lk n d addr lp rw) = hm_insert addr sb' (rw_standbys rw)"
      "rw_loop (replicate_to_standby ag sc lk n d addr lp rw) = Some l \<Longrightarrow> loop_ok l" for l
      using z sb s q lp by (auto simp: replicate_to_standby_def Let_def split: outcome.splits option.splits send_once_error.splits prod.splits)
    with c sb' show ?thesis by (auto simp: copies_inv_def)
  qed
qed

lemma copies_step:
  assumes "rep_step ag sc n v rw rw'" "ag_ops ag = fake_host_ops (ag_api ag)" "sc_zfs sc = h_zfs (fake_host_ops api)" "wire_ok n"
    and "CHR ''@'' \<notin> set (volume_dataset_path (ag_pool ag) v)" "CHR '':'' \<notin> set (volume_dataset_path (ag_pool ag) v)" "copies_inv sc rw"
  shows "copies_inv sc rw'"
  using assms
proof (induction rule: rep_step.induct)
  case (rep_round rw lk)
  have c: "copies_inv sc (rw\<lparr>rw_agent := w\<rparr>)" "copies_inv sc (rw\<lparr>rw_agent := w, rw_loop := None\<rparr>)" "copies_inv sc (rw\<lparr>rw_loop := None\<rparr>)" for w
    using rep_round.prems(6) by (auto simp: copies_inv_def)
  show ?case
  proof (cases "rw_loop rw")
    case (Some lp)
    then have lp: "loop_ok (next_tick lp)" using rep_round.prems(6) by (auto simp: copies_inv_def)
    then have "copies_inv sc (rw\<lparr>rw_agent := w, rw_loop := Some (next_tick lp)\<rparr>)" for w
      using rep_round.prems(6) by (auto simp: copies_inv_def)
    with c copies_replicate [OF rep_round.prems(1-5) c(1) lp] show ?thesis
      unfolding loop_round_def Some Let_def
      by (auto simp del: handle_acommand.simps split: option.split areply.split list.split)
  qed (use rep_round.prems(6) in \<open>simp add: loop_round_def\<close>)
next
  case (rep_serve c rw r w)
  then show ?case by (simp add: copies_inv_def)
next
  case (rep_restart rw w)
  then show ?case by (simp add: copies_inv_def spawned_loop_def loop_ok_def)
qed

text \<open>A standby comes to report a snapshot in a round in which the sender took it.\<close>

lemma send_once_last:
  assumes w: "wire_ok n" "wire_ok i" "\<forall>x. b = Some x \<longrightarrow> wire_ok x" and e: "send_once zfs sc lk n d i b (s, sb) = (r, s', sb')"
  shows "last_of sb' m = last_of sb m \<or> (m = n \<and> last_of sb' m = Some i)"
proof (cases "lk_connect lk")
  case True
  obtain out sb1 where a: "accept_header sc (lk_peer lk) (cut (lk_header_cut lk) (write_header n i b)) sb = (out, sb1)" by (metis surj_pair)
  note spec = accept_header_spec [OF w a]
  have r: "last_of (snd (receive_rest sc h bytes sb1)) m = last_of sb m \<or> (m = n \<and> last_of (snd (receive_rest sc h bytes sb1)) m = Some i)"
    if h: "out = Val (ack, h, rest)" for ack h rest bytes
  proof -
    obtain x host where x: "zm_receive_snapshot (sc_zfs sc) (volume_dataset_path (sc_pool sc) (hd_replica_name h @ ''-data'')) bytes (sb_host sb1) = (x, host)"
      by (metis surj_pair)
    obtain o' sb2 where o: "receive_rest sc h bytes sb1 = (o', sb2)" by (metis surj_pair)
    have "targets_get sb1 (hd_replica_name h) \<noteq> None" using spec h by auto
    from receive_rest_fields [OF o this x] spec h o show ?thesis by auto
  qed
  show ?thesis
  proof (cases "\<exists>ack h rest. out = Val (ack, h, rest)")
    case True
    then obtain ack h rest where h: "out = Val (ack, h, rest)" by blast
    have "sb' = sb1 \<or> (\<exists>bytes. sb' = snd (receive_rest sc h bytes sb1))"
      using e \<open>lk_connect lk\<close> a h by (auto simp: send_once_def split: if_splits prod.splits outcome.splits)
    with r [OF h] spec show ?thesis by auto
  next
    case False
    then have "sb' = sb1" using e \<open>lk_connect lk\<close> a by (cases out) (auto simp: send_once_def)
    with spec show ?thesis by auto
  qed
qed (use e in \<open>auto simp: send_once_def\<close>)

definition takes :: "'s agent \<Rightarrow> string \<Rightarrow> ('s, 'r) rep_world \<Rightarrow> string \<Rightarrow> bool" where
  "takes ag d rw x \<longleftrightarrow> (\<exists>lp. rw_loop rw = Some lp \<and> x = repl_name (lp_tick (next_tick lp)) \<and>
     fst (zm_snapshot (zm ag) d x (agent_host_of (rw_agent rw))) = Val ())"

lemma replicate_last:
  assumes n: "wire_ok n" and lp: "loop_ok lp"
    and e: "hm_get (rw_standbys (replicate_to_standby ag sc lk n d addr lp rw)) a = Some sb'" "last_of sb' m = Some x"
  shows "(\<exists>sb. hm_get (rw_standbys rw) a = Some sb \<and> last_of sb m = Some x) \<or>
    (m = n \<and> x = repl_name (lp_tick lp) \<and> fst (zm_snapshot (zm ag) d x (agent_host_of (rw_agent rw))) = Val ())"
proof -
  let ?id = "repl_name (lp_tick lp)"
  have id: "wire_ok ?id" "\<forall>x. lp_last_confirmed lp = Some x \<longrightarrow> wire_ok x" using lp by (simp_all add: loop_ok_def wire_ok_repl_name)
  obtain z s1 where z: "zm_snapshot (zm ag) d ?id (agent_host_of (rw_agent rw)) = (z, s1)" by (metis surj_pair)
  show ?thesis
  proof (cases "\<exists>sb u. hm_get (rw_standbys rw) addr = Some sb \<and> z = Val u")
    case False
    with e z show ?thesis by (auto simp: replicate_to_standby_def Let_def split: outcome.splits option.splits)
  next
    case True
    then obtain sb u where sb: "hm_get (rw_standbys rw) addr = Some sb" "z = Val u" by blast
    obtain r s2 sb1 where s: "send_once (zm ag) sc lk n d ?id (lp_last_confirmed lp) (s1, sb) = (r, s2, sb1)" by (metis prod.exhaust)
    have "rw_standbys (replicate_to_standby ag sc lk n d addr lp rw) = hm_insert addr sb1 (rw_standbys rw)"
      using z sb s by (auto simp: replicate_to_standby_def Let_def split: outcome.splits option.splits send_once_error.splits prod.splits)
    with e(1) have "a = addr \<and> sb' = sb1 \<or> a \<noteq> addr \<and> hm_get (rw_standbys rw) a = Some sb'" by (auto split: if_splits)
    with send_once_last [OF n id s, of m] e(2) sb z show ?thesis by fastforce
  qed
qed

lemma fake_get_same:
  assumes "ag_ops ag = fake_host_ops (ag_api ag)" "handle_acommand ag () (AGet (Some n)) w = Some (q, w')"
  shows "w' = w"
  using assms by (auto simp: get_jail_def run_rc_def fake_host_ops_def fake_is_running_def on_host_def act_defs split: option.splits)

lemma round_last:
  assumes g: "ag_ops ag = fake_host_ops (ag_api ag)" and n: "wire_ok n" and lp: "\<forall>lp. rw_loop rw = Some lp \<longrightarrow> loop_ok lp"
    and e: "hm_get (rw_standbys (loop_round ag sc n v lk rw)) a = Some sb'" "last_of sb' m = Some x"
  shows "(\<exists>sb. hm_get (rw_standbys rw) a = Some sb \<and> last_of sb m = Some x) \<or>
    (m = n \<and> takes ag (volume_dataset_path (ag_pool ag) v) rw x)"
proof (cases "rw_loop rw")
  case (Some lp0)
  then have l: "loop_ok (next_tick lp0)" using lp by simp
  have same: "w = rw_agent rw" if "handle_acommand ag () (AGet (Some n)) (rw_agent rw) = Some (q, w)" for q w
    using fake_get_same [OF g that] .
  have "rw_standbys (loop_round ag sc n v lk rw) = rw_standbys rw \<or>
      (\<exists>addr. loop_round ag sc n v lk rw = replicate_to_standby ag sc lk n (volume_dataset_path (ag_pool ag) v) addr (next_tick lp0) rw)"
    using Some same by (auto simp: loop_round_def Let_def simp del: handle_acommand.simps split: option.splits areply.splits list.splits)
  then show ?thesis
  proof
    assume "\<exists>addr. loop_round ag sc n v lk rw = replicate_to_standby ag sc lk n (volume_dataset_path (ag_pool ag) v) addr (next_tick lp0) rw"
    then obtain addr where "hm_get (rw_standbys (replicate_to_standby ag sc lk n (volume_dataset_path (ag_pool ag) v) addr (next_tick lp0) rw)) a = Some sb'"
      using e(1) by auto
    from replicate_last [OF n l this e(2)] Some show ?thesis unfolding takes_def by blast
  qed (use e in auto)
qed (use e in \<open>auto simp: loop_round_def\<close>)

text \<open>The round that brought a standby to the snapshot it reports.\<close>

definition brought :: "'s agent \<Rightarrow> 'r standby_cfg \<Rightarrow> string \<Rightarrow> ('s, 'r) rep_world \<Rightarrow> ('s, 'r) rep_world \<Rightarrow> string \<Rightarrow> string \<Rightarrow> bool" where
  "brought ag sc n rw rw' a x \<longleftrightarrow> (\<exists>rw0 lk sb0. (rep_step ag sc n (n @ ''-data''))\<^sup>*\<^sup>* rw rw0 \<and>
     takes ag (volume_dataset_path (ag_pool ag) (n @ ''-data'')) rw0 x \<and>
     hm_get (rw_standbys (loop_round ag sc n (n @ ''-data'') lk rw0)) a = Some sb0 \<and> last_of sb0 n = Some x \<and>
     (rep_step ag sc n (n @ ''-data''))\<^sup>*\<^sup>* (loop_round ag sc n (n @ ''-data'') lk rw0) rw')"

lemma brought_step:
  assumes g: "ag_ops ag = fake_host_ops (ag_api ag)" and n: "wire_ok n" and lp: "\<forall>lp. rw_loop rw' = Some lp \<longrightarrow> loop_ok lp"
    and rw': "(rep_step ag sc n (n @ ''-data''))\<^sup>*\<^sup>* rw rw'" "rep_step ag sc n (n @ ''-data'') rw' rw''"
    and IH: "\<And>sb m x. hm_get (rw_standbys rw') a = Some sb \<Longrightarrow> last_of sb m = Some x \<Longrightarrow> m = n \<and> brought ag sc n rw rw' a x"
    and e: "hm_get (rw_standbys rw'') a = Some sb" "last_of sb m = Some x"
  shows "m = n \<and> brought ag sc n rw rw'' a x"
proof -
  have later: "brought ag sc n rw rw'' a x" if "brought ag sc n rw rw' a x"
    using that rw'(2) unfolding brought_def by (meson rtranclp.rtrancl_into_rtrancl)
  have old: ?thesis if "\<exists>sb. hm_get (rw_standbys rw') a = Some sb \<and> last_of sb m = Some x"
    using that IH later by blast
  from rw'(2) show ?thesis
  proof cases
    case (rep_round lk)
    from round_last [OF g n lp e(1) [unfolded rep_round] e(2)] old show ?thesis
      using rw'(1) e rep_round unfolding brought_def by blast
  qed (use old e in auto)
qed

text \<open>C19: Between in-memory hosts on both sides: a standby that reports a completed snapshot of a replica holds the replica's
  dataset with exactly that snapshot, and it was brought there by a round in which the sender took it, whatever connections broke at
  whatever byte, and however often the sender restarted (as long as nobody deletes the volume on the standby).\<close>

theorem ready_means_replicated:
  assumes "ag_ops ag = fake_host_ops (ag_api ag)" "sc_zfs sc = h_zfs (fake_host_ops api)" "validate_name n = Ok ()"
    and "CHR ''@'' \<notin> set (ag_pool ag)" "CHR '':'' \<notin> set (ag_pool ag)"
    and "\<forall>a sb. hm_get (rw_standbys rw) a = Some sb \<longrightarrow> sb_by_name sb = []" "rw_loop rw = Some spawned_loop"
    and "(rep_step ag sc n (n @ ''-data''))\<^sup>*\<^sup>* rw rw'"
    and "hm_get (rw_standbys rw') a = Some sb" "targets_get sb m = Some t" "tg_last_snapshot t = Some x"
  shows "m = n \<and> brought ag sc n rw rw' a x \<and>
    standby_dataset sc n \<in> fk_datasets (sb_host sb) \<and> snap_key (standby_dataset sc n) x \<in> fk_snapshots (sb_host sb)"
proof -
  have "\<forall>c \<in> set n. is_ascii_lowercase c \<or> is_ascii_digit c \<or> c = CHR ''-''" using assms(3) by (simp add: validate_name_Ok_iff)
  then have d: "CHR ''@'' \<notin> set (volume_dataset_path (ag_pool ag) (n @ ''-data''))" "CHR '':'' \<notin> set (volume_dataset_path (ag_pool ag) (n @ ''-data''))"
    using assms(4,5) by (auto simp: volume_dataset_path_def is_ascii_lowercase_def is_ascii_digit_def)
  note w = wire_ok_valid_name [OF assms(3)]
  have "copies_inv sc rw \<and> (\<forall>sb m x. hm_get (rw_standbys rw) a = Some sb \<longrightarrow> last_of sb m = Some x \<longrightarrow> m = n \<and> brought ag sc n rw rw a x)"
    using assms(6,7) by (auto simp: copies_inv_def has_copies_def last_of_def targets_get_def spawned_loop_def loop_ok_def)
  with assms(8) have "copies_inv sc rw' \<and> (\<forall>sb m x. hm_get (rw_standbys rw') a = Some sb \<longrightarrow> last_of sb m = Some x \<longrightarrow> m = n \<and> brought ag sc n rw rw' a x)"
  proof (induction rule: rtranclp_induct)
    case (step rw1 rw2)
    have "copies_inv sc rw2" using copies_step [OF step.hyps(2) assms(1,2) w d] step.IH step.prems by blast
    moreover have "\<forall>lp. rw_loop rw1 = Some lp \<longrightarrow> loop_ok lp" using step.IH [OF step.prems] by (auto simp: copies_inv_def)
    moreover note brought_step [OF assms(1) w this step.hyps, of a] step.IH [OF step.prems]
    ultimately show ?case by blast
  qed
  moreover have l: "last_of sb m = Some x" using assms(10,11) by (simp add: last_of_def)
  ultimately have "m = n \<and> brought ag sc n rw rw' a x" and "has_copies sc sb" using assms(9) unfolding copies_inv_def by blast+
  with l show ?thesis unfolding has_copies_def by blast
qed

section \<open>A link that works\<close>

definition good_link :: "link \<Rightarrow> bool" where
  "good_link lk \<longleftrightarrow> lk_connect lk \<and> lk_header_cut lk = None \<and> \<not> lk_ack_lost lk \<and> lk_stream_cut lk = None"

lemma parse_marker:
  assumes "CHR ''@'' \<notin> set d" "CHR '':'' \<notin> set d" "CHR '':'' \<notin> set i" "b \<noteq> Some ''none''"
  shows "fake_parse_marker (fake_marker d i b) = Some (i, b)"
proof -
  define y where "y = (case b of Some b \<Rightarrow> b | None \<Rightarrow> ''none'')"
  have "fake_marker d i b = ''keel-zfs-fake-send:'' @ ((d @ ''@'' @ i) @ '':base='' @ y) @ [CHR 0x0A]" by (simp add: fake_marker_def y_def)
  moreover have "strip_suffix [CHR 0x0A] (((d @ ''@'' @ i) @ '':base='' @ y) @ [CHR 0x0A]) = Some ((d @ ''@'' @ i) @ '':base='' @ y)"
    by (simp only: strip_suffix_Some_iff)
  moreover have "split_once_str '':base='' ((d @ ''@'' @ i) @ '':base='' @ y) = Some (d @ ''@'' @ i, y)"
    using assms(2,3) by (subst split_once_str_skip) auto
  moreover have "split_once CHR ''@'' (d @ ''@'' @ i) = Some (d, i)" using assms(1) by (simp add: split_once_Some_iff)
  ultimately show ?thesis
    using assms(4) unfolding fake_parse_marker_def by (auto simp only: strip_prefix_append Let_def option.case prod.case y_def if_True if_False refl split: option.splits)
qed

lemma save_no_fault:
  assumes "\<forall>t. fs_fault (sb_fs sb) t = None"
  shows "\<exists>d. save_target sc t sb = (Val (), sb\<lparr>sb_fs := d\<rparr>) \<and> (\<forall>t. fs_fault d t = None)"
proof -
  obtain x d where e: "replica_target_save (target_codec sc) (sc_state_dir sc) t (sb_fs sb) = (x, d)" by (metis surj_pair)
  have "x = Val ()"
    using e assms by (auto simp: replica_target_save_def store_save_def create_dir_all_def fs_write_def fs_rename_def fs_try_def fs_put_def act_defs)
  with e store_save_files [OF e [unfolded replica_target_save_def]] assms show ?thesis
    by (intro exI [of _ d]) (simp add: save_target_def zoomA_def)
qed

lemma accept_no_fault:
  assumes w: "wire_ok n" "wire_ok i" "\<forall>x. b = Some x \<longrightarrow> wire_ok x" and f: "\<forall>t. fs_fault (sb_fs sb) t = None"
  shows "\<exists>sb'. accept_header sc peer (write_header n i b) sb = (Val (if b \<noteq> last_of sb n then ACK_NEED_FULL else ACK_PROCEED,
      \<lparr>hd_replica_name = n, hd_snapshot_id = i, hd_base_snapshot_id = b\<rparr>, []), sb') \<and> sb_host sb' = sb_host sb \<and>
    targets_get sb' n \<noteq> None \<and> (\<forall>t. fs_fault (sb_fs sb') t = None)"
proof -
  let ?d = "standby_dataset sc n"
  let ?t = "case hm_get (sb_by_name sb) n of Some t \<Rightarrow> t\<lparr>tg_source_node_addr := peer\<rparr>
    | None \<Rightarrow> \<lparr>tg_replica_name = n, tg_volume_dataset = ?d, tg_source_node_addr = peer, tg_last_snapshot = None\<rparr>"
  let ?sb = "sb\<lparr>sb_by_name := hm_insert n ?t (sb_by_name sb)\<rparr>"
  have t: "tg_last_snapshot ?t = last_of sb n" by (auto simp: last_of_def targets_get_def split: option.splits)
  from save_no_fault [of ?sb sc ?t] f obtain d where d: "save_target sc ?t ?sb = (Val (), ?sb\<lparr>sb_fs := d\<rparr>)" "\<forall>t. fs_fault d t = None" by auto
  have "ensure_target sc n ?d peer sb = (Val ?t, ?sb\<lparr>sb_fs := d\<rparr>)"
    using d(1) by (simp add: ensure_target_def act_defs)
  with t d(2) show ?thesis
    using read_write_header [OF w, of "[]"] by (simp add: accept_header_def act_defs targets_get_def)
qed

lemma receive_no_fault:
  assumes f: "sc_zfs sc = h_zfs (fake_host_ops api)" and t: "targets_get sb (hd_replica_name h) \<noteq> None"
    and p: "fake_parse_marker bytes = Some (hd_snapshot_id h, b)" "\<forall>x. b = Some x \<longrightarrow> snap_key (standby_dataset sc (hd_replica_name h)) x \<in> fk_snapshots (sb_host sb)"
    and d: "\<forall>t. fs_fault (sb_fs sb) t = None"
  shows "last_of (snd (receive_rest sc h bytes sb)) (hd_replica_name h) = Some (hd_snapshot_id h) \<and>
    snap_key (standby_dataset sc (hd_replica_name h)) (hd_snapshot_id h) \<in> fk_snapshots (sb_host (snd (receive_rest sc h bytes sb))) \<and>
    (\<forall>t. fs_fault (sb_fs (snd (receive_rest sc h bytes sb))) t = None)"
proof -
  let ?d = "standby_dataset sc (hd_replica_name h)"
  obtain x host where x: "fake_receive_snapshot ?d bytes (sb_host sb) = (x, host)" by (metis surj_pair)
  have v: "x = Val ()" using x p by (auto simp: fake_receive_snapshot_def split: option.splits if_splits)
  obtain out sb' where e: "receive_rest sc h bytes sb = (out, sb')" by (metis surj_pair)
  have z: "zm_receive_snapshot (sc_zfs sc) ?d bytes (sb_host sb) = (x, host)" using x f by (simp add: fake_host_ops_def)
  obtain tg where tg: "hm_get (sb_by_name sb) (hd_replica_name h) = Some tg" using t by (auto simp: targets_get_def)
  have "\<forall>t. fs_fault (sb_fs sb') t = None"
    using e z v tg d save_no_fault [of "sb\<lparr>sb_host := host, sb_by_name := hm_insert (hd_replica_name h) (tg\<lparr>tg_last_snapshot := Some (hd_snapshot_id h)\<rparr>) (sb_by_name sb)\<rparr>"
        sc "tg\<lparr>tg_last_snapshot := Some (hd_snapshot_id h)\<rparr>"]
    by (auto simp: receive_rest_def record_snapshot_def act_defs)
  with receive_rest_fields [OF e t z] fake_receive_spec [OF x] v p(1) e show ?thesis by auto
qed

lemma send_in_step:
  assumes f: "sc_zfs sc = h_zfs (fake_host_ops api)" and lk: "good_link lk"
    and w: "wire_ok n" "wire_ok i" "\<forall>x. b = Some x \<longrightarrow> wire_ok x"
    and d: "CHR ''@'' \<notin> set d" "CHR '':'' \<notin> set d" "CHR '':'' \<notin> set i" "b \<noteq> Some ''none''"
    and b: "last_of sb n = b" "\<forall>x. b = Some x \<longrightarrow> snap_key (standby_dataset sc n) x \<in> fk_snapshots (sb_host sb)"
    and s: "snap_key d i \<in> fk_snapshots s" "\<forall>x. b = Some x \<longrightarrow> snap_key d x \<in> fk_snapshots s"
    and nf: "\<forall>t. fs_fault (sb_fs sb) t = None"
  shows "\<exists>sb'. send_once (h_zfs (fake_host_ops api')) sc lk n d i b (s, sb) = (Val (), s, sb') \<and>
    last_of sb' n = Some i \<and> snap_key (standby_dataset sc n) i \<in> fk_snapshots (sb_host sb') \<and> (\<forall>t. fs_fault (sb_fs sb') t = None)"
proof -
  let ?h = "\<lparr>hd_replica_name = n, hd_snapshot_id = i, hd_base_snapshot_id = b\<rparr>"
  obtain sb1 where a: "accept_header sc (lk_peer lk) (write_header n i b) sb = (Val (ACK_PROCEED, ?h, []), sb1)" "sb_host sb1 = sb_host sb"
    "targets_get sb1 n \<noteq> None" "\<forall>t. fs_fault (sb_fs sb1) t = None"
    using accept_no_fault [OF w nf, of sc "lk_peer lk"] b(1) by auto
  have "send_once (h_zfs (fake_host_ops api')) sc lk n d i b (s, sb) = (Val (), s, snd (receive_rest sc ?h (fake_marker d i b) sb1))"
    using lk a(1) s
    by (auto simp: send_once_def good_link_def cut_def fake_host_ops_def fake_send_snapshot_def ACK_NEED_FULL_def ACK_PROCEED_def split: option.splits)
  moreover note receive_no_fault [OF f, of sb1 ?h "fake_marker d i b" b] parse_marker [OF d] a b(2)
  ultimately show ?thesis by auto
qed

lemma fake_get_status:
  assumes "ag_ops ag = fake_host_ops (ag_api ag)" "hm_get (rc_records (aw_rc w)) n = Some r"
  shows "\<exists>st. handle_acommand ag () (AGet (Some n)) w = Some (AStatuses [st], w) \<and> jst_record st = r"
  using assms by (auto simp: get_jail_def run_rc_def fake_host_ops_def fake_is_running_def on_host_def act_defs split: option.splits)

text \<open>Sender and standby agree after \<open>k\<close> rounds.\<close>

definition in_step :: "'r standby_cfg \<Rightarrow> string \<Rightarrow> string \<Rightarrow> string \<Rightarrow> jail_record \<Rightarrow> string set \<Rightarrow> nat \<Rightarrow> (fake_host, fake_host) rep_world \<Rightarrow> bool" where
  "in_step sc n d addr r S k rw \<longleftrightarrow>
     rw_loop rw = Some \<lparr>lp_tick = k, lp_last_confirmed = (if k = 0 then None else Some (repl_name k))\<rparr> \<and>
     hm_get (rc_records (aw_rc (rw_agent rw))) n = Some r \<and> d \<in> fk_datasets (agent_host_of (rw_agent rw)) \<and>
     fk_snapshots (agent_host_of (rw_agent rw)) = S \<union> (if k = 0 then {} else {snap_key d (repl_name k)}) \<and>
     (\<exists>sb. hm_get (rw_standbys rw) addr = Some sb \<and> last_of sb n = (if k = 0 then None else Some (repl_name k)) \<and>
        (k \<noteq> 0 \<longrightarrow> snap_key (standby_dataset sc n) (repl_name k) \<in> fk_snapshots (sb_host sb)) \<and>
        (\<forall>t. fs_fault (sb_fs sb) t = None))"

lemma repl_name_ne_none: "repl_name k \<noteq> ''none''"
  by (simp add: repl_name_def)

lemma snap_key_inj [simp]: "snap_key d i = snap_key d j \<longleftrightarrow> i = j"
  by (simp add: snap_key_def)

lemma in_step_round:
  assumes g: "ag_ops ag = fake_host_ops (ag_api ag)" and f: "sc_zfs sc = h_zfs (fake_host_ops api)" and n: "wire_ok n"
    and d: "d = volume_dataset_path (ag_pool ag) v" "CHR ''@'' \<notin> set d" "CHR '':'' \<notin> set d" and lk: "good_link lk"
    and r: "sp_replicate_to (js_spec (jrec_spec r)) = Some addr" and k: "Suc k < 2 ^ 64"
    and S: "\<forall>t. snap_key d (repl_name t) \<notin> S" and i: "in_step sc n d addr r S k rw"
  shows "in_step sc n d addr r S (Suc k) (loop_round ag sc n v lk rw)"
proof -
  let ?b = "if k = 0 then None else Some (repl_name k)" and ?i = "repl_name (Suc k)"
  let ?lp = "\<lparr>lp_tick = Suc k, lp_last_confirmed = ?b\<rparr>" and ?w = "rw_agent rw"
  let ?s = "(agent_host_of ?w)\<lparr>fk_snapshots := insert (snap_key d ?i) (fk_snapshots (agent_host_of ?w))\<rparr>"
  from i obtain sb where sb: "hm_get (rw_standbys rw) addr = Some sb" "last_of sb n = ?b"
    "k \<noteq> 0 \<longrightarrow> snap_key (standby_dataset sc n) (repl_name k) \<in> fk_snapshots (sb_host sb)" "\<forall>t. fs_fault (sb_fs sb) t = None"
    by (auto simp: in_step_def)
  note I = i [unfolded in_step_def]
  obtain st where st: "handle_acommand ag () (AGet (Some n)) ?w = Some (AStatuses [st], ?w)" "jst_record st = r"
    using fake_get_status [OF g, of ?w n r] I by blast
  have z: "zm_snapshot (zm ag) d ?i (agent_host_of ?w) = (Val (), ?s)"
    using I g by (simp add: fake_host_ops_def fake_snapshot_def)
  have "\<exists>sb'. send_once (h_zfs (fake_host_ops (ag_api ag))) sc lk n d ?i ?b (?s, sb) = (Val (), ?s, sb') \<and> last_of sb' n = Some ?i \<and>
      snap_key (standby_dataset sc n) ?i \<in> fk_snapshots (sb_host sb') \<and> (\<forall>t. fs_fault (sb_fs sb') t = None)"
    using k I sb d(2,3) wire_ok_repl_name [of "Suc k"] wire_ok_repl_name [of k] repl_name_ne_none
    by (intro send_in_step [OF f lk n]) (auto simp: repl_name_chars split: if_splits)
  then obtain sb' where sb': "send_once (zm ag) sc lk n d ?i ?b (?s, sb) = (Val (), ?s, sb')" "last_of sb' n = Some ?i"
    "snap_key (standby_dataset sc n) ?i \<in> fk_snapshots (sb_host sb')" "\<forall>t. fs_fault (sb_fs sb') t = None" using g by auto
  have t: "next_tick \<lparr>lp_tick = k, lp_last_confirmed = ?b\<rparr> = ?lp" using k by (simp add: next_tick_def)
  have "loop_round ag sc n v lk rw = replicate_to_standby ag sc lk n d addr ?lp rw"
    using I st r d(1) t by (simp add: loop_round_def del: handle_acommand.simps)
  moreover have "in_step sc n d addr r S (Suc k) (replicate_to_standby ag sc lk n d addr ?lp rw)"
  proof (cases k)
    case 0
    then show ?thesis using z sb sb' I by (simp add: replicate_to_standby_def Let_def in_step_def set_host_def agent_host_of_def)
  next
    case (Suc j)
    have "zm_destroy_snapshot (zm ag) d (repl_name k) ?s = (Val (), ?s\<lparr>fk_snapshots := fk_snapshots ?s - {snap_key d (repl_name k)}\<rparr>)"
      using I g Suc by (simp add: fake_host_ops_def fake_destroy_snapshot_def)
    then show ?thesis using z sb sb' I S Suc
      by (simp add: replicate_to_standby_def Let_def in_step_def set_host_def agent_host_of_def) auto
  qed
  ultimately show ?thesis by simp
qed

text \<open>C20: Between in-memory hosts, from a loop that has just started, for a volume without snapshots of an earlier loop and a
  standby without targets whose disk works, to an address that does not change, without restarts and over a link that works: each of the first \<open>2 ^ 64 - 1\<close> rounds brings the standby to the snapshot of that
  round, and the sender keeps exactly that one of the snapshots the loop has made.\<close>

theorem replication_keeps_up:
  assumes "ag_ops ag = fake_host_ops (ag_api ag)" "sc_zfs sc = h_zfs (fake_host_ops api)" "validate_name n = Ok ()"
    and "d = volume_dataset_path (ag_pool ag) v" "CHR ''@'' \<notin> set d" "CHR '':'' \<notin> set d" "\<forall>j. good_link (lk j)"
    and "sp_replicate_to (js_spec (jrec_spec r)) = Some addr" "hm_get (rc_records (aw_rc (rw_agent rw))) n = Some r"
    and "rw_loop rw = Some spawned_loop" "d \<in> fk_datasets (agent_host_of (rw_agent rw))"
    and "\<forall>t. snap_key d (repl_name t) \<notin> fk_snapshots (agent_host_of (rw_agent rw))"
    and "hm_get (rw_standbys rw) addr = Some sb" "sb_by_name sb = []" "\<forall>t. fs_fault (sb_fs sb) t = None" "0 < k" "k < 2 ^ 64"
  shows "\<exists>rw'. rw' = foldl (\<lambda>rw j. loop_round ag sc n v (lk j) rw) rw [0..<k] \<and>
    (\<exists>sb'. hm_get (rw_standbys rw') addr = Some sb' \<and> last_of sb' n = Some (repl_name k) \<and>
       snap_key (standby_dataset sc n) (repl_name k) \<in> fk_snapshots (sb_host sb')) \<and>
    fk_snapshots (agent_host_of (rw_agent rw')) = insert (snap_key d (repl_name k)) (fk_snapshots (agent_host_of (rw_agent rw)))"
proof -
  let ?S = "fk_snapshots (agent_host_of (rw_agent rw))"
  have "in_step sc n d addr r ?S m (foldl (\<lambda>rw j. loop_round ag sc n v (lk j) rw) rw [0..<m])" if "m \<le> k" for m
    using that
  proof (induction m)
    case 0
    show ?case using assms by (simp add: in_step_def spawned_loop_def last_of_def targets_get_def)
  next
    case (Suc m)
    with assms(17) have "in_step sc n d addr r ?S (Suc m) (loop_round ag sc n v (lk m) (foldl (\<lambda>rw j. loop_round ag sc n v (lk j) rw) rw [0..<m]))"
      by (intro in_step_round [OF assms(1,2) wire_ok_valid_name [OF assms(3)] assms(4-6) spec [OF assms(7)] assms(8) _ assms(12)]) simp_all
    then show ?case by simp
  qed
  from this [OF order_refl] assms(16) show ?thesis by (auto simp: in_step_def)
qed

text \<open>The example agent with the volume of \<open>j\<close>, and an empty standby.\<close>

definition rex_start :: "(fake_host, fake_host) rep_world" where
  "rex_start = \<lparr>rw_agent = \<lparr>aw_rc = applied_rc\<lparr>rc_host := aex_host\<lparr>fk_datasets := {''p/keel/volumes/j-data''}\<rparr>\<rparr>,
       aw_replicating = {''j''}, aw_spawned = [(''j'', ''j-data'')]\<rparr>,
     rw_loop = Some spawned_loop, rw_standbys = [(''n:1'', rex_standby)]\<rparr>"

lemma rex_facts:
  "ag_ops (aex_agent ipnet_ref) = fake_host_ops (ag_api (aex_agent ipnet_ref))" "sc_zfs rex_cfg = h_zfs (fake_host_ops ipnet_ref)"
  "validate_name ''j'' = Ok ()" "CHR ''@'' \<notin> set (ag_pool (aex_agent ipnet_ref))" "CHR '':'' \<notin> set (ag_pool (aex_agent ipnet_ref))"
  "volume_dataset_path (ag_pool (aex_agent ipnet_ref)) ''j-data'' = ''p/keel/volumes/j-data''"
  "hm_get (rc_records (aw_rc (rw_agent rex_start))) ''j'' = Some \<lparr>jrec_spec = aex_spec ''10.0.1.2/24'', jrec_epair_ordinal = 1\<rparr>"
  "good_link rex_link" "standby_dataset rex_cfg ''j'' = ''p/keel/volumes/j-data''" "repl_name 2 = ''keel-repl-2''"
proof -
  show "hm_get (rc_records (aw_rc (rw_agent rex_start))) ''j'' = Some \<lparr>jrec_spec = aex_spec ''10.0.1.2/24'', jrec_epair_ordinal = 1\<rparr>"
    unfolding rex_start_def applied_rc_def aex_apply by simp
qed (simp_all add: aex_agent_def rex_cfg_def rex_link_def good_link_def validate_name_Ok_iff is_ascii_lowercase_def volume_dataset_path_def repl_name_def)

theorem replication_keeps_up_witness:
  "\<exists>rw'. rw' = foldl (\<lambda>rw j. loop_round (aex_agent ipnet_ref) rex_cfg ''j'' ''j-data'' rex_link rw) rex_start [0..<2] \<and>
     (\<exists>sb'. hm_get (rw_standbys rw') ''n:1'' = Some sb' \<and> last_of sb' ''j'' = Some ''keel-repl-2'' \<and>
       ''p/keel/volumes/j-data@keel-repl-2'' \<in> fk_snapshots (sb_host sb')) \<and>
     fk_snapshots (agent_host_of (rw_agent rw')) = {''p/keel/volumes/j-data@keel-repl-2''}"
proof -
  have s: "sp_replicate_to (js_spec (jrec_spec \<lparr>jrec_spec = aex_spec ''10.0.1.2/24'', jrec_epair_ordinal = 1\<rparr>)) = Some ''n:1''"
    by (simp add: aex_spec_def)
  have w: "rw_loop rex_start = Some spawned_loop" "''p/keel/volumes/j-data'' \<in> fk_datasets (agent_host_of (rw_agent rex_start))"
    "\<forall>t. snap_key ''p/keel/volumes/j-data'' (repl_name t) \<notin> fk_snapshots (agent_host_of (rw_agent rex_start))"
    "hm_get (rw_standbys rex_start) ''n:1'' = Some rex_standby" "sb_by_name rex_standby = []" "\<forall>t. fs_fault (sb_fs rex_standby) t = None"
    by (simp_all add: rex_start_def rex_standby_def agent_host_of_def aex_host_def aex_fs_def)
  have l: "\<forall>j. good_link ((\<lambda>_. rex_link) (j :: nat))" by (simp add: rex_facts(8))
  have c: "CHR ''@'' \<notin> set ''p/keel/volumes/j-data''" "CHR '':'' \<notin> set ''p/keel/volumes/j-data''" "(0 :: nat) < 2" "(2 :: nat) < 2 ^ 64"
    by simp_all
  have e: "fk_snapshots (agent_host_of (rw_agent rex_start)) = {}"
    by (simp add: rex_start_def agent_host_of_def aex_host_def)
  from replication_keeps_up [OF rex_facts(1-3) rex_facts(6) [symmetric] c(1,2) l s rex_facts(7) w c(3,4)]
  show ?thesis unfolding e rex_facts(9,10) snap_key_def by simp
qed

theorem ready_means_replicated_witness:
  "\<exists>sb. hm_get (rw_standbys (loop_round (aex_agent ipnet_ref) rex_cfg ''j'' ''j-data'' rex_link rex_start)) ''n:1'' = Some sb \<and>
     last_of sb ''j'' = Some (repl_name 1) \<and>
     brought (aex_agent ipnet_ref) rex_cfg ''j'' rex_start (loop_round (aex_agent ipnet_ref) rex_cfg ''j'' ''j-data'' rex_link rex_start) ''n:1'' (repl_name 1) \<and>
     ''p/keel/volumes/j-data'' \<in> fk_datasets (sb_host sb) \<and>
     snap_key ''p/keel/volumes/j-data'' (repl_name 1) \<in> fk_snapshots (sb_host sb)"
proof -
  let ?r = "\<lparr>jrec_spec = aex_spec ''10.0.1.2/24'', jrec_epair_ordinal = 1\<rparr>" and ?d = "''p/keel/volumes/j-data''"
  let ?rw = "loop_round (aex_agent ipnet_ref) rex_cfg ''j'' ''j-data'' rex_link rex_start"
  have "in_step rex_cfg ''j'' ?d ''n:1'' ?r {} 0 rex_start"
    using rex_facts(7) by (simp add: in_step_def) (simp add: rex_start_def spawned_loop_def agent_host_of_def aex_host_def rex_standby_def
        last_of_def targets_get_def aex_fs_def)
  then have "in_step rex_cfg ''j'' ?d ''n:1'' ?r {} (Suc 0) ?rw"
    using rex_facts(6) by (intro in_step_round [OF rex_facts(1,2) wire_ok_valid_name [OF rex_facts(3)] _ _ _ rex_facts(8)]) (simp_all add: aex_spec_def)
  then obtain sb where sb: "hm_get (rw_standbys ?rw) ''n:1'' = Some sb" "last_of sb ''j'' = Some (repl_name 1)" by (auto simp: in_step_def)
  then obtain t where t: "targets_get sb ''j'' = Some t" "tg_last_snapshot t = Some (repl_name 1)"
    by (cases "targets_get sb ''j''") (auto simp: last_of_def)
  have i: "\<forall>a sb. hm_get (rw_standbys rex_start) a = Some sb \<longrightarrow> sb_by_name sb = []" "rw_loop rex_start = Some spawned_loop"
    by (simp_all add: rex_start_def rex_standby_def)
  have "(rep_step (aex_agent ipnet_ref) rex_cfg ''j'' (''j'' @ ''-data''))\<^sup>*\<^sup>* rex_start ?rw"
    using rep_round [of "aex_agent ipnet_ref" rex_cfg "''j''" "''j-data''" rex_start rex_link] by (simp add: r_into_rtranclp)
  from ready_means_replicated [OF rex_facts(1-5) i this sb(1) t] sb show ?thesis unfolding rex_facts(9) by blast
qed

end
