(* ===== verification/In_Acme.thy ===== *)
theory In_Acme
  imports Ag_Cli
begin

text \<open>
  The certificate client and the DNS provider the agent uses on the Internet: \<open>OvhDnsProvider\<close>
  (\<open>keel-ingress/src/ovh.rs\<close>) and \<open>InstantAcmeClient\<close> (\<open>instant_acme_client.rs\<close>). HTTPS, the hash, JSON, the
  command \<open>host\<close> and the ACME library are arguments over a world of any type; here are the requests that are
  made, in which order, and what happens when one of them fails.
\<close>

section \<open>ovh.rs\<close>

record 's ovh_lib =
  ol_sha1_hex :: "string \<Rightarrow> string"
  ol_timestamp :: "('s, nat, string) act"
  ol_http :: "string \<Rightarrow> string \<Rightarrow> (string \<times> string) list \<Rightarrow> string \<Rightarrow> ('s, string, string) act"
  ol_record_json :: "string \<Rightarrow> string \<Rightarrow> string"
  ol_ids :: "string \<Rightarrow> (nat list, string) result"
  ol_lookup :: "string \<Rightarrow> ('s, string, string) act"

record ovh =
  ov_app_key :: string
  ov_app_secret :: string
  ov_consumer_key :: string
  ov_zone :: string
  ov_endpoint :: string

definition ovh_new :: "string \<Rightarrow> string \<Rightarrow> string \<Rightarrow> string \<Rightarrow> ovh" where
  "ovh_new app_key app_secret consumer_key zone = \<lparr>ov_app_key = app_key, ov_app_secret = app_secret,
     ov_consumer_key = consumer_key, ov_zone = zone, ov_endpoint = ''https://eu.api.ovh.com/1.0''\<rparr>"

definition ovh_sign :: "'s ovh_lib \<Rightarrow> ovh \<Rightarrow> string \<Rightarrow> string \<Rightarrow> string \<Rightarrow> nat \<Rightarrow> string" where
  "ovh_sign lib ov http_method url body timestamp =
     ''$1$'' @ ol_sha1_hex lib (ov_app_secret ov @ ''+'' @ ov_consumer_key ov @ ''+'' @ http_method @ ''+'' @ url @ ''+'' @ body @ ''+'' @
       show_nat timestamp)"

definition ovh_request :: "'s ovh_lib \<Rightarrow> ovh \<Rightarrow> string \<Rightarrow> string \<Rightarrow> string \<Rightarrow> ('s, string, dns_error) act" where
  "ovh_request lib ov http_method path body =
     (let url = ov_endpoint ov @ path in
      bindA (map_exnA DnsRequest (ol_timestamp lib)) (\<lambda>timestamp.
        map_exnA DnsRequest (ol_http lib http_method url
          [(''X-Ovh-Application'', ov_app_key ov), (''X-Ovh-Consumer'', ov_consumer_key ov), (''X-Ovh-Timestamp'', show_nat timestamp),
           (''X-Ovh-Signature'', ovh_sign lib ov http_method url body timestamp), (''Content-Type'', ''application/json'')] body)))"

text \<open>\<open>trim_end_matches\<close> of a text: it is taken off the end as often as it is there.\<close>

function trim_end_str :: "string \<Rightarrow> string \<Rightarrow> string" where
  "trim_end_str p s = (if p = [] then s else case strip_suffix p s of Some r \<Rightarrow> trim_end_str p r | None \<Rightarrow> s)"
  by pat_completeness auto

termination trim_end_str
  by (relation "measure (\<lambda>(p, s). length s)") (auto simp: strip_suffix_Some_iff)

declare trim_end_str.simps [simp del]

definition sub_domain :: "ovh \<Rightarrow> string \<Rightarrow> string" where
  "sub_domain ov name = trim_end_str (ov_zone ov) (trim_end_str (CHR ''.'' # ov_zone ov) name)"

definition zone_path :: "ovh \<Rightarrow> string \<Rightarrow> string" where
  "zone_path ov rest = ''/domain/zone/'' @ ov_zone ov @ rest"

definition ovh_create_txt_record :: "'s ovh_lib \<Rightarrow> ovh \<Rightarrow> string \<Rightarrow> string \<Rightarrow> ('s, unit, dns_error) act" where
  "ovh_create_txt_record lib ov name value =
     bindA (ovh_request lib ov ''POST'' (zone_path ov ''/record'') (ol_record_json lib (sub_domain ov name) value)) (\<lambda>_.
     bindA (ovh_request lib ov ''POST'' (zone_path ov ''/refresh'') []) (\<lambda>_. returnA ()))"

definition ovh_delete_txt_record :: "'s ovh_lib \<Rightarrow> ovh \<Rightarrow> string \<Rightarrow> ('s, unit, dns_error) act" where
  "ovh_delete_txt_record lib ov name =
     bindA (ovh_request lib ov ''GET'' (zone_path ov (''/record?fieldType=TXT&subDomain='' @ sub_domain ov name)) []) (\<lambda>list_body.
     bindA (checkA DnsRequest (ol_ids lib list_body)) (\<lambda>ids.
     bindA (forA ids (\<lambda>i. bindA (ovh_request lib ov ''DELETE'' (zone_path ov (''/record/'' @ show_nat i)) []) (\<lambda>_. returnA ()))) (\<lambda>_.
     bindA (ovh_request lib ov ''POST'' (zone_path ov ''/refresh'') []) (\<lambda>_. returnA ()))))"

definition MAX_ATTEMPTS :: nat where
  "MAX_ATTEMPTS = 30"

fun propagation_attempts :: "'s ovh_lib \<Rightarrow> string \<Rightarrow> string \<Rightarrow> nat \<Rightarrow> ('s, unit, dns_error) act" where
  "propagation_attempts lib name value 0 = failA (DnsPropagationTimeout name)"
| "propagation_attempts lib name value (Suc k) = bindA (map_exnA DnsRequest (ol_lookup lib name)) (\<lambda>stdout.
     if contains_str value (lossy stdout) then returnA () else propagation_attempts lib name value k)"

definition ovh_wait_for_propagation :: "'s ovh_lib \<Rightarrow> string \<Rightarrow> string \<Rightarrow> ('s, unit, dns_error) act" where
  "ovh_wait_for_propagation lib name value = propagation_attempts lib name value MAX_ATTEMPTS"

definition ovh_dns :: "'s ovh_lib \<Rightarrow> ovh \<Rightarrow> 's dns_provider" where
  "ovh_dns lib ov = \<lparr>dp_create_txt_record = ovh_create_txt_record lib ov, dp_delete_txt_record = ovh_delete_txt_record lib ov,
     dp_wait_for_propagation = ovh_wait_for_propagation lib\<rparr>"

section \<open>instant-acme-client.rs\<close>

datatype order_status = OrderPending | OrderReady | OrderProcessing | OrderValid | OrderInvalid

text \<open>What the ACME library and the file system do. An account, an order and an authorization are handles; the
  authorizations of an order are a list, each fetched when its turn comes; the DNS-01 challenge of one is
  the value to publish, if it is offered.\<close>

record 's acme_lib =
  al_read_file :: "string \<Rightarrow> ('s, string, string) act"
  al_parse_credentials :: "string \<Rightarrow> (string, string) result"
  al_from_credentials :: "string \<Rightarrow> ('s, nat, string) act"
  al_create_account :: "string \<Rightarrow> string \<Rightarrow> ('s, nat \<times> string, string) act"
  al_serialize :: "string \<Rightarrow> (string, string) result"
  al_create_parent :: "string \<Rightarrow> ('s, unit, string) act"
  al_write :: "string \<Rightarrow> string \<Rightarrow> ('s, unit, string) act"
  al_rename :: "string \<Rightarrow> string \<Rightarrow> ('s, unit, string) act"
  al_new_order :: "nat \<Rightarrow> string \<Rightarrow> ('s, nat, string) act"
  al_authorizations :: "nat \<Rightarrow> nat list"
  al_challenge :: "nat \<Rightarrow> ('s, string option, string) act"
  al_set_ready :: "nat \<Rightarrow> ('s, unit, string) act"
  al_poll_ready :: "nat \<Rightarrow> ('s, order_status, string) act"
  al_finalize :: "nat \<Rightarrow> ('s, string, string) act"
  al_poll_certificate :: "nat \<Rightarrow> ('s, string, string) act"
  al_show_status :: "order_status \<Rightarrow> string"

record acme_client =
  ac_directory_url :: string
  ac_account_key_path :: string

text \<open>\<open>Path::with_extension\<close>: what follows the last dot of the file name is replaced; a name without a dot, or with
  none but a leading one, gets the extension.\<close>

definition with_extension :: "string \<Rightarrow> string \<Rightarrow> string" where
  "with_extension ext p =
     (let (dir, name) = (case rsplit_once CHR ''/'' p of Some (d, n) \<Rightarrow> (d @ ''/'', n) | None \<Rightarrow> ([], p));
          stem = (case rsplit_once CHR ''.'' name of Some (st, _) \<Rightarrow> if st = [] then name else st | None \<Rightarrow> name)
      in dir @ stem @ ''.'' @ ext)"

definition load_or_create_account :: "'s acme_lib \<Rightarrow> acme_client \<Rightarrow> string \<Rightarrow> ('s, nat, acme_error) act" where
  "load_or_create_account lib ac contact_email =
     bindA (resultA (al_read_file lib (ac_account_key_path ac))) (\<lambda>r. case r of
       Ok existing \<Rightarrow>
         bindA (checkA (\<lambda>e. AcmeRequest (''malformed account credentials: '' @ e)) (al_parse_credentials lib existing)) (\<lambda>credentials.
           map_exnA AcmeRequest (al_from_credentials lib credentials))
     | Err _ \<Rightarrow>
         bindA (map_exnA AcmeRequest (al_create_account lib (''mailto:'' @ contact_email) (ac_directory_url ac))) (\<lambda>(account, credentials).
         bindA (checkA (\<lambda>e. AcmeRequest (''failed to serialize account credentials: '' @ e)) (al_serialize lib credentials)) (\<lambda>serialized.
         bindA (map_exnA AcmeRequest (al_create_parent lib (ac_account_key_path ac))) (\<lambda>_.
         bindA (map_exnA AcmeRequest (al_write lib (with_extension ''tmp'' (ac_account_key_path ac)) serialized)) (\<lambda>_.
         bindA (map_exnA AcmeRequest (al_rename lib (with_extension ''tmp'' (ac_account_key_path ac)) (ac_account_key_path ac))) (\<lambda>_.
           returnA account))))))"

text \<open>The loop over the authorizations; its value says whether a record was made.\<close>

fun prove_control :: "'s acme_lib \<Rightarrow> 's dns_provider \<Rightarrow> string \<Rightarrow> nat list \<Rightarrow> bool \<Rightarrow> ('s, bool, acme_error) act" where
  "prove_control lib dns domain [] made = returnA made"
| "prove_control lib dns domain (a # auths) made =
     (let challenge_name = ''_acme-challenge.'' @ domain in
      bindA (map_exnA AcmeRequest (al_challenge lib a)) (\<lambda>c. case c of
        None \<Rightarrow> failA (AcmeRequest (''no DNS-01 challenge offered for '' @ [CHR 0x27] @ domain @ [CHR 0x27]))
      | Some dns_value \<Rightarrow>
          bindA (map_exnA AcmeDns (dp_create_txt_record dns challenge_name dns_value)) (\<lambda>_.
          bindA (map_exnA AcmeDns (dp_wait_for_propagation dns challenge_name dns_value)) (\<lambda>_.
          bindA (map_exnA AcmeRequest (al_set_ready lib a)) (\<lambda>_.
            prove_control lib dns domain auths True)))))"

definition finalize_and_download :: "'s acme_lib \<Rightarrow> nat \<Rightarrow> ('s, cert, acme_error) act" where
  "finalize_and_download lib order =
     bindA (map_exnA AcmeRequest (al_poll_ready lib order)) (\<lambda>status.
     if status \<noteq> OrderReady then failA (AcmeRequest (''order did not become ready, status: '' @ al_show_status lib status))
     else bindA (map_exnA AcmeRequest (al_finalize lib order)) (\<lambda>key.
          bindA (map_exnA AcmeRequest (al_poll_certificate lib order)) (\<lambda>pem.
            returnA \<lparr>cert_pem = pem, key_pem = key\<rparr>)))"

definition request_certificate :: "'s acme_lib \<Rightarrow> acme_client \<Rightarrow> string \<Rightarrow> string \<Rightarrow> 's dns_provider \<Rightarrow> ('s, cert, acme_error) act" where
  "request_certificate lib ac domain contact_email dns =
     bindA (load_or_create_account lib ac contact_email) (\<lambda>account.
     bindA (map_exnA AcmeRequest (al_new_order lib account domain)) (\<lambda>order.
     bindA (prove_control lib dns domain (al_authorizations lib order) False) (\<lambda>made.
     bindA (resultA (finalize_and_download lib order)) (\<lambda>issuance_result.
     bindA (if made then ignoreA (dp_delete_txt_record dns (''_acme-challenge.'' @ domain)) else returnA ()) (\<lambda>_.
       checkA id issuance_result)))))"

section \<open>What is left in the zone\<close>

text \<open>The records of a zone as its interface shows them: adding one is the only thing among the requests made
  before issuance that changes them.\<close>

locale ovh_zone =
  fixes lib :: "'s ovh_lib" and ov :: ovh and recs :: "'s \<Rightarrow> (string \<times> string) set"
  assumes timestamp: "ol_timestamp lib s = (r, s') \<Longrightarrow> recs s' = recs s"
    and lookup: "ol_lookup lib n s = (r', s') \<Longrightarrow> recs s' = recs s"
    and record_added: "ol_http lib ''POST'' (ov_endpoint ov @ zone_path ov ''/record'') hs (ol_record_json lib sub v) s = (Val b, s') \<Longrightarrow>
      recs s' = insert (sub, v) (recs s)"
    and refreshed: "ol_http lib ''POST'' (ov_endpoint ov @ zone_path ov ''/refresh'') hs [] s = (r'', s') \<Longrightarrow> recs s' = recs s"

text \<open>The parts of a sequence of actions.\<close>

lemma bindA_Val: "bindA m f s = (Val y, s') \<Longrightarrow> \<exists>x s1. m s = (Val x, s1) \<and> f x s1 = (Val y, s')"
  by (auto simp: bindA_def split: prod.splits outcome.splits)

lemma bindA_Exn: "bindA m f s = (Exn e, s') \<Longrightarrow> m s = (Exn e, s') \<or> (\<exists>x s1. m s = (Val x, s1) \<and> f x s1 = (Exn e, s'))"
  by (auto simp: bindA_def split: prod.splits outcome.splits)

lemma map_exnA_cases:
  "map_exnA f m s = (Val y, s') \<Longrightarrow> m s = (Val y, s')" "map_exnA f m s = (Exn e, s') \<Longrightarrow> \<exists>e'. m s = (Exn e', s') \<and> e = f e'"
  by (auto simp: map_exnA_def split: prod.splits outcome.splits)

context ovh_zone
begin

lemma refresh_keeps:
  assumes "ovh_request lib ov ''POST'' (zone_path ov ''/refresh'') [] s = (Val b, s')"
  shows "recs s' = recs s"
proof -
  from assms obtain t s1 hs where "ol_timestamp lib s = (Val t, s1)"
    "ol_http lib ''POST'' (ov_endpoint ov @ zone_path ov ''/refresh'') hs [] s1 = (Val b, s')"
    unfolding ovh_request_def Let_def by (blast dest: bindA_Val map_exnA_cases)
  with timestamp refreshed show ?thesis by metis
qed

lemma create_adds:
  assumes "ovh_create_txt_record lib ov name v s = (Val u, s')"
  shows "(sub_domain ov name, v) \<in> recs s'"
proof -
  from assms obtain b b' s1 where
    post: "ovh_request lib ov ''POST'' (zone_path ov ''/record'') (ol_record_json lib (sub_domain ov name) v) s = (Val b, s1)"
    and again: "ovh_request lib ov ''POST'' (zone_path ov ''/refresh'') [] s1 = (Val b', s')"
    unfolding ovh_create_txt_record_def by (auto simp: returnA_def dest!: bindA_Val)
  from post obtain s2 hs where
    "ol_http lib ''POST'' (ov_endpoint ov @ zone_path ov ''/record'') hs (ol_record_json lib (sub_domain ov name) v) s2 = (Val b, s1)"
    unfolding ovh_request_def Let_def by (blast dest: bindA_Val map_exnA_cases)
  with record_added refresh_keeps [OF again] show ?thesis by auto
qed

lemma wait_keeps: "propagation_attempts lib name v k s = (r, s') \<Longrightarrow> recs s' = recs s"
proof (induction k arbitrary: s)
  case 0
  then show ?case by (simp add: failA_def)
next
  case (Suc k)
  obtain q s1 where q: "ol_lookup lib name s = (q, s1)" by fastforce
  with Suc lookup [OF q] show ?case
    by (cases q) (auto simp: bindA_def map_exnA_def returnA_def split: if_splits)
qed

lemma create_error:
  assumes "ovh_create_txt_record lib ov name v s = (Exn e, s')"
  shows "\<exists>m. e = DnsRequest m"
proof -
  have "\<exists>m. e = DnsRequest m" if "ovh_request lib ov x y z s = (Exn e, s')" for x y z s
    using that unfolding ovh_request_def Let_def by (blast dest: bindA_Exn map_exnA_cases)
  with assms show ?thesis
    unfolding ovh_create_txt_record_def by (auto simp: returnA_def dest!: bindA_Exn)
qed

lemma timeout_leaves_record:
  assumes "prove_control al (ovh_dns lib ov) domain auths made s = (Exn (AcmeDns (DnsPropagationTimeout n)), s')"
    and "n = ''_acme-challenge.'' @ domain"
  shows "\<exists>v. (sub_domain ov n, v) \<in> recs s'"
  using assms(1)
proof (induction auths arbitrary: made s)
  case Nil
  then show ?case by (simp add: returnA_def)
next
  case (Cons a auths)
  from Cons.prems obtain c s1 where
    "bindA (map_exnA AcmeDns (ovh_create_txt_record lib ov n c)) (\<lambda>_.
      bindA (map_exnA AcmeDns (ovh_wait_for_propagation lib n c)) (\<lambda>_.
      bindA (map_exnA AcmeRequest (al_set_ready al a)) (\<lambda>_. prove_control al (ovh_dns lib ov) domain auths True))) s1 =
      (Exn (AcmeDns (DnsPropagationTimeout n)), s')"
    unfolding prove_control.simps Let_def assms(2) [symmetric]
    by (auto simp: ovh_dns_def failA_def dest!: bindA_Exn map_exnA_cases split: option.splits)
  from bindA_Exn [OF this] obtain u s2 where s2: "ovh_create_txt_record lib ov n c s1 = (Val u, s2)"
    and "bindA (map_exnA AcmeDns (ovh_wait_for_propagation lib n c)) (\<lambda>_.
      bindA (map_exnA AcmeRequest (al_set_ready al a)) (\<lambda>_. prove_control al (ovh_dns lib ov) domain auths True)) s2 =
      (Exn (AcmeDns (DnsPropagationTimeout n)), s')"
    by (auto dest!: map_exnA_cases create_error)
  from bindA_Exn [OF this(2)] show ?case
  proof (elim disjE exE conjE)
    assume "map_exnA AcmeDns (ovh_wait_for_propagation lib n c) s2 = (Exn (AcmeDns (DnsPropagationTimeout n)), s')"
    then obtain e where "ovh_wait_for_propagation lib n c s2 = (Exn e, s')" by (auto dest: map_exnA_cases)
    from wait_keeps [OF this [unfolded ovh_wait_for_propagation_def]] create_adds [OF s2] show ?thesis by auto
  next
    fix x s3
    assume "bindA (map_exnA AcmeRequest (al_set_ready al a)) (\<lambda>_. prove_control al (ovh_dns lib ov) domain auths True) s3 =
      (Exn (AcmeDns (DnsPropagationTimeout n)), s')"
    from bindA_Exn [OF this] Cons.IH show ?thesis by (auto dest!: map_exnA_cases)
  qed
qed

end

lemma account_errors: "load_or_create_account al ac email s = (Exn e, s') \<Longrightarrow> \<exists>m. e = AcmeRequest m"
  unfolding load_or_create_account_def
  by (auto simp: resultA_def checkA_def returnA_def dest!: bindA_Exn map_exnA_cases split: prod.splits outcome.splits result.splits)

lemma finalize_errors: "finalize_and_download al order s = (Exn e, s') \<Longrightarrow> \<exists>m. e = AcmeRequest m"
  unfolding finalize_and_download_def
  by (auto simp: returnA_def failA_def dest!: bindA_Exn map_exnA_cases split: if_splits)

text \<open>C39: A certificate request that ends in a propagation timeout leaves its challenge record in the zone: the
  clean-up at the end of the request, which is meant to happen whether or not issuance succeeds, is only
  reached when every record was seen in time.\<close>

theorem timeout_leaves_challenge_record:
  assumes "ovh_zone lib ov recs" "n = ''_acme-challenge.'' @ domain"
    and "request_certificate al ac domain email (ovh_dns lib ov) s = (Exn (AcmeDns (DnsPropagationTimeout n)), s')"
  shows "\<exists>v. (sub_domain ov n, v) \<in> recs s'"
proof -
  have "\<exists>order s1. prove_control al (ovh_dns lib ov) domain (al_authorizations al order) False s1 = (Exn (AcmeDns (DnsPropagationTimeout n)), s')"
    using assms(3) unfolding request_certificate_def
  proof (elim bindA_Exn [elim_format] disjE exE conjE)
    fix account s1 order s2 made s3 r s4 u s5
    assume "resultA (finalize_and_download al order) s3 = (Val r, s4)" "checkA id r s5 = (Exn (AcmeDns (DnsPropagationTimeout n)), s')"
    then show ?thesis
      by (auto simp: resultA_def checkA_def dest!: finalize_errors split: prod.splits outcome.splits result.splits)
  qed (auto simp: resultA_def ignoreA_def returnA_def dest!: account_errors map_exnA_cases split: prod.splits outcome.splits if_splits)
  with ovh_zone.timeout_leaves_record [OF assms(1) _ assms(2)] show ?thesis by blast
qed

section \<open>Names in and outside the zone\<close>

lemma trim_end_str_none: "\<not> suffix p s \<Longrightarrow> trim_end_str p s = s"
  by (subst trim_end_str.simps) (auto split: option.splits simp: strip_suffix_Some_iff suffix_def)

lemma trim_end_str_once: "p \<noteq> [] \<Longrightarrow> trim_end_str p (s @ p) = trim_end_str p s"
  by (subst trim_end_str.simps) (use strip_suffix_Some_iff [of p "s @ p" s] in simp)

text \<open>The sub-domain of a host is what it has in front of the zone. For a host that merely ends with the text of
  the zone, part of its own label is cut off, and the record goes to another host of the zone.\<close>

lemma sub_domain_in_zone:
  assumes "ov_zone ov \<noteq> []" "\<not> suffix (ov_zone ov) sub"
  shows "sub_domain ov (sub @ ''.'' @ ov_zone ov) = sub"
proof -
  have n: "\<not> suffix (CHR ''.'' # ov_zone ov) sub" using assms(2) by (metis suffix_ConsI suffix_order.trans suffix_def append_Cons append_Nil suffixI)
  have "trim_end_str (CHR ''.'' # ov_zone ov) (sub @ ''.'' @ ov_zone ov) = sub"
    using trim_end_str_once [of "CHR ''.'' # ov_zone ov" sub] trim_end_str_none [OF n] by simp
  with assms(2) show ?thesis by (simp add: sub_domain_def trim_end_str_none)
qed

lemma sub_domain_of_foreign_host:
  "sub_domain (ovh_new ''k'' ''s'' ''c'' ''example.com'') ''_acme-challenge.notexample.com'' = ''_acme-challenge.not''"
  by code_simp

section \<open>A reference zone\<close>

text \<open>The world is the set of records; the body of a request carries the length of the sub-domain in front.\<close>

definition zone_encode :: "string \<Rightarrow> string \<Rightarrow> string" where
  "zone_encode sub v = replicate (length sub) CHR ''a'' @ ''b'' @ sub @ v"

definition zone_decode :: "string \<Rightarrow> string \<times> string" where
  "zone_decode b = (let n = length (takeWhile (\<lambda>c. c = CHR ''a'') b); r = drop (Suc n) b in (take n r, drop n r))"

definition zone_ov :: ovh where
  "zone_ov = ovh_new ''k'' ''s'' ''c'' ''example.com''"

definition zone_lib :: "(string \<times> string) set ovh_lib" where
  "zone_lib = \<lparr>ol_sha1_hex = \<lambda>s. s, ol_timestamp = \<lambda>s. (Val 0, s),
     ol_http = \<lambda>m url hs body s. (Val [], if m = ''POST'' \<and> url = ov_endpoint zone_ov @ zone_path zone_ov ''/record'' then insert (zone_decode body) s else s),
     ol_record_json = zone_encode, ol_ids = \<lambda>_. Ok [], ol_lookup = \<lambda>n s. (Val [], s)\<rparr>"

lemma zone_decode_encode: "zone_decode (zone_encode sub v) = (sub, v)"
proof -
  have "takeWhile (\<lambda>c. c = CHR ''a'') (replicate n CHR ''a'' @ ''b'' @ t) = replicate n CHR ''a''" for n t by (induction n) auto
  then show ?thesis by (simp add: zone_decode_def zone_encode_def Let_def)
qed

interpretation ref_zone: ovh_zone zone_lib zone_ov "\<lambda>s. s"
  by unfold_locales (auto simp: zone_lib_def zone_decode_encode zone_path_def)

definition aex_acme :: "(string \<times> string) set acme_lib" where
  "aex_acme = \<lparr>al_read_file = \<lambda>p s. (Exn ''none'', s), al_parse_credentials = Ok, al_from_credentials = \<lambda>c s. (Val 1, s),
     al_create_account = \<lambda>m u s. (Val (1, ''c''), s), al_serialize = Ok, al_create_parent = \<lambda>p s. (Val (), s),
     al_write = \<lambda>p t s. (Val (), s), al_rename = \<lambda>p q s. (Val (), s), al_new_order = \<lambda>a d s. (Val 1, s), al_authorizations = \<lambda>o'. [1],
     al_challenge = \<lambda>a s. (Val (Some ''t''), s), al_set_ready = \<lambda>a s. (Val (), s), al_poll_ready = \<lambda>o' s. (Val OrderReady, s),
     al_finalize = \<lambda>o' s. (Val ''k'', s), al_poll_certificate = \<lambda>o' s. (Val ''c'', s), al_show_status = \<lambda>st. ''s''\<rparr>"

lemma never_propagates: "propagation_attempts zone_lib n ''t'' k s = (Exn (DnsPropagationTimeout n), s)"
proof -
  have "lossy [] = []" by (subst lossy.simps) simp
  then show ?thesis by (induction k) (simp_all add: failA_def bindA_def map_exnA_def zone_lib_def)
qed

theorem timeout_leaves_challenge_record_witness:
  "\<exists>s'. request_certificate aex_acme \<lparr>ac_directory_url = ''u'', ac_account_key_path = ''/a/key.json''\<rparr> ''w.example.com'' ''e'' (ovh_dns zone_lib zone_ov) {} =
      (Exn (AcmeDns (DnsPropagationTimeout ''_acme-challenge.w.example.com'')), s') \<and> s' \<noteq> {}"
proof -
  obtain s' where s': "request_certificate aex_acme \<lparr>ac_directory_url = ''u'', ac_account_key_path = ''/a/key.json''\<rparr> ''w.example.com'' ''e'' (ovh_dns zone_lib zone_ov) {} =
      (Exn (AcmeDns (DnsPropagationTimeout ''_acme-challenge.w.example.com'')), s')"
    using never_propagates
    by (simp add: request_certificate_def load_or_create_account_def aex_acme_def act_defs ovh_dns_def ovh_create_txt_record_def ovh_request_def
        ovh_wait_for_propagation_def Let_def zone_lib_def)
  from timeout_leaves_challenge_record [OF ref_zone.ovh_zone_axioms _ s'] have "s' \<noteq> {}" by fastforce
  with s' show ?thesis by blast
qed

end
