(* ===== verification/Keel_Tls.thy ===== *)
theory Keel_Tls
  imports Keel_Ipnet Ag_Store
begin

text \<open>
  TLS for the three programs: \<open>tls.rs\<close> of \<open>keel-controlplane\<close>, \<open>keel-agentd\<close> and \<open>keelctl\<close> (the same code but for
  texts; the client has no reloading). Files are read again every 30 seconds, so that a new certificate
  or revocation list takes effect without a restart. The PEM parser and the checks of \<open>rustls\<close> are
  arguments; a configuration is the data its builder was given.
\<close>

section \<open>Loading\<close>

record rustls =
  rl_certs :: "string \<Rightarrow> (string list, string) result"
  rl_private_key :: "string \<Rightarrow> (string option, string) result"
  rl_crls :: "string \<Rightarrow> (string list, string) result"
  rl_add_root :: "string \<Rightarrow> (unit, string) result"
  rl_client_verifier :: "string list \<Rightarrow> string list \<Rightarrow> (unit, string) result"
  rl_server_verifier :: "string list \<Rightarrow> string list \<Rightarrow> (unit, string) result"
  rl_server_config :: "string list \<Rightarrow> string \<Rightarrow> (unit, string) result"
  rl_client_config :: "string list \<Rightarrow> string \<Rightarrow> (unit, string) result"

record tls_paths =
  tp_cert :: string
  tp_key :: string
  tp_ca :: string
  tp_crl :: string

record tls_config =
  tc_certs :: "string list"
  tc_key :: string
  tc_roots :: "string list"
  tc_crls :: "string list"

text \<open>The files, as one look at the disk shows them; \<open>Err\<close> carries the text of the error.\<close>

type_synonym disk = "string \<Rightarrow> (string, string) result"

definition load_certs :: "rustls \<Rightarrow> disk \<Rightarrow> string \<Rightarrow> (string list, string) result" where
  "load_certs lib disk path =
     and_then (map_err (\<lambda>e. ''failed to open certificate file '' @ path @ '': '' @ e) (disk path)) (\<lambda>text.
     and_then (map_err (\<lambda>e. ''failed to parse certificate file '' @ path @ '': '' @ e) (rl_certs lib text)) (\<lambda>certs.
       if certs = [] then Err (''failed to find any PEM-encoded certificates in '' @ path) else Ok certs))"

definition load_private_key :: "rustls \<Rightarrow> disk \<Rightarrow> string \<Rightarrow> (string, string) result" where
  "load_private_key lib disk path =
     and_then (map_err (\<lambda>e. ''failed to open key file '' @ path @ '': '' @ e) (disk path)) (\<lambda>text.
     and_then (map_err (\<lambda>e. ''failed to parse key file '' @ path @ '': '' @ e) (rl_private_key lib text)) (\<lambda>key.
       ok_or (''no private key found in '' @ path) key))"

text \<open>The loop that fills the root store; it stops at the first certificate that is refused.\<close>

fun add_roots :: "rustls \<Rightarrow> string \<Rightarrow> string list \<Rightarrow> string list \<Rightarrow> (string list, string) result" where
  "add_roots lib path roots [] = Ok roots"
| "add_roots lib path roots (c # cs) =
     and_then (map_err (\<lambda>e. ''failed to add CA certificate from '' @ path @ '': '' @ e) (rl_add_root lib c)) (\<lambda>_.
       add_roots lib path (roots @ [c]) cs)"

definition load_root_store :: "rustls \<Rightarrow> disk \<Rightarrow> string \<Rightarrow> (string list, string) result" where
  "load_root_store lib disk path = and_then (load_certs lib disk path) (add_roots lib path [])"

definition load_crls :: "rustls \<Rightarrow> disk \<Rightarrow> string \<Rightarrow> (string list, string) result" where
  "load_crls lib disk path =
     and_then (map_err (\<lambda>e. ''failed to open CRL file '' @ path @ '': '' @ e) (disk path)) (\<lambda>text.
     and_then (map_err (\<lambda>e. ''failed to parse CRL file '' @ path @ '': '' @ e) (rl_crls lib text)) (\<lambda>crls.
       if crls = [] then Err (''failed to find a PEM-encoded CRL in '' @ path) else Ok crls))"

definition load_server_config :: "rustls \<Rightarrow> disk \<Rightarrow> tls_paths \<Rightarrow> (tls_config, string) result" where
  "load_server_config lib disk p =
     and_then (load_certs lib disk (tp_cert p)) (\<lambda>certs.
     and_then (load_private_key lib disk (tp_key p)) (\<lambda>key.
     and_then (load_root_store lib disk (tp_ca p)) (\<lambda>roots.
     and_then (load_crls lib disk (tp_crl p)) (\<lambda>crls.
     and_then (map_err (\<lambda>e. ''failed to build client certificate verifier: '' @ e) (rl_client_verifier lib roots crls)) (\<lambda>_.
     and_then (map_err (\<lambda>e. ''failed to build TLS server config: '' @ e) (rl_server_config lib certs key)) (\<lambda>_.
       Ok \<lparr>tc_certs = certs, tc_key = key, tc_roots = roots, tc_crls = crls\<rparr>))))))"

definition load_client_config :: "rustls \<Rightarrow> disk \<Rightarrow> tls_paths \<Rightarrow> (tls_config, string) result" where
  "load_client_config lib disk p =
     and_then (load_certs lib disk (tp_cert p)) (\<lambda>certs.
     and_then (load_private_key lib disk (tp_key p)) (\<lambda>key.
     and_then (load_root_store lib disk (tp_ca p)) (\<lambda>roots.
     and_then (load_crls lib disk (tp_crl p)) (\<lambda>crls.
     and_then (map_err (\<lambda>e. ''failed to build server certificate verifier: '' @ e) (rl_server_verifier lib roots crls)) (\<lambda>_.
     and_then (map_err (\<lambda>e. ''failed to build TLS client config: '' @ e) (rl_client_config lib certs key)) (\<lambda>_.
       Ok \<lparr>tc_certs = certs, tc_key = key, tc_roots = roots, tc_crls = crls\<rparr>))))))"

text \<open>The name a client expects of its peer: the host of \<open>host:port\<close>, which has to be an address.\<close>

definition server_name_from_addr :: "(string \<Rightarrow> ('ip, string) result) \<Rightarrow> string \<Rightarrow> ('ip, string) result" where
  "server_name_from_addr parse_ip addr =
     (let host = (case rsplit_once CHR '':'' addr of Some (h, _) \<Rightarrow> h | None \<Rightarrow> addr);
          q = [CHR 0x27] in
      map_err (\<lambda>e. ''expected an IP address in '' @ q @ addr @ q @ '', got '' @ q @ host @ q @ '': '' @ e) (parse_ip host))"

section \<open>Reloading\<close>

record reloading_tls =
  rt_paths :: tls_paths
  rt_server :: tls_config
  rt_client :: tls_config

text \<open>Each of the two configurations is loaded from the disk as it is at that moment.\<close>

definition tls_spawn :: "rustls \<Rightarrow> disk \<Rightarrow> disk \<Rightarrow> tls_paths \<Rightarrow> (reloading_tls, string) result" where
  "tls_spawn lib disk disk' p =
     and_then (load_server_config lib disk p) (\<lambda>server.
     and_then (load_client_config lib disk' p) (\<lambda>client.
       Ok \<lparr>rt_paths = p, rt_server = server, rt_client = client\<rparr>))"

definition reload_once :: "rustls \<Rightarrow> disk \<Rightarrow> disk \<Rightarrow> reloading_tls \<Rightarrow> reloading_tls" where
  "reload_once lib disk disk' t =
     (let t1 = (case load_server_config lib disk (rt_paths t) of Ok cfg \<Rightarrow> t\<lparr>rt_server := cfg\<rparr> | Err _ \<Rightarrow> t)
      in case load_client_config lib disk' (rt_paths t1) of Ok cfg \<Rightarrow> t1\<lparr>rt_client := cfg\<rparr> | Err _ \<Rightarrow> t1)"

text \<open>The states a running program goes through, whatever happens to the files between two looks.\<close>

inductive tls_reached :: "rustls \<Rightarrow> tls_paths \<Rightarrow> reloading_tls \<Rightarrow> bool" for lib p where
  tls_start: "tls_spawn lib disk disk' p = Ok t \<Longrightarrow> tls_reached lib p t"
| tls_reload: "tls_reached lib p t \<Longrightarrow> tls_reached lib p (reload_once lib disk disk' t)"

section \<open>What a configuration owes to the files\<close>

text \<open>A configuration checks peers when it was built from certificates and revocation lists that are really
  there, and the library accepted every root.\<close>

definition checks_peers :: "rustls \<Rightarrow> tls_config \<Rightarrow> bool" where
  "checks_peers lib c \<longleftrightarrow> tc_certs c \<noteq> [] \<and> tc_roots c \<noteq> [] \<and> tc_crls c \<noteq> [] \<and> list_all (\<lambda>r. rl_add_root lib r = Ok ()) (tc_roots c)"

lemma add_roots_Ok: "add_roots lib path roots cs = Ok rs \<Longrightarrow> rs = roots @ cs \<and> list_all (\<lambda>r. rl_add_root lib r = Ok ()) cs"
  by (induction cs arbitrary: roots) fastforce+

lemma load_certs_Ok: "load_certs lib disk path = Ok cs \<Longrightarrow> cs \<noteq> [] \<and> (\<exists>text. disk path = Ok text \<and> rl_certs lib text = Ok cs)"
  by (auto simp: load_certs_def split: if_splits)

lemma load_root_store_Ok:
  "load_root_store lib disk path = Ok rs \<Longrightarrow> rs \<noteq> [] \<and> list_all (\<lambda>r. rl_add_root lib r = Ok ()) rs \<and> load_certs lib disk path = Ok rs"
  by (auto simp: load_root_store_def dest: add_roots_Ok load_certs_Ok)

lemma load_crls_Ok: "load_crls lib disk path = Ok cs \<Longrightarrow> cs \<noteq> [] \<and> (\<exists>text. disk path = Ok text \<and> rl_crls lib text = Ok cs)"
  by (auto simp: load_crls_def split: if_splits)

text \<open>What one look at the files gives.\<close>

definition loaded_from :: "rustls \<Rightarrow> tls_paths \<Rightarrow> disk \<Rightarrow> tls_config \<Rightarrow> bool" where
  "loaded_from lib p disk c \<longleftrightarrow> load_certs lib disk (tp_cert p) = Ok (tc_certs c) \<and> load_private_key lib disk (tp_key p) = Ok (tc_key c) \<and>
     load_root_store lib disk (tp_ca p) = Ok (tc_roots c) \<and> load_crls lib disk (tp_crl p) = Ok (tc_crls c)"

lemma load_config_from:
  "load_server_config lib disk p = Ok c \<Longrightarrow> loaded_from lib p disk c" "load_client_config lib disk p = Ok c \<Longrightarrow> loaded_from lib p disk c"
  by (auto simp: load_server_config_def load_client_config_def loaded_from_def)

lemma loaded_from_checks: "loaded_from lib p disk c \<Longrightarrow> checks_peers lib c"
  by (auto simp: loaded_from_def checks_peers_def dest!: load_certs_Ok load_root_store_Ok load_crls_Ok)

lemma tls_reached_inv:
  assumes "tls_reached lib p t"
  shows "rt_paths t = p \<and> (\<exists>d. loaded_from lib p d (rt_server t)) \<and> (\<exists>d. loaded_from lib p d (rt_client t))"
  using assms
proof induction
  case (tls_start disk disk' t)
  then show ?case by (auto simp: tls_spawn_def dest!: load_config_from)
next
  case (tls_reload t disk disk')
  then show ?case by (auto simp: reload_once_def Let_def dest!: load_config_from split: result.splits)
qed

text \<open>C26: In every state a program reaches, both configurations check their peers against at least one accepted
  root and at least one revocation list: a file that is missing, empty or broken never switches a check
  off, it only keeps the configuration of an earlier look at the files in place.\<close>

theorem tls_always_checks_peers:
  assumes "tls_reached lib p t"
  shows "rt_paths t = p \<and> checks_peers lib (rt_server t) \<and> checks_peers lib (rt_client t) \<and>
    (\<forall>disk disk'. rt_server (reload_once lib disk disk' t) = rt_server t \<or> loaded_from lib p disk (rt_server (reload_once lib disk disk' t))) \<and>
    (\<forall>disk disk'. rt_client (reload_once lib disk disk' t) = rt_client t \<or> loaded_from lib p disk' (rt_client (reload_once lib disk disk' t)))"
  using tls_reached_inv [OF assms]
  by (auto simp: reload_once_def Let_def loaded_from_checks dest!: load_config_from split: result.splits)

text \<open>A library that reads one entry per line of a file, and a disk that loses its revocation list.\<close>

definition rex_lib :: rustls where
  "rex_lib = \<lparr>rl_certs = \<lambda>s. Ok (if s = [] then [] else [s]), rl_private_key = \<lambda>s. Ok (Some s), rl_crls = \<lambda>s. Ok (if s = [] then [] else [s]),
     rl_add_root = \<lambda>c. Ok (), rl_client_verifier = \<lambda>r c. Ok (), rl_server_verifier = \<lambda>r c. Ok (),
     rl_server_config = \<lambda>c k. Ok (), rl_client_config = \<lambda>c k. Ok ()\<rparr>"

definition rex_paths :: tls_paths where
  "rex_paths = \<lparr>tp_cert = ''c'', tp_key = ''k'', tp_ca = ''a'', tp_crl = ''l''\<rparr>"

definition rex_tls :: reloading_tls where
  "rex_tls = \<lparr>rt_paths = rex_paths, rt_server = \<lparr>tc_certs = [''c''], tc_key = ''k'', tc_roots = [''a''], tc_crls = [''l'']\<rparr>,
     rt_client = \<lparr>tc_certs = [''c''], tc_key = ''k'', tc_roots = [''a''], tc_crls = [''l'']\<rparr>\<rparr>"

lemma rex_spawn: "tls_spawn rex_lib Ok Ok rex_paths = Ok rex_tls"
  by (simp add: tls_spawn_def load_server_config_def load_client_config_def load_certs_def load_private_key_def load_root_store_def
      load_crls_def rex_lib_def rex_paths_def rex_tls_def)

theorem tls_always_checks_peers_witness:
  "reload_once rex_lib (\<lambda>f. Ok (if f = ''l'' then [] else f)) (\<lambda>f. Err ''gone'') rex_tls = rex_tls \<and> checks_peers rex_lib (rt_server rex_tls)"
proof -
  have "tls_reached rex_lib rex_paths rex_tls" using rex_spawn by (rule tls_start)
  from tls_always_checks_peers [OF this] show ?thesis
    by (simp add: reload_once_def load_server_config_def load_client_config_def load_certs_def load_private_key_def load_root_store_def
        load_crls_def rex_lib_def rex_paths_def rex_tls_def)
qed

end
