(* ===== verification/Ag_Start.thy ===== *)
theory Ag_Start
  imports Ag_Behaviour Ag_Registration In_Acme Keel_Tls
begin

text \<open>
  The start of the agent: \<open>keel-agentd/src/main.rs\<close> and \<open>capacity.rs\<close>. The flags choose the certificate
  client, the reconciler is loaded from the state directory, the replication loops that were running are
  started again, and, when a control plane is named, the node detects its capacity, loads its TLS
  configuration and listens. A panic is an \<open>Err\<close> with its text.
\<close>

section \<open>Flags\<close>

record ag_config =
  cg_pool :: string
  cg_state_dir :: string
  cg_socket :: string
  cg_node_id :: "string option"
  cg_control_plane_addr :: "string option"
  cg_advertise_addr :: "string option"
  cg_replicate_addr :: "string option"
  cg_tls_ca_file :: "string option"
  cg_tls_cert_file :: "string option"
  cg_tls_key_file :: "string option"
  cg_tls_crl_file :: "string option"
  cg_public_iface :: "string option"
  cg_dns_ovh_config :: "string option"
  cg_acme_directory_url :: "string option"
  cg_acme_account_key_file :: "string option"

definition ag_config_default :: ag_config where
  "ag_config_default = \<lparr>cg_pool = ''zroot'', cg_state_dir = ''/var/db/keel'', cg_socket = ''/var/run/keel-agentd.sock'',
     cg_node_id = None, cg_control_plane_addr = None, cg_advertise_addr = None, cg_replicate_addr = None,
     cg_tls_ca_file = None, cg_tls_cert_file = None, cg_tls_key_file = None, cg_tls_crl_file = None, cg_public_iface = None,
     cg_dns_ovh_config = None, cg_acme_directory_url = None, cg_acme_account_key_file = None\<rparr>"

definition ag_set_flag :: "string \<Rightarrow> string \<Rightarrow> ag_config \<Rightarrow> (ag_config, string) result" where
  "ag_set_flag flag v c =
     (if flag = ''--pool'' then Ok (c\<lparr>cg_pool := v\<rparr>)
      else if flag = ''--state-dir'' then Ok (c\<lparr>cg_state_dir := v\<rparr>)
      else if flag = ''--socket'' then Ok (c\<lparr>cg_socket := v\<rparr>)
      else if flag = ''--node-id'' then Ok (c\<lparr>cg_node_id := Some v\<rparr>)
      else if flag = ''--control-plane-addr'' then Ok (c\<lparr>cg_control_plane_addr := Some v\<rparr>)
      else if flag = ''--advertise-addr'' then Ok (c\<lparr>cg_advertise_addr := Some v\<rparr>)
      else if flag = ''--replicate-addr'' then Ok (c\<lparr>cg_replicate_addr := Some v\<rparr>)
      else if flag = ''--tls-ca-file'' then Ok (c\<lparr>cg_tls_ca_file := Some v\<rparr>)
      else if flag = ''--tls-cert-file'' then Ok (c\<lparr>cg_tls_cert_file := Some v\<rparr>)
      else if flag = ''--tls-key-file'' then Ok (c\<lparr>cg_tls_key_file := Some v\<rparr>)
      else if flag = ''--tls-crl-file'' then Ok (c\<lparr>cg_tls_crl_file := Some v\<rparr>)
      else if flag = ''--public-iface'' then Ok (c\<lparr>cg_public_iface := Some v\<rparr>)
      else if flag = ''--dns-ovh-config'' then Ok (c\<lparr>cg_dns_ovh_config := Some v\<rparr>)
      else if flag = ''--acme-directory-url'' then Ok (c\<lparr>cg_acme_directory_url := Some v\<rparr>)
      else if flag = ''--acme-account-key-file'' then Ok (c\<lparr>cg_acme_account_key_file := Some v\<rparr>)
      else Err (''unknown flag: '' @ flag))"

fun ag_read_flags :: "string list \<Rightarrow> ag_config \<Rightarrow> (ag_config, string) result" where
  "ag_read_flags [] c = Ok c"
| "ag_read_flags [flag] c = Err (''missing value for '' @ flag)"
| "ag_read_flags (flag # v # args) c = and_then (ag_set_flag flag v c) (ag_read_flags args)"

definition ag_parse_args_from :: "string list \<Rightarrow> (ag_config, string) result" where
  "ag_parse_args_from args =
     and_then (ag_read_flags args ag_config_default) (\<lambda>c.
       if cg_control_plane_addr c \<noteq> None \<and>
          (cg_node_id c = None \<or> cg_advertise_addr c = None \<or> cg_replicate_addr c = None \<or> cg_tls_ca_file c = None \<or>
           cg_tls_cert_file c = None \<or> cg_tls_key_file c = None \<or> cg_tls_crl_file c = None)
       then Err (''--node-id, --advertise-addr, --replicate-addr, --tls-ca-file, --tls-cert-file, --tls-key-file, '' @
         ''and --tls-crl-file are all required when --control-plane-addr is set'')
       else Ok c)"

section \<open>What the machine has\<close>

datatype capacity_error =
    SysctlSpawn string io_error
  | SysctlExit string int
  | InvalidNcpu string
  | InvalidPhysmem string

definition run_sysctl :: "'w tools \<Rightarrow> string \<Rightarrow> ('w, string, capacity_error) cact" where
  "run_sysctl tb name =
     bindA (on_world (tl_run tb ''sysctl'' [''-n'', name]) (SysctlSpawn name)) (\<lambda>out.
       if \<not> exit_success out then failA (SysctlExit name (out_status out)) else returnA (trim (lossy (out_stdout out))))"

definition capacity_detect :: "'w tools \<Rightarrow> ('w, f64 \<times> nat, capacity_error) cact" where
  "capacity_detect tb =
     bindA (run_sysctl tb ''hw.ncpu'') (\<lambda>ncpu.
     bindA (checkA id (ok_or (InvalidNcpu ncpu) (parse_f64 ncpu))) (\<lambda>cpu.
     bindA (run_sysctl tb ''hw.physmem'') (\<lambda>physmem.
     bindA (checkA id (ok_or (InvalidPhysmem physmem) (parse_uint u64_max physmem))) (\<lambda>memory.
       returnA (cpu, memory)))))"

section \<open>Start\<close>

text \<open>What \<open>main\<close> panics with.\<close>

datatype ag_panic =
    PFlags string
  | POvhConfig string
  | PAcmeFlags
  | PAcmeClient string
  | PReconciler reconcile_error
  | PReconcilerPanic
  | PWorkerDied
  | PTargets store_error
  | PTargetsPanic
  | PCapacity capacity_error
  | PCapacityPanic
  | PTls string
  | PBindApi string
  | PBindReplication string
  | PSocket string

definition expected :: "('e \<Rightarrow> 'p) \<Rightarrow> 'p \<Rightarrow> ('a, 'e) outcome \<Rightarrow> ('a, 'p) result" where
  "expected f died r = (case r of Val x \<Rightarrow> Ok x | Exn e \<Rightarrow> Err (f e) | Panic \<Rightarrow> Err died)"

record ovh_config =
  oc_app_key :: string
  oc_app_secret :: string
  oc_consumer_key :: string
  oc_zone :: string

text \<open>What the start is given: programs, libraries, files and what the operating system answers. The
  certificate client and the DNS provider for a node without the three flags are the in-memory ones.\<close>

record 'w start_env =
  se_tools :: "'w tools"
  se_api :: ipnet_api
  se_rustls :: rustls
  se_disk :: disk
  se_toml :: "string \<Rightarrow> (ovh_config, string) result"
  se_runtime :: "(unit, string) result"
  se_ovh_lib :: "'w cli ovh_lib"
  se_acme_lib :: "'w cli acme_lib"
  se_fakes :: "'w cli dns_provider \<times> (string \<Rightarrow> string \<Rightarrow> 'w cli dns_provider \<Rightarrow> ('w, cert, acme_error) cact)"
  se_jail_to_yaml :: "jail_record \<Rightarrow> string"
  se_jail_from_yaml :: "string \<Rightarrow> (jail_record, string) result"
  se_ingress_to_yaml :: "ingress_record \<Rightarrow> string"
  se_ingress_from_yaml :: "string \<Rightarrow> (ingress_record, string) result"
  se_target_to_yaml :: "replica_target \<Rightarrow> string"
  se_target_from_yaml :: "string \<Rightarrow> (replica_target, string) result"
  se_bind :: "string \<Rightarrow> (unit, string) result"
  se_socket_exists :: "string \<Rightarrow> bool"
  se_remove_socket :: "string \<Rightarrow> (unit, string) result"
  se_bind_socket :: "string \<Rightarrow> (unit, string) result"
  se_chmod_socket :: "string \<Rightarrow> (unit, string) result"

definition load_ovh_config :: "'w start_env \<Rightarrow> string \<Rightarrow> (ovh_config, string) result" where
  "load_ovh_config env path =
     and_then (map_err (\<lambda>e. ''failed to read OVH config at '' @ path @ '': '' @ e) (se_disk env path)) (\<lambda>content.
       map_err (\<lambda>e. ''failed to parse OVH config at '' @ path @ '': '' @ e) (se_toml env content))"

definition certificate_clients :: "'w start_env \<Rightarrow> ag_config \<Rightarrow>
    ('w cli dns_provider \<times> (string \<Rightarrow> string \<Rightarrow> 'w cli dns_provider \<Rightarrow> ('w, cert, acme_error) cact), ag_panic) result" where
  "certificate_clients env c =
     (case (cg_dns_ovh_config c, cg_acme_directory_url c, cg_acme_account_key_file c) of
        (Some ovh_config_path, Some directory_url, Some account_key_file) \<Rightarrow>
          and_then (map_err POvhConfig (load_ovh_config env ovh_config_path)) (\<lambda>oc.
          and_then (map_err PAcmeClient (se_runtime env)) (\<lambda>_.
            Ok (ovh_dns (se_ovh_lib env) (ovh_new (oc_app_key oc) (oc_app_secret oc) (oc_consumer_key oc) (oc_zone oc)),
                request_certificate (se_acme_lib env) \<lparr>ac_directory_url = directory_url, ac_account_key_path = account_key_file\<rparr>)))
      | (None, None, None) \<Rightarrow> Ok (se_fakes env)
      | _ \<Rightarrow> Err PAcmeFlags)"

text \<open>The worker thread is started on the reconciler and told to start the replication loops; \<open>main\<close> waits for
  its answer.\<close>

definition agent_boot :: "'s agent \<Rightarrow> 's \<Rightarrow> fs \<Rightarrow> ('s aw, ag_panic) result" where
  "agent_boot ag host d =
     and_then (expected PReconciler PReconcilerPanic (fst (reconciler_new ag host [] d))) (\<lambda>rc.
     and_then (ok_or PWorkerDied (handle_acommand ag () AResumeReplicationLoops \<lparr>aw_rc = rc, aw_replicating = {}, aw_spawned = []\<rparr>)) (\<lambda>(_, w).
       Ok w))"

record 'w ag_process =
  ap_agent :: "'w cli agent"
  ap_worker :: "'w cli aw"
  ap_targets :: "'w cli standby"
  ap_registration :: "(registration_cfg \<times> reloading_tls) option"
  ap_public_iface :: "string option"
  ap_socket :: string

text \<open>The part that runs when a control plane is named.\<close>

definition join_cluster :: "'w start_env \<Rightarrow> ag_config \<Rightarrow> 'w cli \<Rightarrow> ((registration_cfg \<times> reloading_tls) option \<times> 'w cli, ag_panic) result" where
  "join_cluster env c host =
     (case (cg_node_id c, cg_control_plane_addr c, cg_advertise_addr c, cg_replicate_addr c, cg_tls_ca_file c, cg_tls_cert_file c,
            cg_tls_key_file c, cg_tls_crl_file c) of
        (Some node_id, Some control_plane_addr, Some advertise_addr, Some repl_addr, Some ca, Some cert, Some key, Some crl) \<Rightarrow>
          (case capacity_detect (se_tools env) host of (detected, host1) \<Rightarrow>
           and_then (expected PCapacity PCapacityPanic detected) (\<lambda>(cpu, memory).
           and_then (map_err PTls (tls_spawn (se_rustls env) (se_disk env) (se_disk env) \<lparr>tp_cert = cert, tp_key = key, tp_ca = ca, tp_crl = crl\<rparr>)) (\<lambda>tls.
           and_then (map_err PBindApi (se_bind env advertise_addr)) (\<lambda>_.
           and_then (map_err PBindReplication (se_bind env repl_addr)) (\<lambda>_.
             Ok (Some (\<lparr>rc_node_id = node_id, rc_advertise_addr = advertise_addr, rc_replicate_addr = repl_addr,
                 rc_control_plane_addr = control_plane_addr, rc_capacity_cpu = cpu, rc_capacity_memory = memory\<rparr>, tls), host1))))))
      | _ \<Rightarrow> Ok (None, host))"

definition open_socket :: "'w start_env \<Rightarrow> string \<Rightarrow> (unit, ag_panic) result" where
  "open_socket env path =
     map_err PSocket (and_then (if se_socket_exists env path then se_remove_socket env path else Ok ()) (\<lambda>_.
       and_then (se_bind_socket env path) (\<lambda>_. se_chmod_socket env path)))"

definition freebsd_agent :: "'w start_env \<Rightarrow> ag_config \<Rightarrow> 'w cli dns_provider \<Rightarrow>
    (string \<Rightarrow> string \<Rightarrow> 'w cli dns_provider \<Rightarrow> ('w, cert, acme_error) cact) \<Rightarrow> 'w cli agent" where
  "freebsd_agent env c dns acme =
     \<lparr>ag_ops = cli_host (se_tools env) (se_api env) (cg_pool c) dns acme, ag_api = se_api env, ag_pool = cg_pool c, ag_state_dir = cg_state_dir c,
      ag_jail_to_yaml = se_jail_to_yaml env, ag_jail_from_yaml = se_jail_from_yaml env, ag_ingress_to_yaml = se_ingress_to_yaml env,
      ag_ingress_from_yaml = se_ingress_from_yaml env\<rparr>"

definition ag_main :: "'w start_env \<Rightarrow> string list \<Rightarrow> 'w \<Rightarrow> fs \<Rightarrow> ('w ag_process, ag_panic) result" where
  "ag_main env args world d =
     and_then (map_err PFlags (ag_parse_args_from args)) (\<lambda>c.
     and_then (certificate_clients env c) (\<lambda>(dns, acme).
     let ag = freebsd_agent env c dns acme;
         sc = \<lparr>sc_zfs = cli_zfs (se_tools env), sc_pool = cg_pool c, sc_state_dir = cg_state_dir c,
               sc_to_yaml = se_target_to_yaml env, sc_from_yaml = se_target_from_yaml env\<rparr> in
     and_then (agent_boot ag \<lparr>cl_world = world, cl_children = []\<rparr> d) (\<lambda>w.
     and_then (expected PTargets PTargetsPanic (fst (targets_load sc (rc_host (aw_rc w)) (rc_fs (aw_rc w))))) (\<lambda>targets.
     and_then (join_cluster env c (rc_host (aw_rc w))) (\<lambda>(reg, host).
     and_then (open_socket env (cg_socket c)) (\<lambda>_.
       Ok \<lparr>ap_agent = ag, ap_worker = w\<lparr>aw_rc := (aw_rc w)\<lparr>rc_host := host\<rparr>\<rparr>, ap_targets = targets, ap_registration = reg,
         ap_public_iface = cg_public_iface c, ap_socket = cg_socket c\<rparr>))))))"

text \<open>One turn of the thread that keeps the packet filter's redirection in place; it never ends.\<close>

definition pf_round :: "'w tools \<Rightarrow> string \<Rightarrow> backoff_state \<times> 'w cli \<Rightarrow> backoff_state \<times> 'w cli" where
  "pf_round tb public_iface = (\<lambda>(b, s). let now = tl_now tb (cl_world s) in
     if can_retry b now then (record_attempt now b, snd (ensure_redirect_rules tb public_iface INGRESS_JAIL_BRIDGE_ADDR s)) else (b, s))"

section \<open>What a restart brings back\<close>

lemma get_jail_reads:
  assumes "fst (jr_is_running (jr ag) (jail_name n) (rc_host s)) \<noteq> Panic"
  shows "\<exists>x h. get_jail ag now n s = (Val x, s\<lparr>rc_host := h\<rparr>) \<and> map_option jst_record x = hm_get (rc_records s) n"
proof (cases "hm_get (rc_records s) n")
  case None
  have "s = s\<lparr>rc_host := rc_host s\<rparr>" by simp
  with None show ?thesis by (auto simp: get_jail_def act_defs simp del: rc.surjective intro!: exI [of _ "rc_host s"])
next
  case (Some r)
  with assms show ?thesis
    by (cases "jr_is_running (jr ag) (jail_name n) (rc_host s)") (auto simp: get_jail_def on_host_def act_defs split: outcome.splits)
qed

lemma list_names_reads:
  assumes "\<forall>n h. fst (jr_is_running (jr ag) n h) \<noteq> Panic"
  shows "\<exists>sts h. list_names ag now ns s = (Val sts, s\<lparr>rc_host := h\<rparr>) \<and> map jst_record sts = List.map_filter (hm_get (rc_records s)) ns"
proof (induction ns arbitrary: s)
  case Nil
  have "s = s\<lparr>rc_host := rc_host s\<rparr>" by simp
  then show ?case by (auto simp: returnA_def List.map_filter_def intro!: exI [of _ "rc_host s"])
next
  case (Cons n ns)
  obtain x h where x: "get_jail ag now n s = (Val x, s\<lparr>rc_host := h\<rparr>)" "map_option jst_record x = hm_get (rc_records s) n"
    using get_jail_reads assms by blast
  obtain sts h' where sts: "list_names ag now ns (s\<lparr>rc_host := h\<rparr>) = (Val sts, s\<lparr>rc_host := h'\<rparr>)"
      "map jst_record sts = List.map_filter (hm_get (rc_records s)) ns"
    using Cons [of "s\<lparr>rc_host := h\<rparr>"] by auto
  have "map jst_record (case x of Some y \<Rightarrow> y # sts | None \<Rightarrow> sts) = List.map_filter (hm_get (rc_records s)) (n # ns)"
    using sts(2) by (cases x) (simp_all add: List.map_filter_simps flip: x(2))
  with x(1) sts(1) show ?case by (auto simp: bindA_def returnA_def)
qed

text \<open>Resuming starts one loop for each replicated jail, once.\<close>

lemma resume_loops_spec:
  assumes "aw_replicating w = fst ` set (aw_spawned w)" "distinct (map fst (aw_spawned w))" "\<forall>(n, v) \<in> set (aw_spawned w). v = n @ ''-data''"
  shows "aw_rc (resume_loops sts w) = aw_rc w \<and> distinct (map fst (aw_spawned (resume_loops sts w))) \<and>
    (\<forall>n v. (n, v) \<in> set (aw_spawned (resume_loops sts w)) \<longleftrightarrow> v = n @ ''-data'' \<and>
      (n \<in> aw_replicating w \<or> (\<exists>r \<in> jst_record ` set sts. spec_name_of r = n \<and> stateful_and_replicated (jrec_spec r))))"
  using assms
proof (induction sts arbitrary: w)
  case Nil
  have v: "v = n @ ''-data''" if "(n, v) \<in> set (aw_spawned w)" for n v using Nil(3) that by blast
  have "(n, v) \<in> set (aw_spawned w) \<longleftrightarrow> v = n @ ''-data'' \<and> n \<in> aw_replicating w" for n v
  proof
    assume "v = n @ ''-data'' \<and> n \<in> aw_replicating w"
    with Nil(1) obtain u where u: "(n, u) \<in> set (aw_spawned w)" "v = n @ ''-data''" by auto
    with v [OF u(1)] show "(n, v) \<in> set (aw_spawned w)" by simp
  qed (use v Nil(1) in force)
  with Nil(2) show ?case by (simp only: resume_loops_def foldl.simps list.set image_empty bex_empty simp_thms)
next
  case (Cons st sts)
  let ?w = "if stateful_and_replicated (jrec_spec (jst_record st)) then spawn_loop (spec_name_of (jst_record st)) w else w"
  have s: "aw_replicating ?w = fst ` set (aw_spawned ?w)" "distinct (map fst (aw_spawned ?w))" "\<forall>(n, v) \<in> set (aw_spawned ?w). v = n @ ''-data''"
    using Cons.prems by (auto simp: spawn_loop_def)
  have "resume_loops (st # sts) w = resume_loops sts ?w" by (simp add: resume_loops_def)
  moreover have "aw_replicating ?w = aw_replicating w \<union> (if stateful_and_replicated (jrec_spec (jst_record st)) then {spec_name_of (jst_record st)} else {})"
    by (auto simp: spawn_loop_def)
  ultimately show ?case using Cons.IH [OF s] by auto
qed

text \<open>C14: An agent that starts on the state directory another one left behind, at whatever point that one
  stopped, has exactly its jails and ingresses, gives a new jail an epair number that none of them has, and
  runs one replication loop for each jail with volumes and a standby, and no other.\<close>

theorem agent_start_recovers:
  assumes "rc_inv ag st"
    and "\<forall>(k, r) \<in> set (rc_records st). ag_jail_from_yaml ag (ag_jail_to_yaml ag r) = Ok r \<and> jrec_epair_ordinal r < u32_max"
    and "\<forall>(k, r) \<in> set (rc_ingress_records st). ag_ingress_from_yaml ag (ag_ingress_to_yaml ag r) = Ok r"
    and "\<forall>n h. fst (jr_is_running (jr ag) n h) \<noteq> Panic"
  shows "\<exists>w. agent_boot ag host ((rc_fs st)\<lparr>fs_fault := \<lambda>_. None\<rparr>) = Ok w \<and>
    hm_get (rc_records (aw_rc w)) = hm_get (rc_records st) \<and> hm_get (rc_ingress_records (aw_rc w)) = hm_get (rc_ingress_records st) \<and>
    (\<forall>k r. hm_get (rc_records (aw_rc w)) k = Some r \<longrightarrow> jrec_epair_ordinal r < rc_next_epair_ordinal (aw_rc w)) \<and>
    distinct (map fst (aw_spawned w)) \<and>
    (\<forall>n v. (n, v) \<in> set (aw_spawned w) \<longleftrightarrow> v = n @ ''-data'' \<and>
      (\<exists>r. hm_get (rc_records st) n = Some r \<and> stateful_and_replicated (jrec_spec r)))"
proof -
  obtain rc where rc: "fst (reconciler_new ag host [] ((rc_fs st)\<lparr>fs_fault := \<lambda>_. None\<rparr>)) = Val rc"
    "hm_get (rc_records rc) = hm_get (rc_records st)" "hm_get (rc_ingress_records rc) = hm_get (rc_ingress_records st)"
    "\<forall>k r. hm_get (rc_records rc) k = Some r \<longrightarrow> jrec_epair_ordinal r < rc_next_epair_ordinal rc"
    using agent_restart_recovers [OF assms(1-3)] by blast
  let ?w = "\<lparr>aw_rc = rc, aw_replicating = {}, aw_spawned = []\<rparr>"
  let ?ns = "sort (map fst (rc_records rc))"
  obtain sts h where sts: "list_names ag (h_instant_now (ag_ops ag) (rc_host rc)) ?ns rc = (Val sts, rc\<lparr>rc_host := h\<rparr>)"
    "map jst_record sts = List.map_filter (hm_get (rc_records rc)) ?ns"
    using list_names_reads [OF assms(4)] by blast
  then have b: "agent_boot ag host ((rc_fs st)\<lparr>fs_fault := \<lambda>_. None\<rparr>) = Ok (resume_loops sts (?w\<lparr>aw_rc := rc\<lparr>rc_host := h\<rparr>\<rparr>))"
    using rc(1) by (simp add: agent_boot_def expected_def run_rc_def list_jails_def bindA_def getA_def)
  have "jst_record ` set sts = {r. \<exists>n. hm_get (rc_records st) n = Some r}"
  proof -
    have "jst_record ` set sts = {r. \<exists>n \<in> set ?ns. hm_get (rc_records rc) n = Some r}"
      using arg_cong [OF sts(2), of set] by (auto simp: set_map_filter)
    moreover have "n \<in> set ?ns" if "hm_get (rc_records rc) n = Some r" for n r using that by (force dest: map_of_SomeD)
    ultimately show ?thesis unfolding rc(2) by blast
  qed
  moreover have "spec_name_of r = n" if "hm_get (rc_records st) n = Some r" for n r
    using assms(1) that by (auto simp: rc_inv_def mirrors_def jail_codec_def dest!: map_of_SomeD)
  ultimately have "(\<exists>r \<in> jst_record ` set sts. spec_name_of r = n \<and> stateful_and_replicated (jrec_spec r)) \<longleftrightarrow>
      (\<exists>r. hm_get (rc_records st) n = Some r \<and> stateful_and_replicated (jrec_spec r))" for n by fastforce
  with resume_loops_spec [of "?w\<lparr>aw_rc := rc\<lparr>rc_host := h\<rparr>\<rparr>" sts] b rc(2-4) show ?thesis by auto
qed

text \<open>A jail whose YAML form is its name, and a torn file beside it.\<close>

definition named_agent :: "fake_host agent" where
  "named_agent = (aex_agent ipnet_ref)\<lparr>ag_jail_to_yaml := \<lambda>r. ''j'',
     ag_jail_from_yaml := \<lambda>s. Ok \<lparr>jrec_spec = aex_spec ''10.0.1.2/24'', jrec_epair_ordinal = 7\<rparr>\<rparr>"

definition kept_rc :: "fake_host rc" where
  "kept_rc = aex_rc\<lparr>rc_records := [(''j'', \<lparr>jrec_spec = aex_spec ''10.0.1.2/24'', jrec_epair_ordinal = 7\<rparr>)],
     rc_fs := aex_fs\<lparr>fs_files := [((''s'', ''j.yaml''), ''j''), ((''s'', ''k.yaml.tmp''), ''torn'')],
       fs_fault := \<lambda>_. Some Before\<rparr>\<rparr>"

theorem agent_start_recovers_witness:
  "\<exists>w. agent_boot named_agent aex_host ((rc_fs kept_rc)\<lparr>fs_fault := \<lambda>_. None\<rparr>) = Ok w \<and>
     hm_get (rc_records (aw_rc w)) = hm_get (rc_records kept_rc) \<and> 7 < rc_next_epair_ordinal (aw_rc w) \<and> (''j'', ''j-data'') \<in> set (aw_spawned w)"
proof -
  have "rc_inv named_agent kept_rc"
    by (auto simp: aex_resources aex_address ipnet_ref_def rc_inv_def mirrors_def named_agent_def kept_rc_def aex_agent_def aex_rc_def aex_fs_def hm_wf_def
      yaml_file_def ingress_dir_def path_join_def valid_record_def spec_name_of_def aex_spec_def validate_name_Ok_iff is_ascii_lowercase_def jail_codec_def)
  moreover have "\<forall>(k, r) \<in> set (rc_records kept_rc). ag_jail_from_yaml named_agent (ag_jail_to_yaml named_agent r) = Ok r \<and> jrec_epair_ordinal r < u32_max"
    "\<forall>(k, r) \<in> set (rc_ingress_records kept_rc). ag_ingress_from_yaml named_agent (ag_ingress_to_yaml named_agent r) = Ok r"
    by (simp_all add: named_agent_def kept_rc_def aex_rc_def)
  moreover have "\<forall>n h. fst (jr_is_running (jr named_agent) n h) \<noteq> Panic"
    by (simp add: named_agent_def aex_agent_def fake_host_ops_def fake_is_running_def act_defs)
  ultimately obtain w where w: "agent_boot named_agent aex_host ((rc_fs kept_rc)\<lparr>fs_fault := \<lambda>_. None\<rparr>) = Ok w"
    "hm_get (rc_records (aw_rc w)) = hm_get (rc_records kept_rc)"
    "\<forall>k r. hm_get (rc_records (aw_rc w)) k = Some r \<longrightarrow> jrec_epair_ordinal r < rc_next_epair_ordinal (aw_rc w)"
    "\<forall>n v. (n, v) \<in> set (aw_spawned w) \<longleftrightarrow> v = n @ ''-data'' \<and> (\<exists>r. hm_get (rc_records kept_rc) n = Some r \<and> stateful_and_replicated (jrec_spec r))"
    using agent_start_recovers [of named_agent kept_rc aex_host] by blast
  have r: "hm_get (rc_records kept_rc) ''j'' = Some \<lparr>jrec_spec = aex_spec ''10.0.1.2/24'', jrec_epair_ordinal = 7\<rparr>" by (simp add: kept_rc_def)
  then have "7 < rc_next_epair_ordinal (aw_rc w)" using w(2,3) by fastforce
  moreover have "(''j'', ''j-data'') \<in> set (aw_spawned w)"
    using w(4) [rule_format, of "''j''" "''j-data''"] r by (simp add: stateful_and_replicated_def aex_spec_def)
  ultimately show ?thesis using w(1,2) by blast
qed

section \<open>Joining a cluster\<close>

text \<open>The agent listens on TCP exactly when it was given a control plane, and then only with peers checked.\<close>

lemma ag_main_registration:
  assumes "ag_main env args world d = Ok p"
  obtains c where "ag_parse_args_from args = Ok c" "map_option (rc_control_plane_addr \<circ> fst) (ap_registration p) = cg_control_plane_addr c"
    "pred_option (\<lambda>(cfg, tls). checks_peers (se_rustls env) (rt_server tls) \<and> checks_peers (se_rustls env) (rt_client tls)) (ap_registration p)"
proof -
  obtain c h host reg where c: "ag_parse_args_from args = Ok c" "join_cluster env c h = Ok (reg, host)" "ap_registration p = reg"
    using assms by (auto simp: ag_main_def Let_def)
  have j: "map_option (rc_control_plane_addr \<circ> fst) reg = cg_control_plane_addr c"
    using c(1,2) by (auto simp: join_cluster_def ag_parse_args_from_def split: option.splits if_splits prod.splits)
  have "checks_peers (se_rustls env) (rt_server tls) \<and> checks_peers (se_rustls env) (rt_client tls)" if r: "reg = Some (cfg, tls)" for cfg tls
  proof -
    obtain tp where "tls_spawn (se_rustls env) (se_disk env) (se_disk env) tp = Ok tls"
      using c(2) r by (auto simp: join_cluster_def split: option.splits prod.splits)
    then have "tls_reached (se_rustls env) tp tls" by (rule tls_start)
    then show ?thesis by (auto dest!: tls_reached_inv dest: loaded_from_checks)
  qed
  then have "pred_option (\<lambda>(cfg, tls). checks_peers (se_rustls env) (rt_server tls) \<and> checks_peers (se_rustls env) (rt_client tls)) reg"
    by (cases reg) auto
  with that c(1,3) j show ?thesis by simp
qed

end
