(* ===== verification/Cp_Fencing.thy ===== *)
theory Cp_Fencing
  imports Cp_Http
begin

text \<open>
  The life of a forced re-pin through the handlers of \<open>keel-controlplane/src/http.rs\<close>: what
  \<open>handle_force_repin\<close> records, when an owed fence is cleared, and what happens to a fence that is
  still owed when the same replica is re-pinned again.
\<close>

section \<open>Commands that only record\<close>

lemma send_unit [simp]:
  "send_record_placement env n i (Some st, w) = (Some (st\<lparr>cp_placements := placements_set n i (cp_placements st)\<rparr>), w)"
  "send_remove_placement env n (Some st, w) = (Some (st\<lparr>cp_placements := placements_remove n (cp_placements st)\<rparr>), w)"
  "send_record_replica_address env n i a (Some st, w) = (Some (st\<lparr>cp_used := ua_record n i a (cp_used st)\<rparr>), w)"
  "send_release_replica_address env n (Some st, w) = (Some (st\<lparr>cp_used := release n (cp_used st)\<rparr>), w)"
  "send_record_standby env n i (Some st, w) = (Some (st\<lparr>cp_standbys := standbys_set n i (cp_standbys st)\<rparr>), w)"
  "send_record_pending_fence env n i (Some st, w) = (Some (st\<lparr>cp_fences := fences_set n i (cp_fences st)\<rparr>), w)"
  "send_remove_pending_fence env n (Some st, w) = (Some (st\<lparr>cp_fences := fences_remove n (cp_fences st)\<rparr>), w)"
  by (simp_all add: send_defs send_def)

lemma forward_worker: "forward env a m p b (wk, w) = (r, hs) \<Longrightarrow> fst hs = wk"
  by (auto simp: forward_def split: prod.splits result.splits)

definition repinned :: "string \<Rightarrow> force_repin_prep \<Rightarrow> cp_state \<Rightarrow> cp_state" where
  "repinned name p st = st
     \<lparr>cp_placements := placements_set name (fp_standby_node_id p) (cp_placements st),
      cp_used := ua_record name (fp_standby_node_id p) (fp_address p) (cp_used st),
      cp_standbys := standbys_set name (fp_fresh_standby_node_id p) (cp_standbys st),
      cp_fences := fences_set name (fp_old_node_id p) (cp_fences st)\<rparr>"

lemma record_repin_eq: "record_repin env n p (Some st, w) = (Some (repinned n p st), w)"
  by (simp add: record_repin_def repinned_def Let_def)

lemma not_success: "\<not> success 500" "\<not> success 409" "\<not> success 404" "\<not> success 400" "\<not> success 503" "success 200"
  by (simp_all add: success_def)

lemma handle_force_repin_cases:
  assumes "handle_force_repin env name (Some st, w) = ((status, b), hs)"
  shows "if success status
    then \<exists>p. prepare_force_repin (env_api env) (env_now env w) name st = Ok p \<and> fst hs = Some (repinned name p st)
    else fst hs = Some st"
proof (cases "prepare_force_repin (env_api env) (env_now env w) name st")
  case (Err e)
  with assms show ?thesis
    by (auto simp: handle_force_repin_def send_def error_response_def not_success split: force_repin_error.splits)
next
  case (Ok p)
  obtain r1 hs1 where f1: "forward env (fp_standby_addr p) ''GET'' (''/replica-targets/'' @ name) (QRaw []) (Some st, w) = (r1, hs1)"
    by (metis surj_pair)
  obtain w1 where hs1: "hs1 = (Some st, w1)" using forward_worker [OF f1] by (cases hs1) auto
  obtain r2 hs2 where f2: "forward env (fp_standby_addr p) ''PUT'' (jails_path name)
        (QSpec (replica_spec (fp_template p) name (fp_address p) (fp_prefix_len p)
          (Some (fp_fresh_standby_addr p)))) (Some st, w1) = (r2, hs2)" by (metis surj_pair)
  obtain w2 where hs2: "hs2 = (Some st, w2)" using forward_worker [OF f2] by (cases hs2) auto
  from assms Ok f1 f2 show ?thesis
    by (auto simp: handle_force_repin_def provision_repin_def send_def error_response_def not_success hs1 hs2
        record_repin_eq split: result.splits if_splits prod.splits)
qed

section \<open>Properties\<close>

text \<open>C15: A forced re-pin that is answered with success has recorded all of it: the replica is
  placed on its former standby under an address that no other jail has, the fresh node is its standby and
  the old node is owed a fence; nothing else of the state changes. One that is not answered with success
  has changed nothing.\<close>

theorem force_repin_all_or_nothing:
  assumes "ipnet_crate (env_api env)" "cp_inv (env_api env) st" "ua_inv (cp_used st)"
    and "handle_force_repin env name (Some st, w) = ((status, b), (worker, w'))"
  shows "if success status then
      \<exists>p st'. worker = Some st' \<and> prepare_force_repin (env_api env) (env_now env w) name st = Ok p \<and>
        placements_get (cp_placements st') name = Some (fp_standby_node_id p) \<and>
        standbys_get (cp_standbys st') name = Some (fp_fresh_standby_node_id p) \<and>
        name \<in> set (fences_for_node (cp_fences st') (fp_old_node_id p)) \<and>
        address_of (cp_used st') name = Some (fp_address p) \<and> ua_inv (cp_used st') \<and>
        cp_registry st' = cp_registry st \<and> cp_services st' = cp_services st \<and>
        (\<forall>n. n \<noteq> name \<longrightarrow> placements_get (cp_placements st') n = placements_get (cp_placements st) n)
    else worker = Some st"
proof (cases "success status")
  case True
  with handle_force_repin_cases [OF assms(4)] obtain p where
    p: "prepare_force_repin (env_api env) (env_now env w) name st = Ok p" "worker = Some (repinned name p st)"
    by auto
  have free: "\<not> is_used (cp_used st) (fp_standby_node_id p) (fp_address p)"
    using p(1) unfolding prepare_force_repin_def
    by (auto split: if_splits option.splits owner.splits result.splits dest: first_free_address_free(1))
  have wf: "hm_wf (fences_set name (fp_old_node_id p) (cp_fences st))"
    using assms(2) by (simp add: cp_inv_def table_defs)
  show ?thesis
    using True p ua_inv_record [OF assms(3) free, of name] fences_for_node_iff [OF wf]
    by (auto simp: repinned_def address_of_def table_defs)
next
  case False
  with handle_force_repin_cases [OF assms(4)] show ?thesis by auto
qed

text \<open>An environment in which every request is answered with 200.\<close>

definition good_env :: "unit env" where
  "good_env = \<lparr>env_api = ipnet_ref, env_now = (\<lambda>_. ex_now), env_exchange = (\<lambda>_ _ _ _ w. (Ok ''x'', w)),
     env_parse_response = (\<lambda>_. Complete 1 \<lparr>sh_code = Some 200, sh_headers = [(''Content-Length'', show_nat 0)]\<rparr>),
     env_registration = (\<lambda>_. Err []), env_heartbeat = (\<lambda>_. Err []), env_service = (\<lambda>_. Err [])\<rparr>"

lemma good_forward: "forward good_env a m p b (wk, w) = (Ok (200, []), (wk, w))"
  by (simp add: forward_def good_env_def check_response_def content_length_number)

lemma good_repin:
  "handle_force_repin good_env ''w-0'' (Some ex_failed, ()) = ((200, BRaw []), (Some (repinned ''w-0'' ex_prep ex_failed), ()))"
proof -
  have "send good_env (CPrepareForceRepin ''w-0'') (Some ex_failed, ()) = (Reply (RPrepare (Ok ex_prep)), (Some ex_failed, ()))"
    by (simp add: send_def good_env_def ex_prepare)
  then show ?thesis
    by (simp add: handle_force_repin_def provision_repin_def good_forward not_success record_repin_eq)
qed

theorem force_repin_all_or_nothing_witness:
  "\<exists>st'. handle_force_repin good_env ''w-0'' (Some ex_failed, ()) = ((200, BRaw []), (Some st', ())) \<and>
     placements_get (cp_placements st') ''w-0'' = Some ''b'' \<and>
     ''w-0'' \<in> set (fences_for_node (cp_fences st') ''a'') \<and> ua_inv (cp_used st')"
proof -
  have c: "ipnet_crate (env_api good_env)" by (simp add: good_env_def ref.ipnet_crate_axioms)
  have i: "cp_inv (env_api good_env) ex_failed" unfolding good_env_def by (simp add: ex_inv hm_wf_def)
  have u: "ua_inv (cp_used ex_failed)" by (simp add: ex_cp_def ua_inv_record ua_inv_new not_used_new)
  have p: "prepare_force_repin (env_api good_env) (env_now good_env ()) ''w-0'' ex_failed = Ok ex_prep"
    using ex_prepare by (simp add: good_env_def)
  have "fp_standby_node_id ex_prep = ''b''" "fp_old_node_id ex_prep = ''a''" by (simp_all add: ex_prep_def)
  with force_repin_all_or_nothing [OF c i u good_repin] good_repin show ?thesis
    unfolding p by (auto simp: not_success)
qed

text \<open>An owed fence is cleared only after the node has answered the forced delete with success or
  with 404; in every other case it stays owed.\<close>

lemma fence_cleared_only_after_delete:
  assumes "fence_one env addr replica (Some st, w) = (Some st', w')"
  shows "(\<exists>status body w1. forward env addr ''DELETE'' (jails_path replica) (QRaw []) (Some st, w)
        = (Ok (status, body), (Some st, w1)) \<and> (success status \<or> status = 404) \<and>
        st' = st\<lparr>cp_fences := fences_remove replica (cp_fences st)\<rparr>) \<or>
    st' = st"
proof -
  obtain r hs where f: "forward env addr ''DELETE'' (jails_path replica) (QRaw []) (Some st, w) = (r, hs)" by (metis surj_pair)
  obtain w1 where hs: "hs = (Some st, w1)" using forward_worker [OF f] by (cases hs) auto
  from assms show ?thesis
    unfolding fence_one_def f hs by (auto split: result.splits prod.splits if_splits)
qed

text \<open>C31: When a replica is re-pinned while the node it was re-pinned away from earlier is still owed
  a fence, that earlier fence is forgotten: the earlier node is no longer among those that are told to
  delete their copy.\<close>

theorem second_repin_forgets_fence:
  assumes "cp_inv (env_api env) st" "name \<in> set (fences_for_node (cp_fences st) earlier)"
    and "handle_force_repin env name (Some st, w) = ((status, b), (Some st', w'))" "success status"
    and "placements_get (cp_placements st) name \<noteq> Some earlier"
  shows "name \<notin> set (fences_for_node (cp_fences st') earlier)"
proof -
  from handle_force_repin_cases [OF assms(3)] assms(4) obtain p where
    p: "prepare_force_repin (env_api env) (env_now env w) name st = Ok p" "st' = repinned name p st" by auto
  have old: "placements_get (cp_placements st) name = Some (fp_old_node_id p)"
    using p(1) unfolding prepare_force_repin_def
    by (auto split: if_splits option.splits owner.splits result.splits)
  have wf: "hm_wf (cp_fences st')" using assms(1) p(2) by (simp add: cp_inv_def repinned_def table_defs)
  have "hm_get (cp_fences st') name = Some (fp_old_node_id p)" using p(2) by (simp add: repinned_def table_defs)
  with old assms(5) show ?thesis by (auto simp: fences_for_node_iff [OF wf])
qed

theorem second_repin_forgets_fence_witness:
  "\<exists>st'. handle_force_repin good_env ''w-0'' (Some (ex_failed\<lparr>cp_fences := [(''w-0'', ''c'')]\<rparr>), ())
       = ((200, BRaw []), (Some st', ())) \<and>
     ''w-0'' \<notin> set (fences_for_node (cp_fences st') ''c'')"
proof -
  let ?st = "ex_failed\<lparr>cp_fences := [(''w-0'', ''c'')]\<rparr>"
  have "prepare_force_repin ipnet_ref ex_now ''w-0'' ?st = prepare_force_repin ipnet_ref ex_now ''w-0'' ex_failed"
    by (simp add: prepare_force_repin_def cong: if_cong)
  then have "send good_env (CPrepareForceRepin ''w-0'') (Some ?st, ()) = (Reply (RPrepare (Ok ex_prep)), (Some ?st, ()))"
    by (simp add: send_def good_env_def ex_prepare)
  then have h: "handle_force_repin good_env ''w-0'' (Some ?st, ()) = ((200, BRaw []), (Some (repinned ''w-0'' ex_prep ?st), ()))"
    by (simp add: handle_force_repin_def provision_repin_def good_forward not_success record_repin_eq)
  have "cp_inv ipnet_ref ex_failed" by (rule ex_inv) (simp_all add: hm_wf_def)
  then have i: "cp_inv (env_api good_env) ?st" by (simp add: good_env_def cp_inv_def hm_wf_def)
  have f: "''w-0'' \<in> set (fences_for_node (cp_fences ?st) ''c'')" by (simp add: fences_for_node_def)
  have "placements_get (cp_placements ?st) ''w-0'' \<noteq> Some ''c''" by (simp add: table_defs ex_cp_def)
  from second_repin_forgets_fence [OF i f h not_success(6) this] h show ?thesis by blast
qed

end
