(* ===== verification/Cp_Race.thy ===== *)
theory Cp_Race
  imports Cp_Fencing
begin

text \<open>
  Reconcile passes that overlap. Every connection of \<open>keel-controlplane/src/http.rs\<close> has a thread of its own, and a
  pass (\<open>reconcile_and_execute\<close>) is not atomic: a plan is computed by the worker, then carried out action by action,
  with requests to the agents and commands to the worker that interleave with those of other
  threads. The comment on \<open>Command::ReconcileServices\<close> in \<open>worker.rs\<close> says what may come of it.
\<close>

section \<open>Every action of a plan is for another jail\<close>

fun act_name :: "replica_action \<Rightarrow> string" where
  "act_name (Schedule a) = sa_replica_name a"
| "act_name (TearDown n _ _) = n"

lemma names_fold:
  assumes "\<And>i pl. i \<in> set is \<Longrightarrow> pl_actions (f i pl) = pl_actions pl \<or> (\<exists>x. pl_actions (f i pl) = pl_actions pl @ [x] \<and> act_name x = g i)"
    and "distinct (map act_name (pl_actions pl))" "act_name ` set (pl_actions pl) \<subseteq> N" "distinct (map g is)" "\<forall>i \<in> set is. g i \<notin> N"
  shows "distinct (map act_name (pl_actions (fold f is pl))) \<and> act_name ` set (pl_actions (fold f is pl)) \<subseteq> N \<union> g ` set is"
  using assms
proof (induction "is" arbitrary: pl N)
  case (Cons i "is")
  have i: "distinct (map act_name (pl_actions (f i pl)))" "act_name ` set (pl_actions (f i pl)) \<subseteq> insert (g i) N"
    using Cons.prems(1) [of i pl] Cons.prems(2,3,5) by (auto simp: image_subset_iff)
  have "distinct (map act_name (pl_actions (fold f is (f i pl)))) \<and> act_name ` set (pl_actions (fold f is (f i pl))) \<subseteq> insert (g i) N \<union> g ` set is"
  proof (rule Cons.IH)
    have "g i \<notin> g ` set is" using Cons.prems(4) by simp
    then show "\<forall>j \<in> set is. g j \<notin> insert (g i) N" using Cons.prems(5) by (metis imageI insertE list.set_intros(2))
  qed (use Cons.prems i in simp_all)
  then show ?case by auto
qed auto

lemma distinct_diff: "distinct h \<Longrightarrow> distinct (fst (diff_replicas d h) @ snd (diff_replicas d h))"
  using distinct_diff_add [of d h] by (auto simp: diff_replicas_def Let_def)

lemma plan_service_names:
  assumes "distinct (map act_name (pl_actions pl))" "act_name ` set (pl_actions pl) \<subseteq> N" "\<forall>i. replica_name s i \<notin> N"
  shows "distinct (map act_name (pl_actions (plan_service api now st live (s, rec) pl))) \<and>
    act_name ` set (pl_actions (plan_service api now st live (s, rec) pl)) \<subseteq> N \<union> range (replica_name s)"
proof -
  obtain add rem where d: "replica_diff now st s rec = (add, rem)" by (cases "replica_diff now st s rec")
  have "distinct (add @ rem)"
    using distinct_diff [of "present_indices (cp_registry st) now rec (placed_replicas s (cp_placements st))" "srv_desired_replicas rec"]
      sorted_present [of "cp_registry st" now rec "placed_replicas s (cp_placements st)"] by (simp add: d strict_sorted_iff)
  then have ds: "distinct (map (replica_name s) add)" "distinct (map (replica_name s) rem)" "set add \<inter> set rem = {}"
    by (auto simp: distinct_map inj_on_def)
  let ?p = "fold (plan_add api now (cp_registry st) live s rec) add (pl\<lparr>pl_busy := nodes_hosting_service s (cp_placements st)\<rparr>)"
  have a: "distinct (map act_name (pl_actions ?p)) \<and> act_name ` set (pl_actions ?p) \<subseteq> N \<union> replica_name s ` set add"
    using assms ds(1) by (intro names_fold) (auto simp: plan_add_def Let_def split: option.splits result.splits)
  have "distinct (map act_name (pl_actions (fold (plan_remove now (cp_registry st) (cp_placements st) s) rem ?p))) \<and>
      act_name ` set (pl_actions (fold (plan_remove now (cp_registry st) (cp_placements st) s) rem ?p)) \<subseteq> (N \<union> replica_name s ` set add) \<union> replica_name s ` set rem"
    using a assms(3) ds(2,3) by (intro names_fold) (auto simp: plan_remove_def split: option.splits result.splits)
  then show ?thesis by (auto simp: plan_service_def d Let_def)
qed

lemma reconcile_names_distinct:
  assumes "cp_inv api st"
  shows "distinct (map act_name (reconcile_services api now st))"
proof -
  let ?f = "plan_service api now st (alive_nodes api now (cp_registry st))"
  have "distinct (map act_name (pl_actions (fold ?f ss pl)))"
    if "distinct (map fst ss)" "distinct (map act_name (pl_actions pl))" "act_name ` set (pl_actions pl) \<subseteq> N"
      "\<forall>s \<in> fst ` set ss. \<forall>i. replica_name s i \<notin> N" for ss pl N
    using that
  proof (induction ss arbitrary: pl N)
    case (Cons x ss)
    obtain s rec where x: "x = (s, rec)" by (cases x)
    have "distinct (map act_name (pl_actions (?f x pl))) \<and> act_name ` set (pl_actions (?f x pl)) \<subseteq> N \<union> range (replica_name s)"
      unfolding x using Cons.prems x by (intro plan_service_names) auto
    moreover have "\<forall>t \<in> fst ` set ss. \<forall>i. replica_name t i \<notin> N \<union> range (replica_name s)"
      using Cons.prems(1,4) x by force
    ultimately show ?case using Cons.IH [of "?f x pl" "N \<union> range (replica_name s)"] Cons.prems(1) by simp
  qed simp
  from this [of "services_list (cp_services st)" _ "{}"] assms show ?thesis
    by (simp add: reconcile_services_def plan_services_def cp_inv_def services_inv_def distinct_services_list)
qed

section \<open>The steps of a thread\<close>

text \<open>What a thread has still to do: actions to carry out, and commands to send for an action whose request was
  answered with success.\<close>

datatype task = Carry replica_action | Tell command

fun ask :: "'w env \<Rightarrow> replica_action \<Rightarrow> 'w hstate \<Rightarrow> (nat \<times> string, string) result \<times> 'w hstate" where
  "ask env (Schedule a) hs = forward env (sa_node_addr a) ''PUT'' (jails_path (sa_replica_name a))
     (QSpec (replica_spec (sa_template a) (sa_replica_name a) (sa_address a) (sa_prefix_len a) (sa_standby_addr a))) hs"
| "ask env (TearDown name node_id node_addr) hs = forward env node_addr ''DELETE'' (jails_path name) (QRaw []) hs"

fun records_of :: "replica_action \<Rightarrow> command list" where
  "records_of (Schedule a) =
     [CRecordPlacement (sa_replica_name a) (sa_node_id a), CRecordReplicaAddress (sa_replica_name a) (sa_node_id a) (sa_address a)] @
     (case sa_standby_node_id a of Some standby_id \<Rightarrow> [CRecordStandby (sa_replica_name a) standby_id] | None \<Rightarrow> [])"
| "records_of (TearDown name node_id node_addr) = [CRemovePlacement name, CReleaseReplicaAddress name]"

fun granted :: "(nat \<times> string, string) result \<Rightarrow> bool" where
  "granted (Ok (status, _)) = success status"
| "granted (Err _) = False"

fun task_step :: "'w env \<Rightarrow> task \<Rightarrow> 'w hstate \<Rightarrow> task list \<times> 'w hstate" where
  "task_step env (Carry act) hs = (case ask env act hs of (r, hs1) \<Rightarrow> (if granted r then map Tell (records_of act) else [], hs1))"
| "task_step env (Tell c) hs = ([], snd (send env c hs))"

text \<open>Threads, the worker with the world, and the actions that were granted to some thread.\<close>

type_synonym 'w crowd = "task list list \<times> 'w hstate \<times> replica_action set"

definition turn :: "'w env \<Rightarrow> nat \<Rightarrow> 'w crowd \<Rightarrow> 'w crowd" where
  "turn env i = (\<lambda>(ts, hs, G).
     if i < length ts then
       (case ts ! i of
          [] \<Rightarrow> (ts, hs, G)
        | t # rest \<Rightarrow> (case task_step env t hs of (new, hs1) \<Rightarrow>
            (ts[i := new @ rest], hs1, case t of Carry act \<Rightarrow> if new = [] then G else insert act G | Tell _ \<Rightarrow> G)))
     else (ts, hs, G))"

definition turns :: "'w env \<Rightarrow> nat list \<Rightarrow> 'w crowd \<Rightarrow> 'w crowd" where
  "turns env = fold (turn env)"

lemma turns_append: "turns env (is @ js) c = turns env js (turns env is c)"
  by (simp add: turns_def)

section \<open>One thread alone\<close>

lemma execute_as_tasks:
  "execute_replica_action env act hs =
     (case ask env act hs of (r, hs1) \<Rightarrow> if granted r then fold (\<lambda>c hs. snd (send env c hs)) (records_of act) hs1 else hs1)"
  by (cases act) (auto simp: send_defs Let_def split: prod.splits result.splits option.splits)

lemma turns_tell:
  assumes "i < length ts" "ts ! i = map Tell cs @ rest"
  shows "turns env (replicate (length cs) i) (ts, hs, G) = (ts[i := rest], fold (\<lambda>c hs. snd (send env c hs)) cs hs, G)"
  using assms
proof (induction cs arbitrary: ts hs)
  case Nil
  then have "ts[i := rest] = ts" by (metis append_Nil list.simps(8) list_update_id)
  then show ?case by (simp add: turns_def)
next
  case (Cons c cs)
  then show ?case using Cons.IH [of "ts[i := map Tell cs @ rest]"] by (simp add: turns_def turn_def)
qed

text \<open>A thread that is not interrupted does what \<open>execute_replica_actions\<close> does.\<close>

lemma thread_executes:
  assumes "\<And>act hs. act \<in> set acts \<Longrightarrow> granted (fst (ask env act hs)) \<longleftrightarrow> act \<in> S"
  shows "\<exists>sched. turns env sched ([map Carry acts], hs, G) = ([[]], execute_replica_actions env acts hs, G \<union> set acts \<inter> S)"
  using assms
proof (induction acts arbitrary: hs G)
  case Nil
  have "turns env [] ([map Carry []], hs, G) = ([[]], execute_replica_actions env [] hs, G \<union> set [] \<inter> S)"
    by (simp add: turns_def execute_replica_actions_def)
  then show ?case by blast
next
  case (Cons act acts)
  obtain r hs1 where r: "ask env act hs = (r, hs1)" by (metis surj_pair)
  let ?cs = "if granted r then records_of act else []" and ?G = "if granted r then insert act G else G"
  let ?hs = "fold (\<lambda>c hs. snd (send env c hs)) ?cs hs1"
  have "records_of act \<noteq> []" by (cases act) auto
  then have "turns env [0] ([map Carry (act # acts)], hs, G) = ([map Tell ?cs @ map Carry acts], hs1, ?G)"
    using r by (simp add: turns_def turn_def)
  moreover have "turns env (replicate (length ?cs) 0) ([map Tell ?cs @ map Carry acts], hs1, ?G) = ([map Carry acts], ?hs, ?G)"
    using turns_tell [of 0 "[map Tell ?cs @ map Carry acts]" ?cs "map Carry acts" env hs1 ?G] by simp
  moreover obtain sched where "turns env sched ([map Carry acts], ?hs, ?G) = ([[]], execute_replica_actions env acts ?hs, ?G \<union> set acts \<inter> S)"
    using Cons.IH [of ?hs ?G] Cons.prems by auto
  moreover have "execute_replica_action env act hs = ?hs" using r by (simp add: execute_as_tasks)
  moreover have "?G \<union> set acts \<inter> S = G \<union> set (act # acts) \<inter> S" using Cons.prems [of act hs] r by auto
  ultimately have "turns env ([0] @ replicate (length ?cs) 0 @ sched) ([map Carry (act # acts)], hs, G) =
      ([[]], execute_replica_actions env (act # acts) hs, G \<union> set (act # acts) \<inter> S)"
    by (simp only: turns_append) (simp add: execute_replica_actions_def)
  then show ?case by blast
qed

section \<open>Threads with the same plan\<close>

text \<open>What the tables say of a jail, and that they say what a command was to record.\<close>

definition entry :: "cp_state \<Rightarrow> string \<Rightarrow> string option \<times> (string \<times> u32) option \<times> string option" where
  "entry st n = (placements_get (cp_placements st) n, hm_get (by_jail (cp_used st)) n, standbys_get (cp_standbys st) n)"

fun recorded :: "cp_state \<Rightarrow> command \<Rightarrow> bool" where
  "recorded st (CRecordPlacement n i) \<longleftrightarrow> placements_get (cp_placements st) n = Some i"
| "recorded st (CRemovePlacement n) \<longleftrightarrow> placements_get (cp_placements st) n = None"
| "recorded st (CRecordReplicaAddress n i a) \<longleftrightarrow> hm_get (by_jail (cp_used st)) n = Some (i, a)"
| "recorded st (CReleaseReplicaAddress n) \<longleftrightarrow> hm_get (by_jail (cp_used st)) n = None"
| "recorded st (CRecordStandby n i) \<longleftrightarrow> standbys_get (cp_standbys st) n = Some i"
| "recorded st _ \<longleftrightarrow> True"

definition same_rest :: "cp_state \<Rightarrow> cp_state \<Rightarrow> bool" where
  "same_rest st st' \<longleftrightarrow> cp_registry st' = cp_registry st \<and> cp_services st' = cp_services st \<and> cp_fences st' = cp_fences st"

lemma recorded_entry:
  "c \<in> set (records_of act) \<Longrightarrow> entry st' (act_name act) = entry st (act_name act) \<Longrightarrow> recorded st' c = recorded st c"
  by (cases act) (auto simp: entry_def split: option.splits)

lemma tell_step:
  assumes "c \<in> set (records_of act)"
  obtains st' where "snd (send env c (Some st, w)) = (Some st', w)" "recorded st' c" "same_rest st st'"
    "\<forall>n. n \<noteq> act_name act \<longrightarrow> entry st' n = entry st n" "\<forall>d \<in> set (records_of act). recorded st d \<longrightarrow> recorded st' d"
    "\<forall>n. (\<forall>i. c \<noteq> CRecordStandby n i) \<longrightarrow> standbys_get (cp_standbys st') n = standbys_get (cp_standbys st) n"
proof -
  define st' where "st' = (case handle_command (env_api env) (env_now env w) c st of Some (_, st') \<Rightarrow> st')"
  have "snd (send env c (Some st, w)) = (Some st', w) \<and> recorded st' c \<and> same_rest st st' \<and>
      (\<forall>n. n \<noteq> act_name act \<longrightarrow> entry st' n = entry st n) \<and> (\<forall>d \<in> set (records_of act). recorded st d \<longrightarrow> recorded st' d) \<and>
      (\<forall>n. (\<forall>i. c \<noteq> CRecordStandby n i) \<longrightarrow> standbys_get (cp_standbys st') n = standbys_get (cp_standbys st) n)"
    using assms unfolding st'_def
    by (cases act) (auto simp: send_def entry_def same_rest_def table_defs split: option.splits)
  then show thesis by (elim conjE) (rule that)
qed

text \<open>The state of a race between threads whose actions are all of one plan: what was granted has been recorded
  or some thread is about to, and nothing else has changed.\<close>

definition pending :: "task list list \<Rightarrow> task set" where
  "pending ts = \<Union> (set ` set ts)"

definition standby_kept :: "replica_action set \<Rightarrow> cp_state \<Rightarrow> cp_state \<Rightarrow> bool" where
  "standby_kept G st st' \<longleftrightarrow> (\<forall>n. (\<forall>act \<in> G. \<forall>i. CRecordStandby n i \<notin> set (records_of act)) \<longrightarrow>
     standbys_get (cp_standbys st') n = standbys_get (cp_standbys st) n)"

definition race_inv :: "replica_action set \<Rightarrow> cp_state \<Rightarrow> 'w crowd \<Rightarrow> bool" where
  "race_inv A st0 = (\<lambda>(ts, hs, G). G \<subseteq> A \<and>
     (\<forall>t \<in> pending ts. (\<exists>act \<in> A. t = Carry act) \<or> (\<exists>act \<in> G. \<exists>c \<in> set (records_of act). t = Tell c)) \<and>
     (\<exists>st. fst hs = Some st \<and> same_rest st0 st \<and> standby_kept G st0 st \<and> (\<forall>n. n \<notin> act_name ` G \<longrightarrow> entry st n = entry st0 n) \<and>
        (\<forall>act \<in> G. \<forall>c \<in> set (records_of act). recorded st c \<or> Tell c \<in> pending ts)))"

lemma ask_worker: "ask env act hs = (r, hs1) \<Longrightarrow> fst hs1 = fst hs"
  by (cases hs; cases act) (auto dest: forward_worker)

lemma pending_update:
  assumes "i < length ts" "ts ! i = t # rest"
  shows "pending (ts[i := new @ rest]) \<subseteq> pending ts \<union> set new" "pending ts \<subseteq> insert t (pending (ts[i := new @ rest]))"
    "t \<in> pending ts" "set new \<subseteq> pending (ts[i := new @ rest])"
proof -
  have ts: "ts = take i ts @ (t # rest) # drop (Suc i) ts" using assms by (metis id_take_nth_drop)
  have ts': "ts[i := new @ rest] = take i ts @ (new @ rest) # drop (Suc i) ts" using assms(1) by (rule upd_conv_take_nth_drop)
  let ?R = "\<Union> (set ` set (take i ts)) \<union> \<Union> (set ` set (drop (Suc i) ts)) \<union> set rest"
  have "pending ts = insert t ?R" unfolding pending_def by (subst ts) auto
  moreover have "pending (ts[i := new @ rest]) = set new \<union> ?R" unfolding pending_def by (subst ts') auto
  ultimately show "pending (ts[i := new @ rest]) \<subseteq> pending ts \<union> set new" "pending ts \<subseteq> insert t (pending (ts[i := new @ rest]))"
    "t \<in> pending ts" "set new \<subseteq> pending (ts[i := new @ rest])" by blast+
qed

lemma race_inv_carry:
  assumes "race_inv A st0 (ts, hs, G)" "i < length ts" "ts ! i = Carry act # rest" "act \<in> A"
  shows "race_inv A st0 (turn env i (ts, hs, G))"
proof -
  note u = pending_update [OF assms(2,3)]
  obtain r hs1 where r: "ask env act hs = (r, hs1)" by (metis surj_pair)
  define cs where "cs = (if granted r then records_of act else [])"
  define G' where "G' = (if cs = [] then G else insert act G)"
  define ts' where "ts' = ts[i := map Tell cs @ rest]"
  have eq: "turn env i (ts, hs, G) = (ts', hs1, G')"
    using assms(2,3) r by (simp add: turn_def cs_def G'_def ts'_def)
  have p: "pending ts' \<subseteq> pending ts \<union> Tell ` set cs" "\<And>c. Tell c \<in> pending ts \<Longrightarrow> Tell c \<in> pending ts'" "Tell ` set cs \<subseteq> pending ts'"
    using u(1,2,4) [of "map Tell cs"] unfolding ts'_def by auto
  have g: "G \<subseteq> G'" "x \<in> G' \<Longrightarrow> x \<notin> G \<Longrightarrow> x = act \<and> cs = records_of act" "c \<in> set cs \<Longrightarrow> act \<in> G' \<and> cs = records_of act" for x c
    unfolding G'_def cs_def by (auto split: if_splits)
  from assms(1) obtain st where st: "fst hs = Some st" "same_rest st0 st" "\<forall>n. n \<notin> act_name ` G \<longrightarrow> entry st n = entry st0 n"
      "\<forall>x \<in> G. \<forall>c \<in> set (records_of x). recorded st c \<or> Tell c \<in> pending ts" "standby_kept G st0 st"
    and G: "G \<subseteq> A" and T: "\<forall>t \<in> pending ts. (\<exists>x \<in> A. t = Carry x) \<or> (\<exists>x \<in> G. \<exists>c \<in> set (records_of x). t = Tell c)"
    by (auto simp: race_inv_def)
  have "fst hs1 = Some st" using ask_worker [OF r] st(1) by simp
  moreover have "\<forall>x \<in> G'. \<forall>c \<in> set (records_of x). recorded st c \<or> Tell c \<in> pending ts'" using st(4) p(2,3) g(2) by blast
  moreover have "\<forall>n. n \<notin> act_name ` G' \<longrightarrow> entry st n = entry st0 n" using st(3) g(1) by blast
  moreover have "\<forall>t \<in> pending ts'. (\<exists>x \<in> A. t = Carry x) \<or> (\<exists>x \<in> G'. \<exists>c \<in> set (records_of x). t = Tell c)"
    using T p(1) g(1,3) by blast
  moreover have "G' \<subseteq> A" using G assms(4) by (simp add: G'_def)
  moreover have "standby_kept G' st0 st" using st(5) g(1) by (auto simp: standby_kept_def)
  ultimately show ?thesis unfolding eq race_inv_def using st(2) by auto
qed

lemma race_inv_tell:
  assumes "race_inv A st0 (ts, hs, G)" "i < length ts" "ts ! i = Tell c # rest" "act \<in> G" "c \<in> set (records_of act)" "inj_on act_name A"
  shows "race_inv A st0 (turn env i (ts, hs, G))"
proof -
  from assms(1) obtain st w where st: "hs = (Some st, w)" "same_rest st0 st" "\<forall>n. n \<notin> act_name ` G \<longrightarrow> entry st n = entry st0 n"
      "\<forall>x \<in> G. \<forall>c \<in> set (records_of x). recorded st c \<or> Tell c \<in> pending ts" "standby_kept G st0 st"
    and G: "G \<subseteq> A" and T: "\<forall>t \<in> pending ts. (\<exists>x \<in> A. t = Carry x) \<or> (\<exists>x \<in> G. \<exists>c \<in> set (records_of x). t = Tell c)"
    by (cases hs) (auto simp: race_inv_def)
  obtain st' where s: "snd (send env c (Some st, w)) = (Some st', w)" "recorded st' c" "same_rest st st'"
    "\<forall>n. n \<noteq> act_name act \<longrightarrow> entry st' n = entry st n" "\<forall>d \<in> set (records_of act). recorded st d \<longrightarrow> recorded st' d"
    "\<forall>n. (\<forall>i. c \<noteq> CRecordStandby n i) \<longrightarrow> standbys_get (cp_standbys st') n = standbys_get (cp_standbys st) n"
    by (rule tell_step [OF assms(5)]) (rule that)
  have eq: "turn env i (ts, hs, G) = (ts[i := rest], (Some st', w), G)" using assms(2,3) s(1) st(1) by (simp add: turn_def)
  have p: "pending (ts[i := rest]) \<subseteq> pending ts" "pending ts \<subseteq> insert (Tell c) (pending (ts[i := rest]))"
    using pending_update(1,2) [OF assms(2,3), of "[]"] by simp_all
  have "recorded st' d \<or> Tell d \<in> pending (ts[i := rest])" if d: "x \<in> G" "d \<in> set (records_of x)" for x d
  proof (cases "x = act")
    case True
    with st(4) d s(2,5) p(2) show ?thesis by blast
  next
    case False
    then have "act_name x \<noteq> act_name act" using assms(4,6) G d(1) by (metis inj_onD subsetD)
    then have "recorded st' d = recorded st d" using s(4) d(2) by (intro recorded_entry) auto
    then show ?thesis using st(4) d p(2) s(2) by blast
  qed
  moreover have "entry st' n = entry st0 n" if "n \<notin> act_name ` G" for n using that st(3) s(4) assms(4) by auto
  moreover have "same_rest st0 st'" using st(2) s(3) by (simp add: same_rest_def)
  moreover have "standby_kept G st0 st'" using st(5) s(6) assms(4,5) unfolding standby_kept_def by metis
  ultimately show ?thesis unfolding eq race_inv_def using G T p(1) by auto
qed

lemma race_inv_turn:
  assumes "race_inv A st0 (ts, hs, G)" "inj_on act_name A"
  shows "race_inv A st0 (turn env i (ts, hs, G))"
proof (cases "i < length ts \<and> ts ! i \<noteq> []")
  case False
  then have "turn env i (ts, hs, G) = (ts, hs, G)" by (auto simp: turn_def split: list.splits)
  with assms show ?thesis by simp
next
  case True
  then obtain t rest where i: "i < length ts" "ts ! i = t # rest" by (auto simp: neq_Nil_conv)
  from assms(1) pending_update(3) [OF i] consider (carry) act where "act \<in> A" "t = Carry act"
    | (tell) act c where "act \<in> G" "c \<in> set (records_of act)" "t = Tell c"
    unfolding race_inv_def by blast
  then show ?thesis
    by cases (use i race_inv_carry [OF assms(1)] race_inv_tell [OF assms(1) _ _ _ _ assms(2)] in blast)+
qed

lemma race_inv_turns:
  assumes "race_inv A st0 c" "inj_on act_name A"
  shows "race_inv A st0 (turns env sched c)"
  using assms(1) unfolding turns_def
proof (induction sched arbitrary: c)
  case (Cons i sched)
  obtain ts hs G where c: "c = (ts, hs, G)" by (cases c)
  from Cons.IH [OF race_inv_turn [OF Cons.prems [unfolded c] assms(2)]] show ?case by (simp add: c)
qed simp

lemma race_inv_start: "race_inv (set acts) st (replicate k (map Carry acts), (Some st, w), {})"
  by (auto simp: race_inv_def pending_def same_rest_def standby_kept_def)

text \<open>The state when every thread is done; it is determined by what was granted.\<close>

definition settled :: "replica_action set \<Rightarrow> cp_state \<Rightarrow> cp_state \<Rightarrow> bool" where
  "settled G st st' \<longleftrightarrow> same_rest st st' \<and> standby_kept G st st' \<and> (\<forall>n. n \<notin> act_name ` G \<longrightarrow> entry st' n = entry st n) \<and>
     (\<forall>act \<in> G. \<forall>c \<in> set (records_of act). recorded st' c)"

lemma race_settled:
  assumes "inj_on act_name (set acts)" "turns env sched (replicate k (map Carry acts), (Some st, w), {}) = (replicate k [], hs, G)"
  obtains st' where "fst hs = Some st'" "settled G st st'" "G \<subseteq> set acts"
proof -
  have "race_inv (set acts) st (replicate k [], hs, G)"
    using race_inv_turns [OF race_inv_start [of acts st k w] assms(1), of env sched] unfolding assms(2) .
  then show thesis using that by (auto simp: race_inv_def settled_def pending_def)
qed

lemma settled_Schedule:
  assumes "settled G st st'" "inj_on act_name G" "Schedule a \<in> G"
  shows "entry st' (sa_replica_name a) = (Some (sa_node_id a), Some (sa_node_id a, sa_address a),
    case sa_standby_node_id a of Some i \<Rightarrow> Some i | None \<Rightarrow> standbys_get (cp_standbys st) (sa_replica_name a))"
proof -
  have "x = Schedule a" if "x \<in> G" "CRecordStandby (sa_replica_name a) i \<in> set (records_of x)" for x i
  proof -
    have "act_name x = sa_replica_name a" using that(2) by (cases x) (auto split: option.splits)
    with assms(2,3) that(1) show ?thesis by (metis act_name.simps(1) inj_onD)
  qed
  then have "sa_standby_node_id a = None \<Longrightarrow> standbys_get (cp_standbys st') (sa_replica_name a) = standbys_get (cp_standbys st) (sa_replica_name a)"
    using assms(1) unfolding settled_def standby_kept_def by fastforce
  moreover have "\<forall>c \<in> set (records_of (Schedule a)). recorded st' c" using assms(1,3) unfolding settled_def by blast
  ultimately show ?thesis by (auto simp: entry_def split: option.splits)
qed

lemma settled_TearDown:
  assumes "settled G st st'" "inj_on act_name G" "TearDown n node addr \<in> G"
  shows "entry st' n = (None, None, standbys_get (cp_standbys st) n)"
proof -
  have "CRecordStandby n i \<notin> set (records_of x)" if "x \<in> G" for x i
  proof
    assume c: "CRecordStandby n i \<in> set (records_of x)"
    then have "act_name x = n" by (cases x) (auto split: option.splits)
    with assms(2,3) that have "x = TearDown n node addr" by (metis act_name.simps(2) inj_onD)
    with c show False by simp
  qed
  then have "standbys_get (cp_standbys st') n = standbys_get (cp_standbys st) n"
    using assms(1) unfolding settled_def standby_kept_def by blast
  moreover have "\<forall>c \<in> set (records_of (TearDown n node addr)). recorded st' c" using assms(1,3) unfolding settled_def by blast
  ultimately show ?thesis by (simp add: entry_def)
qed

lemma settled_unique:
  assumes "settled G st st1" "settled G st st2" "inj_on act_name G"
  shows "entry st1 n = entry st2 n" "same_rest st1 st2"
proof -
  show "entry st1 n = entry st2 n"
  proof (cases "n \<in> act_name ` G")
    case True
    then obtain act where "act \<in> G" "act_name act = n" by blast
    with settled_Schedule [OF assms(1,3)] settled_Schedule [OF assms(2,3)] settled_TearDown [OF assms(1,3)] settled_TearDown [OF assms(2,3)]
    show ?thesis by (cases act) auto
  qed (use assms(1,2) in \<open>simp add: settled_def\<close>)
  show "same_rest st1 st2" using assms(1,2) by (simp add: settled_def same_rest_def)
qed

text \<open>The addresses of a plan and those that were taken before are all different.\<close>

lemma planned_addresses:
  assumes "cp_inv api st" "ua_inv (cp_used st)"
  shows "\<exists>u. ua_inv u \<and>
    (\<forall>a. Schedule a \<in> set (reconcile_services api now st) \<longrightarrow> hm_get (by_jail u) (sa_replica_name a) = Some (sa_node_id a, sa_address a)) \<and>
    (\<forall>n. (\<forall>a. Schedule a \<in> set (reconcile_services api now st) \<longrightarrow> sa_replica_name a \<noteq> n) \<longrightarrow>
       hm_get (by_jail u) n = hm_get (by_jail (cp_used st)) n)"
proof -
  obtain D where "plan_inv api now st D (plan_services api now st)" using plan_services_inv [OF assms] by blast
  then have "ua_inv (pl_used (plan_services api now st))"
    "\<forall>a. Schedule a \<in> set (reconcile_services api now st) \<longrightarrow>
       hm_get (by_jail (pl_used (plan_services api now st))) (sa_replica_name a) = Some (sa_node_id a, sa_address a)"
    "\<forall>n. (\<forall>a. Schedule a \<in> set (reconcile_services api now st) \<longrightarrow> sa_replica_name a \<noteq> n) \<longrightarrow>
       hm_get (by_jail (pl_used (plan_services api now st))) n = hm_get (by_jail (cp_used st)) n"
    by (simp_all add: plan_inv_def reconcile_services_def)
  then show ?thesis by (intro exI conjI)
qed

lemma settled_addresses:
  assumes "cp_inv api st" "ua_inv (cp_used st)" "acts = reconcile_services api now st" "settled G st st'" "G \<subseteq> set acts" "inj_on act_name G"
    and "\<And>a. Schedule a \<in> set acts \<Longrightarrow> address_of (cp_used st) (sa_replica_name a) = None"
    and "hm_get (by_jail (cp_used st')) m = Some p" "hm_get (by_jail (cp_used st')) n = Some p"
  shows "m = n"
proof -
  obtain u where u: "ua_inv u"
    "\<forall>a. Schedule a \<in> set acts \<longrightarrow> hm_get (by_jail u) (sa_replica_name a) = Some (sa_node_id a, sa_address a)"
    "\<forall>n. (\<forall>a. Schedule a \<in> set acts \<longrightarrow> sa_replica_name a \<noteq> n) \<longrightarrow> hm_get (by_jail u) n = hm_get (by_jail (cp_used st)) n"
    using planned_addresses [OF assms(1,2), of now] unfolding assms(3) by blast
  have "hm_get (by_jail u) n = Some p" if n: "hm_get (by_jail (cp_used st')) n = Some p" for n
  proof (cases "n \<in> act_name ` G")
    case True
    then obtain act where act: "act \<in> G" "act_name act = n" by blast
    have e: "fst (snd (entry st' n)) = Some p" using n by (simp add: entry_def)
    show ?thesis
    proof (cases act)
      case (Schedule a)
      with act e settled_Schedule [OF assms(4,6), of a] u(2) assms(5) show ?thesis by auto
    next
      case (TearDown j node addr)
      with act e settled_TearDown [OF assms(4,6), of j node addr] show ?thesis by auto
    qed
  next
    case False
    then have "entry st' n = entry st n" using assms(4) by (simp add: settled_def)
    then have "hm_get (by_jail (cp_used st)) n = Some p" using n by (simp add: entry_def)
    with assms(7) u(3) show ?thesis by (metis address_of_def option.map_disc_iff option.distinct(1))
  qed
  with assms(8,9) have "hm_get (by_jail u) m = Some p" "hm_get (by_jail u) n = Some p" by blast+
  then show ?thesis using u(1) unfolding ua_inv_def by blast
qed

section \<open>Properties\<close>

text \<open>Agents that grant the requests for the jails of some actions and refuse all others.\<close>

definition granting :: "replica_action set \<Rightarrow> unit env" where
  "granting G = good_env\<lparr>env_exchange := \<lambda>_ _ path _ w. if path \<in> (\<lambda>act. jails_path (act_name act)) ` G then (Ok ''x'', w) else (Err ''refused'', w)\<rparr>"

lemma granting_ask:
  assumes "act \<in> A" "G \<subseteq> A" "inj_on act_name A"
  shows "granted (fst (ask (granting G) act hs)) \<longleftrightarrow> act \<in> G"
proof -
  have "jails_path (act_name act) \<in> (\<lambda>act. jails_path (act_name act)) ` G \<longleftrightarrow> act \<in> G"
    using assms by (auto simp: jails_path_def inj_on_def)
  moreover have "check_response (env_parse_response (granting G)) ''x'' = Ok (200, [])"
    by (simp add: granting_def good_env_def check_response_def content_length_number)
  ultimately show ?thesis
    by (cases act; cases hs) (auto simp: forward_def granting_def not_success)
qed

text \<open>C10: Any number of threads may carry out the plan that a reconcile pass computed, in any interleaving of their
  requests and commands. When all of them are done, the tables are those that a single pass leaves to
  which exactly the same actions are granted; and no two jails have the same address, if those that were
  scheduled had none.\<close>

theorem equal_plans_agree:
  assumes "cp_inv api st" "ua_inv (cp_used st)" "acts = reconcile_services api now st"
    and "\<And>a. Schedule a \<in> set acts \<Longrightarrow> address_of (cp_used st) (sa_replica_name a) = None"
    and "turns env sched (replicate k (map Carry acts), (Some st, w), {}) = (replicate k [], hs, G)"
  shows "\<exists>st' st1. fst hs = Some st' \<and> G \<subseteq> set acts \<and> execute_replica_actions (granting G) acts (Some st, ()) = (Some st1, ()) \<and>
    same_rest st1 st' \<and> (\<forall>n. entry st' n = entry st1 n) \<and>
    (\<forall>m n p. hm_get (by_jail (cp_used st')) m = Some p \<and> hm_get (by_jail (cp_used st')) n = Some p \<longrightarrow> m = n)"
proof -
  have inj: "inj_on act_name (set acts)" using reconcile_names_distinct [OF assms(1)] assms(3) by (simp add: distinct_map)
  obtain st' where st': "fst hs = Some st'" "settled G st st'" "G \<subseteq> set acts" by (rule race_settled [OF inj assms(5)])
  have injG: "inj_on act_name G" using inj st'(3) by (rule inj_on_subset)
  obtain sched1 where "turns (granting G) sched1 ([map Carry acts], (Some st, ()), {}) =
      ([[]], execute_replica_actions (granting G) acts (Some st, ()), {} \<union> set acts \<inter> G)"
    using thread_executes [of acts "granting G" G "(Some st, ())" "{}"] granting_ask [OF _ st'(3) inj] by blast
  moreover have "{} \<union> set acts \<inter> G = G" using st'(3) by blast
  ultimately have alone: "turns (granting G) sched1 (replicate 1 (map Carry acts), (Some st, ()), {}) =
      (replicate 1 [], execute_replica_actions (granting G) acts (Some st, ()), G)" by simp
  obtain st1 where st1: "fst (execute_replica_actions (granting G) acts (Some st, ())) = Some st1" "settled G st st1"
    by (rule race_settled [OF inj alone])
  then have "execute_replica_actions (granting G) acts (Some st, ()) = (Some st1, ())" by (metis old.unit.exhaust prod.collapse)
  with st' settled_unique [OF st'(2) st1(2) injG] settled_unique [OF st1(2) st'(2) injG]
    settled_addresses [OF assms(1-3) st'(2,3) injG assms(4)]
  show ?thesis by (intro exI [of _ st'] exI [of _ st1] conjI allI impI) (auto elim: conjE)
qed

section \<open>Two passes with a heartbeat in between\<close>

text \<open>Two nodes with room for four cores each; a service without volumes wants two replicas.\<close>

definition cr_node :: "string \<Rightarrow> f64 \<Rightarrow> u32 \<Rightarrow> node_record" where
  "cr_node nid cpu block = (ex_node nid ex_now block)\<lparr>nr_capacity_cpu := Fin 4, nr_capacity_memory := 8, nr_committed_cpu := cpu, nr_running_jails := []\<rparr>"

definition cr_cp :: "f64 \<Rightarrow> cp_state" where
  "cr_cp cpu = (ex_cp ex_now [] [] ua_new)
     \<lparr>cp_registry := \<lparr>rg_cluster_cidr = ex_cluster, rg_nodes = [(''a'', cr_node ''a'' cpu 0x0A002C00), (''b'', cr_node ''b'' (Fin 0) 0x0A00E500)]\<rparr>,
      cp_services := \<lparr>sv_service_cidr = \<lparr>net_addr = 0x0A010000, net_prefix_len = 16\<rparr>,
        sv_by_name = [(''w'', ex_service\<lparr>srv_template := ex_template\<lparr>jt_volumes := []\<rparr>\<rparr>)]\<rparr>\<rparr>"

definition cr_action :: "string \<Rightarrow> string \<Rightarrow> schedule_action" where
  "cr_action n node = \<lparr>sa_replica_name = n, sa_node_id = node, sa_node_addr = node, sa_template = ex_template\<lparr>jt_volumes := []\<rparr>,
     sa_address = (if node = ''a'' then 0x0A002C02 else 0x0A00E502), sa_prefix_len = 24, sa_standby_node_id = None, sa_standby_addr = None\<rparr>"

definition cr_acts :: "string \<Rightarrow> string \<Rightarrow> replica_action list" where
  "cr_acts first second = [Schedule (cr_action ''w-0'' first), Schedule (cr_action ''w-1'' second)]"

lemma cr_resources:
  "alive_nodes ipnet_ref ex_now (cp_registry (cr_cp cpu)) =
     [\<lparr>res_id = ''a'', res_capacity_cpu = Fin 4, res_capacity_memory = 8, res_committed_cpu = cpu, res_committed_memory = 0\<rparr>,
      \<lparr>res_id = ''b'', res_capacity_cpu = Fin 4, res_capacity_memory = 8, res_committed_cpu = Fin 0, res_committed_memory = 0\<rparr>]"
  by (simp add: alive_nodes_def registry_list_def node_status_of_def cr_cp_def cr_node_def ex_node_def resources_of_def
      DEAD_THRESHOLD_def from_secs_def saturating_duration_since_def Let_def)

lemma cr_scores:
  "headroom_score \<lparr>res_id = i, res_capacity_cpu = Fin 4, res_capacity_memory = 8, res_committed_cpu = Fin 0, res_committed_memory = 0\<rparr> = Fin 1"
  "headroom_score \<lparr>res_id = i, res_capacity_cpu = Fin 4, res_capacity_memory = 8, res_committed_cpu = Fin 4, res_committed_memory = 0\<rparr> = Fin 0"
  using fl_round_int [of 4] fl_round_int [of 1] fl_round_int [of 8] f64_of_nat_exact [of 8] f64_of_nat_exact [of 0]
  by (simp_all add: headroom_score_def f64_min_def)

lemma cr_nodes:
  "pod_cidr (cp_registry (cr_cp cpu)) ''a'' = Some \<lparr>net_addr = 0x0A002C00, net_prefix_len = 24\<rparr>"
  "pod_cidr (cp_registry (cr_cp cpu)) ''b'' = Some \<lparr>net_addr = 0x0A00E500, net_prefix_len = 24\<rparr>"
  "resolve (cp_registry (cr_cp cpu)) ''a'' ex_now = Ok ''a''" "resolve (cp_registry (cr_cp cpu)) ''b'' ex_now = Ok ''b''"
  by (simp_all add: cr_cp_def cr_node_def ex_node_def pod_cidr_def resolve_def DEAD_THRESHOLD_def from_secs_def ex_now_def
      saturating_duration_since_def as_secs_def)

lemma cr_plan_of:
  assumes "alive_nodes ipnet_ref ex_now (cp_registry (cr_cp cpu)) = live" "{x, y} = {''a'', ''b''}" "x \<noteq> y"
    and "pick_node_for_service live {} = Ok x" "pick_node_for_service live {x} = Ok y"
  shows "reconcile_services ipnet_ref ex_now (cr_cp cpu) = cr_acts x y"
proof -
  let ?rec = "ex_service\<lparr>srv_template := ex_template\<lparr>jt_volumes := []\<rparr>\<rparr>" and ?rg = "cp_registry (cr_cp cpu)"
  let ?u1 = "ua_record ''w-0'' x (sa_address (cr_action ''w-0'' x)) ua_new"
  have s: "services_list (cp_services (cr_cp cpu)) = [(''w'', ?rec)]" "cp_placements (cr_cp cpu) = []" "cp_used (cr_cp cpu) = ua_new"
    by (simp_all add: services_list_def cr_cp_def ex_cp_def)
  have xy: "x \<in> {''a'', ''b''}" "y \<in> {''a'', ''b''}" using assms(2) by blast+
  note ff = first_free_second [OF ref.ipnet_crate_axioms]
  have u1: "\<not> is_used ?u1 y z" for z using assms(3) by (simp add: is_used_record is_used_release not_used_new)
  note ev = cr_nodes ff ex_first_addr ex_names cr_action_def ex_service_def
  have a0: "plan_add ipnet_ref ex_now ?rg live ''w'' ?rec 0 \<lparr>pl_actions = [], pl_used = ua_new, pl_busy = {}\<rparr> =
      \<lparr>pl_actions = [Schedule (cr_action ''w-0'' x)], pl_used = ?u1, pl_busy = {x}\<rparr>"
    using xy(1) by (auto simp: plan_add_def assms(4) ev not_used_new)
  have a1: "plan_add ipnet_ref ex_now ?rg live ''w'' ?rec 1 \<lparr>pl_actions = [Schedule (cr_action ''w-0'' x)], pl_used = ?u1, pl_busy = {x}\<rparr> =
      \<lparr>pl_actions = cr_acts x y, pl_used = ua_record ''w-1'' y (sa_address (cr_action ''w-1'' y)) ?u1, pl_busy = {y, x}\<rparr>"
    using xy(2) u1 by (auto simp: plan_add_def assms(5) ev cr_acts_def)
  have d: "diff_replicas 2 [] = ([0, 1], [])" by (simp add: diff_replicas_def missing_from.simps)
  have "srv_desired_replicas ?rec = 2" by (simp add: ex_service_def)
  then show ?thesis
    unfolding reconcile_services_def plan_services_def assms(1) s plan_service_def placed_replicas_def placements_iter_def
      nodes_hosting_service_def present_indices_def Let_def
    using a0 a1 d by simp
qed

lemma cr_plans:
  "reconcile_services ipnet_ref ex_now (cr_cp (Fin 0)) = cr_acts ''a'' ''b''"
  "reconcile_services ipnet_ref ex_now (cr_cp (Fin 4)) = cr_acts ''b'' ''a''"
  by (rule cr_plan_of [OF cr_resources];
      auto simp: pick_node_for_service_def pick_node_def cr_scores better_def f64_eq_def)+

lemma cr_inv: "cp_inv ipnet_ref (cr_cp cpu)"
  by (auto simp: cp_inv_def cr_cp_def ex_cp_def registry_inv_def services_inv_def hm_wf_def cr_node_def ex_node_def ex_pods
      in_net_def host_bits_def ex_service_def split: if_splits) (simp_all add: ex_cluster_def)

lemma cr_beat: "handle_command ipnet_ref ex_now (CHeartbeat ''a'' (Fin 4) 0 []) (cr_cp (Fin 0)) = Some (RHeartbeat (Ok ()), cr_cp (Fin 4))"
  by (simp add: cr_cp_def heartbeat_def running_map_def cr_node_def ex_node_def)

text \<open>A turn of a thread when the agents grant every request.\<close>

lemma good_turn:
  assumes "i < length ts"
  shows "ts ! i = Carry act # rest \<Longrightarrow> turn good_env i (ts, (wk, w), G) = (ts[i := map Tell (records_of act) @ rest], (wk, w), insert act G)"
    "ts ! i = Tell c # rest \<Longrightarrow> turn good_env i (ts, hs, G) = (ts[i := rest], snd (send good_env c hs), G)"
  using assms by (cases act; simp add: turn_def good_forward not_success)+

lemma cr_race:
  "\<exists>st'. turns good_env [1, 1, 1, 0, 0, 0, 0, 0, 0, 1, 1, 1] ([map Carry (cr_acts p q), map Carry (cr_acts x y)], (Some st, ()), {}) =
     ([[], []], (Some st', ()), set (cr_acts p q) \<union> set (cr_acts x y)) \<and>
     placements_get (cp_placements st') ''w-0'' = Some p \<and> placements_get (cp_placements st') ''w-1'' = Some y \<and>
     hm_get (by_jail (cp_used st')) ''w-0'' = Some (p, sa_address (cr_action ''w-0'' p)) \<and>
     hm_get (by_jail (cp_used st')) ''w-1'' = Some (y, sa_address (cr_action ''w-1'' y))"
  by (simp add: turns_def cr_acts_def good_turn send_def cr_action_def table_defs insert_commute)

theorem equal_plans_agree_witness:
  "\<exists>st' st1. turns good_env [1, 1, 1, 0, 0, 0, 0, 0, 0, 1, 1, 1]
       (replicate 2 (map Carry (cr_acts ''a'' ''b'')), (Some (cr_cp (Fin 0)), ()), {}) = (replicate 2 [], (Some st', ()), set (cr_acts ''a'' ''b'')) \<and>
     execute_replica_actions (granting (set (cr_acts ''a'' ''b''))) (cr_acts ''a'' ''b'') (Some (cr_cp (Fin 0)), ()) = (Some st1, ()) \<and>
     placements_get (cp_placements st') ''w-0'' = Some ''a'' \<and> entry st1 ''w-0'' = entry st' ''w-0'' \<and> entry st1 ''w-1'' = entry st' ''w-1''"
proof -
  have two: "replicate 2 x = [x, x]" for x :: "task list" by (simp add: numeral_2_eq_2)
  obtain st' where r: "turns good_env [1, 1, 1, 0, 0, 0, 0, 0, 0, 1, 1, 1]
      (replicate 2 (map Carry (cr_acts ''a'' ''b'')), (Some (cr_cp (Fin 0)), ()), {}) = (replicate 2 [], (Some st', ()), set (cr_acts ''a'' ''b''))"
    and p: "placements_get (cp_placements st') ''w-0'' = Some ''a''"
    using cr_race [of "''a''" "''b''" "''a''" "''b''" "cr_cp (Fin 0)"] unfolding two by auto
  have "ua_inv (cp_used (cr_cp (Fin 0)))" by (simp add: cr_cp_def ex_cp_def ua_inv_new)
  moreover have "address_of (cp_used (cr_cp (Fin 0))) n = None" for n by (simp add: cr_cp_def ex_cp_def address_of_def ua_new_def)
  ultimately obtain st1 where "execute_replica_actions (granting (set (cr_acts ''a'' ''b''))) (cr_acts ''a'' ''b'') (Some (cr_cp (Fin 0)), ()) = (Some st1, ())"
    "\<forall>n. entry st' n = entry st1 n"
    using equal_plans_agree [OF cr_inv _ cr_plans(1) [symmetric] _ r] by auto
  with r p show ?thesis by auto
qed

text \<open>C40: When a heartbeat changes the ranking of the nodes between the computations of two passes, both passes can
  be granted everything they ask for and still leave two replicas of a service on one node under one
  address, in the tables of the control plane as well as in what the agents were told, so that the
  harm is not limited to an idle jail too many.\<close>

theorem racing_passes_share_address:
  "\<exists>st1 sched st' G. cp_inv ipnet_ref (cr_cp (Fin 0)) \<and> ua_inv (cp_used (cr_cp (Fin 0))) \<and>
     handle_command ipnet_ref ex_now (CHeartbeat ''a'' (Fin 4) 0 []) (cr_cp (Fin 0)) = Some (RHeartbeat (Ok ()), st1) \<and>
     turns good_env sched ([map Carry (reconcile_services ipnet_ref ex_now (cr_cp (Fin 0))),
         map Carry (reconcile_services ipnet_ref ex_now st1)], (Some st1, ()), {}) = ([[], []], (Some st', ()), G) \<and>
     placements_get (cp_placements st') ''w-0'' = Some ''a'' \<and> placements_get (cp_placements st') ''w-1'' = Some ''a'' \<and>
     hm_get (by_jail (cp_used st')) ''w-0'' = Some (''a'', 0x0A002C02) \<and> hm_get (by_jail (cp_used st')) ''w-1'' = Some (''a'', 0x0A002C02) \<and>
     (\<exists>a b. Schedule a \<in> G \<and> Schedule b \<in> G \<and> sa_replica_name a = ''w-0'' \<and> sa_replica_name b = ''w-1'' \<and>
        sa_node_addr a = ''b'' \<and> sa_node_addr b = ''b'' \<and> sa_address a = sa_address b)"
proof -
  obtain st' where r: "turns good_env [1, 1, 1, 0, 0, 0, 0, 0, 0, 1, 1, 1]
      ([map Carry (cr_acts ''a'' ''b''), map Carry (cr_acts ''b'' ''a'')], (Some (cr_cp (Fin 4)), ()), {}) =
      ([[], []], (Some st', ()), set (cr_acts ''a'' ''b'') \<union> set (cr_acts ''b'' ''a''))"
    "placements_get (cp_placements st') ''w-0'' = Some ''a''" "placements_get (cp_placements st') ''w-1'' = Some ''a''"
    "hm_get (by_jail (cp_used st')) ''w-0'' = Some (''a'', 0x0A002C02)" "hm_get (by_jail (cp_used st')) ''w-1'' = Some (''a'', 0x0A002C02)"
    using cr_race [of "''a''" "''b''" "''b''" "''a''" "cr_cp (Fin 4)"] by (auto simp: cr_action_def)
  have u: "ua_inv (cp_used (cr_cp (Fin 0)))" by (simp add: cr_cp_def ex_cp_def ua_inv_new)
  have "Schedule (cr_action ''w-0'' ''b'') \<in> set (cr_acts ''b'' ''a'')" "Schedule (cr_action ''w-1'' ''b'') \<in> set (cr_acts ''a'' ''b'')"
    by (simp_all add: cr_acts_def)
  moreover have "sa_node_addr (cr_action n ''b'') = ''b''" "sa_replica_name (cr_action n ''b'') = n"
    "sa_address (cr_action n ''b'') = 0x0A00E502" for n by (simp_all add: cr_action_def)
  ultimately show ?thesis using cr_inv u cr_beat cr_plans r
    by (intro exI [of _ "cr_cp (Fin 4)"] exI [of _ "[1, 1, 1, 0, 0, 0, 0, 0, 0, 1, 1, 1]"] exI [of _ st']
        exI [of _ "set (cr_acts ''a'' ''b'') \<union> set (cr_acts ''b'' ''a'')"] conjI
        exI [of _ "cr_action ''w-0'' ''b''"] exI [of _ "cr_action ''w-1'' ''b''"]) simp_all
qed

end
