(* ===== verification/Cp_Issued.thy ===== *)
theory Cp_Issued
  imports Cp_Race
begin

text \<open>
  What the connections of the control plane send to its worker. A request changes the tables only
  by commands, and a service reaches them only with a spec that passed \<open>parse_and_validate_service\<close>. Since the
  worker takes commands from all connections in one order, what holds for every sequence of such commands
  holds for every interleaving of requests.
\<close>

section \<open>The commands of the handlers\<close>

definition issued :: "'w env \<Rightarrow> command \<Rightarrow> bool" where
  "issued env c \<longleftrightarrow> (case c of
     CApplyService name replicas template port \<Rightarrow> \<exists>body spec. parse_and_validate_service (env_service env) body = Ok spec \<and>
       name = md_name (ss_metadata spec) \<and> replicas = sb_replicas (ss_spec spec) \<and> template = sb_template (ss_spec spec) \<and>
       port = sb_port (ss_spec spec)
   | _ \<Rightarrow> True)"

lemma issued_simps [simp]:
  "issued env (CRegister a1 a2 a3 a4 a5)" "issued env (CHeartbeat a1 a6 a7 a8)" "issued env CList" "issued env (CResolve a1)"
  "issued env (CResolveOrSchedule a1)" "issued env (CResolvePlacement a1)" "issued env (CRecordPlacement a1 a2)"
  "issued env (CRemovePlacement a1)" "issued env (COwnerOf a1)" "issued env CReconcileServices" "issued env (CDiscoverService a1)"
  "issued env CListServices" "issued env CListServiceProxyEntries" "issued env (CDeleteService a1)"
  "issued env (CRecordReplicaAddress a1 a2 a9)" "issued env (CReleaseReplicaAddress a1)" "issued env (CRecordStandby a1 a2)"
  "issued env (CRecordPendingFence a1 a2)" "issued env (CPendingFencesForNode a1)" "issued env (CRemovePendingFence a1)"
  "issued env (CPrepareForceRepin a1)"
  by (simp_all add: issued_def)

lemma issued_apply:
  "parse_and_validate_service (env_service env) body = Ok spec \<Longrightarrow>
   issued env (CApplyService (md_name (ss_metadata spec)) (sb_replicas (ss_spec spec)) (sb_template (ss_spec spec)) (sb_port (ss_spec spec)))"
  by (auto simp: issued_def)

definition worker_in :: "(cp_state \<Rightarrow> bool) \<Rightarrow> 'w hstate \<Rightarrow> bool" where
  "worker_in Q hs \<longleftrightarrow> (\<forall>st. fst hs = Some st \<longrightarrow> Q st)"

text \<open>A predicate that the commands of the handlers keep is kept by the handlers.\<close>

locale kept_state =
  fixes env :: "'w env" and Q :: "cp_state \<Rightarrow> bool"
  assumes kept: "Q st \<Longrightarrow> issued env c \<Longrightarrow> handle_command (env_api env) now c st = Some (r, st') \<Longrightarrow> Q st'"
begin

lemma kept_send: "send env c hs = (s, hs') \<Longrightarrow> worker_in Q hs \<Longrightarrow> issued env c \<Longrightarrow> worker_in Q hs'"
  by (cases hs) (auto simp: send_def worker_in_def dest: kept split: option.splits)

lemma kept_forward: "forward env a m p b hs = (r, hs') \<Longrightarrow> worker_in Q hs \<Longrightarrow> worker_in Q hs'"
  by (cases hs) (auto simp: worker_in_def dest: forward_worker)

lemma kept_snd_send: "worker_in Q hs \<Longrightarrow> issued env c \<Longrightarrow> worker_in Q (snd (send env c hs))"
  by (metis kept_send surjective_pairing)

lemma kept_sends:
  assumes "worker_in Q hs"
  shows "worker_in Q (send_record_placement env n i hs)" "worker_in Q (send_remove_placement env n hs)"
    "worker_in Q (send_record_replica_address env n i a hs)" "worker_in Q (send_release_replica_address env n hs)"
    "worker_in Q (send_record_standby env n i hs)" "worker_in Q (send_record_pending_fence env n i hs)"
    "worker_in Q (send_remove_pending_fence env n hs)"
  using assms by (simp_all add: send_defs kept_snd_send)

lemma kept_action: "worker_in Q hs \<Longrightarrow> worker_in Q (execute_replica_action env a hs)"
  by (cases a) (auto simp: Let_def kept_sends dest: kept_forward split: prod.splits result.splits option.splits)

lemma kept_fold: "(\<And>x hs. worker_in Q hs \<Longrightarrow> worker_in Q (f x hs)) \<Longrightarrow> worker_in Q hs \<Longrightarrow> worker_in Q (fold f xs hs)"
  by (induction xs arbitrary: hs) auto

lemma kept_actions: "worker_in Q hs \<Longrightarrow> worker_in Q (execute_replica_actions env as hs)"
  unfolding execute_replica_actions_def by (rule kept_fold [OF kept_action])

lemma kept_reconcile: "worker_in Q hs \<Longrightarrow> worker_in Q (reconcile_and_execute env hs)"
  by (auto simp: reconcile_and_execute_def kept_actions dest: kept_send split: prod.splits sent.splits reply.splits)

lemma kept_fence: "worker_in Q hs \<Longrightarrow> worker_in Q (fence_one env a r hs)"
  by (auto simp: fence_one_def kept_sends dest: kept_forward split: prod.splits result.splits)

lemma kept_fencing: "worker_in Q hs \<Longrightarrow> worker_in Q (check_and_execute_fencing env n hs)"
  by (auto simp: check_and_execute_fencing_def intro: kept_fold kept_fence dest!: kept_send
      split: prod.splits sent.splits reply.splits result.splits)

lemma kept_handle_forward: "worker_in Q hs \<Longrightarrow> worker_in Q (snd (handle_forward env n m p b hs))"
  by (auto simp: handle_forward_def dest!: kept_send dest: kept_forward split: route_splits)

lemma kept_scheduled:
  assumes "worker_in Q hs"
  shows "worker_in Q (snd (handle_scheduled_apply env n b hs))" "worker_in Q (snd (handle_scheduled_read env n hs))"
    "worker_in Q (snd (handle_scheduled_delete env n hs))"
  using assms
  by (auto simp: handle_scheduled_apply_def handle_scheduled_read_def handle_scheduled_delete_def resolve_placement_def kept_sends
      dest!: kept_send dest: kept_forward split: route_splits schedule_or_resolve_error.splits)

lemma kept_apply_service: "worker_in Q hs \<Longrightarrow> worker_in Q (snd (handle_apply_service env n b hs))"
  by (auto simp: handle_apply_service_def kept_reconcile dest!: kept_send intro: issued_apply split: route_splits)

lemma kept_services:
  assumes "worker_in Q hs"
  shows "worker_in Q (snd (handle_get_service env n hs))" "worker_in Q (snd (handle_list_services env hs))"
    "worker_in Q (snd (handle_delete_service env n hs))" "worker_in Q (snd (handle_list env hs))"
    "worker_in Q (snd (handle_register env b hs))"
  using assms
  by (auto simp: handle_get_service_def handle_list_services_def handle_delete_service_def handle_list_def handle_register_def
      kept_actions dest!: kept_send split: route_splits)

lemma kept_heartbeat:
  assumes "worker_in Q hs"
  shows "worker_in Q (snd (handle_heartbeat env n b hs))"
proof (cases "env_heartbeat env b")
  case (Ok hb)
  obtain s1 hs1 where s1: "send env (CHeartbeat n (hb_committed_cpu hb) (hb_committed_memory hb) (hb_jails hb)) hs = (s1, hs1)"
    by (metis surj_pair)
  obtain s2 hs2 where s2: "send env CListServiceProxyEntries (check_and_execute_fencing env n (reconcile_and_execute env hs1)) = (s2, hs2)"
    by (metis surj_pair)
  have 1: "worker_in Q hs1" by (rule kept_send [OF s1 assms]) simp
  have 2: "worker_in Q hs2" by (rule kept_send [OF s2 kept_fencing [OF kept_reconcile [OF 1]]]) simp
  have "snd (handle_heartbeat env n b hs) = hs1 \<or> snd (handle_heartbeat env n b hs) = hs2"
    by (simp add: handle_heartbeat_def Ok s1 s2 split: sent.split reply.split result.split)
  with 1 2 show ?thesis by auto
qed (simp add: handle_heartbeat_def assms)

lemma kept_repin: "worker_in Q hs \<Longrightarrow> worker_in Q (snd (handle_force_repin env n hs))"
  by (auto simp: handle_force_repin_def provision_repin_def record_repin_def Let_def kept_sends dest!: kept_send dest: kept_forward
      split: route_splits)

lemma kept_jails:
  assumes "worker_in Q hs"
  shows "worker_in Q (snd (put_jail env n b hs))" "worker_in Q (snd (put_node_jail env i n b hs))"
    "worker_in Q (snd (delete_node_jail env i n hs))"
proof -
  have own: "worker_in Q hs'" if "reject_if_service_owned env n hs = (x, hs')" for x hs'
    using that assms by (auto simp: reject_if_service_owned_def dest!: kept_send split: route_splits owner.splits)
  have fw: "worker_in Q hs2" if "handle_forward env i m p b hs1 = (x, hs2)" "worker_in Q hs1" for x hs1 hs2 m p b
    using kept_handle_forward [OF that(2), of i m p b] that(1) by simp
  show "worker_in Q (snd (put_jail env n b hs))"
    using own by (auto simp: put_jail_def kept_scheduled split: prod.splits option.splits)
  show "worker_in Q (snd (put_node_jail env i n b hs))"
    using own by (auto simp: put_node_jail_def kept_sends dest!: fw split: prod.splits option.splits)
  show "worker_in Q (snd (delete_node_jail env i n hs))"
    using assms by (auto simp: delete_node_jail_def kept_sends dest!: fw split: prod.splits)
qed

lemmas kept_handlers = kept_handle_forward kept_scheduled kept_apply_service kept_services kept_heartbeat kept_repin kept_jails

lemma kept_choice:
  "worker_in Q (snd a) \<Longrightarrow> worker_in Q (snd b) \<Longrightarrow> worker_in Q (snd (if c then a else b))"
  "worker_in Q (snd a) \<Longrightarrow> (\<And>y ys. worker_in Q (snd (f y ys))) \<Longrightarrow> worker_in Q (snd (case l of [] \<Rightarrow> a | y # ys \<Rightarrow> f y ys))"
  "worker_in Q hs \<Longrightarrow> worker_in Q (snd (error_response n m, hs))"
  by (simp_all split: list.splits)

lemma kept_route: "worker_in Q hs \<Longrightarrow> worker_in Q (snd (route env req hs))"
  unfolding route_def Let_def by (intro kept_choice kept_handlers)

end

section \<open>Runs of the worker\<close>

text \<open>The states that the worker gets to by commands of the handlers, in whatever order those of different connections
  come in.\<close>

definition runs :: "'w env \<Rightarrow> cp_state \<Rightarrow> cp_state \<Rightarrow> bool" where
  "runs env st st' \<longleftrightarrow> (\<exists>cmds rs. list_all (\<lambda>(now, c). issued env c) cmds \<and> run_worker (env_api env) cmds st = Some (rs, st'))"

lemma runs_refl: "runs env st st"
  unfolding runs_def by (intro exI [of _ "[]"] exI [of _ "[]"]) (simp add: run_worker_def)

interpretation runs: kept_state env "runs env st0" for env st0
proof
  fix st c now r st'
  assume "runs env st0 st" "issued env c" and h: "handle_command (env_api env) now c st = Some (r, st')"
  then obtain cmds rs where "list_all (\<lambda>(now, c). issued env c) (cmds @ [(now, c)])" "run_worker (env_api env) cmds st0 = Some (rs, st)"
    by (auto simp: runs_def)
  moreover from this(2) h have "run_worker (env_api env) (cmds @ [(now, c)]) st0 = Some (rs @ [r], st')"
    by (simp add: run_worker_def serve_append)
  ultimately show "runs env st0 st'" unfolding runs_def by blast
qed

text \<open>What is kept by commands of the handlers holds after every run.\<close>

context kept_state
begin

lemma kept_runs:
  assumes "runs env st st'" "Q st"
  shows "Q st'"
proof -
  have "serve (handle_command (env_api env)) cmds st = Some (rs, st') \<Longrightarrow> list_all (\<lambda>(now, c). issued env c) cmds \<Longrightarrow> Q st \<Longrightarrow> Q st'" for cmds rs st
  proof (induction cmds arbitrary: st rs)
    case (Cons x cmds)
    then show ?case by (cases x) (auto split: option.splits dest: kept)
  qed simp
  with assms show ?thesis by (auto simp: runs_def run_worker_def)
qed

end

section \<open>Services that passed validation\<close>

definition service_valid :: "string \<Rightarrow> service_record \<Rightarrow> bool" where
  "service_valid s rec \<longleftrightarrow> validate_name s = Ok () \<and> is_ok (parse_cpu_cores (rs_cpu (jt_resources (srv_template rec)))) \<and>
     is_ok (parse_memory_bytes (rs_memory (jt_resources (srv_template rec)))) \<and> validate_volumes (jt_volumes (srv_template rec)) = Ok () \<and>
     srv_port rec \<noteq> 0"

lemma parsed_service_valid:
  assumes "parse_and_validate_service from_yaml body = Ok spec"
    and "srv_template rec = sb_template (ss_spec spec)" "srv_port rec = sb_port (ss_spec spec)"
  shows "service_valid (md_name (ss_metadata spec)) rec"
  using assms by (auto simp: parse_and_validate_service_def validate_service_spec_def service_valid_def is_ok_iff split: if_splits)

text \<open>Only \<open>ApplyService\<close> brings in a service.\<close>

lemma services_from_commands:
  assumes "handle_command api now c st = Some (r, st')" "services_get (cp_services st') s = Some rec"
  obtains "services_get (cp_services st) s = Some rec"
    | n t p where "c = CApplyService s n t p" "srv_desired_replicas rec = n" "srv_template rec = t" "srv_port rec = p"
proof (cases c)
  case (CApplyService name n t p)
  with assms(1) obtain r' where "apply_service api name n t p st = Some (r', st')" by auto
  with apply_service_services obtain r'' sv where sv: "st' = st \<or> services_apply api name n t p (cp_services st) = Some (r'', sv) \<and> st' = st\<lparr>cp_services := sv\<rparr>"
    by blast
  have "services_get sv s = services_get (cp_services st) s \<or> s = name \<and> srv_desired_replicas rec = n \<and> srv_template rec = t \<and> srv_port rec = p"
    if "services_apply api name n t p (cp_services st) = Some (r'', sv)" "services_get sv s = Some rec"
    using that by (auto simp: services_apply_def services_get_def Let_def split: option.splits if_splits)
  with sv assms(2) CApplyService that show thesis by auto
next
  case (CDeleteService n)
  with assms that(1) show thesis
    by (auto simp: delete_service_def services_remove_def services_get_def split: if_splits prod.splits)
qed (use assms that(1) in \<open>auto split: prod.splits\<close>)

interpretation valid: kept_state env "\<lambda>st. \<forall>s rec. services_get (cp_services st) s = Some rec \<longrightarrow> service_valid s rec" for env
  by unfold_locales (auto elim!: services_from_commands simp: issued_def intro: parsed_service_valid)

text \<open>The number of replicas is a \<open>u32\<close> of the spec.\<close>

lemma kept_replicas:
  assumes "\<And>body spec. env_service env body = Ok spec \<Longrightarrow> sb_replicas (ss_spec spec) \<le> u32_max"
  shows "kept_state env (\<lambda>st. \<forall>s rec. services_get (cp_services st) s = Some rec \<longrightarrow> srv_desired_replicas rec \<le> u32_max)"
  by unfold_locales
     (auto elim!: services_from_commands simp: issued_def parse_and_validate_service_def validate_service_spec_def
        dest: assms split: if_splits)

section \<open>Properties\<close>

text \<open>C4: Whatever a request is and whatever the network does, it changes the tables of the control plane only by
  commands, among which every \<open>ApplyService\<close> has a spec that passed validation. So in every state the worker
  gets to, however requests interleave, all services have a valid name, resources and volumes that
  parse, and a port.\<close>

theorem requests_are_validated_commands:
  assumes "runs env (cp_init cluster service) st" "route env req (Some st, w) = (resp, (Some st', w'))"
  shows "runs env st st' \<and> (\<forall>s rec. services_get (cp_services st') s = Some rec \<longrightarrow> service_valid s rec)"
proof -
  have r: "runs env st st'"
    using runs.kept_route [of env st "(Some st, w)" req] assms(2) runs_refl [of env st] by (simp add: worker_in_def)
  have "\<forall>s rec. services_get (cp_services (cp_init cluster service)) s = Some rec \<longrightarrow> service_valid s rec"
    by (simp add: cp_init_def services_new_def services_get_def)
  from valid.kept_runs [OF r valid.kept_runs [OF assms(1) this]] r show ?thesis by blast
qed

text \<open>A fresh control plane is asked for the service \<open>w\<close>.\<close>

definition iss_env :: "unit env" where
  "iss_env = good_env\<lparr>env_service := \<lambda>_. Ok \<lparr>ss_api_version = ''v1'', ss_kind = ''Service'', ss_metadata = \<lparr>md_name = ''w''\<rparr>,
     ss_spec = \<lparr>sb_replicas = 2, sb_port = 80, sb_template = ex_template\<rparr>\<rparr>\<rparr>"

definition iss_put :: parsed_request where
  "iss_put = \<lparr>pr_method = ''PUT'', pr_path = ''/services/w'', pr_body = []\<rparr>"

theorem requests_are_validated_commands_witness:
  "\<exists>resp st'. route iss_env iss_put (Some (cp_init ex_cluster \<lparr>net_addr = 0x0A010000, net_prefix_len = 16\<rparr>), ()) = (resp, (Some st', ())) \<and>
     runs iss_env (cp_init ex_cluster \<lparr>net_addr = 0x0A010000, net_prefix_len = 16\<rparr>) st'"
proof -
  let ?st = "cp_init ex_cluster \<lparr>net_addr = 0x0A010000, net_prefix_len = 16\<rparr>"
  have "cp_inv ipnet_ref ?st" by (rule cp_inv_init) (simp_all add: ex_cluster_def)
  then have "hs_ok iss_env (Some ?st, ())" by (simp add: hs_ok_def iss_env_def good_env_def ref.ipnet_crate_axioms)
  from answered_services(1) [OF this, of "''w''" "[]"] have "\<exists>st'. fst (snd (handle_apply_service iss_env ''w'' [] (Some ?st, ()))) = Some st'"
    by (auto simp: answered_def hs_ok_def)
  moreover have "path_segments ''/services/w'' = [''services'', ''w'']" by code_simp
  ultimately obtain st' where "fst (snd (route iss_env iss_put (Some ?st, ()))) = Some st'" by (auto simp: route_def iss_put_def)
  then have r: "route iss_env iss_put (Some ?st, ()) = (fst (route iss_env iss_put (Some ?st, ())), (Some st', ()))"
    by (metis old.unit.exhaust prod.collapse)
  from requests_are_validated_commands [OF runs_refl r] r show ?thesis by blast
qed

end
