(* ===== verification/Cp_Start.thy ===== *)
theory Cp_Start
  imports Cp_Example Keel_Tls
begin

text \<open>
  The start of the control plane: \<open>keel-controlplane/src/main.rs\<close>. The flags are read in pairs, checked
  and turned into a worker with empty tables, a TLS configuration and an address to listen on. A panic
  is an \<open>Err\<close> with its text.
\<close>

section \<open>Flags\<close>

record cp_config =
  cf_addr :: string
  cf_cluster_cidr :: "ipv4net option"
  cf_service_cidr :: "ipv4net option"
  cf_tls_ca_file :: "string option"
  cf_tls_cert_file :: "string option"
  cf_tls_key_file :: "string option"
  cf_tls_crl_file :: "string option"

definition cp_config_default :: cp_config where
  "cp_config_default = \<lparr>cf_addr = ''0.0.0.0:7620'', cf_cluster_cidr = None, cf_service_cidr = None, cf_tls_ca_file = None,
     cf_tls_cert_file = None, cf_tls_key_file = None, cf_tls_crl_file = None\<rparr>"

definition cp_parse_cidr :: "ipnet_api \<Rightarrow> string \<Rightarrow> string \<Rightarrow> (ipv4net, string) result" where
  "cp_parse_cidr api flag v =
     map_err (\<lambda>e. ''invalid '' @ flag @ '' '' @ [CHR 0x27] @ v @ [CHR 0x27] @ '': '' @ e) (api_parse_ipv4net api v)"

definition cp_set_flag :: "ipnet_api \<Rightarrow> string \<Rightarrow> string \<Rightarrow> cp_config \<Rightarrow> (cp_config, string) result" where
  "cp_set_flag api flag v c =
     (if flag = ''--addr'' then Ok (c\<lparr>cf_addr := v\<rparr>)
      else if flag = ''--cluster-cidr'' then and_then (cp_parse_cidr api flag v) (\<lambda>n. Ok (c\<lparr>cf_cluster_cidr := Some n\<rparr>))
      else if flag = ''--service-cidr'' then and_then (cp_parse_cidr api flag v) (\<lambda>n. Ok (c\<lparr>cf_service_cidr := Some n\<rparr>))
      else if flag = ''--tls-ca-file'' then Ok (c\<lparr>cf_tls_ca_file := Some v\<rparr>)
      else if flag = ''--tls-cert-file'' then Ok (c\<lparr>cf_tls_cert_file := Some v\<rparr>)
      else if flag = ''--tls-key-file'' then Ok (c\<lparr>cf_tls_key_file := Some v\<rparr>)
      else if flag = ''--tls-crl-file'' then Ok (c\<lparr>cf_tls_crl_file := Some v\<rparr>)
      else Err (''unknown flag: '' @ flag))"

fun cp_read_flags :: "ipnet_api \<Rightarrow> string list \<Rightarrow> cp_config \<Rightarrow> (cp_config, string) result" where
  "cp_read_flags api [] c = Ok c"
| "cp_read_flags api [flag] c = Err (''missing value for '' @ flag)"
| "cp_read_flags api (flag # v # args) c = and_then (cp_set_flag api flag v c) (cp_read_flags api args)"

definition cp_parse_args_from :: "ipnet_api \<Rightarrow> string list \<Rightarrow> (cp_config, string) result" where
  "cp_parse_args_from api args =
     and_then (cp_read_flags api args cp_config_default) (\<lambda>c.
       if cf_cluster_cidr c = None \<or> cf_service_cidr c = None \<or> cf_tls_ca_file c = None \<or> cf_tls_cert_file c = None \<or>
          cf_tls_key_file c = None \<or> cf_tls_crl_file c = None
       then Err ''--cluster-cidr, --service-cidr, --tls-ca-file, --tls-cert-file, --tls-key-file, and --tls-crl-file are all required''
       else case cf_cluster_cidr c of
           Some cidr \<Rightarrow> if net_prefix_len cidr \<le> 24 then Ok c
             else Err (''--cluster-cidr prefix length '' @ show_nat (net_prefix_len cidr) @ '' must be <= 24'')
         | None \<Rightarrow> Ok c)"

section \<open>Start\<close>

record cp_process =
  pr_addr :: string
  pr_tls :: reloading_tls
  pr_worker :: cp_state

text \<open>\<open>main\<close> up to the accept loop; the last argument is the operating system's answer to \<open>bind\<close>. The
  \<open>expect\<close>s on the required flags are the last branch.\<close>

definition cp_main ::
    "ipnet_api \<Rightarrow> rustls \<Rightarrow> disk \<Rightarrow> disk \<Rightarrow> (string \<Rightarrow> (unit, string) result) \<Rightarrow> string list \<Rightarrow> (cp_process, string) result" where
  "cp_main api lib disk disk' bind_to args =
     and_then (cp_parse_args_from api args) (\<lambda>c.
       case (cf_cluster_cidr c, cf_service_cidr c, cf_tls_ca_file c, cf_tls_cert_file c, cf_tls_key_file c, cf_tls_crl_file c) of
         (Some cluster, Some service, Some ca, Some cert, Some key, Some crl) \<Rightarrow>
           and_then (map_err (\<lambda>e. ''failed to load TLS configuration: '' @ e)
             (tls_spawn lib disk disk' \<lparr>tp_cert = cert, tp_key = key, tp_ca = ca, tp_crl = crl\<rparr>)) (\<lambda>tls.
           and_then (map_err (\<lambda>e. ''failed to bind TCP listener: '' @ e) (bind_to (cf_addr c))) (\<lambda>_.
             Ok \<lparr>pr_addr = cf_addr c, pr_tls = tls, pr_worker = cp_init cluster service\<rparr>))
       | _ \<Rightarrow> Err ''validated as required in parse_args_from'')"

section \<open>What the flags guarantee\<close>

definition cp_config_wf :: "cp_config \<Rightarrow> bool" where
  "cp_config_wf c \<longleftrightarrow> pred_option (\<lambda>n. net_prefix_len n \<le> 32) (cf_cluster_cidr c) \<and> pred_option (\<lambda>n. net_prefix_len n \<le> 32) (cf_service_cidr c)"

lemma cp_set_flag_wf: "ipnet_crate api \<Longrightarrow> cp_set_flag api flag v c = Ok c' \<Longrightarrow> cp_config_wf c \<Longrightarrow> cp_config_wf c'"
  by (auto simp: cp_set_flag_def cp_config_wf_def cp_parse_cidr_def dest: ipnet_crate.parse_prefix split: if_splits)

lemma cp_read_flags_wf: "ipnet_crate api \<Longrightarrow> cp_read_flags api args c = Ok c' \<Longrightarrow> cp_config_wf c \<Longrightarrow> cp_config_wf c'"
  by (induction api args c rule: cp_read_flags.induct) (auto dest: cp_set_flag_wf)

lemma cp_main_Ok:
  assumes "ipnet_crate api" "cp_main api lib disk disk' bind_to args = Ok p"
  obtains cluster service where "pr_worker p = cp_init cluster service" "net_prefix_len cluster \<le> 24" "net_prefix_len service \<le> 32"
    "checks_peers lib (rt_server (pr_tls p))" "checks_peers lib (rt_client (pr_tls p))" "bind_to (pr_addr p) = Ok ()"
proof -
  obtain c where c: "cp_parse_args_from api args = Ok c" using assms(2) by (auto simp: cp_main_def)
  then have "cp_read_flags api args cp_config_default = Ok c" by (auto simp: cp_parse_args_from_def split: if_splits option.splits)
  then have w: "cp_config_wf c" by (rule cp_read_flags_wf [OF assms(1)]) (simp add: cp_config_wf_def cp_config_default_def)
  obtain cluster service where n: "cf_cluster_cidr c = Some cluster" "cf_service_cidr c = Some service"
    using c by (auto simp: cp_parse_args_from_def split: if_splits option.splits)
  have "net_prefix_len cluster \<le> 24" using c n by (auto simp: cp_parse_args_from_def split: if_splits)
  moreover have "net_prefix_len service \<le> 32" using w n by (simp add: cp_config_wf_def)
  moreover obtain tls tp where t: "tls_spawn lib disk disk' tp = Ok tls" "pr_tls p = tls" "bind_to (pr_addr p) = Ok ()"
      "pr_worker p = cp_init cluster service"
    using assms(2) c n by (auto simp: cp_main_def split: option.splits)
  moreover have "tls_reached lib tp tls" using t(1) by (rule tls_start)
  from tls_reached_inv [OF this] have "checks_peers lib (rt_server tls)" "checks_peers lib (rt_client tls)"
    by (auto dest: loaded_from_checks)
  ultimately show ?thesis using that by auto
qed

text \<open>With \<open>--service-cidr\<close> of length 0 the assertion of \<open>derive_service_vip\<close> fails.\<close>

lemma services_apply_slash_0:
  "net_prefix_len (sv_service_cidr s) = 0 \<Longrightarrow> hm_get (sv_by_name s) n = None \<Longrightarrow> services_apply api n d t p s = None"
  by (simp add: services_apply_def probe_vip.simps [of api n "sv_service_cidr s"] derive_service_vip_def vip_host_count_def)

lemma name_conflict_init: "name_conflict name (cp_placements (cp_init cluster service)) (cp_services (cp_init cluster service)) i n = None"
proof (induction "n - i" arbitrary: i)
  case 0
  then show ?case by (subst name_conflict.simps) simp
next
  case (Suc k)
  have "owner_of m placements_new (services_new service) = None" for m
    by (simp add: owner_of_def placements_new_def services_new_def placements_get_def)
  with Suc show ?case by (subst name_conflict.simps) (simp add: cp_init_def)
qed

lemma run_worker_slash_0:
  assumes "net_prefix_len service = 0"
  shows "run_worker api [(now, CApplyService n d t p)] (cp_init cluster service) = None"
proof -
  have "services_apply api n d t p (cp_services (cp_init cluster service)) = None"
    using assms by (intro services_apply_slash_0) (simp_all add: cp_init_def services_new_def)
  then show ?thesis by (simp add: run_worker_def apply_service_def name_conflict_init)
qed

section \<open>The whole program\<close>

text \<open>C3: A control plane that has started listens with both TLS configurations checking their peers. Unless
  the service network was given with length 0, it then answers every command, in whatever order and at
  whatever times they come, without a panic; the pod blocks of two registered nodes never overlap, and
  two services never share a virtual address, which lies in the service network. With length 0, which
  the start accepts, the first service that is applied ends the worker thread.\<close>

theorem control_plane_never_panics:
  assumes "ipnet_crate api" "cp_main api lib disk disk' bind_to args = Ok p"
  shows "checks_peers lib (rt_server (pr_tls p)) \<and> checks_peers lib (rt_client (pr_tls p)) \<and>
    (if 0 < net_prefix_len (sv_service_cidr (cp_services (pr_worker p))) then
       \<forall>cmds. \<exists>rs st. run_worker api cmds (pr_worker p) = Some (rs, st) \<and> length rs = length cmds \<and>
         (\<forall>n n' c c' a. pod_cidr (cp_registry st) n = Some c \<and> pod_cidr (cp_registry st) n' = Some c' \<and>
            in_net c a \<and> in_net c' a \<longrightarrow> n = n') \<and>
         (\<forall>m n q r. services_get (cp_services st) m = Some q \<and> services_get (cp_services st) n = Some r \<and>
            srv_vip q = srv_vip r \<longrightarrow> m = n) \<and>
         (\<forall>n r. services_get (cp_services st) n = Some r \<longrightarrow> in_net (sv_service_cidr (cp_services st)) (srv_vip r))
     else \<forall>now n d t q. run_worker api [(now, CApplyService n d t q)] (pr_worker p) = None)"
proof -
  obtain cluster service where p: "pr_worker p = cp_init cluster service" "net_prefix_len cluster \<le> 24" "net_prefix_len service \<le> 32"
    "checks_peers lib (rt_server (pr_tls p))" "checks_peers lib (rt_client (pr_tls p))"
    using assms by (rule cp_main_Ok)
  have n: "sv_service_cidr (cp_services (pr_worker p)) = service" using p(1) by (simp add: cp_init_def services_new_def)
  show ?thesis
  proof (cases "0 < net_prefix_len service")
    case True
    have "\<exists>rs st. run_worker api cmds (pr_worker p) = Some (rs, st) \<and> length rs = length cmds \<and>
         (\<forall>n n' c c' a. pod_cidr (cp_registry st) n = Some c \<and> pod_cidr (cp_registry st) n' = Some c' \<and>
            in_net c a \<and> in_net c' a \<longrightarrow> n = n') \<and>
         (\<forall>m n q r. services_get (cp_services st) m = Some q \<and> services_get (cp_services st) n = Some r \<and>
            srv_vip q = srv_vip r \<longrightarrow> m = n) \<and>
         (\<forall>n r. services_get (cp_services st) n = Some r \<longrightarrow> in_net (sv_service_cidr (cp_services st)) (srv_vip r))" for cmds
    proof -
      obtain rs st where s: "run_worker api cmds (pr_worker p) = Some (rs, st)" "length rs = length cmds" "cp_inv api st"
        using ipnet_crate.run_worker_total [OF assms(1) cp_inv_init [OF p(2) True p(3)], of cmds] p(1) by auto
      then have i: "registry_inv api (cp_registry st)" "services_inv (cp_services st)" by (auto simp: cp_inv_def)
      show ?thesis
        using s i(2) registry_inv_disjoint [OF assms(1) i(1)] by (fastforce simp: services_inv_def services_get_def)
    qed
    with True n p(4,5) show ?thesis by simp
  next
    case False
    with n p run_worker_slash_0 [of service api] show ?thesis by simp
  qed
qed

text \<open>The flags of the project's own tests, \<open>--cluster-cidr 10.0.0.0/16\<close> among them; the service network is an argument.\<close>

definition sx_args :: "ipv4net \<Rightarrow> string list" where
  "sx_args service = [''--cluster-cidr'', ref_show ex_cluster, ''--service-cidr'', ref_show service, ''--tls-ca-file'', ''a'', ''--tls-cert-file'', ''c'',
     ''--tls-key-file'', ''k'', ''--tls-crl-file'', ''l'']"

definition sx_process :: "ipv4net \<Rightarrow> cp_process" where
  "sx_process service = \<lparr>pr_addr = ''0.0.0.0:7620'', pr_tls = rex_tls, pr_worker = cp_init ex_cluster service\<rparr>"

abbreviation sx_net :: ipv4net where
  "sx_net \<equiv> \<lparr>net_addr = 0x0A00FA00, net_prefix_len = 24\<rparr>"

lemma sx_main:
  assumes "net_prefix_len service \<le> 32"
  shows "cp_main ipnet_ref rex_lib Ok Ok (\<lambda>_. Ok ()) (sx_args service) = Ok (sx_process service)"
proof -
  have "ref_parse (ref_show ex_cluster) = Ok ex_cluster" by (rule ref_parse_show) (simp add: ex_cluster_def)
  moreover have "ref_parse (ref_show service) = Ok service" using assms by (rule ref_parse_show)
  ultimately show ?thesis
    using rex_spawn by (simp add: cp_main_def cp_parse_args_from_def sx_args_def cp_set_flag_def cp_config_default_def
        cp_parse_cidr_def ipnet_ref_def ex_cluster_def sx_process_def rex_paths_def)
qed

theorem control_plane_never_panics_witness:
  "run_worker ipnet_ref [(0, CApplyService ''w'' 1 ex_template 80)] (pr_worker (sx_process \<lparr>net_addr = 0, net_prefix_len = 0\<rparr>)) = None \<and>
   (\<exists>rs st. run_worker ipnet_ref [(0, CApplyService ''w'' 1 ex_template 80), (5, CDeleteService ''w'')] (pr_worker (sx_process sx_net)) =
      Some (rs, st) \<and> length rs = 2)"
proof
  have n: "net_prefix_len (sv_service_cidr (cp_services (pr_worker (sx_process service)))) = net_prefix_len service" for service
    by (simp add: sx_process_def cp_init_def services_new_def)
  note c = control_plane_never_panics [OF ref.ipnet_crate_axioms sx_main, unfolded n]
  show "run_worker ipnet_ref [(0, CApplyService ''w'' 1 ex_template 80)] (pr_worker (sx_process \<lparr>net_addr = 0, net_prefix_len = 0\<rparr>)) = None"
    using c [of "\<lparr>net_addr = 0, net_prefix_len = 0\<rparr>"] by simp
  let ?cmds = "[(0, CApplyService ''w'' 1 ex_template 80), (5, CDeleteService ''w'')]"
  have "\<exists>rs st. run_worker ipnet_ref ?cmds (pr_worker (sx_process sx_net)) = Some (rs, st) \<and> length rs = length ?cmds"
    using c [of sx_net] by fastforce
  then show "\<exists>rs st. run_worker ipnet_ref ?cmds (pr_worker (sx_process sx_net)) = Some (rs, st) \<and> length rs = 2" by (simp add: numeral_2_eq_2)
qed

text \<open>The start does not compare the two networks. With the ones of the project's own tests, \<open>10.0.0.0/16\<close> for
  the cluster and \<open>10.0.250.0/24\<close> for services, the node \<open>node-284\<close> is given a pod block that holds the
  virtual address of a service, as one of the addresses its jails may be given.\<close>

lemma service_and_pod_networks_may_overlap:
  "\<exists>rs st pod r. cp_main ipnet_ref rex_lib Ok Ok (\<lambda>_. Ok ()) (sx_args sx_net) = Ok (sx_process sx_net) \<and>
     run_worker ipnet_ref [(0, CRegister ''node-284'' ''10.1.0.1:7621'' None (Fin 4) 8), (0, CApplyService ''api'' 1 ex_template 80)]
       (pr_worker (sx_process sx_net)) = Some (rs, st) \<and>
     pod_cidr (cp_registry st) ''node-284'' = Some pod \<and> services_get (cp_services st) ''api'' = Some r \<and>
     srv_vip r \<in> set (api_hosts ipnet_ref pod)"
proof -
  have pod: "derive_pod_cidr ipnet_ref ''node-284'' ex_cluster = Some sx_net"
    by (simp add: derive_pod_cidr_def ex_cluster_def POD_PREFIX_LEN_def ipnet_ref_def first_addr_def host_bits_def fnv1a_def)
  have vip: "derive_service_vip ipnet_ref ''api'' sx_net 0 = Some 0x0A00FA87"
    by (simp add: derive_service_vip_def ipnet_ref_def first_addr_def host_bits_def fnv1a_def)
  have m: "(0x0A00FA87 :: u32) \<in> set (api_hosts ipnet_ref sx_net)"
    by (auto simp: ipnet_ref_def host_bits_def first_addr_def intro!: image_eqI [of _ _ 135])
  let ?st = "pr_worker (sx_process sx_net)"
  obtain rg where r: "register ipnet_ref ''node-284'' ''10.1.0.1:7621'' None (Fin 4) 8 0 (cp_registry ?st) = Some (Ok sx_net, rg)"
      "pod_cidr rg ''node-284'' = Some sx_net"
    using pod by (simp add: register_def sx_process_def cp_init_def registry_new_def pod_cidr_def)
  obtain sv q where s: "services_apply ipnet_ref ''api'' 1 ex_template 80 (cp_services ?st) = Some (Ok (), sv)" "services_get sv ''api'' = Some q"
      "srv_vip q = 0x0A00FA87"
    using vip by (simp add: services_apply_def sx_process_def cp_init_def services_new_def services_get_def probe_vip.simps
        [of ipnet_ref "''api''" sx_net "{}" 0] vip_host_count_def)
  have "name_conflict ''api'' (cp_placements ?st) (cp_services ?st) 0 1 = None" by (simp add: sx_process_def name_conflict_init)
  then have "run_worker ipnet_ref [(0, CRegister ''node-284'' ''10.1.0.1:7621'' None (Fin 4) 8), (0, CApplyService ''api'' 1 ex_template 80)] ?st =
      Some ([RRegister (Ok sx_net), RApplyService (Ok ())], ?st\<lparr>cp_registry := rg, cp_services := sv\<rparr>)"
    using r(1) s(1) by (simp add: run_worker_def apply_service_def)
  moreover have "net_prefix_len sx_net \<le> 32" by simp
  ultimately show ?thesis using sx_main r(2) s(2,3) m by fastforce
qed

end
