(* ===== verification/Ctl_Main.thy ===== *)
theory Ctl_Main
  imports Ag_Cli Keel_Spec
begin

text \<open>
  The command line client (\<open>keelctl/src/main.rs\<close>): its arguments, the choice between the socket of an agent and
  a control plane, the five sub-commands and what they make of an answer. Reading a file, the two kinds of
  exchange (connect, send the bytes, read until the peer closes), \<open>httparse\<close>, the YAML parsers and the texts of
  errors are arguments; an exchange may change a world of any type.
\<close>

section \<open>Arguments\<close>

definition DEFAULT_SOCKET :: string where
  "DEFAULT_SOCKET = ''/var/run/keel-agentd.sock''"

record control_plane =
  cpt_addr :: string
  cpt_node :: "string option"
  cpt_ca_file :: string
  cpt_cert_file :: string
  cpt_key_file :: string
  cpt_crl_file :: string

datatype ctl_target = Socket string | ControlPlane control_plane

text \<open>A flag and the argument after it are taken out; a flag that is the last argument panics (\<open>None\<close>).\<close>

definition extract_flag :: "string \<Rightarrow> string list \<Rightarrow> (string option \<times> string list) option" where
  "extract_flag name args = (case dropWhile (\<lambda>a. a \<noteq> name) args of
       [] \<Rightarrow> Some (None, args)
     | [_] \<Rightarrow> None
     | _ # v # rest \<Rightarrow> Some (Some v, takeWhile (\<lambda>a. a \<noteq> name) args @ rest))"

definition resolve_target :: "string \<Rightarrow> string option \<Rightarrow> string option \<Rightarrow> string option \<Rightarrow> string option \<Rightarrow>
    string option \<Rightarrow> string option \<Rightarrow> (ctl_target, string) result" where
  "resolve_target socket control_plane_addr node tls_ca_file tls_cert_file tls_key_file tls_crl_file =
     (case (control_plane_addr, node, tls_ca_file, tls_cert_file, tls_key_file, tls_crl_file) of
        (Some addr, node, Some ca, Some crt, Some key, Some crl) \<Rightarrow>
          Ok (ControlPlane \<lparr>cpt_addr = addr, cpt_node = node, cpt_ca_file = ca, cpt_cert_file = crt, cpt_key_file = key, cpt_crl_file = crl\<rparr>)
      | (Some _, _, _, _, _, _) \<Rightarrow>
          Err ''--tls-ca-file, --tls-cert-file, --tls-key-file, and --tls-crl-file are all required with --control-plane-addr''
      | (None, Some _, _, _, _, _) \<Rightarrow> Err ''--node requires --control-plane-addr''
      | (None, None, _, _, _, _) \<Rightarrow> Ok (Socket socket))"

definition jails_path :: "ctl_target \<Rightarrow> string \<Rightarrow> string" where
  "jails_path t path = (case t of
       Socket _ \<Rightarrow> path
     | ControlPlane c \<Rightarrow> (case cpt_node c of Some n \<Rightarrow> ''/nodes/'' @ n @ path | None \<Rightarrow> path))"

section \<open>Requests\<close>

record 'w ctl_env =
  ce_read_file :: "string \<Rightarrow> (string, string) result"
  ce_socket :: "string \<Rightarrow> string \<Rightarrow> 'w \<Rightarrow> (string, string) result \<times> 'w"
  ce_tls :: "control_plane \<Rightarrow> string \<Rightarrow> 'w \<Rightarrow> (string, string) result \<times> 'w"
  ce_parse_response :: "string \<Rightarrow> response_head parse_status"
  ce_error_body :: "string \<Rightarrow> (string, string) result"
  ce_api :: ipnet_api
  ce_kind :: "string \<Rightarrow> (string, string) result"
  ce_jail :: "string \<Rightarrow> (jail_spec, string) result"
  ce_service :: "string \<Rightarrow> (service_spec, string) result"
  ce_ingress :: "string \<Rightarrow> (ingress_spec, string) result"
  ce_show_spec_error :: "spec_error \<Rightarrow> string"

definition ctl_parse_response :: "'w ctl_env \<Rightarrow> string \<Rightarrow> (nat \<times> string, string) result" where
  "ctl_parse_response env response = (case ce_parse_response env response of
       Malformed e \<Rightarrow> Err (''malformed response: '' @ e)
     | Partial \<Rightarrow> Err ''incomplete response from server''
     | Complete header_len h \<Rightarrow>
         (let status = (case sh_code h of Some c \<Rightarrow> c | None \<Rightarrow> 0) in
          and_then (ok_or ''response missing Content-Length header'' (content_length (sh_headers h))) (\<lambda>clen.
            let actual = length response - header_len in
            if actual \<noteq> clen then Err (''truncated response: expected '' @ show_nat clen @ '' bytes, got '' @ show_nat actual)
            else Ok (status, lossy (drop header_len response)))))"

definition ctl_answer :: "'w ctl_env \<Rightarrow> (string, string) result \<times> 'w \<Rightarrow> (nat \<times> string, string) result \<times> 'w" where
  "ctl_answer env = (\<lambda>(r, w). (and_then r (ctl_parse_response env), w))"

definition ctl_send_request :: "'w ctl_env \<Rightarrow> string \<Rightarrow> string \<Rightarrow> string \<Rightarrow> string \<Rightarrow> 'w \<Rightarrow> (nat \<times> string, string) result \<times> 'w" where
  "ctl_send_request env socket http_method path body w =
     ctl_answer env (ce_socket env socket (request_text http_method path body) w)"

definition ctl_send_request_tcp :: "'w ctl_env \<Rightarrow> control_plane \<Rightarrow> string \<Rightarrow> string \<Rightarrow> string \<Rightarrow> 'w \<Rightarrow> (nat \<times> string, string) result \<times> 'w" where
  "ctl_send_request_tcp env c http_method path body w =
     ctl_answer env (ce_tls env c (request_text http_method path body) w)"

definition dispatch :: "'w ctl_env \<Rightarrow> ctl_target \<Rightarrow> string \<Rightarrow> string \<Rightarrow> string \<Rightarrow> 'w \<Rightarrow> (nat \<times> string, string) result \<times> 'w" where
  "dispatch env t http_method path body = (case t of
       Socket socket \<Rightarrow> ctl_send_request env socket http_method path body
     | ControlPlane c \<Rightarrow> ctl_send_request_tcp env c http_method path body)"

definition success_body :: "'w ctl_env \<Rightarrow> (nat \<times> string, string) result \<Rightarrow> (string, string) result" where
  "success_body env r = and_then r (\<lambda>(status, body).
     if 200 \<le> status \<and> status < 300 then Ok body
     else Err (case ce_error_body env body of Ok m \<Rightarrow> m | Err _ \<Rightarrow> body))"

text \<open>Most sub-commands end in one request whose body is not shown.\<close>

definition silent_request :: "'w ctl_env \<Rightarrow> ctl_target \<Rightarrow> string \<Rightarrow> string \<Rightarrow> string \<Rightarrow> 'w \<Rightarrow> (string, string) result \<times> 'w" where
  "silent_request env t http_method path body w = (case dispatch env t http_method path body w of
     (r, w') \<Rightarrow> (and_then (success_body env r) (\<lambda>_. Ok []), w'))"

section \<open>Sub-commands\<close>

definition invalid_spec :: "'w ctl_env \<Rightarrow> spec_error \<Rightarrow> string" where
  "invalid_spec env e = ''invalid spec: '' @ ce_show_spec_error env e"

definition apply_yaml :: "'w ctl_env \<Rightarrow> ctl_target \<Rightarrow> string \<Rightarrow> 'w \<Rightarrow> (string, string) result \<times> 'w" where
  "apply_yaml env t yaml w = (case sniff_kind (ce_kind env) yaml of
       Err e \<Rightarrow> (Err (invalid_spec env e), w)
     | Ok kind \<Rightarrow>
         if kind = ''Service'' then (case parse_and_validate_service (ce_service env) yaml of
             Err e \<Rightarrow> (Err (invalid_spec env e), w)
           | Ok s \<Rightarrow> silent_request env t ''PUT'' (jails_path t (''/services/'' @ md_name (ss_metadata s))) yaml w)
         else if kind = ''Ingress'' then (case parse_and_validate_ingress (ce_ingress env) yaml of
             Err e \<Rightarrow> (Err (invalid_spec env e), w)
           | Ok s \<Rightarrow> silent_request env t ''PUT'' (''/ingress/'' @ md_name (is_metadata s)) yaml w)
         else (case parse_and_validate (ce_api env) (ce_jail env) yaml of
             Err e \<Rightarrow> (Err (invalid_spec env e), w)
           | Ok s \<Rightarrow> silent_request env t ''PUT'' (jails_path t (''/jails/'' @ md_name (js_metadata s))) yaml w))"

definition run_apply :: "'w ctl_env \<Rightarrow> ctl_target \<Rightarrow> string list \<Rightarrow> 'w \<Rightarrow> (string, string) result \<times> 'w" where
  "run_apply env t args w = (case dropWhile (\<lambda>a. a \<noteq> ''-f'') args of
       _ # path # _ \<Rightarrow> (case ce_read_file env path of
           Err e \<Rightarrow> (Err (''failed to read '' @ path @ '': '' @ e), w)
         | Ok yaml \<Rightarrow> apply_yaml env t yaml w)
     | _ \<Rightarrow> (Err ''apply requires -f FILE'', w))"

definition get_or_delete_with_service_fallback :: "'w ctl_env \<Rightarrow> ctl_target \<Rightarrow> string \<Rightarrow> string \<Rightarrow> 'w \<Rightarrow> (string, string) result \<times> 'w" where
  "get_or_delete_with_service_fallback env t http_method name w0 =
     (case dispatch env t http_method (jails_path t (''/jails/'' @ name)) [] w0 of
        (Err e, w1) \<Rightarrow> (Err e, w1)
      | (Ok (status, body), w1) \<Rightarrow>
          if status \<noteq> 404 then (success_body env (Ok (status, body)), w1)
          else (case dispatch env t http_method (jails_path t (''/services/'' @ name)) [] w1 of
             (Err e, w2) \<Rightarrow> (Err e, w2)
           | (Ok (service_status, service_body), w2) \<Rightarrow>
               if service_status \<noteq> 404 then (success_body env (Ok (service_status, service_body)), w2)
               else (case dispatch env t http_method (''/ingress/'' @ name) [] w2 of
                  (Err e, w3) \<Rightarrow> (Err e, w3)
                | (Ok (ingress_status, ingress_body), w3) \<Rightarrow>
                    (success_body env (Ok (if ingress_status = 404 then (status, body) else (ingress_status, ingress_body))), w3))))"

definition run_get :: "'w ctl_env \<Rightarrow> ctl_target \<Rightarrow> string list \<Rightarrow> 'w \<Rightarrow> (string, string) result \<times> 'w" where
  "run_get env t args w = (case args of
       name # _ \<Rightarrow> get_or_delete_with_service_fallback env t ''GET'' name w
     | [] \<Rightarrow> (case dispatch env t ''GET'' (jails_path t ''/jails'') [] w of (r, w') \<Rightarrow> (success_body env r, w')))"

definition run_delete :: "'w ctl_env \<Rightarrow> ctl_target \<Rightarrow> string list \<Rightarrow> 'w \<Rightarrow> (string, string) result \<times> 'w" where
  "run_delete env t args w = (case args of
       name # _ \<Rightarrow> (case get_or_delete_with_service_fallback env t ''DELETE'' name w of (r, w') \<Rightarrow> (and_then r (\<lambda>_. Ok []), w'))
     | [] \<Rightarrow> (Err ''delete requires a jail name'', w))"

definition run_delete_volume :: "'w ctl_env \<Rightarrow> ctl_target \<Rightarrow> string list \<Rightarrow> 'w \<Rightarrow> (string, string) result \<times> 'w" where
  "run_delete_volume env t args w = (case args of
       name # _ \<Rightarrow> silent_request env t ''DELETE'' (jails_path t (''/volumes/'' @ name)) [] w
     | [] \<Rightarrow> (Err ''delete-volume requires a volume name'', w))"

definition run_force_repin :: "'w ctl_env \<Rightarrow> ctl_target \<Rightarrow> string list \<Rightarrow> 'w \<Rightarrow> (string, string) result \<times> 'w" where
  "run_force_repin env t args w = (case args of
       name # _ \<Rightarrow> silent_request env t ''POST'' (jails_path t (''/replicas/'' @ name @ ''/force-repin'')) [] w
     | [] \<Rightarrow> (Err ''force-repin requires a replica name'', w))"

section \<open>main\<close>

datatype ctl_exit = Usage | Success string | Failure string

text \<open>The flags in the order in which they are taken out.\<close>

fun extract_flags :: "string list \<Rightarrow> string list \<Rightarrow> (string option list \<times> string list) option" where
  "extract_flags [] args = Some ([], args)"
| "extract_flags (n # ns) args = (case extract_flag n args of
       None \<Rightarrow> None
     | Some (v, rest) \<Rightarrow> (case extract_flags ns rest of None \<Rightarrow> None | Some (vs, left) \<Rightarrow> Some (v # vs, left)))"

definition run_command :: "'w ctl_env \<Rightarrow> ctl_target \<Rightarrow> string list \<Rightarrow> 'w \<Rightarrow> ctl_exit \<times> 'w" where
  "run_command env t args w =
     (let finish = (\<lambda>(r, w'). (case r of Ok x \<Rightarrow> Success x | Err m \<Rightarrow> Failure m, w')) in
      case args of
        [] \<Rightarrow> (Usage, w)
      | cmd # rest \<Rightarrow>
          if cmd = ''apply'' then finish (run_apply env t rest w)
          else if cmd = ''get'' then finish (run_get env t rest w)
          else if cmd = ''delete'' then finish (run_delete env t rest w)
          else if cmd = ''delete-volume'' then finish (run_delete_volume env t rest w)
          else if cmd = ''force-repin'' then finish (run_force_repin env t rest w)
          else (Usage, w))"

definition keelctl :: "'w ctl_env \<Rightarrow> string list \<Rightarrow> 'w \<Rightarrow> (ctl_exit \<times> 'w) option" where
  "keelctl env args w =
     (case extract_flags [''--socket'', ''--control-plane-addr'', ''--node'', ''--tls-ca-file'', ''--tls-cert-file'', ''--tls-key-file'',
          ''--tls-crl-file''] args of
        Some ([socket, addr, node, ca, crt, key, crl], rest) \<Rightarrow>
          (case resolve_target (case socket of Some s \<Rightarrow> s | None \<Rightarrow> DEFAULT_SOCKET) addr node ca crt key crl of
             Err m \<Rightarrow> Some (Failure m, w)
           | Ok t \<Rightarrow> Some (run_command env t rest w))
      | _ \<Rightarrow> None)"

end
