(* ===== verification/Keel_Httparse.thy ===== *)
theory Keel_Httparse
  imports Keel_Http Keel_Ipnet
begin

text \<open>
  The crate \<open>httparse\<close>, which both servers and all clients rely on: its documented behaviour on the messages
  these programs write is the interface \<open>http_crate\<close>. A reader that gets a request in pieces therefore gets
  the request, and a client that gets a part of an answer notices it. A small parser is an instance.
\<close>

section \<open>The parser of both sides\<close>

definition path_ok :: "string \<Rightarrow> bool" where
  "path_ok p \<longleftrightarrow> take 1 p = ''/'' \<and> list_all (\<lambda>c. of_char c \<in> {0x21..0x7E :: nat}) p"

definition head_of :: "string \<Rightarrow> string \<Rightarrow> string \<Rightarrow> request_head" where
  "head_of m p b = \<lparr>rh_method = Some m, rh_path = Some p,
     rh_headers = [(''Host'', ''localhost''), (''Content-Length'', show_nat (length b))]\<rparr>"

definition answer_head :: "nat \<Rightarrow> string \<Rightarrow> response_head" where
  "answer_head st b = \<lparr>sh_code = Some st, sh_headers = [(''Content-Length'', show_nat (length b)),
     (''Content-Type'', ''application/yaml''), (''Connection'', ''close'')]\<rparr>"

text \<open>An answer of either server, which differ in the phrases.\<close>

definition answer_text :: "nat \<Rightarrow> string \<Rightarrow> string \<Rightarrow> string" where
  "answer_text st phrase b =
     ''HTTP/1.1 '' @ show_nat st @ '' '' @ phrase @ crlf @ ''Content-Length: '' @ show_nat (length b) @ crlf @
     ''Content-Type: application/yaml'' @ crlf @ ''Connection: close'' @ crlf @ crlf @ b"

definition phrase_ok :: "string \<Rightarrow> bool" where
  "phrase_ok s \<longleftrightarrow> list_all (\<lambda>c. of_char c \<in> {0x20..0x7E :: nat}) s"

definition head_len :: "string \<Rightarrow> string \<Rightarrow> string \<Rightarrow> nat" where
  "head_len m p b = length (request_text m p b) - length b"

locale http_crate =
  fixes preq :: "string \<Rightarrow> request_head parse_status" and presp :: "string \<Rightarrow> response_head parse_status"
  assumes request: "m \<in> {''GET'', ''PUT'', ''DELETE'', ''POST''} \<Longrightarrow> path_ok p \<Longrightarrow>
      preq (take k (request_text m p b)) = (if k < head_len m p b then Partial else Complete (head_len m p b) (head_of m p b))"
    and response: "100 \<le> st \<Longrightarrow> st \<le> 999 \<Longrightarrow> phrase_ok phrase \<Longrightarrow> presp (take k (answer_text st phrase b)) =
      (if k < length (answer_text st phrase b) - length b then Partial
       else Complete (length (answer_text st phrase b) - length b) (answer_head st b))"

section \<open>A request in pieces\<close>

lemma content_length_skip:
  "length b \<le> u64_max \<Longrightarrow> content_length [(''Host'', ''localhost''), (''Content-Length'', show_nat (length b))] = Some (length b)"
proof -
  assume "length b \<le> u64_max"
  then have "content_length [(''Content-Length'', show_nat (length b))] = Some (length b)" by (rule content_length_number)
  moreover have "\<not> eq_ignore_ascii_case ''Host'' ''content-length''" by code_simp
  ultimately show ?thesis by (simp add: content_length_def)
qed

lemma request_text_length: "length b \<le> length (request_text m p b)"
  by (simp add: request_text_def)

lemma request_text_drop: "drop (head_len m p b) (request_text m p b) = b"
proof -
  obtain h where "request_text m p b = h @ b" by (simp add: request_text_def)
  then show ?thesis by (simp add: head_len_def)
qed

lemma read_head_pieces:
  assumes "\<And>k. parse (take k T) = (if k < H then Partial else Complete H h)" "H \<le> length T"
    and "buf @ concat cs = T" "[] \<notin> set cs"
  shows "read_head parse buf (map Ok cs) = Ok None \<and> MAX_MESSAGE_BYTES < H \<or>
    (\<exists>full rest. read_head parse buf (map Ok cs) = Ok (Some (H, h, full, map Ok rest)) \<and> full @ concat rest = T \<and> [] \<notin> set rest)"
  using assms(3,4)
proof (induction cs arbitrary: buf)
  case Nil
  then have "parse buf = Complete H h" using assms(1) [of "length T"] assms(2) by simp
  with Nil show ?case by (subst read_head.simps, subst (2) read_head.simps) simp
next
  case (Cons c cs)
  have p: "parse buf = (if length buf < H then Partial else Complete H h)" using assms(1) [of "length buf"] Cons.prems(1) by (metis append_eq_conv_conj)
  show ?case
  proof (cases "length buf < H \<and> length buf < MAX_MESSAGE_BYTES")
    case True
    with Cons.prems p have "read_head parse buf (map Ok (c # cs)) = read_head parse (buf @ c) (map Ok cs)"
      by (subst read_head.simps) auto
    with Cons.IH [of "buf @ c"] Cons.prems show ?thesis by simp
  next
    case False
    with p Cons.prems show ?thesis
      by (auto simp: read_head.simps [of parse buf] split: if_splits intro!: exI [of _ buf] exI [of _ "c # cs"])
  qed
qed

lemma read_body_pieces:
  assumes "buf @ concat cs = T" "[] \<notin> set cs" "n \<le> length T"
  shows "\<exists>full. read_body n buf (map Ok cs) = Ok (Some full) \<and> take n full = take n T"
  using assms(1,2)
proof (induction cs arbitrary: buf)
  case Nil
  then show ?case using assms(3) by (simp add: read_body.simps)
next
  case (Cons c cs)
  show ?case
  proof (cases "length buf < n")
    case True
    with Cons.prems have "read_body n buf (map Ok (c # cs)) = read_body n (buf @ c) (map Ok cs)" by (subst read_body.simps) auto
    with Cons.IH [of "buf @ c"] Cons.prems show ?thesis by simp
  next
    case False
    then show ?thesis using Cons.prems(1) by (auto simp: read_body.simps [of n buf] take_append)
  qed
qed

context http_crate
begin

lemma no_answer: "presp [] = Partial"
  using response [of 200 "[]" 0 "[]"] by (simp add: answer_text_def phrase_ok_def)

lemma whole_response:
  "100 \<le> st \<Longrightarrow> st \<le> 999 \<Longrightarrow> phrase_ok phrase \<Longrightarrow>
   presp (answer_text st phrase b) = Complete (length (answer_text st phrase b) - length b) (answer_head st b)"
  using response [of st phrase "length (answer_text st phrase b)" b] by simp

lemma read_pieces:
  assumes "m \<in> {''GET'', ''PUT'', ''DELETE'', ''POST''}" "path_ok p" "length (request_text m p b) < 2 ^ 64"
    and "concat cs = request_text m p b" "[] \<notin> set cs"
  shows "read_request preq (map Ok cs) = (if length (request_text m p b) \<le> MAX_MESSAGE_BYTES
    then Some (Ok (Some \<lparr>pr_method = m, pr_path = p, pr_body = b\<rparr>)) else Some (Ok None))"
proof -
  let ?T = "request_text m p b" and ?H = "head_len m p b"
  have H: "?H \<le> length ?T" "?H + length b = length ?T" using request_text_length [of b m p] by (simp_all add: head_len_def)
  have c: "content_length (rh_headers (head_of m p b)) = Some (length b)"
    using assms(3) H(2) by (simp add: head_of_def content_length_skip)
  from read_head_pieces [OF request [OF assms(1,2)] H(1), of "[]" cs] assms(4,5)
  consider (long) "read_head preq [] (map Ok cs) = Ok None" "MAX_MESSAGE_BYTES < ?H"
    | (head) full rest where "read_head preq [] (map Ok cs) = Ok (Some (?H, head_of m p b, full, map Ok rest))"
      "full @ concat rest = ?T" "[] \<notin> set rest" by auto
  then show ?thesis
  proof cases
    case long
    then show ?thesis using H(1) by (simp add: read_request_def)
  next
    case head
    obtain whole where w: "read_body (length ?T) full (map Ok rest) = Ok (Some whole)" "take (length ?T) whole = ?T"
      using read_body_pieces [OF head(2,3) order_refl] by auto
    have "take (length b) (drop ?H whole) = drop ?H (take (?H + length b) whole)" by (simp add: drop_take)
    also have "\<dots> = b" unfolding H(2) w(2) by (rule request_text_drop)
    finally have "take (length b) (drop ?H whole) = b" .
    moreover have "length ?T - ?H = length b" using H(2) by arith
    ultimately have b: "take (length ?T - ?H) (drop ?H whole) = b" by simp
    show ?thesis
      unfolding read_request_def head(1) using w(1) b c H assms(3) by (simp add: Let_def) (simp add: head_of_def)
  qed
qed

end

section \<open>Pieces\<close>

definition chops :: "(string \<Rightarrow> string list) \<Rightarrow> bool" where
  "chops f \<longleftrightarrow> (\<forall>s. concat (f s) = s \<and> [] \<notin> set (f s))"

section \<open>A reference parser\<close>

text \<open>Lines up to the empty one, with the number of bytes they take.\<close>

function head_lines :: "string \<Rightarrow> (string list \<times> nat) option" where
  "head_lines s = (case split_once (CHR 0x0A) s of
       None \<Rightarrow> None
     | Some (l, r) \<Rightarrow> if l = [CHR 0x0D] then Some ([], 2)
         else map_option (\<lambda>(ls, k). (butlast l # ls, k + length l + 1)) (head_lines r))"
  by pat_completeness auto

termination head_lines
  by (relation "measure length") (auto simp: split_once_Some_iff)

declare head_lines.simps [simp del]

definition ref_header :: "string \<Rightarrow> string \<times> string" where
  "ref_header h = (case split_once CHR '':'' h of Some (n, v) \<Rightarrow> (n, drop 1 v) | None \<Rightarrow> (h, []))"

definition ref_parse_request :: "string \<Rightarrow> request_head parse_status" where
  "ref_parse_request s = (case head_lines s of
       None \<Rightarrow> Partial
     | Some (start # hs, k) \<Rightarrow> (case split_char CHR '' '' start of
           [m, p, _] \<Rightarrow> Complete k \<lparr>rh_method = Some m, rh_path = Some p, rh_headers = map ref_header hs\<rparr>
         | _ \<Rightarrow> Malformed ''request line'')
     | Some ([], k) \<Rightarrow> Malformed ''empty'')"

definition ref_parse_response :: "string \<Rightarrow> response_head parse_status" where
  "ref_parse_response s = (case head_lines s of
       None \<Rightarrow> Partial
     | Some (start # hs, k) \<Rightarrow> (case split_char CHR '' '' start of
           _ # code # _ \<Rightarrow> Complete k \<lparr>sh_code = parse_uint 999 code, sh_headers = map ref_header hs\<rparr>
         | _ \<Rightarrow> Malformed ''status line'')
     | Some ([], k) \<Rightarrow> Malformed ''empty'')"

definition as_lines :: "string list \<Rightarrow> string" where
  "as_lines ls = concat (map (\<lambda>l. l @ crlf) ls) @ crlf"

lemma head_lines_take:
  assumes "\<forall>l \<in> set ls. l \<noteq> [] \<and> CHR 0x0A \<notin> set l"
  shows "head_lines (take k (as_lines ls @ b)) = (if k < length (as_lines ls) then None else Some (ls, length (as_lines ls)))"
  using assms
proof (induction ls arbitrary: k)
  case Nil
  show ?case
  proof (cases "k < 2")
    case True
    then have "split_once (CHR 0x0A) (take k (as_lines [] @ b)) = None" by (auto simp: split_once_None_iff as_lines_def less_Suc_eq numeral_2_eq_2)
    with True show ?thesis by (simp add: head_lines.simps as_lines_def)
  next
    case False
    then have "split_once (CHR 0x0A) (take k (as_lines [] @ b)) = Some ([CHR 0x0D], take (k - 2) b)"
      by (simp add: split_once_Some_iff as_lines_def take_Cons' eval_nat_numeral)
    with False show ?thesis by (simp add: head_lines.simps as_lines_def)
  qed
next
  case (Cons l ls)
  have e: "as_lines (l # ls) @ b = (l @ [CHR 0x0D]) @ CHR 0x0A # (as_lines ls @ b)" by (simp add: as_lines_def)
  have len: "length (as_lines (l # ls)) = length l + 2 + length (as_lines ls)" by (simp add: as_lines_def)
  show ?case
  proof (cases "k \<le> length l + 1")
    case True
    then have "take k (as_lines (l # ls) @ b) = take k (l @ [CHR 0x0D])" unfolding e by (simp only: take_append) simp
    moreover have "CHR 0x0A \<notin> set (take k (l @ [CHR 0x0D]))" using Cons.prems by (auto dest!: in_set_takeD)
    ultimately have "split_once (CHR 0x0A) (take k (as_lines (l # ls) @ b)) = None" by (simp only: split_once_None_iff) simp
    with True len show ?thesis by (simp add: head_lines.simps)
  next
    case False
    then obtain j where j: "k = length (l @ [CHR 0x0D]) + Suc j" by (metis add.commute add_Suc_right less_imp_Suc_add length_append_singleton not_le plus_1_eq_Suc)
    then have "take k (as_lines (l # ls) @ b) = (l @ [CHR 0x0D]) @ CHR 0x0A # take j (as_lines ls @ b)" unfolding e by simp
    moreover have "CHR 0x0A \<notin> set (l @ [CHR 0x0D])" using Cons.prems by simp
    ultimately have "split_once (CHR 0x0A) (take k (as_lines (l # ls) @ b)) = Some (l @ [CHR 0x0D], take j (as_lines ls @ b))"
      by (simp only: split_once_Some_iff) simp
    then have "head_lines (take k (as_lines (l # ls) @ b)) =
        map_option (\<lambda>(ls, k). (butlast (l @ [CHR 0x0D]) # ls, k + length (l @ [CHR 0x0D]) + 1)) (head_lines (take j (as_lines ls @ b)))"
      using Cons.prems by (subst head_lines.simps) simp
    with Cons.IH [of j] Cons.prems len j show ?thesis by simp
  qed
qed

lemma show_nat_clean: "CHR '' '' \<notin> set (show_nat n)" "CHR 0x0A \<notin> set (show_nat n)" "show_nat n \<noteq> []"
  using show_nat_digits [of n] by (auto simp: list_all_iff is_ascii_digit_def)

lemma ref_headers:
  "ref_header ''Host: localhost'' = (''Host'', ''localhost'')" "ref_header (''Content-Length: '' @ d) = (''Content-Length'', d)"
  "ref_header ''Content-Type: application/yaml'' = (''Content-Type'', ''application/yaml'')" "ref_header ''Connection: close'' = (''Connection'', ''close'')"
  by (simp_all add: ref_header_def)

lemma ref_request:
  assumes "m \<in> {''GET'', ''PUT'', ''DELETE'', ''POST''}" "path_ok p"
  shows "ref_parse_request (take k (request_text m p b)) = (if k < head_len m p b then Partial else Complete (head_len m p b) (head_of m p b))"
proof -
  let ?start = "m @ CHR '' '' # p @ CHR '' '' # ''HTTP/1.1''"
  let ?ls = "[?start, ''Host: localhost'', ''Content-Length: '' @ show_nat (length b)]"
  have t: "request_text m p b = as_lines ?ls @ b" by (simp add: request_text_def as_lines_def)
  then have H: "head_len m p b = length (as_lines ?ls)" by (simp add: head_len_def)
  have m: "CHR '' '' \<notin> set m" "CHR 0x0A \<notin> set m" "m \<noteq> []" using assms(1) by auto
  have p: "CHR '' '' \<notin> set p" "CHR 0x0A \<notin> set p" using assms(2) by (auto simp: path_ok_def list_all_iff)
  have "\<forall>l \<in> set ?ls. l \<noteq> [] \<and> CHR 0x0A \<notin> set l" using m p show_nat_clean [of "length b"] by simp
  note l = head_lines_take [OF this, of k b]
  have "split_char CHR '' '' ?start = [m, p, ''HTTP/1.1'']"
    using split_char_append [OF m(1)] split_char_append [OF p(1)] split_char_notin [of "CHR '' ''" "''HTTP/1.1''"] by simp
  then show ?thesis unfolding t H ref_parse_request_def l using ref_headers by (simp add: head_of_def del: append.simps)
qed

lemma ref_response:
  assumes "st \<le> 999" "phrase_ok phrase"
  shows "ref_parse_response (take k (answer_text st phrase b)) = (if k < length (answer_text st phrase b) - length b then Partial
    else Complete (length (answer_text st phrase b) - length b) (answer_head st b))"
proof -
  let ?start = "''HTTP/1.1'' @ CHR '' '' # show_nat st @ CHR '' '' # phrase"
  let ?ls = "[?start, ''Content-Length: '' @ show_nat (length b), ''Content-Type: application/yaml'', ''Connection: close'']"
  have t: "answer_text st phrase b = as_lines ?ls @ b" by (simp add: answer_text_def as_lines_def)
  then have H: "length (answer_text st phrase b) - length b = length (as_lines ?ls)" by simp
  have "CHR 0x0A \<notin> set phrase" using assms(2) by (auto simp: phrase_ok_def list_all_iff)
  then have "\<forall>l \<in> set ?ls. l \<noteq> [] \<and> CHR 0x0A \<notin> set l" using show_nat_clean by simp
  note l = head_lines_take [OF this, of k b]
  have "split_char CHR '' '' ?start = ''HTTP/1.1'' # show_nat st # split_char CHR '' '' phrase"
    using split_char_append [of "CHR '' ''" "''HTTP/1.1''"] split_char_append [OF show_nat_clean(1)] by simp
  then show ?thesis unfolding H unfolding t ref_parse_response_def l using ref_headers assms(1) by (simp add: answer_head_def del: append.simps)
qed

interpretation ref_http: http_crate ref_parse_request ref_parse_response
  by unfold_locales (rule ref_request ref_response; assumption)+

end
