(* ===== verification/Ctl_Agent.thy ===== *)
theory Ctl_Agent
  imports Ctl_Main Ag_Service Keel_Httparse
begin

text \<open>
  The client and an agent together: \<open>keelctl\<close> writes a request to the socket, the agent reads it in whatever
  pieces it arrives, answers, and the client reads the answer.
\<close>

section \<open>The statuses of an agent\<close>

abbreviation agent_statuses :: "nat set" where
  "agent_statuses \<equiv> {200, 400, 404, 409, 500}"

lemma status_for_error_range: "status_for_error e \<in> agent_statuses"
  by (simp add: status_for_error_def split: reconcile_error.splits spec_error.splits zfs_error.splits)

lemma answer_result_status: "fst (answer_result b s) \<in> agent_statuses"
  using status_for_error_range by (auto simp: answer_result_def aworker_failed_def aerror_def split: asent.splits areply.splits result.splits)

lemma on_worker_status: "(\<And>s. fst (f s) \<in> A) \<Longrightarrow> fst (fst (on_worker ag c f worker)) \<in> A"
  by (simp add: on_worker_def split: prod.splits)

lemma handle_apply_status: "fst (fst (handle_apply ag y n b cidr worker)) \<in> agent_statuses"
proof -
  have "fst (fst (on_worker ag c (answer_result AbEmpty) worker)) \<in> agent_statuses" for c
    by (rule on_worker_status, rule answer_result_status)
  then show ?thesis by (auto simp: handle_apply_def aerror_def split: result.splits option.splits)
qed

section \<open>keelctl at the socket of an agent\<close>

text \<open>An answer of an agent has the form \<open>httparse\<close> is known to read.\<close>

lemma awrite_response_text: "awrite_response st b = answer_text st (areason_phrase st) b"
  by (simp add: awrite_response_def answer_text_def)

lemma areason_phrase_ok: "phrase_ok (areason_phrase st)"
  by (simp add: areason_phrase_def phrase_ok_def)

lemma answer_cut:
  assumes "http_crate preq presp" "100 \<le> st" "st \<le> 999"
  shows "presp (take k (awrite_response st b)) = (if k < length (awrite_response st b) - length b then Partial
    else Complete (length (awrite_response st b) - length b) (answer_head st b))"
  unfolding awrite_response_text by (rule http_crate.response [OF assms areason_phrase_ok])

lemma answer_parsed:
  assumes "http_crate preq presp" "100 \<le> st" "st \<le> 999"
  shows "presp (awrite_response st b) = Complete (length (awrite_response st b) - length b) (answer_head st b)"
  unfolding awrite_response_text by (rule http_crate.whole_response [OF assms areason_phrase_ok])

lemma parse_uint_mono: "parse_uint m s = Some c \<Longrightarrow> m \<le> m' \<Longrightarrow> parse_uint m' s = Some c"
  by (auto simp: parse_uint_def Let_def split: if_splits)

lemma parse_uint_show: "parse_uint m (show_nat n) = Some c \<Longrightarrow> c = n"
  using parse_uint_mono [of m "show_nat n" c "max m n"] parse_uint_show_nat [of n "max m n"] by simp

lemma answer_length: "content_length (sh_headers (answer_head st b)) = Some c \<Longrightarrow> c = length b"
  by (auto simp: answer_head_def content_length_def eq_ignore_ascii_case_def lower_content_length trim_digits show_nat_digits intro: parse_uint_show)

text \<open>The client takes an answer for one only when all of it has arrived.\<close>

lemma answer_whole:
  assumes "http_crate preq (ce_parse_response env)" "100 \<le> st" "st \<le> 999"
    and "ctl_parse_response env (take k (awrite_response st b)) = Ok (x, y)"
  shows "x = st \<and> length (awrite_response st b) \<le> k"
proof -
  obtain h where h: "awrite_response st b = h @ b" by (simp add: awrite_response_def)
  then have "ce_parse_response env (take k (h @ b)) = (if k < length h then Partial else Complete (length h) (answer_head st b))"
    using answer_cut [OF assms(1-3), of k b] by simp
  moreover have "sh_code (answer_head st b) = Some st" by (simp add: answer_head_def)
  ultimately have "x = st \<and> length h \<le> k \<and> length (take k (h @ b)) - length h = length b"
    using assms(4) answer_length [of st b] unfolding ctl_parse_response_def h
    by (cases "content_length (sh_headers (answer_head st b))") (auto simp: Let_def split: if_splits)
  then show ?thesis by (auto simp: h)
qed

text \<open>What can happen to an exchange: nobody listens at the socket; the connection breaks after some bytes of the
  request have reached the agent, who serves what it has read, and the client gets an error; or the client reads the
  first \<open>k\<close> bytes of the answer before the connection is closed.\<close>

datatype link = NoListener string | Broken nat string | Closed nat

text \<open>An exchange: the agent gets the bytes in the pieces \<open>chop\<close> and serves the connection.\<close>

definition agent_socket :: "'s agent \<Rightarrow> ayaml \<Rightarrow> 'r aslots \<Rightarrow> (string \<Rightarrow> request_head parse_status) \<Rightarrow> (abody \<Rightarrow> string) \<Rightarrow>
    (string \<Rightarrow> string list) \<Rightarrow> link \<Rightarrow> string \<Rightarrow> string \<Rightarrow> 's aw option \<Rightarrow> (string, string) result \<times> 's aw option" where
  "agent_socket ag y slots preq render chop lk path bytes worker = (case lk of
       NoListener e \<Rightarrow> (Err e, worker)
     | Broken j e \<Rightarrow> (Err e, snd (aconnection ag y slots preq render (map Ok (chop (take j bytes))) worker))
     | Closed k \<Rightarrow> (case aconnection ag y slots preq render (map Ok (chop bytes)) worker of
          (answer, worker') \<Rightarrow> (Ok (take k (case answer of Some t \<Rightarrow> t | None \<Rightarrow> [])), worker')))"

lemma path_ok_jail: "validate_name n = Ok () \<Longrightarrow> path_ok (''/jails/'' @ n) \<and> path_segments (''/jails/'' @ n) = [''jails'', n]"
proof -
  assume n: "validate_name n = Ok ()"
  then have cs: "is_ascii_lowercase c \<or> is_ascii_digit c \<or> c = CHR ''-''" if "c \<in> set n" for c
    using that by (auto simp: validate_name_Ok_iff)
  then have "of_char c \<in> {0x21..0x7E :: nat}" "c \<noteq> CHR ''/''" if "c \<in> set n" for c
    using that by (fastforce simp: is_ascii_lowercase_def is_ascii_digit_def)+
  then have c: "list_all (\<lambda>c. of_char c \<in> {0x21..0x7E :: nat}) n" "CHR ''/'' \<notin> set n" by (auto simp: list_all_iff)
  have "split_char CHR ''/'' n = [n]" using c(2) by (induction n) auto
  with c n show ?thesis
    by (simp add: path_ok_def path_segments_def trim_start_matches_def validate_name_Ok_iff)
qed

lemma request_served:
  assumes "http_crate preq (ce_parse_response env)" "ce_socket env = agent_socket ag y slots preq render chop lk" "chops chop"
    and "validate_name n = Ok ()" "length (request_text ''PUT'' (''/jails/'' @ n) b) < 2 ^ 64"
    and "silent_request env (Socket sp) ''PUT'' (''/jails/'' @ n) b worker = (Ok out, worker')"
  shows "out = [] \<and> (\<exists>body k. aroute ag y slots \<lparr>pr_method = ''PUT'', pr_path = ''/jails/'' @ n, pr_body = b\<rparr> worker = ((200, body), worker') \<and>
    lk = Closed k \<and> length (awrite_response 200 (render body)) \<le> k)"
proof -
  let ?p = "''/jails/'' @ n" and ?T = "request_text ''PUT'' (''/jails/'' @ n) b"
  let ?q = "\<lparr>pr_method = ''PUT'', pr_path = ?p, pr_body = b\<rparr>"
  have p: "path_ok ?p" "path_segments ?p = [''jails'', n]" using path_ok_jail [OF assms(4)] by blast+
  from assms(6) obtain answer x z where e: "ce_socket env sp ?T worker = (Ok answer, worker')" "ctl_parse_response env answer = Ok (x, z)"
    "200 \<le> x" "x < 300" "out = []"
    by (auto simp: silent_request_def dispatch_def ctl_send_request_def ctl_answer_def success_body_def split: if_splits prod.splits bind_splits)
  then obtain k where k: "lk = Closed k" by (cases lk) (auto simp: assms(2) agent_socket_def)
  have "read_request preq (map Ok (chop ?T)) = (if length ?T \<le> MAX_MESSAGE_BYTES then Some (Ok (Some ?q)) else Some (Ok None))"
    by (rule http_crate.read_pieces [OF assms(1) _ p(1) assms(5)]) (use assms(3) in \<open>auto simp: chops_def\<close>)
  then consider (read) "read_request preq (map Ok (chop ?T)) = Some (Ok (Some ?q))" | (none) "read_request preq (map Ok (chop ?T)) = Some (Ok None)"
    by (auto split: if_splits)
  then show ?thesis
  proof cases
    case none
    then have "answer = []" using e(1) by (simp add: assms(2) k agent_socket_def aconnection_def aread_request_def)
    with e(2) http_crate.no_answer [OF assms(1)] show ?thesis by (simp add: ctl_parse_response_def)
  next
    case read
    obtain st body worker1 where r: "aroute ag y slots ?q worker = ((st, body), worker1)" by (metis surj_pair)
    then have st: "st \<in> agent_statuses" using handle_apply_status [of ag y n b "as_pod_cidr slots" worker] p(2) by (simp add: aroute_def)
    then have range: "100 \<le> st" "st \<le> 999" by auto
    have "ce_socket env sp ?T worker = (Ok (take k (awrite_response st (render body))), worker1)"
      unfolding assms(2) k agent_socket_def aconnection_def aread_request_def read by (simp only: r link.case option.case result.case prod.case)
    with e(1) have a: "answer = take k (awrite_response st (render body))" "worker1 = worker'" by simp_all
    from answer_whole [OF assms(1) range e(2) [unfolded a(1)]] e(3-5) r a(2) st k show ?thesis by auto
  qed
qed

text \<open>The other direction: a request that fits, is answered with 200 and whose answer arrives makes the client succeed.\<close>

lemma request_acknowledged:
  assumes "http_crate preq (ce_parse_response env)" "ce_socket env = agent_socket ag y slots preq render chop (Closed k)" "chops chop"
    and "validate_name n = Ok ()" "length (request_text ''PUT'' (''/jails/'' @ n) b) \<le> MAX_MESSAGE_BYTES"
    and "aroute ag y slots \<lparr>pr_method = ''PUT'', pr_path = ''/jails/'' @ n, pr_body = b\<rparr> worker = ((200, body), worker')"
    and "length (render body) \<le> u64_max" "length (awrite_response 200 (render body)) \<le> k"
  shows "silent_request env (Socket sp) ''PUT'' (''/jails/'' @ n) b worker = (Ok [], worker')"
proof -
  let ?T = "request_text ''PUT'' (''/jails/'' @ n) b" and ?R = "awrite_response 200 (render body)"
  have l: "length ?T < 2 ^ 64" using assms(5) by (simp add: MAX_MESSAGE_BYTES_def)
  have "read_request preq (map Ok (chop ?T)) = (if length ?T \<le> MAX_MESSAGE_BYTES
      then Some (Ok (Some \<lparr>pr_method = ''PUT'', pr_path = ''/jails/'' @ n, pr_body = b\<rparr>)) else Some (Ok None))"
    by (rule http_crate.read_pieces [OF assms(1) _ conjunct1 [OF path_ok_jail [OF assms(4)]] l]) (use assms(3) in \<open>auto simp: chops_def\<close>)
  then have r: "read_request preq (map Ok (chop ?T)) = Some (Ok (Some \<lparr>pr_method = ''PUT'', pr_path = ''/jails/'' @ n, pr_body = b\<rparr>))"
    unfolding if_P [OF assms(5)] .
  have "ce_socket env sp ?T worker = (Ok (take k ?R), worker')"
    unfolding assms(2) agent_socket_def aconnection_def aread_request_def r by (simp only: assms(6) link.case option.case result.case prod.case)
  then have s: "ce_socket env sp ?T worker = (Ok ?R, worker')" using assms(8) by simp
  have c: "content_length (sh_headers (answer_head 200 (render body))) = Some (length (render body))"
    using content_length_number [OF assms(7)] by (simp add: answer_head_def content_length_def eq_ignore_ascii_case_def lower_content_length)
  have p: "ctl_parse_response env ?R = Ok (200, lossy (render body))"
  proof -
    obtain h where "?R = h @ render body" by (simp add: awrite_response_def)
    moreover have "100 \<le> (200 :: nat)" "200 \<le> (999 :: nat)" by simp_all
    note answer_parsed [OF assms(1) this, of "render body"]
    moreover have "sh_code (answer_head 200 (render body)) = Some 200" by (simp add: answer_head_def)
    ultimately show ?thesis using c by (simp add: ctl_parse_response_def)
  qed
  show ?thesis
    unfolding silent_request_def dispatch_def ctl_target.case ctl_send_request_def s ctl_answer_def by (simp add: p success_body_def)
qed

lemma extract_flag_none: "name \<notin> set args \<Longrightarrow> extract_flag name args = Some (None, args)"
proof -
  assume "name \<notin> set args"
  then have "dropWhile (\<lambda>a. a \<noteq> name) args = []" unfolding dropWhile_eq_Nil_conv by blast
  then show ?thesis by (simp only: extract_flag_def list.case)
qed

lemma extract_flags_none: "set ns \<inter> set args = {} \<Longrightarrow> extract_flags ns args = Some (map (\<lambda>_. None) ns, args)"
  by (induction ns) (auto simp: extract_flag_none)

lemma extract_flag_last: "name \<noteq> a \<Longrightarrow> name \<noteq> b \<Longrightarrow> extract_flag name [a, b, name] = None"
  by (simp add: extract_flag_def)

lemma extract_flags_last:
  "distinct ns \<Longrightarrow> c \<in> set ns \<Longrightarrow> a \<notin> set ns \<Longrightarrow> b \<notin> set ns \<Longrightarrow> extract_flags ns [a, b, c] = None"
proof (induction ns)
  case (Cons n ns)
  show ?case
  proof (cases "n = c")
    case True
    with Cons.prems show ?thesis using extract_flag_last [of c a b] by auto
  next
    case False
    with Cons.prems have "extract_flag n [a, b, c] = Some (None, [a, b, c])" by (intro extract_flag_none) auto
    with Cons False show ?thesis by simp
  qed
qed simp

text \<open>\<open>keelctl apply -f FILE\<close> at the default socket.\<close>

lemma keelctl_apply_eq:
  assumes "keelctl env [''apply'', ''-f'', path] w = Some (Success out, w')"
  shows "run_apply env (Socket DEFAULT_SOCKET) [''-f'', path] w = (Ok out, w')"
proof -
  let ?fs = "[''--socket'', ''--control-plane-addr'', ''--node'', ''--tls-ca-file'', ''--tls-cert-file'', ''--tls-key-file'', ''--tls-crl-file'']"
  have "path \<notin> set ?fs"
  proof
    assume "path \<in> set ?fs"
    moreover have "distinct ?fs" "''apply'' \<notin> set ?fs" "''-f'' \<notin> set ?fs" by simp_all
    ultimately have "extract_flags ?fs [''apply'', ''-f'', path] = None" by (intro extract_flags_last)
    with assms show False by (simp only: keelctl_def option.case) simp
  qed
  then have "extract_flags ?fs [''apply'', ''-f'', path] = Some (map (\<lambda>_. None) ?fs, [''apply'', ''-f'', path])"
    by (intro extract_flags_none) auto
  with assms have "run_command env (Socket DEFAULT_SOCKET) [''apply'', ''-f'', path] w = (Success out, w')"
    by (simp only: keelctl_def) (simp add: resolve_target_def)
  then show ?thesis by (auto simp: run_command_def Let_def split: prod.splits result.splits)
qed

section \<open>End to end\<close>

text \<open>C21: When \<open>keelctl apply -f FILE\<close> succeeds at the socket of an agent, standalone or registered, on any host and in whatever pieces the request reached
  it, then the agent has accepted exactly the valid spec of the file: the jail is in its records and the record is in the
  state directory (whether the jail itself came up is not part of the answer). The client never takes an exchange without a listener, a broken connection or an
  answer that was cut short for a success.\<close>

theorem keelctl_apply_end_to_end:
  assumes "http_crate preq (ce_parse_response env)" "ce_socket env = agent_socket ag y slots preq render chop lk" "chops chop"
    and "ce_jail env = ay_jail y" "ce_read_file env path = Ok yaml" "ce_kind env yaml = Ok ''Jail''" "length yaml < 2 ^ 63"
    and "keelctl env [''apply'', ''-f'', path] (Some w) = Some (Success out, worker')"
  shows "out = [] \<and> (\<exists>spec w' r. parse_and_validate (ce_api env) (ce_jail env) yaml = Ok spec \<and> worker' = Some w' \<and> jrec_spec r = spec \<and>
    hm_get (rc_records (aw_rc w')) (md_name (js_metadata spec)) = Some r \<and>
    hm_get (fs_files (rc_fs (aw_rc w'))) (ag_state_dir ag, yaml_file (md_name (js_metadata spec))) = Some (ag_jail_to_yaml ag r)) \<and>
    (\<exists>k. lk = Closed k \<and> length (awrite_response 200 (render AbEmpty)) \<le> k)"
proof -
  have "apply_yaml env (Socket DEFAULT_SOCKET) yaml (Some w) = (Ok out, worker')"
    using keelctl_apply_eq [OF assms(8)] assms(5) by (simp add: run_apply_def)
  then obtain spec where spec: "parse_and_validate (ce_api env) (ce_jail env) yaml = Ok spec"
    and s: "silent_request env (Socket DEFAULT_SOCKET) ''PUT'' (''/jails/'' @ md_name (js_metadata spec)) yaml (Some w) = (Ok out, worker')"
    using assms(6) by (auto simp: apply_yaml_def sniff_kind_def jails_path_def split: result.splits)
  let ?n = "md_name (js_metadata spec)"
  have n: "validate_name ?n = Ok ()" and y: "ay_jail y yaml = Ok spec"
    using spec assms(4) by (auto simp: parse_and_validate_def validate_jail_spec_def)
  have "length (show_nat (length yaml)) \<le> Suc 19" using assms(7) by (intro length_show_nat) simp
  moreover have "length ?n \<le> 63" using n by (simp add: validate_name_Ok_iff)
  ultimately have "length (request_text ''PUT'' (''/jails/'' @ ?n) yaml) < 2 ^ 64" using assms(7) by (simp add: request_text_def)
  from request_served [OF assms(1-3) n this s] obtain body k where out: "out = []" "lk = Closed k" "length (awrite_response 200 (render body)) \<le> k"
    and r: "aroute ag y slots \<lparr>pr_method = ''PUT'', pr_path = ''/jails/'' @ ?n, pr_body = yaml\<rparr> (Some w) = ((200, body), worker')" by blast
  from acknowledged_apply_is_durable [OF _ _ _ r, of ?n spec] path_ok_jail [OF n] y obtain w' t where
    "worker' = Some w'" "jrec_spec t = spec" "has_record ag ?n t (aw_rc w')" "body = AbEmpty" by auto
  with spec out show ?thesis by (auto simp: has_record_def)
qed

text \<open>The example agent behind its socket, without a block, reached byte by byte; the client reads up to 4096 bytes.\<close>

definition cex_slots :: "fake_host aslots" where
  "cex_slots = aex_slots\<lparr>as_pod_cidr := None\<rparr>"

definition cex_env :: "fake_host aw option ctl_env" where
  "cex_env = \<lparr>ce_read_file = \<lambda>_. Ok ''b'',
     ce_socket = agent_socket (aex_agent ipnet_ref) aex_yaml cex_slots ref_parse_request (\<lambda>_. []) (map (\<lambda>c. [c])) (Closed 4096),
     ce_tls = \<lambda>_ _ w. (Err ''none'', w), ce_parse_response = ref_parse_response, ce_error_body = Err,
     ce_api = ipnet_ref, ce_kind = \<lambda>_. Ok ''Jail'', ce_jail = ay_jail aex_yaml, ce_service = Err, ce_ingress = Err,
     ce_show_spec_error = \<lambda>_. ''e''\<rparr>"

lemma cex_spec_valid: "parse_and_validate ipnet_ref (ay_jail aex_yaml) ''b'' = Ok (aex_spec ''10.0.1.2/24'')"
proof -
  have "parse_memory_bytes ''1G'' = Ok (1024 ^ 3)"
    using parse_memory_bytes_unit [of "CHR ''G''" "1024 ^ 3" 1] by (simp add: unit_value_def)
  then have "validate_name ''j'' = Ok ()" "validate_volumes [\<lparr>vm_name = ''v'', vm_mount_path = ''/d'', vm_size = ''1G''\<rparr>] = Ok ()"
    by (simp_all add: validate_volumes_Ok_iff validate_name_Ok_iff is_ascii_lowercase_def)
  moreover have "validate_address ipnet_ref ''10.0.1.2/24'' = Ok ()"
    using aex_address by (simp add: validate_address_def ipnet_ref_def)
  ultimately show ?thesis
    using aex_resources by (simp add: parse_and_validate_def validate_jail_spec_def aex_yaml_def aex_spec_def)
qed

theorem keelctl_apply_end_to_end_witness:
  "\<exists>w' r. keelctl cex_env [''apply'', ''-f'', ''j.yaml''] (Some aex_aw) = Some (Success [], Some w') \<and>
     jrec_spec r = aex_spec ''10.0.1.2/24'' \<and> hm_get (rc_records (aw_rc w')) ''j'' = Some r"
proof -
  have c: "chops (map (\<lambda>c. [c]))" by (auto simp: chops_def concat_map_singleton)
  have e: "ce_socket cex_env = agent_socket (aex_agent ipnet_ref) aex_yaml cex_slots ref_parse_request (\<lambda>_. []) (map (\<lambda>c. [c])) (Closed 4096)"
    "http_crate ref_parse_request (ce_parse_response cex_env)" "ce_jail cex_env = ay_jail aex_yaml" "ce_read_file cex_env ''j.yaml'' = Ok ''b''"
    "ce_kind cex_env ''b'' = Ok ''Jail''"
    using ref_http.http_crate_axioms by (simp_all add: cex_env_def)
  have n: "validate_name ''j'' = Ok ()" by (simp add: validate_name_Ok_iff is_ascii_lowercase_def)
  obtain w' where r: "aroute (aex_agent ipnet_ref) aex_yaml cex_slots \<lparr>pr_method = ''PUT'', pr_path = ''/jails/'' @ ''j'', pr_body = ''b''\<rparr> (Some aex_aw) =
      ((200, AbEmpty), Some w')" using aex_put_accepted [of cex_slots] by (auto simp: aex_put_def cex_slots_def)
  have l: "length (request_text ''PUT'' (''/jails/'' @ ''j'') ''b'') \<le> MAX_MESSAGE_BYTES"
    by (simp add: request_text_def MAX_MESSAGE_BYTES_def)
  have "length (awrite_response 200 []) \<le> 4096"
    using length_show_nat [of 200 2] by (simp add: awrite_response_def areason_phrase_def)
  with request_acknowledged [OF e(2,1) c n l r]
  have "silent_request cex_env (Socket DEFAULT_SOCKET) ''PUT'' ''/jails/j'' ''b'' (Some aex_aw) = (Ok [], Some w')" by simp
  then have "apply_yaml cex_env (Socket DEFAULT_SOCKET) ''b'' (Some aex_aw) = (Ok [], Some w')"
    using cex_spec_valid e by (simp add: apply_yaml_def sniff_kind_def cex_env_def jails_path_def aex_spec_def)
  then have k: "keelctl cex_env [''apply'', ''-f'', ''j.yaml''] (Some aex_aw) = Some (Success [], Some w')"
    using e(4) by (simp add: keelctl_def extract_flags_none extract_flag_def resolve_target_def run_command_def run_apply_def)
  from keelctl_apply_end_to_end [OF e(2,1) c e(3-5) _ k] cex_spec_valid k show ?thesis
    by (auto simp: cex_env_def aex_spec_def)
qed

end
