(* ===== verification/Sys_Cluster.thy ===== *)
theory Sys_Cluster
  imports Ag_Node Keel_Httparse
begin

text \<open>
  An agent and its control plane together: the registration thread of the agent writes its requests to a
  connection of the control plane, which may be refused or cut while the answer is on its way.
\<close>

section \<open>The link\<close>

datatype fate = Refused | Answered nat

text \<open>An exchange: the control plane gets the request in the pieces \<open>chop\<close> and serves the connection; the agent gets
  the first bytes of the answer.\<close>

definition cp_link :: "'w env \<Rightarrow> (string \<Rightarrow> request_head parse_status) \<Rightarrow> (resp_body \<Rightarrow> string) \<Rightarrow> (string \<Rightarrow> string list) \<Rightarrow> fate \<Rightarrow>
    string \<Rightarrow> string \<Rightarrow> string \<Rightarrow> string \<Rightarrow> 'w hstate \<Rightarrow> (string, string) result \<times> 'w hstate" where
  "cp_link env preq render chop fate addr http_method path body hs =
     (case fate of
        Refused \<Rightarrow> (Err ''connection refused'', hs)
      | Answered k \<Rightarrow> (case cp_connection env preq render (map Ok (chop (request_text http_method path body))) hs of
          (answer, hs') \<Rightarrow> (Ok (take k (case answer of Some t \<Rightarrow> t | None \<Rightarrow> [])), hs')))"

lemma write_response_text: "write_response st b = answer_text st (reason_phrase st) b"
  by (simp add: write_response_def answer_text_def)

lemma reason_phrase_ok: "phrase_ok (reason_phrase st)"
  by (simp add: reason_phrase_def phrase_ok_def)

text \<open>What arrives of an answer is taken for a success only when all of it has arrived.\<close>

lemma cp_answer_parsed:
  assumes "http_crate preq presp" "100 \<le> st" "st \<le> 999"
  shows "presp (take k (write_response st b)) = (if k < length (write_response st b) - length b then Partial
    else Complete (length (write_response st b) - length b) (answer_head st b))"
  unfolding write_response_text by (rule http_crate.response [OF assms reason_phrase_ok])

lemma content_length_answer:
  "length b \<le> u64_max \<Longrightarrow> content_length (sh_headers (answer_head st b)) = Some (length b)"
  using content_length_number [of "length b"] by (simp add: answer_head_def content_length_def eq_ignore_ascii_case_def lower_content_length)

lemma write_response_split: "\<exists>h. write_response st b = h @ b"
  by (simp add: write_response_def)

lemma take_write_response:
  fixes st k :: nat and b :: string
  defines "H \<equiv> length (write_response st b) - length b"
  assumes "H \<le> k" "length (take k (write_response st b)) - H = length b"
  shows "drop H (take k (write_response st b)) = b"
proof -
  obtain h where h: "write_response st b = h @ b" using write_response_split by blast
  with assms show ?thesis by (simp add: min_def split: if_splits)
qed

section \<open>A request of the agent\<close>

context http_crate
begin

lemma link_exchange:
  assumes "chops chop" "m \<in> {''GET'', ''PUT'', ''DELETE'', ''POST''}" "path_ok p" "length (request_text m p b) < 2 ^ 64"
    and "route env \<lparr>pr_method = m, pr_path = p, pr_body = b\<rparr> hs = ((st, body), hs1)"
  shows "cp_link env preq render chop fate addr m p b hs = (case fate of Refused \<Rightarrow> (Err ''connection refused'', hs)
    | Answered j \<Rightarrow> if length (request_text m p b) \<le> MAX_MESSAGE_BYTES then (Ok (take j (write_response st (render body))), hs1) else (Ok [], hs))"
proof -
  let ?T = "request_text m p b" and ?q = "\<lparr>pr_method = m, pr_path = p, pr_body = b\<rparr>"
  have "read_request preq (map Ok (chop ?T)) = (if length ?T \<le> MAX_MESSAGE_BYTES then Some (Ok (Some ?q)) else Some (Ok None))"
    by (rule read_pieces [OF assms(2-4)]) (use assms(1) in \<open>auto simp: chops_def\<close>)
  then have "cp_connection env preq render (map Ok (chop ?T)) hs =
      (if length ?T \<le> MAX_MESSAGE_BYTES then (Some (write_response st (render body)), hs1) else (None, hs))"
    unfolding cp_connection_def by (cases "length ?T \<le> MAX_MESSAGE_BYTES") (simp_all only: if_True if_False assms(5) option.case result.case prod.case)
  then show ?thesis by (simp add: cp_link_def split: fate.splits)
qed

text \<open>Whatever the agent receives, the control plane has either handled the request or not seen it.\<close>

lemma link_state:
  assumes "re_exchange renv = cp_link env preq render chop fate" "chops chop"
    and "m \<in> {''GET'', ''PUT'', ''DELETE'', ''POST''}" "path_ok p" "length (request_text m p b) < 2 ^ 64"
    and "route env \<lparr>pr_method = m, pr_path = p, pr_body = b\<rparr> hs = ((st, body), hs1)"
  shows "snd (send_request renv addr m p b hs) = hs \<or> snd (send_request renv addr m p b hs) = hs1"
proof -
  have "snd (send_request renv addr m p b hs) = snd (re_exchange renv addr m p b hs)"
    by (simp add: send_request_def split: prod.splits result.splits)
  then show ?thesis using link_exchange [OF assms(2-6)] by (auto simp: assms(1) split: fate.splits)
qed

lemma link_request:
  assumes "re_parse_response renv = presp" "re_exchange renv = cp_link env preq render chop fate" "chops chop"
    and "m \<in> {''GET'', ''PUT'', ''DELETE'', ''POST''}" "path_ok p" "length (request_text m p b) < 2 ^ 64"
    and "route env \<lparr>pr_method = m, pr_path = p, pr_body = b\<rparr> hs = ((st, body), hs1)" "100 \<le> st" "st \<le> 999"
    and "200 \<le> st \<and> st < 300 \<Longrightarrow> length (render body) \<le> u64_max"
  shows "\<exists>r hs'. send_request renv addr m p b hs = (r, hs') \<and> (hs' = hs \<or> hs' = hs1) \<and>
    (\<forall>bytes. r = Ok bytes \<longrightarrow> hs' = hs1 \<and> 200 \<le> st \<and> st < 300 \<and> bytes = render body) \<and>
    (length (request_text m p b) \<le> MAX_MESSAGE_BYTES \<and> fate = Answered k \<and> length (write_response st (render body)) \<le> k \<and> 200 \<le> st \<and> st < 300 \<longrightarrow>
      r = Ok (render body))"
proof -
  let ?R = "write_response st (render body)" and ?H = "length (write_response st (render body)) - length (render body)"
  note x = link_exchange [OF assms(3-7), of render fate addr, folded assms(2)]
  have sc: "sh_code (answer_head st (render body)) = Some st" by (simp add: answer_head_def)
  consider (refused) "fate = Refused" | (long) j where "fate = Answered j" "\<not> length (request_text m p b) \<le> MAX_MESSAGE_BYTES"
    | (failed) j where "fate = Answered j" "length (request_text m p b) \<le> MAX_MESSAGE_BYTES" "\<not> (200 \<le> st \<and> st < 300)"
    | (cut) j where "fate = Answered j" "length (request_text m p b) \<le> MAX_MESSAGE_BYTES" "200 \<le> st" "st < 300"
      "j < ?H \<or> length (take j ?R) - ?H \<noteq> length (render body)"
    | (whole) j where "fate = Answered j" "length (request_text m p b) \<le> MAX_MESSAGE_BYTES" "200 \<le> st" "st < 300"
      "\<not> j < ?H" "length (take j ?R) - ?H = length (render body)" by (metis fate.exhaust)
  then show ?thesis
  proof cases
    case refused
    with x show ?thesis by (simp add: send_request_def)
  next
    case long
    with x no_answer show ?thesis by (simp add: send_request_def assms(1))
  next
    case failed
    then have e: "re_exchange renv addr m p b hs = (Ok (take j ?R), hs1)" using x by simp
    have "\<exists>e. send_request renv addr m p b hs = (Err e, hs1)"
      unfolding send_request_def e assms(1) prod.case result.case cp_answer_parsed [OF http_crate_axioms assms(8,9)] using failed(3)
      by (cases "content_length (sh_headers (answer_head st (render body)))") (auto simp: sc)
    with failed(3) show ?thesis by (cases hs1) auto
  next
    case cut
    then have e: "re_exchange renv addr m p b hs = (Ok (take j ?R), hs1)" using x by simp
    have c: "content_length (sh_headers (answer_head st (render body))) = Some (length (render body))"
      using cut by (intro content_length_answer assms(10)) simp
    obtain h where "?R = h @ render body" using write_response_split by blast
    with cut(5) have "\<not> length ?R \<le> j" by auto
    with cut c show ?thesis
      unfolding send_request_def e assms(1) prod.case result.case cp_answer_parsed [OF http_crate_axioms assms(8,9)] by (cases hs1) auto
  next
    case whole
    then have e: "re_exchange renv addr m p b hs = (Ok (take j ?R), hs1)" using x by simp
    have c: "content_length (sh_headers (answer_head st (render body))) = Some (length (render body))"
      using whole by (intro content_length_answer assms(10)) simp
    have "drop ?H (take j ?R) = render body" using whole by (intro take_write_response) auto
    with whole c show ?thesis
      unfolding send_request_def e assms(1) prod.case result.case cp_answer_parsed [OF http_crate_axioms assms(8,9)] by (cases hs1) (auto simp: sc)
  qed
qed

end

section \<open>Registration\<close>

lemma path_register: "path_ok ''/nodes/register''" "path_segments ''/nodes/register'' = [''nodes'', ''register'']"
  by (simp add: path_ok_def) code_simp

lemma route_register: "route env \<lparr>pr_method = ''POST'', pr_path = ''/nodes/register'', pr_body = b\<rparr> hs = handle_register env b hs"
  by (simp add: route_def path_register)

text \<open>What the control plane does with a registration it can read.\<close>

lemma handle_register_result:
  assumes "ipnet_crate (env_api env)" "cp_inv (env_api env) cp" "env_registration env b = Ok g"
  obtains (accepted) pod cp' where "handle_register env b (Some cp, w) = ((200, BPodCidr (api_show_ipv4net (env_api env) pod)), (Some cp', w))"
      "cp_inv (env_api env) cp'" "pod_cidr (cp_registry cp') (ng_id g) = Some pod" "net_prefix_len pod = 24"
      "resolve (cp_registry cp') (ng_id g) (env_now env w) = Ok (ng_addr g)"
      "\<forall>n. pod_cidr (cp_registry cp) n = Some pod \<longrightarrow> n = ng_id g" "derive_pod_cidr (env_api env) (ng_id g) (rg_cluster_cidr (cp_registry cp)) = Some pod"
    | (taken) e n pod where "handle_register env b (Some cp, w) = ((409, BError (MCollision e)), (Some cp, w))"
      "n \<noteq> ng_id g" "pod_cidr (cp_registry cp) n = Some pod" "derive_pod_cidr (env_api env) (ng_id g) (rg_cluster_cidr (cp_registry cp)) = Some pod"
proof -
  let ?c = "CRegister (ng_id g) (ng_addr g) (ng_replicate_addr g) (ng_capacity_cpu g) (ng_capacity_memory g)"
  have wf: "hm_wf (rg_nodes (cp_registry cp))" "net_prefix_len (rg_cluster_cidr (cp_registry cp)) \<le> 24"
    using assms(2) by (auto simp: cp_inv_def registry_inv_def)
  obtain res rg where r: "register (env_api env) (ng_id g) (ng_addr g) (ng_replicate_addr g) (ng_capacity_cpu g) (ng_capacity_memory g)
      (env_now env w) (cp_registry cp) = Some (res, rg)" using register_total [OF wf(2)] by blast
  then have h: "handle_command (env_api env) (env_now env w) ?c cp = Some (RRegister res, cp\<lparr>cp_registry := rg\<rparr>)" by simp
  then have h': "send env ?c (Some cp, w) = (Reply (RRegister res), (Some (cp\<lparr>cp_registry := rg\<rparr>), w))" by (simp only: send_def prod.case option.case)
  have i: "cp_inv (env_api env) (cp\<lparr>cp_registry := rg\<rparr>)" by (rule cp_inv_handle_command [OF assms(1,2) h])
  show ?thesis
    using r
  proof (cases rule: register_cases)
    case (ok pod rec)
    then have "handle_register env b (Some cp, w) = ((200, BPodCidr (api_show_ipv4net (env_api env) pod)), (Some (cp\<lparr>cp_registry := rg\<rparr>), w))"
      using h' assms(3) by (simp add: handle_register_def)
    moreover have "net_prefix_len pod = 24" using derive_pod_cidr_in_cluster [OF assms(1) ok(1)] by simp
    moreover have "\<forall>n. pod_cidr (cp_registry cp) n = Some pod \<longrightarrow> n = ng_id g"
      using ok(11) by (auto simp: pod_cidr_def dest: map_of_SomeD)
    ultimately show ?thesis
      using accepted i ok by (simp add: pod_cidr_def resolve_Ok_iff DEAD_THRESHOLD_def from_secs_def)
  next
    case (collision e r')
    moreover have "pod_cidr (cp_registry cp) (pc_conflicting_node_id e) = Some (nr_pod_cidr r')"
      using collision(3) hm_get_iff [OF wf(1)] by (simp add: pod_cidr_def)
    moreover have "cp\<lparr>cp_registry := rg\<rparr> = cp" using collision(2) by simp
    ultimately show ?thesis using taken h' assms(3) by (simp add: handle_register_def error_response_def)
  qed
qed

text \<open>What an agent needs of the YAML codecs: the control plane reads the registration that the agent writes, and
  the agent the block that the control plane answers.\<close>

definition register_codec :: "'v env \<Rightarrow> 'w renv \<Rightarrow> (resp_body \<Rightarrow> string) \<Rightarrow> registration_cfg \<Rightarrow> bool" where
  "register_codec env renv render cfg \<longleftrightarrow>
     env_registration env (register_body renv cfg) = Ok \<lparr>ng_id = rc_node_id cfg, ng_addr = rc_advertise_addr cfg,
       ng_replicate_addr = Some (rc_replicate_addr cfg), ng_capacity_cpu = rc_capacity_cpu cfg, ng_capacity_memory = rc_capacity_memory cfg\<rparr> \<and>
     (\<forall>c. net_prefix_len c \<le> 32 \<longrightarrow> re_register_response renv (render (BPodCidr (api_show_ipv4net (env_api env) c))) =
       Ok (api_show_ipv4net (env_api env) c) \<and> length (render (BPodCidr (api_show_ipv4net (env_api env) c))) \<le> u64_max)"

text \<open>A connection over which a registration and its answer get through.\<close>

definition link_holds :: "'v env \<Rightarrow> 'w renv \<Rightarrow> (resp_body \<Rightarrow> string) \<Rightarrow> registration_cfg \<Rightarrow> fate \<Rightarrow> bool" where
  "link_holds env renv render cfg fate \<longleftrightarrow>
     length (request_text ''POST'' ''/nodes/register'' (register_body renv cfg)) \<le> MAX_MESSAGE_BYTES \<and>
     (case fate of Refused \<Rightarrow> False | Answered k \<Rightarrow> \<forall>c. net_prefix_len c \<le> 32 \<longrightarrow>
       length (write_response 200 (render (BPodCidr (api_show_ipv4net (env_api env) c)))) \<le> k)"

lemma request_text_short: "length b < 2 ^ 63 \<Longrightarrow> length p \<le> 2 ^ 62 \<Longrightarrow> length m \<le> 10 \<Longrightarrow> length (request_text m p b) < 2 ^ 64"
  using length_show_nat [of "length b" 19] by (simp add: request_text_def)

lemma register_contact:
  assumes "http_crate preq (re_parse_response renv)" "re_exchange renv = cp_link env preq render chop fate" "chops chop"
    and "ipnet_crate (env_api env)" "ag_api ag = env_api env" "register_codec env renv render cfg" "length (register_body renv cfg) < 2 ^ 63"
    and "rg_world st = (Some cp, w)" "cp_inv (env_api env) cp" "\<not> rg_registered st"
  obtains (joined) pod cp' where
      "registration_contact ag renv cfg st = st\<lparr>rg_world := (Some cp', w), rg_pod_cidr := Some pod, rg_registered := True\<rparr>"
      "cp_inv (env_api env) cp'" "pod_cidr (cp_registry cp') (rc_node_id cfg) = Some pod"
      "resolve (cp_registry cp') (rc_node_id cfg) (env_now env w) = Ok (rc_advertise_addr cfg)"
      "\<forall>n. pod_cidr (cp_registry cp) n = Some pod \<longrightarrow> n = rc_node_id cfg"
      "derive_pod_cidr (env_api env) (rc_node_id cfg) (rg_cluster_cidr (cp_registry cp)) = Some pod"
    | (lost) cp' where "registration_contact ag renv cfg st = st\<lparr>rg_world := (Some cp', w)\<rparr>" "cp_inv (env_api env) cp'"
      "\<not> link_holds env renv render cfg fate"
    | (taken) n where "registration_contact ag renv cfg st = st\<lparr>rg_world := (Some cp, w)\<rparr>" "n \<noteq> rc_node_id cfg"
      "pod_cidr (cp_registry cp) n = derive_pod_cidr (env_api env) (rc_node_id cfg) (rg_cluster_cidr (cp_registry cp))"
proof -
  let ?b = "register_body renv cfg" and ?p = "''/nodes/register''" and ?node = "rc_node_id cfg"
  have l: "length (request_text ''POST'' ?p ?b) < 2 ^ 64" using assms(7) by (intro request_text_short) simp_all
  note link = http_crate.link_request [OF assms(1) refl assms(2,3) _ path_register(1) l, unfolded route_register]
  show ?thesis
    using assms(4,9) conjunct1 [OF assms(6) [unfolded register_codec_def]]
  proof (cases rule: handle_register_result [where w = w])
    case (accepted pod cp')
    let ?s = "api_show_ipv4net (env_api env) pod"
    have y: "re_register_response renv (render (BPodCidr ?s)) = Ok ?s" "length (render (BPodCidr ?s)) \<le> u64_max"
      using assms(6) accepted(4) by (simp_all add: register_codec_def)
    have a: "api_parse_ipv4net (env_api env) ?s = Ok pod" using ipnet_crate.parse_show [OF assms(4)] accepted(4) by simp
    have "\<exists>r hs. send_request renv (rc_control_plane_addr cfg) ''POST'' ?p ?b (Some cp, w) = (r, hs) \<and> (hs = (Some cp, w) \<or> hs = (Some cp', w)) \<and>
      (\<forall>bytes. r = Ok bytes \<longrightarrow> hs = (Some cp', w) \<and> bytes = render (BPodCidr ?s)) \<and>
      (link_holds env renv render cfg fate \<longrightarrow> r = Ok (render (BPodCidr ?s)))"
      using link [OF _ accepted(1), of "rc_control_plane_addr cfg" "case fate of Answered j \<Rightarrow> j"] y(2) accepted(4)
      by (auto simp: link_holds_def split: fate.splits)
    then obtain r hs where r: "send_request renv (rc_control_plane_addr cfg) ''POST'' ?p ?b (Some cp, w) = (r, hs)" "hs = (Some cp, w) \<or> hs = (Some cp', w)"
      "\<forall>bytes. r = Ok bytes \<longrightarrow> hs = (Some cp', w) \<and> bytes = render (BPodCidr ?s)" "link_holds env renv render cfg fate \<longrightarrow> r = Ok (render (BPodCidr ?s))"
      by blast
    show ?thesis
    proof (cases r)
      case (Ok bytes)
      with r(3) have ok: "hs = (Some cp', w)" "bytes = render (BPodCidr ?s)" by auto
      then have "registration_contact ag renv cfg st = st\<lparr>rg_world := (Some cp', w), rg_pod_cidr := Some pod, rg_registered := True\<rparr>"
        using assms(5,8,10) r(1) y a Ok by (simp add: registration_contact_def register_once_def pod_cidr_set_def)
      then show ?thesis by (rule joined) (use accepted in simp_all)
    next
      case (Err e)
      then have "registration_contact ag renv cfg st = st\<lparr>rg_world := hs\<rparr>"
        using assms(8,10) r(1) by (simp add: registration_contact_def register_once_def)
      with r(2,4) Err accepted(2) assms(9) lost show ?thesis by auto
    qed
  next
    case (taken e n pod)
    obtain r where r: "send_request renv (rc_control_plane_addr cfg) ''POST'' ?p ?b (Some cp, w) = (r, (Some cp, w))" "\<nexists>bytes. r = Ok bytes"
      using link [OF _ taken(1), of "rc_control_plane_addr cfg"] by fastforce
    then have "registration_contact ag renv cfg st = st\<lparr>rg_world := (Some cp, w)\<rparr>"
      using assms(8,10) by (cases r) (auto simp: registration_contact_def register_once_def)
    with taken(2-4) that(3) show ?thesis by simp
  qed
qed

text \<open>C22: An agent and its control plane agree on a registration. Whatever happens to the connection, the control plane
  stays in order, and an agent that takes itself for registered has the very block the control plane keeps
  for it and is reachable there; one that does not keeps the block it had. Over a connection that holds, the agent is
  registered exactly when no other node has its block.\<close>

theorem registration_agrees:
  assumes "http_crate preq (re_parse_response renv)" "re_exchange renv = cp_link env preq render chop fate" "chops chop"
    and "ipnet_crate (env_api env)" "ag_api ag = env_api env" "register_codec env renv render cfg" "length (register_body renv cfg) < 2 ^ 63"
    and "rg_world st = (Some cp, w)" "cp_inv (env_api env) cp" "\<not> rg_registered st"
  shows "let st' = registration_contact ag renv cfg st; node = rc_node_id cfg in
    \<exists>cp'. fst (rg_world st') = Some cp' \<and> cp_inv (env_api env) cp' \<and>
      (if rg_registered st' then rg_pod_cidr st' \<noteq> None \<and> rg_pod_cidr st' = pod_cidr (cp_registry cp') node \<and>
         resolve (cp_registry cp') node (env_now env w) = Ok (rc_advertise_addr cfg)
       else rg_pod_cidr st' = rg_pod_cidr st) \<and>
      (link_holds env renv render cfg fate \<longrightarrow> (rg_registered st' \<longleftrightarrow> (\<forall>n. n \<noteq> node \<longrightarrow>
          pod_cidr (cp_registry cp) n \<noteq> derive_pod_cidr (env_api env) node (rg_cluster_cidr (cp_registry cp)))))"
  using assms(9,10) by (cases rule: register_contact [OF assms]) (auto simp: Let_def)

section \<open>A control plane that forgets\<close>

text \<open>The state of the control plane is not kept over a restart. An agent notices at its next heartbeat.\<close>

definition node_id_ok :: "string \<Rightarrow> bool" where
  "node_id_ok n \<longleftrightarrow> n \<noteq> [] \<and> length n \<le> 1000 \<and> list_all (\<lambda>c. of_char c \<in> {0x21..0x7E :: nat} \<and> c \<noteq> CHR ''/'') n"

lemma path_heartbeat:
  assumes "node_id_ok n"
  shows "path_ok (''/nodes/'' @ n @ ''/heartbeat'')" "path_segments (''/nodes/'' @ n @ ''/heartbeat'') = [''nodes'', n, ''heartbeat'']"
proof -
  have n: "CHR ''/'' \<notin> set n" "n \<noteq> []" using assms by (auto simp: node_id_ok_def list_all_iff)
  show "path_ok (''/nodes/'' @ n @ ''/heartbeat'')" using assms by (auto simp: path_ok_def node_id_ok_def list_all_iff)
  have "split_char CHR ''/'' (''nodes/'' @ n @ ''/heartbeat'') = [''nodes'', n, ''heartbeat'']"
    using split_char_append [of "CHR ''/''" "''nodes''"] split_char_append [OF n(1)] split_char_notin [of "CHR ''/''" "''heartbeat''"] by simp
  then show "path_segments (''/nodes/'' @ n @ ''/heartbeat'') = [''nodes'', n, ''heartbeat'']"
    using n(2) by (simp add: path_segments_def trim_start_matches_def)
qed

lemma route_heartbeat:
  assumes "node_id_ok n"
  shows "route env \<lparr>pr_method = ''POST'', pr_path = ''/nodes/'' @ n @ ''/heartbeat'', pr_body = b\<rparr> hs = handle_heartbeat env n b hs"
  unfolding route_def by (simp add: path_heartbeat(2) [OF assms, simplified])

lemma heartbeat_unknown:
  assumes "pod_cidr (cp_registry cp) n = None"
  shows "\<exists>st body. handle_heartbeat env n b (Some cp, w) = ((st, body), (Some cp, w)) \<and> st \<in> {400, 404}"
proof (cases "env_heartbeat env b")
  case (Ok hb)
  have "heartbeat n c m js now (cp_registry cp) = (Err n, cp_registry cp)" for c m js now
    using assms by (simp add: heartbeat_def pod_cidr_def)
  then have "send env (CHeartbeat n (hb_committed_cpu hb) (hb_committed_memory hb) (hb_jails hb)) (Some cp, w) = (Reply (RHeartbeat (Err n)), (Some cp, w))"
    by (simp add: send_def)
  with Ok show ?thesis by (simp add: handle_heartbeat_def error_response_def)
qed (simp add: handle_heartbeat_def error_response_def)

text \<open>A heartbeat of a node that the control plane does not know is refused, or gets lost; both make the
  agent register anew.\<close>

lemma contact_unknown:
  assumes "http_crate preq (re_parse_response renv)" "re_exchange renv = cp_link env preq render chop fate" "chops chop"
    and "node_id_ok (rc_node_id cfg)" "\<forall>hb. length (re_heartbeat renv hb) < 2 ^ 63" "pod_cidr (cp_registry cp) (rc_node_id cfg) = None"
    and "rg_world st = (Some cp, w)" "rg_registered st"
  shows "\<exists>worker. registration_contact ag renv cfg st = st\<lparr>rg_worker := worker, rg_world := (Some cp, w), rg_registered := False\<rparr>"
proof -
  let ?p = "''/nodes/'' @ rc_node_id cfg @ ''/heartbeat''"
  have "\<exists>e. send_request renv (rc_control_plane_addr cfg) ''POST'' ?p (re_heartbeat renv hb) (Some cp, w) = (Err e, (Some cp, w))" for hb
  proof -
    obtain s body where h: "handle_heartbeat env (rc_node_id cfg) (re_heartbeat renv hb) (Some cp, w) = ((s, body), (Some cp, w))" "s \<in> {400, 404}"
      using heartbeat_unknown [OF assms(6), where env = env and b = "re_heartbeat renv hb" and w = w] by blast
    have l: "length (request_text ''POST'' ?p (re_heartbeat renv hb)) < 2 ^ 64"
    proof (rule request_text_short)
      show "length (re_heartbeat renv hb) < 2 ^ 63" using assms(5) by blast
      show "length ?p \<le> 2 ^ 62" using assms(4) by (simp add: node_id_ok_def)
    qed simp
    obtain r hs where r: "send_request renv (rc_control_plane_addr cfg) ''POST'' ?p (re_heartbeat renv hb) (Some cp, w) = (r, hs)" "hs = (Some cp, w)"
      "\<nexists>bytes. r = Ok bytes"
      using http_crate.link_request [OF assms(1) refl assms(2,3) _ path_heartbeat(1) [OF assms(4)] l, unfolded route_heartbeat [OF assms(4)], OF _ h(1), of "rc_control_plane_addr cfg"] h(2)
      by fastforce
    then show ?thesis by (cases r) auto
  qed
  then obtain f where f: "send_request renv (rc_control_plane_addr cfg) ''POST'' ?p (re_heartbeat renv hb) (Some cp, w) = (Err (f hb), (Some cp, w))" for hb
    by metis
  have "\<exists>e worker. heartbeat_once ag renv cfg (rg_worker st, (Some cp, w)) = (Err e, worker, (Some cp, w))"
    unfolding heartbeat_once_def prod.case f result.case by (auto split: prod.splits asent.splits areply.splits)
  with assms(7,8) show ?thesis by (auto simp: registration_contact_def)
qed

text \<open>After its contact a round asks for the peers, which changes nothing at the control plane.\<close>

lemma path_nodes: "path_ok ''/nodes''" "path_segments ''/nodes'' = [''nodes'']"
  by (simp add: path_ok_def) code_simp

lemma round_keeps_contact:
  assumes "http_crate preq (re_parse_response renv)" "re_exchange renv = cp_link env preq render chop fate" "chops chop"
    and "rg_world (registration_contact ag renv cfg st) = (Some cp, w)"
  shows "rg_world (registration_round ag renv cfg st) = (Some cp, w) \<and>
    rg_registered (registration_round ag renv cfg st) = rg_registered (registration_contact ag renv cfg st) \<and>
    rg_pod_cidr (registration_round ag renv cfg st) = rg_pod_cidr (registration_contact ag renv cfg st)"
proof -
  have "send env CList (Some cp, w) = (Reply (RList (registry_list (env_api env) (env_now env w) (cp_registry cp))), (Some cp, w))"
    by (simp add: send_def)
  then have "route env \<lparr>pr_method = ''GET'', pr_path = ''/nodes'', pr_body = []\<rparr> (Some cp, w) =
      ((200, BStatuses (registry_list (env_api env) (env_now env w) (cp_registry cp))), (Some cp, w))"
    unfolding route_def by (simp add: path_nodes handle_list_def)
  moreover have "length (request_text ''GET'' ''/nodes'' []) < 2 ^ 64" by (intro request_text_short) simp_all
  ultimately have "snd (send_request renv (rc_control_plane_addr cfg) ''GET'' ''/nodes'' [] (Some cp, w)) = (Some cp, w)"
    using http_crate.link_state [OF assms(1-3) _ path_nodes(1)] by blast
  then have "snd (fetch_nodes renv cfg (Some cp, w)) = (Some cp, w)" by (auto simp: fetch_nodes_def split: prod.splits result.splits)
  then obtain r where "fetch_nodes renv cfg (Some cp, w) = (r, (Some cp, w))" by (metis surjective_pairing)
  then show ?thesis using assms(4) by (auto simp: registration_round_def Let_def split: prod.splits result.splits)
qed

text \<open>C23: An agent that was registered, with the block that a control plane of the same cluster network kept for it, rejoins a control plane that has lost its
  state: over a connection that holds, and when no other node has been given the block meanwhile, two rounds later the agent is registered again, with the very block it
  had before, the control plane keeps that block for it and resolves its name to its address. The machine of the agent may do anything meanwhile.\<close>

theorem rejoins_after_restart:
  assumes "http_crate preq (re_parse_response renv)" "re_exchange renv = cp_link env preq render chop fate" "chops chop"
    and "ipnet_crate (env_api env)" "ag_api ag = env_api env" "register_codec env renv render cfg" "length (register_body renv cfg) < 2 ^ 63"
    and "node_id_ok (rc_node_id cfg)" "\<forall>hb. length (re_heartbeat renv hb) < 2 ^ 63" "link_holds env renv render cfg fate"
    and "rg_world st = (Some cp, w)" "cp_inv (env_api env) cp" "rg_registered st"
    and "cp_inv (env_api env) cp0" "rg_cluster_cidr (cp_registry cp0) = rg_cluster_cidr (cp_registry cp)"
    and "rg_pod_cidr st = Some block" "pod_cidr (cp_registry cp0) (rc_node_id cfg) = Some block"
    and "\<forall>n. pod_cidr (cp_registry cp) n \<noteq> Some block"
  shows "let st' = registration_round ag renv cfg (registration_round ag renv cfg st); node = rc_node_id cfg in
    \<exists>cp'. rg_world st' = (Some cp', w) \<and> cp_inv (env_api env) cp' \<and> rg_registered st' \<and> rg_pod_cidr st' = rg_pod_cidr st \<and>
      pod_cidr (cp_registry cp') node = rg_pod_cidr st \<and> resolve (cp_registry cp') node (env_now env w) = Ok (rc_advertise_addr cfg)"
proof -
  let ?node = "rc_node_id cfg" and ?derived = "derive_pod_cidr (env_api env) (rc_node_id cfg) (rg_cluster_cidr (cp_registry cp))"
  have d: "?derived = Some b" if "cp_inv (env_api env) c" "pod_cidr (cp_registry c) ?node = Some b" "rg_cluster_cidr (cp_registry c) = rg_cluster_cidr (cp_registry cp)" for c b
    using that by (auto simp: cp_inv_def registry_inv_def pod_cidr_def)
  have block: "?derived = Some block" by (rule d [OF assms(14,17,15)])
  have "pod_cidr (cp_registry cp) ?node = None" using d [OF assms(12) _ refl] block assms(18) by (metis option.exhaust)
  from contact_unknown [OF assms(1-3,8,9) this assms(11,13), of ag]
  obtain worker where c: "registration_contact ag renv cfg st = st\<lparr>rg_worker := worker, rg_world := (Some cp, w), rg_registered := False\<rparr>" ..
  let ?st1 = "registration_round ag renv cfg st"
  have 1: "rg_world ?st1 = (Some cp, w)" "\<not> rg_registered ?st1"
    using round_keeps_contact [OF assms(1-3), of ag cfg st cp w] by (auto simp: c)
  show ?thesis
    using assms(1-7) 1(1) assms(12) 1(2)
  proof (cases rule: register_contact)
    case (joined pod cp')
    then have "rg_world (registration_contact ag renv cfg ?st1) = (Some cp', w)" by simp
    from round_keeps_contact [OF assms(1-3) this] joined block assms(16) show ?thesis by (auto simp: Let_def)
  qed (use assms(10,18) block in auto)
qed

section \<open>Examples\<close>

text \<open>The example cluster and an agent that is new to it; requests arrive byte by byte.\<close>

definition syx_env :: "unit env" where
  "syx_env = silent_env\<lparr>env_registration := \<lambda>_. Ok \<lparr>ng_id = ''me'', ng_addr = ''a:1'', ng_replicate_addr = Some ''a:2'',
     ng_capacity_cpu = Fin 1, ng_capacity_memory = 1\<rparr>\<rparr>"

definition syx_render :: "resp_body \<Rightarrow> string" where
  "syx_render b = (case b of BPodCidr s \<Rightarrow> s | _ \<Rightarrow> [])"

definition syx_renv :: "unit hstate renv" where
  "syx_renv = \<lparr>re_exchange = cp_link syx_env ref_parse_request syx_render (map (\<lambda>c. [c])) (Answered 4096), re_parse_response = ref_parse_response,
     re_show_f64 = \<lambda>_. ''1'', re_register_response = Ok, re_heartbeat = \<lambda>_. [], re_entries = \<lambda>_. Ok [], re_nodes = \<lambda>_. Ok [],
     re_parse_socket_addr = \<lambda>_. True, re_bind = \<lambda>_ w. (True, w)\<rparr>"

definition syx_rg :: "bool \<Rightarrow> (fake_host, unit hstate) rgstate" where
  "syx_rg registered = \<lparr>rg_registered = registered, rg_installed = [], rg_proxied = [], rg_pod_cidr = None, rg_vips = [], rg_worker = Some aex_aw,
     rg_world = (Some ex_start, ())\<rparr>"

lemma length_ref_show: "net_prefix_len c \<le> 32 \<Longrightarrow> length (ref_show c) \<le> 18"
proof -
  assume "net_prefix_len c \<le> 32"
  then have "length (show_nat (net_prefix_len c)) \<le> Suc 1" by (intro length_show_nat) simp
  moreover have "length (show_nat (octet i (net_addr c))) \<le> Suc 2" for i
  proof (rule length_show_nat)
    show "octet i (net_addr c) < 10 ^ Suc 2" by (rule le_less_trans [OF octet_le]) simp
  qed
  from this [of 0] this [of 1] this [of 2] this [of 3]
  have "length (show_ipv4addr (net_addr c)) \<le> 15" by (simp add: show_ipv4addr_def)
  ultimately show ?thesis by (simp add: ref_show_def)
qed

lemma syx_answer_fits: "net_prefix_len c \<le> 32 \<Longrightarrow> length (write_response 200 (ref_show c)) \<le> 4096"
proof -
  assume c: "net_prefix_len c \<le> 32"
  have "length (show_nat (length (ref_show c))) \<le> Suc 1" using length_ref_show [OF c] by (intro length_show_nat) simp
  moreover have "length (show_nat 200) \<le> Suc 2" by (rule length_show_nat) simp
  ultimately show ?thesis using length_ref_show [OF c] by (simp add: write_response_def reason_phrase_def)
qed

lemma syx_free: "pod_cidr (cp_registry ex_start) n \<noteq> derive_pod_cidr ipnet_ref ''me'' (rg_cluster_cidr (cp_registry ex_start))"
proof -
  have "derive_pod_cidr ipnet_ref ''me'' ex_cluster = Some \<lparr>net_addr = 0x0A00A700, net_prefix_len = 24\<rparr>"
    by (simp add: derive_pod_cidr_def ex_cluster_def POD_PREFIX_LEN_def ipnet_ref_def first_addr_def host_bits_def fnv1a_def)
  then show ?thesis by (simp add: ex_cp_def pod_cidr_def ex_node_def)
qed

lemma syx_body: "length (register_body syx_renv aex_cfg) \<le> 100"
  using length_show_nat [of 1 0] by (simp add: register_body_def aex_cfg_def syx_renv_def nl_text_def)

lemma syx_link:
  "http_crate ref_parse_request (re_parse_response syx_renv)"
  "re_exchange syx_renv = cp_link syx_env ref_parse_request syx_render (map (\<lambda>c. [c])) (Answered 4096)"
  "chops (map (\<lambda>c. [c]))" "ipnet_crate (env_api syx_env)" "ag_api (aex_agent ipnet_ref) = env_api syx_env"
  using ref_http.http_crate_axioms ref.ipnet_crate_axioms
  by (auto simp: syx_renv_def chops_def concat_map_singleton syx_env_def silent_env_def aex_agent_def)

lemma syx_codec: "register_codec syx_env syx_renv syx_render aex_cfg"
proof -
  have "length (ref_show c) \<le> u64_max" if "net_prefix_len c \<le> 32" for c using length_ref_show [OF that] by simp
  then show ?thesis
    by (simp add: register_codec_def syx_renv_def syx_render_def syx_env_def silent_env_def ipnet_ref_def aex_cfg_def)
qed

lemma syx_holds: "link_holds syx_env syx_renv syx_render aex_cfg (Answered 4096)"
proof -
  have "length (request_text ''POST'' ''/nodes/register'' (register_body syx_renv aex_cfg)) \<le> MAX_MESSAGE_BYTES"
    using syx_body length_show_nat [of "length (register_body syx_renv aex_cfg)" 2] by (simp add: request_text_def MAX_MESSAGE_BYTES_def)
  then show ?thesis
    using syx_answer_fits by (simp add: link_holds_def syx_render_def syx_env_def silent_env_def ipnet_ref_def)
qed

lemma syx_small: "length (register_body syx_renv aex_cfg) < 2 ^ 63"
  using syx_body by simp

lemma syx_inv: "cp_inv (env_api syx_env) ex_start"
  by (simp add: syx_env_def silent_env_def ex_inv)

lemma syx_block_free:
  "pod_cidr (cp_registry ex_start) n \<noteq> derive_pod_cidr (env_api syx_env) (rc_node_id aex_cfg) (rg_cluster_cidr (cp_registry ex_start))"
  using syx_free by (simp add: syx_env_def silent_env_def aex_cfg_def)

theorem registration_agrees_witness:
  "rg_registered (registration_contact (aex_agent ipnet_ref) syx_renv aex_cfg (syx_rg False))"
proof -
  have "rg_world (syx_rg False) = (Some ex_start, ())" "\<not> rg_registered (syx_rg False)" by (simp_all add: syx_rg_def)
  from registration_agrees [OF syx_link syx_codec syx_small this(1) syx_inv this(2)] syx_holds syx_block_free show ?thesis by (auto simp: Let_def)
qed

text \<open>The control plane before its restart: the agent is its only node.\<close>

definition syx_block :: ipv4net where
  "syx_block = \<lparr>net_addr = 0x0A00A700, net_prefix_len = 24\<rparr>"

definition syx_before :: cp_state where
  "syx_before = ex_start\<lparr>cp_registry := (cp_registry ex_start)\<lparr>rg_nodes := [(''me'', ex_node ''me'' ex_now 0x0A00A700)]\<rparr>\<rparr>"

lemma syx_derive: "derive_pod_cidr ipnet_ref ''me'' ex_cluster = Some syx_block"
  by (simp add: derive_pod_cidr_def ex_cluster_def POD_PREFIX_LEN_def ipnet_ref_def first_addr_def host_bits_def fnv1a_def syx_block_def)

lemma syx_before_ok:
  "cp_inv ipnet_ref syx_before" "rg_cluster_cidr (cp_registry syx_before) = rg_cluster_cidr (cp_registry ex_start)"
  "pod_cidr (cp_registry syx_before) ''me'' = Some syx_block"
proof -
  have c: "rg_cluster_cidr (cp_registry syx_before) = ex_cluster" "rg_nodes (cp_registry syx_before) = [(''me'', ex_node ''me'' ex_now 0x0A00A700)]"
    by (simp_all add: syx_before_def ex_cp_def)
  have "nr_pod_cidr (ex_node ''me'' ex_now 0x0A00A700) = syx_block" by (simp add: ex_node_def syx_block_def)
  then have "registry_inv ipnet_ref (cp_registry syx_before)" using syx_derive unfolding registry_inv_def c by (simp add: hm_wf_def)
  moreover have "cp_inv ipnet_ref ex_start" by (rule ex_inv) simp_all
  ultimately show "cp_inv ipnet_ref syx_before" unfolding cp_inv_def by (simp add: syx_before_def)
qed (simp_all add: syx_before_def pod_cidr_def ex_node_def syx_block_def)

theorem rejoins_after_restart_witness:
  "let st' = registration_round (aex_agent ipnet_ref) syx_renv aex_cfg
      (registration_round (aex_agent ipnet_ref) syx_renv aex_cfg ((syx_rg True)\<lparr>rg_pod_cidr := Some syx_block\<rparr>)) in
    rg_registered st' \<and> rg_pod_cidr st' = Some syx_block"
proof -
  let ?st = "(syx_rg True)\<lparr>rg_pod_cidr := Some syx_block\<rparr>"
  have r: "rg_world ?st = (Some ex_start, ())" "rg_registered ?st" "rg_pod_cidr ?st = Some syx_block" by (simp_all add: syx_rg_def)
  have n: "node_id_ok (rc_node_id aex_cfg)" "\<forall>hb. length (re_heartbeat syx_renv hb) < 2 ^ 63" by (simp_all add: node_id_ok_def aex_cfg_def syx_renv_def)
  have b: "cp_inv (env_api syx_env) syx_before" "pod_cidr (cp_registry syx_before) (rc_node_id aex_cfg) = Some syx_block"
    "\<forall>n. pod_cidr (cp_registry ex_start) n \<noteq> Some syx_block"
    using syx_before_ok syx_free syx_derive by (simp_all add: syx_env_def silent_env_def aex_cfg_def ex_cp_def)
  from rejoins_after_restart [OF syx_link syx_codec syx_small n syx_holds r(1) syx_inv r(2) b(1) syx_before_ok(2) r(3) b(2,3)] r(3)
  show ?thesis by (auto simp: Let_def)
qed

end
