(* ===== verification/Sys_Deploy.thy ===== *)
theory Sys_Deploy
  imports Sys_Cluster Ctl_Agent Ag_Desired Cp_Issued
begin

text \<open>
  A control plane and the agents it drives: its requests reach the agents' own connection handlers over
  connections that may be refused or cut while the answer is on its way. What the control plane records
  of a replica is compared with what the agents want to run.
\<close>

section \<open>The fleet\<close>

record ('s, 'r) fleet =
  fl_agent :: "string \<Rightarrow> 's agent"
  fl_slots :: "string \<Rightarrow> 'r aslots"
  fl_yaml :: ayaml
  fl_parse :: "string \<Rightarrow> request_head parse_status"
  fl_render :: "abody \<Rightarrow> string"
  fl_chop :: "string \<Rightarrow> string list"
  fl_body :: "req_body \<Rightarrow> string"

text \<open>The worker threads behind the addresses, what happens to the next connections, and the time.\<close>

record 's cluster =
  cl_agents :: "string \<Rightarrow> 's aw option"
  cl_fates :: "fate list"
  cl_now :: instant

definition next_fate :: "'s cluster \<Rightarrow> fate" where
  "next_fate c = (case cl_fates c of [] \<Rightarrow> Refused | f # _ \<Rightarrow> f)"

text \<open>One request and its answer are one step, and nothing else reaches the agents between the requests of a pass. In the code
  other threads may send requests meanwhile; what these ask of the same jail is not part of the statements below.\<close>

definition fleet_exchange :: "('s, 'r) fleet \<Rightarrow> string \<Rightarrow> string \<Rightarrow> string \<Rightarrow> req_body \<Rightarrow> 's cluster \<Rightarrow> (string, string) result \<times> 's cluster" where
  "fleet_exchange F addr http_method path body c =
     (case next_fate c of
        Refused \<Rightarrow> (Err ''connection refused'', c\<lparr>cl_fates := drop 1 (cl_fates c)\<rparr>)
      | Answered k \<Rightarrow>
          (case aconnection (fl_agent F addr) (fl_yaml F) (fl_slots F addr) (fl_parse F) (fl_render F)
              (map Ok (fl_chop F (request_text http_method path (fl_body F body)))) (cl_agents c addr) of
             (answer, worker) \<Rightarrow> (Ok (take k (case answer of Some t \<Rightarrow> t | None \<Rightarrow> [])),
               c\<lparr>cl_fates := drop 1 (cl_fates c), cl_agents := (cl_agents c)(addr := worker)\<rparr>)))"

text \<open>What the agent at an address wants for a jail.\<close>

definition wants :: "'s cluster \<Rightarrow> string \<Rightarrow> string \<Rightarrow> jail_spec option" where
  "wants c addr n = Option.bind (cl_agents c addr) (\<lambda>w. ds_jails (desired_of (aw_rc w)) n)"

section \<open>Names that fit into a path\<close>

definition plain_name :: "string \<Rightarrow> bool" where
  "plain_name n \<longleftrightarrow> n \<noteq> [] \<and> list_all (\<lambda>c. is_ascii_lowercase c \<or> is_ascii_digit c \<or> c = CHR ''-'') n \<and> length n < 2 ^ 61"

lemma plain_path: "plain_name n \<Longrightarrow> path_ok (Cp_Http.jails_path n) \<and> path_segments (Cp_Http.jails_path n) = [''jails'', n]"
proof -
  assume n: "plain_name n"
  then have "of_char c \<in> {0x21..0x7E :: nat}" "c \<noteq> CHR ''/''" if "c \<in> set n" for c
    using that unfolding plain_name_def list_all_iff by (fastforce simp: is_ascii_lowercase_def is_ascii_digit_def)+
  then have c: "list_all (\<lambda>c. of_char c \<in> {0x21..0x7E :: nat}) n" "CHR ''/'' \<notin> set n" by (auto simp: list_all_iff)
  have "split_char CHR ''/'' n = [n]" using c(2) by (induction n) auto
  with c n show ?thesis
    by (simp add: Cp_Http.jails_path_def path_ok_def path_segments_def trim_start_matches_def plain_name_def)
qed

lemma plain_replica_name:
  assumes "validate_name s = Ok ()" "i < 10 ^ 10"
  shows "plain_name (replica_name s i)"
proof -
  have "length (show_nat i) \<le> Suc 9" using assms(2) by (intro length_show_nat) simp
  moreover have "list_all is_ascii_digit (show_nat i)" by (rule show_nat_digits)
  ultimately show ?thesis
    using assms(1) by (auto simp: plain_name_def replica_name_def validate_name_Ok_iff list_all_iff)
qed

lemma replica_not_ingress: "replica_name s i \<noteq> ''ingress''"
proof -
  have "CHR ''-'' \<in> set (replica_name s i)" by (simp add: replica_name_def)
  then show ?thesis by auto
qed

section \<open>A request to an agent\<close>

definition fleet_ok :: "('s, 'r) fleet \<Rightarrow> ('s \<Rightarrow> string set) \<Rightarrow> string set \<Rightarrow> 's cluster \<Rightarrow> bool" where
  "fleet_ok F D V c \<longleftrightarrow> (\<forall>addr w. cl_agents c addr = Some w \<longrightarrow> agent_inv (fl_agent F addr) D V (aw_rc w))"

text \<open>The request the agent at \<open>addr\<close> got, if it got one: at most one command for the jail \<open>n\<close>.\<close>

definition told :: "('s, 'r) fleet \<Rightarrow> string \<Rightarrow> acommand \<Rightarrow> (unit, reconcile_error) result \<Rightarrow> 's cluster \<Rightarrow> 's cluster \<Rightarrow> bool" where
  "told F addr cmd res c c' \<longleftrightarrow> (\<exists>w w'. cl_agents c addr = Some w \<and>
     handle_acommand (fl_agent F addr) () cmd w = Some (AResult res, w') \<and> cl_agents c' = (cl_agents c)(addr \<mapsto> w'))"

text \<open>The agents read a spec as the control plane writes it.\<close>

definition readable :: "('s, 'r) fleet \<Rightarrow> jail_spec \<Rightarrow> bool" where
  "readable F spec \<longleftrightarrow> ay_jail (fl_yaml F) (fl_body F (QSpec spec)) = Ok spec \<and> length (fl_body F (QSpec spec)) < 2 ^ 62"

text \<open>The text of an address as the control plane writes it into a spec.\<close>

definition v4_text :: "jail_spec \<Rightarrow> bool" where
  "v4_text spec \<longleftrightarrow> (\<exists>a p. ns_address (sp_network (js_spec spec)) = show_ipv4addr a @ ''/'' @ show_nat p)"

lemma v4_text_replica: "v4_text (replica_spec t n a p sb)"
  by (auto simp: v4_text_def replica_spec_def to_jail_spec_def Let_def)

lemma apply_or_refuse:
  assumes "ay_jail y b = Ok spec" "md_name (js_metadata spec) = n" "handle_apply ag y n b cidr w = ((st, x), w')"
  shows "st = 400 \<and> w' = w \<or> on_worker ag (AApply spec) (answer_result AbEmpty) w = ((st, x), w')"
  using assms by (auto simp: handle_apply_def aerror_def split: if_splits option.splits result.splits)

lemma answer_result_success: "success (fst (answer_result b (AReply (AResult res)))) \<Longrightarrow> res = Ok ()"
  by (auto simp: answer_result_def aerror_def success_def status_for_error_def
      split: result.splits reconcile_error.splits spec_error.splits zfs_error.splits)

lemma answer_result_missing: "fst (answer_result b (AReply (AResult res))) = 404 \<Longrightarrow> \<exists>e. res = Err e \<and> says_missing e"
  by (auto simp: answer_result_def aerror_def says_missing_def status_for_error_def
      split: result.splits reconcile_error.splits spec_error.splits zfs_error.splits)

lemma jail_status:
  assumes "m \<in> {''PUT'', ''DELETE''}" "plain_name n"
  shows "fst (fst (aroute ag y slots \<lparr>pr_method = m, pr_path = Cp_Http.jails_path n, pr_body = b\<rparr> w)) \<in> {100..999}"
proof -
  have "fst (fst (handle_delete ag n w)) \<in> agent_statuses"
    unfolding handle_delete_def by (rule on_worker_status, rule answer_result_status)
  with assms plain_path [OF assms(2)] handle_apply_status [of ag y n b "as_pod_cidr slots" w]
  have "fst (fst (aroute ag y slots \<lparr>pr_method = m, pr_path = Cp_Http.jails_path n, pr_body = b\<rparr> w)) \<in> agent_statuses"
    by (auto simp: aroute_def)
  then show ?thesis by auto
qed

locale driven_fleet = http: http_crate "fl_parse F" "env_parse_response env"
  for F :: "('s, 'r) fleet" and env :: "'s cluster env" +
  fixes D :: "'s \<Rightarrow> string set" and V :: "string set"
  assumes exchange: "env_exchange env = fleet_exchange F"
    and chop: "chops (fl_chop F)"
    and hosts: "agent_host (fl_agent F addr) D V"
    and v4: "api_parse_ipnet (ag_api (fl_agent F addr)) (show_ipv4addr a @ ''/'' @ show_nat p) \<noteq> Ok (V6 n)"
    and raw: "fl_body F (QRaw t) = t"
begin

lemma request_read:
  assumes "m \<in> {''GET'', ''PUT'', ''DELETE''}" "path_ok p" "length p \<le> 2 ^ 62" "length b < 2 ^ 62"
  shows "aread_request (fl_parse F) (map Ok (fl_chop F (request_text m p b))) =
    (if length (request_text m p b) \<le> MAX_MESSAGE_BYTES
     then Some (Ok (Some \<lparr>pr_method = m, pr_path = p, pr_body = b\<rparr>)) else Some (Ok None))"
proof -
  have "length (request_text m p b) < 2 ^ 64" using assms by (intro request_text_short) auto
  then show ?thesis
    unfolding aread_request_def by (intro http.read_pieces) (use assms chop in \<open>auto simp: chops_def\<close>)
qed

lemma answer_checked:
  assumes "100 \<le> st" "st \<le> 999" "check_response (env_parse_response env) (take k (awrite_response st b)) = Ok (x, y)"
  shows "x = st"
  using assms(3) unfolding awrite_response_text check_response_def http.response [OF assms(1,2) areason_phrase_ok]
  by (auto simp: answer_head_def Let_def split: if_splits)

lemma forward_served:
  assumes "m \<in> {''GET'', ''PUT'', ''DELETE''}" "path_ok p" "length p \<le> 2 ^ 62" "length (fl_body F body) < 2 ^ 62"
    and "forward env addr m p body (wk, c) = (r, hs)"
    and "fst (fst (aroute (fl_agent F addr) (fl_yaml F) (fl_slots F addr) \<lparr>pr_method = m, pr_path = p, pr_body = fl_body F body\<rparr> (cl_agents c addr))) \<in> {100..999}"
  obtains (unheard) e c' where "r = Err e" "hs = (wk, c')" "cl_agents c' = cl_agents c" "cl_now c' = cl_now c"
    | (heard) st b worker c' where "aroute (fl_agent F addr) (fl_yaml F) (fl_slots F addr)
        \<lparr>pr_method = m, pr_path = p, pr_body = fl_body F body\<rparr> (cl_agents c addr) = ((st, b), worker)"
      "hs = (wk, c')" "cl_agents c' = (cl_agents c)(addr := worker)" "cl_now c' = cl_now c" "\<And>x y. r = Ok (x, y) \<Longrightarrow> x = st"
proof -
  let ?T = "request_text m p (fl_body F body)" and ?q = "\<lparr>pr_method = m, pr_path = p, pr_body = fl_body F body\<rparr>"
  note rd = request_read [OF assms(1-4)]
  consider (refused) "next_fate c = Refused" | (long) k where "next_fate c = Answered k" "\<not> length ?T \<le> MAX_MESSAGE_BYTES"
    | (read) k where "next_fate c = Answered k" "length ?T \<le> MAX_MESSAGE_BYTES" by (metis fate.exhaust)
  then show thesis
  proof cases
    case refused
    with assms(5) show thesis
      by (intro unheard [of "''connection refused''" "c\<lparr>cl_fates := drop 1 (cl_fates c)\<rparr>"]) (auto simp: forward_def exchange fleet_exchange_def)
  next
    case long
    with assms(5) rd http.no_answer show thesis
      by (intro unheard [of "''incomplete response''" "c\<lparr>cl_fates := drop 1 (cl_fates c)\<rparr>"])
         (auto simp: forward_def exchange fleet_exchange_def aconnection_def check_response_def)
  next
    case read
    obtain st b worker where rt: "aroute (fl_agent F addr) (fl_yaml F) (fl_slots F addr) ?q (cl_agents c addr) = ((st, b), worker)"
      by (metis surj_pair)
    let ?c = "c\<lparr>cl_fates := drop 1 (cl_fates c), cl_agents := (cl_agents c)(addr := worker)\<rparr>"
    have "env_exchange env addr m p body c = (Ok (take k (awrite_response st (fl_render F b))), ?c)"
      unfolding exchange fleet_exchange_def aconnection_def rd using read by (simp add: rt)
    then have "r = check_response (env_parse_response env) (take k (awrite_response st (fl_render F b)))" "hs = (wk, ?c)"
      using assms(5) by (simp_all add: forward_def)
    moreover have "x = st" if "r = Ok (x, y)" for x y
      using answer_checked [of st k "fl_render F b" x y] assms(6) rt that calculation(1) by simp
    ultimately show thesis using heard [OF rt, of ?c] by simp
  qed
qed

lemma jail_path_fits: "plain_name n \<Longrightarrow> path_ok (Cp_Http.jails_path n) \<and> length (Cp_Http.jails_path n) \<le> 2 ^ 62"
  using plain_path [of n] by (auto simp: plain_name_def Cp_Http.jails_path_def)

text \<open>What an agent does with a request of either kind, as long as its worker is alive.\<close>

lemma worker_told:
  assumes "fleet_ok F D V c" "harmless (fl_agent F addr) V cmd" "\<And>w r w'. handle_acommand (fl_agent F addr) () cmd w = Some (r, w') \<Longrightarrow> \<exists>res. r = AResult res"
    and "on_worker (fl_agent F addr) cmd (answer_result AbEmpty) (cl_agents c addr) = ((st, b), worker)"
    and "cl_agents c' = (cl_agents c)(addr := worker)"
  shows "cl_agents c' = cl_agents c \<and> st = 500 \<or> (\<exists>res. told F addr cmd res c c' \<and> st = fst (answer_result AbEmpty (AReply (AResult res))))"
proof (cases "cl_agents c addr")
  case None
  with assms(4,5) show ?thesis by (auto simp: on_worker_def asend_def answer_result_def aworker_failed_def aerror_def)
next
  case (Some w)
  then have "agent_inv (fl_agent F addr) D V (aw_rc w)" using assms(1) by (simp add: fleet_ok_def)
  from agent_host.handle_acommand_safe [OF hosts this assms(2), of "()"] obtain r w' where
    h: "handle_acommand (fl_agent F addr) () cmd w = Some (r, w')" by blast
  with assms(3) obtain res where "r = AResult res" by blast
  with h Some assms(4,5) show ?thesis
    by (auto simp: told_def on_worker_def asend_def simp del: handle_acommand.simps)
qed

lemma told_ok:
  assumes "fleet_ok F D V c" "harmless (fl_agent F addr) V cmd" "told F addr cmd res c c'"
  shows "fleet_ok F D V c'"
proof -
  from assms(3) obtain w w' where w: "cl_agents c addr = Some w" "handle_acommand (fl_agent F addr) () cmd w = Some (AResult res, w')"
    "cl_agents c' = (cl_agents c)(addr \<mapsto> w')" by (auto simp: told_def)
  from assms(1) w(1) have "agent_inv (fl_agent F addr) D V (aw_rc w)" by (simp add: fleet_ok_def)
  from agent_host.handle_acommand_safe [OF hosts this assms(2), of "()"] w(2) have "agent_inv (fl_agent F addr) D V (aw_rc w')" by simp
  with assms(1) w(3) show ?thesis by (auto simp: fleet_ok_def split: if_splits)
qed

lemma put_told:
  assumes "fleet_ok F D V c" "readable F spec" "n = md_name (js_metadata spec)" "plain_name n" "v4_text spec"
    and "forward env addr ''PUT'' (Cp_Http.jails_path n) (QSpec spec) (wk, c) = (r, hs)"
  obtains c' where "hs = (wk, c')" "fleet_ok F D V c'"
    "cl_agents c' = cl_agents c \<and> (\<forall>x y. r = Ok (x, y) \<longrightarrow> \<not> success x) \<or>
     (\<exists>res. told F addr (AApply spec) res c c' \<and> (\<forall>x y. r = Ok (x, y) \<longrightarrow> success x \<longrightarrow> res = Ok ()))"
proof -
  let ?ag = "fl_agent F addr"
  have rt: "aroute ?ag (fl_yaml F) (fl_slots F addr) \<lparr>pr_method = ''PUT'', pr_path = Cp_Http.jails_path n, pr_body = fl_body F (QSpec spec)\<rparr> w =
      handle_apply ?ag (fl_yaml F) n (fl_body F (QSpec spec)) (as_pod_cidr (fl_slots F addr)) w" for w
    using plain_path [OF assms(4)] by (simp add: aroute_def)
  have fits: "''PUT'' \<in> {''GET'', ''PUT'', ''DELETE''}" "length (fl_body F (QSpec spec)) < 2 ^ 62" "''PUT'' \<in> {''PUT'', ''DELETE''}"
    using assms(2) by (simp_all add: readable_def)
  have harmless: "harmless ?ag V (AApply spec)" using assms(5) v4 by (auto simp: v4_text_def)
  from fits(1) conjunct1 [OF jail_path_fits [OF assms(4)]] conjunct2 [OF jail_path_fits [OF assms(4)]] fits(2) assms(6) jail_status [OF fits(3) assms(4)]
  show thesis
  proof (cases rule: forward_served)
    case (unheard e c')
    then show thesis using that [of c'] assms(1) by (simp add: fleet_ok_def)
  next
    case (heard st b worker c')
    then have "st = 400 \<and> worker = cl_agents c addr \<or>
        on_worker ?ag (AApply spec) (answer_result AbEmpty) (cl_agents c addr) = ((st, b), worker)"
      using apply_or_refuse [OF _ _ heard(1) [unfolded rt]] assms(2,3) by (simp add: readable_def)
    then consider (refused) "st = 400" "worker = cl_agents c addr"
      | (passed) "on_worker ?ag (AApply spec) (answer_result AbEmpty) (cl_agents c addr) = ((st, b), worker)" by blast
    then show thesis
    proof cases
      case refused
      then have "\<forall>x y. r = Ok (x, y) \<longrightarrow> \<not> success x" "cl_agents c' = cl_agents c" using heard(3,5) by (auto simp: success_def)
      with heard(2) show thesis using that [of c'] assms(1) by (simp add: fleet_ok_def)
    next
      case passed
      from worker_told [OF assms(1) harmless result_commands(1) passed heard(3)] show thesis
      proof
        assume u: "cl_agents c' = cl_agents c \<and> st = 500"
        then have "\<forall>x y. r = Ok (x, y) \<longrightarrow> \<not> success x" using heard(5) by (auto simp: success_def)
        with u heard(2) show thesis using that [of c'] assms(1) by (simp add: fleet_ok_def)
      next
        assume "\<exists>res. told F addr (AApply spec) res c c' \<and> st = fst (answer_result AbEmpty (AReply (AResult res)))"
        then obtain res where res: "told F addr (AApply spec) res c c'" "st = fst (answer_result AbEmpty (AReply (AResult res)))" by blast
        then have "\<forall>x y. r = Ok (x, y) \<longrightarrow> success x \<longrightarrow> res = Ok ()"
          using heard(5) answer_result_success [of AbEmpty res] by metis
        with that [OF heard(2) told_ok [OF assms(1) harmless res(1)]] res(1) show thesis by blast
      qed
    qed
  qed
qed

lemma delete_told:
  assumes "fleet_ok F D V c" "plain_name n"
    and "forward env addr ''DELETE'' (Cp_Http.jails_path n) (QRaw []) (wk, c) = (r, hs)"
  obtains c' where "hs = (wk, c')" "fleet_ok F D V c'"
    "cl_agents c' = cl_agents c \<and> (\<forall>x y. r = Ok (x, y) \<longrightarrow> \<not> success x \<and> x \<noteq> 404) \<or>
     (\<exists>res. told F addr (ADelete n) res c c' \<and>
       (\<forall>x y. r = Ok (x, y) \<longrightarrow> (success x \<longrightarrow> res = Ok ()) \<and> (x = 404 \<longrightarrow> (\<exists>e. res = Err e \<and> says_missing e))))"
proof -
  let ?ag = "fl_agent F addr"
  have rt: "aroute ?ag (fl_yaml F) (fl_slots F addr) \<lparr>pr_method = ''DELETE'', pr_path = Cp_Http.jails_path n, pr_body = fl_body F (QRaw [])\<rparr> w =
      on_worker ?ag (ADelete n) (answer_result AbEmpty) w" for w
    using plain_path [OF assms(2)] by (simp add: aroute_def handle_delete_def)
  have fits: "''DELETE'' \<in> {''GET'', ''PUT'', ''DELETE''}" "length (fl_body F (QRaw [])) < 2 ^ 62" "harmless ?ag V (ADelete n)"
    "''DELETE'' \<in> {''PUT'', ''DELETE''}" by (simp_all add: raw)
  from fits(1) conjunct1 [OF jail_path_fits [OF assms(2)]] conjunct2 [OF jail_path_fits [OF assms(2)]] fits(2) assms(3) jail_status [OF fits(4) assms(2)]
  show thesis
  proof (cases rule: forward_served)
    case (unheard e c')
    then show thesis using that [of c'] assms(1) by (simp add: fleet_ok_def)
  next
    case (heard st b worker c')
    from worker_told [OF assms(1) fits(3) result_commands(2) heard(1) [unfolded rt] heard(3)] show thesis
    proof
      assume u: "cl_agents c' = cl_agents c \<and> st = 500"
      then have "\<forall>x y. r = Ok (x, y) \<longrightarrow> \<not> success x \<and> x \<noteq> 404" using heard(5) by (auto simp: success_def)
      with u heard(2) show thesis using that [of c'] assms(1) by (simp add: fleet_ok_def)
    next
      assume "\<exists>res. told F addr (ADelete n) res c c' \<and> st = fst (answer_result AbEmpty (AReply (AResult res)))"
      then obtain res where res: "told F addr (ADelete n) res c c'" "st = fst (answer_result AbEmpty (AReply (AResult res)))" by blast
      then have "\<forall>x y. r = Ok (x, y) \<longrightarrow> (success x \<longrightarrow> res = Ok ()) \<and> (x = 404 \<longrightarrow> (\<exists>e. res = Err e \<and> says_missing e))"
        using heard(5) answer_result_success [of AbEmpty res] answer_result_missing [of AbEmpty res] by metis
      with that [OF heard(2) told_ok [OF assms(1) fits(3) res(1)]] res(1) show thesis by blast
    qed
  qed
qed

end

section \<open>What a request changes\<close>

lemma dstep_other:
  assumes "dstep ag cmd r d d'" "spares n cmd" "n \<noteq> ''ingress''"
  shows "ds_jails d' n = ds_jails d n"
proof -
  have "ds_jails e' n = ds_jails e n" if "settles e e'" for e e' using that assms(3) by (auto simp: settles_def)
  with assms(1,2) show ?thesis by (cases rule: dstep.cases) (auto simp: dupdate_spares)
qed

inductive_cases dreply_delete: "dreply ag d (ADelete n) (AResult res)"

lemma dstep_deleted:
  assumes "dstep ag (ADelete n) (AResult res) d d'" "n \<noteq> ''ingress''" "res = Ok () \<or> (\<exists>e. res = Err e \<and> says_missing e)"
  shows "ds_jails d' n = None"
  using assms(1)
proof (cases rule: dstep.cases)
  case dstep_pass
  have "ds_jails (dupdate (ADelete n) (AResult res) d) n = None"
    using assms(3) dstep_pass(1) by (auto simp: dupdate_def elim!: dreply_delete)
  with dstep_pass(3) assms(2) show ?thesis by (auto simp: settles_def)
qed simp

lemma told_step:
  assumes "told F addr cmd res c c'" "fleet_ok F D V c"
  obtains w w' where "cl_agents c addr = Some w" "cl_agents c' = (cl_agents c)(addr \<mapsto> w')"
    "dstep (fl_agent F addr) cmd (AResult res) (desired_of (aw_rc w)) (desired_of (aw_rc w'))"
proof -
  from assms(1) obtain w w' where w: "cl_agents c addr = Some w" "handle_acommand (fl_agent F addr) () cmd w = Some (AResult res, w')"
    "cl_agents c' = (cl_agents c)(addr \<mapsto> w')" by (auto simp: told_def)
  moreover have "agent_inv (fl_agent F addr) D V (aw_rc w)" using assms(2) w(1) by (simp add: fleet_ok_def)
  ultimately show thesis using that dstep_simulates by blast
qed

lemma wants_same: "cl_agents c' = cl_agents c \<Longrightarrow> wants c' = wants c"
  by (simp add: wants_def fun_eq_iff)

lemma told_other:
  assumes "told F addr cmd res c c'" "fleet_ok F D V c" "spares n cmd" "n \<noteq> ''ingress''"
  shows "wants c' a n = wants c a n"
  using assms(1,2) by (rule told_step) (auto simp: wants_def dest: dstep_other [OF _ assms(3,4)])

lemma told_applied:
  assumes "told F addr (AApply spec) (Ok ()) c c'" "fleet_ok F D V c"
  shows "wants c' addr (md_name (js_metadata spec)) = Some spec"
  using assms by (rule told_step) (auto simp: wants_def dest: dstep_applied)

lemma told_deleted:
  assumes "told F addr (ADelete n) res c c'" "fleet_ok F D V c" "n \<noteq> ''ingress''" "res = Ok () \<or> (\<exists>e. res = Err e \<and> says_missing e)"
  shows "wants c' addr n = None"
  using assms(1,2) by (rule told_step) (auto simp: wants_def dest: dstep_deleted [OF _ assms(3,4)])

section \<open>An action\<close>

definition action_spec :: "schedule_action \<Rightarrow> jail_spec" where
  "action_spec a = replica_spec (sa_template a) (sa_replica_name a) (sa_address a) (sa_prefix_len a) (sa_standby_addr a)"

lemma action_spec_name: "md_name (js_metadata (action_spec a)) = sa_replica_name a"
  by (simp add: action_spec_def replica_spec_def to_jail_spec_def Let_def)

lemma action_spec_v4: "v4_text (action_spec a)"
  unfolding action_spec_def by (rule v4_text_replica)

text \<open>What the tables of the control plane say of a jail after an action agrees with the agents.\<close>

definition backed :: "replica_action \<Rightarrow> 's cluster \<Rightarrow> cp_state \<Rightarrow> bool" where
  "backed act c st \<longleftrightarrow> (case act of
     Schedule a \<Rightarrow> placements_get (cp_placements st) (sa_replica_name a) = Some (sa_node_id a) \<and>
       wants c (sa_node_addr a) (sa_replica_name a) = Some (action_spec a)
   | TearDown n node addr \<Rightarrow> placements_get (cp_placements st) n = None \<and> wants c addr n = None)"

lemma backed_same:
  assumes "\<And>a. wants c' a (act_name act) = wants c a (act_name act)"
    and "placements_get (cp_placements st') (act_name act) = placements_get (cp_placements st) (act_name act)"
  shows "backed act c' st' = backed act c st"
  using assms by (cases act) (simp_all add: backed_def)

fun action_ok :: "('s, 'r) fleet \<Rightarrow> replica_action \<Rightarrow> bool" where
  "action_ok F (Schedule a) = (readable F (action_spec a) \<and> plain_name (sa_replica_name a) \<and> sa_replica_name a \<noteq> ''ingress'')"
| "action_ok F (TearDown n _ _) = (plain_name n \<and> n \<noteq> ''ingress'')"

context driven_fleet
begin

lemma schedule_effect:
  assumes "fleet_ok F D V c" "action_ok F act" "act = Schedule a"
  obtains st' c' where "execute_replica_action env act (Some st, c) = (Some st', c')" "fleet_ok F D V c'"
    "\<And>a n. n \<noteq> act_name act \<Longrightarrow> n \<noteq> ''ingress'' \<Longrightarrow> wants c' a n = wants c a n"
    "\<And>n. n \<noteq> act_name act \<Longrightarrow> placements_get (cp_placements st') n = placements_get (cp_placements st) n"
    "cp_placements st' = cp_placements st \<or> backed act c' st'"
proof -
  let ?n = "sa_replica_name a"
  obtain r hs where f: "forward env (sa_node_addr a) ''PUT'' (Cp_Http.jails_path ?n) (QSpec (action_spec a)) (Some st, c) = (r, hs)"
    by (metis surj_pair)
  have ok: "readable F (action_spec a)" "plain_name ?n" "?n \<noteq> ''ingress''" using assms(2,3) by auto
  from put_told [OF assms(1) ok(1) action_spec_name [symmetric] ok(2) action_spec_v4 f] obtain c' where
    c': "hs = (Some st, c')" "fleet_ok F D V c'" and
    t: "cl_agents c' = cl_agents c \<and> (\<forall>x y. r = Ok (x, y) \<longrightarrow> \<not> success x) \<or>
      (\<exists>res. told F (sa_node_addr a) (AApply (action_spec a)) res c c' \<and> (\<forall>x y. r = Ok (x, y) \<longrightarrow> success x \<longrightarrow> res = Ok ()))"
    by blast
  have w: "wants c' b m = wants c b m" if "m \<noteq> ?n" "m \<noteq> ''ingress''" for b m
    using t wants_same [of c' c] told_other [OF _ assms(1), of "sa_node_addr a" "AApply (action_spec a)" _ c' m b] that
    by (auto simp: action_spec_name)
  show thesis
  proof (cases "\<exists>x y. r = Ok (x, y) \<and> success x")
    case True
    then obtain x y where r: "r = Ok (x, y)" "success x" by blast
    with t have "told F (sa_node_addr a) (AApply (action_spec a)) (Ok ()) c c'" by auto
    from told_applied [OF this assms(1)] have g: "wants c' (sa_node_addr a) ?n = Some (action_spec a)" by (simp add: action_spec_name)
    obtain st' where st': "execute_replica_action env act (Some st, c) = (Some st', c')"
        "cp_placements st' = placements_set ?n (sa_node_id a) (cp_placements st)"
      using f r c'(1) by (cases "sa_standby_node_id a") (simp_all add: assms(3) action_spec_def Let_def)
    show thesis by (rule that [OF st'(1) c'(2)]) (use g w st'(2) in \<open>auto simp: assms(3) backed_def table_defs\<close>)
  next
    case False
    then have "execute_replica_action env act (Some st, c) = (Some st, c')"
      using f c'(1) by (auto simp: assms(3) action_spec_def split: result.splits prod.splits)
    then show thesis by (rule that [OF _ c'(2)]) (use w in \<open>auto simp: assms(3)\<close>)
  qed
qed

lemma teardown_effect:
  assumes "fleet_ok F D V c" "action_ok F act" "act = TearDown n node addr"
  obtains st' c' where "execute_replica_action env act (Some st, c) = (Some st', c')" "fleet_ok F D V c'"
    "\<And>a n. n \<noteq> act_name act \<Longrightarrow> n \<noteq> ''ingress'' \<Longrightarrow> wants c' a n = wants c a n"
    "\<And>n. n \<noteq> act_name act \<Longrightarrow> placements_get (cp_placements st') n = placements_get (cp_placements st) n"
    "cp_placements st' = cp_placements st \<or> backed act c' st'"
proof -
  obtain r hs where f: "forward env addr ''DELETE'' (Cp_Http.jails_path n) (QRaw []) (Some st, c) = (r, hs)" by (metis surj_pair)
  have ok: "plain_name n" "n \<noteq> ''ingress''" using assms(2,3) by auto
  obtain c' where
    c': "hs = (Some st, c')" "fleet_ok F D V c'" and
    t: "cl_agents c' = cl_agents c \<and> (\<forall>x y. r = Ok (x, y) \<longrightarrow> \<not> success x \<and> x \<noteq> 404) \<or>
      (\<exists>res. told F addr (ADelete n) res c c' \<and>
        (\<forall>x y. r = Ok (x, y) \<longrightarrow> (success x \<longrightarrow> res = Ok ()) \<and> (x = 404 \<longrightarrow> (\<exists>e. res = Err e \<and> says_missing e))))"
    by (rule delete_told [OF assms(1) ok(1) f]) (rule that)
  have w: "wants c' b m = wants c b m" if "m \<noteq> n" "m \<noteq> ''ingress''" for b m
    using t wants_same [of c' c] told_other [OF _ assms(1), of addr "ADelete n" _ c' m b] that by auto
  show thesis
  proof (cases "\<exists>x y. r = Ok (x, y) \<and> success x")
    case True
    then obtain x y where r: "r = Ok (x, y)" "success x" by blast
    with t have "told F addr (ADelete n) (Ok ()) c c'" by auto
    from told_deleted [OF this assms(1) ok(2)] have g: "wants c' addr n = None" by simp
    obtain st' where st': "execute_replica_action env act (Some st, c) = (Some st', c')"
        "cp_placements st' = placements_remove n (cp_placements st)"
      using f r c'(1) by (simp add: assms(3))
    show thesis by (rule that [OF st'(1) c'(2)]) (use g w st'(2) in \<open>auto simp: assms(3) backed_def table_defs\<close>)
  next
    case False
    then have "execute_replica_action env act (Some st, c) = (Some st, c')"
      using f c'(1) by (auto simp: assms(3) split: result.splits prod.splits)
    then show thesis by (rule that [OF _ c'(2)]) (use w in \<open>auto simp: assms(3)\<close>)
  qed
qed

lemma action_effect:
  assumes "fleet_ok F D V c" "action_ok F act"
  obtains st' c' where "execute_replica_action env act (Some st, c) = (Some st', c')" "fleet_ok F D V c'"
    "\<And>a n. n \<noteq> act_name act \<Longrightarrow> n \<noteq> ''ingress'' \<Longrightarrow> wants c' a n = wants c a n"
    "\<And>n. n \<noteq> act_name act \<Longrightarrow> placements_get (cp_placements st') n = placements_get (cp_placements st) n"
    "cp_placements st' = cp_placements st \<or> backed act c' st'"
  by (cases act) (rule schedule_effect [OF assms] teardown_effect [OF assms]; use that in blast)+


lemma actions_effect:
  assumes "fleet_ok F D V c" "\<forall>act \<in> set acts. action_ok F act" "distinct (map act_name acts)"
  shows "\<exists>st' c'. execute_replica_actions env acts (Some st, c) = (Some st', c') \<and> fleet_ok F D V c' \<and>
    (\<forall>a n. n \<notin> act_name ` set acts \<longrightarrow> n \<noteq> ''ingress'' \<longrightarrow> wants c' a n = wants c a n) \<and>
    (\<forall>n. n \<notin> act_name ` set acts \<longrightarrow> placements_get (cp_placements st') n = placements_get (cp_placements st) n) \<and>
    (\<forall>act \<in> set acts. placements_get (cp_placements st') (act_name act) = placements_get (cp_placements st) (act_name act) \<or> backed act c' st')"
  using assms
proof (induction acts arbitrary: st c)
  case Nil
  then show ?case by (auto simp: execute_replica_actions_def)
next
  case (Cons act acts)
  from Cons.prems have ok: "action_ok F act" "act_name act \<notin> act_name ` set acts" "act_name act \<noteq> ''ingress''"
    by (auto) (cases act; auto)+
  obtain st1 c1 where 1: "execute_replica_action env act (Some st, c) = (Some st1, c1)" "fleet_ok F D V c1"
    "\<And>a n. n \<noteq> act_name act \<Longrightarrow> n \<noteq> ''ingress'' \<Longrightarrow> wants c1 a n = wants c a n"
    "\<And>n. n \<noteq> act_name act \<Longrightarrow> placements_get (cp_placements st1) n = placements_get (cp_placements st) n"
    "cp_placements st1 = cp_placements st \<or> backed act c1 st1"
    using action_effect [OF Cons.prems(1) ok(1), of st] by blast
  from Cons.IH [OF 1(2), of st1] Cons.prems obtain st' c' where
    2: "execute_replica_actions env acts (Some st1, c1) = (Some st', c')" "fleet_ok F D V c'"
    "\<And>a n. n \<notin> act_name ` set acts \<Longrightarrow> n \<noteq> ''ingress'' \<Longrightarrow> wants c' a n = wants c1 a n"
    "\<And>n. n \<notin> act_name ` set acts \<Longrightarrow> placements_get (cp_placements st') n = placements_get (cp_placements st1) n"
    "\<And>x. x \<in> set acts \<Longrightarrow> placements_get (cp_placements st') (act_name x) = placements_get (cp_placements st1) (act_name x) \<or> backed x c' st'"
    by auto
  have "placements_get (cp_placements st') (act_name act) = placements_get (cp_placements st) (act_name act) \<or> backed act c' st'"
    using 1(5) backed_same [where act = act and c' = c' and c = c1 and st' = st' and st = st1] 2(3,4) [OF ok(2)] ok(3) by auto
  moreover have "placements_get (cp_placements st1) (act_name x) = placements_get (cp_placements st) (act_name x)" if "x \<in> set acts" for x
    using ok(2) that by (intro 1(4)) (metis imageI)
  moreover have "execute_replica_actions env (act # acts) (Some st, c) = (Some st', c')"
    using 1(1) 2(1) by (simp add: execute_replica_actions_def)
  ultimately show ?case using 1(3,4) 2(2-5) by (intro exI [of _ st'] exI [of _ c'] conjI) auto
qed

end

section \<open>A pass\<close>

text \<open>What the handlers of the control plane have checked of every service in its tables.\<close>

definition services_checked :: "cp_state \<Rightarrow> bool" where
  "services_checked st \<longleftrightarrow> length (cp_placements st) \<le> u32_max \<and>
     (\<forall>s rec. services_get (cp_services st) s = Some rec \<longrightarrow> validate_name s = Ok () \<and> srv_desired_replicas rec \<le> u32_max)"

text \<open>It holds in every state that the worker gets to by requests, as long as the table has room to grow.\<close>

lemma runs_services_checked:
  assumes "runs env (cp_init cluster service) st" "length (cp_placements st) \<le> u32_max"
    and "\<And>body spec. env_service env body = Ok spec \<Longrightarrow> sb_replicas (ss_spec spec) \<le> u32_max"
  shows "services_checked st"
proof -
  have "services_get (cp_services (cp_init cluster service)) s = None" for s by (simp add: cp_init_def services_new_def services_get_def)
  with valid.kept_runs [OF assms(1)] kept_state.kept_runs [OF kept_replicas [OF assms(3)] assms(1)] assms(2) show ?thesis
    by (auto simp: services_checked_def service_valid_def)
qed

lemma planned_ok:
  assumes "cp_inv api st" "services_checked st" "act \<in> set (reconcile_services api now st)"
    and "\<And>a. act = Schedule a \<Longrightarrow> readable F (action_spec a)"
  shows "action_ok F act"
proof -
  from reconcile_planned [OF assms(1,3)] obtain s rec where
    s: "services_get (cp_services st) s = Some rec" "planned now st (s, rec) act" .
  let ?h = "present_indices (cp_registry st) now rec (placed_replicas s (cp_placements st))"
  have v: "validate_name s = Ok ()" "srv_desired_replicas rec \<le> u32_max" using assms(2) s(1) by (auto simp: services_checked_def)
  have l: "length ?h \<le> u32_max" using length_present [of "cp_registry st" now rec s "cp_placements st"] assms(2) by (simp add: services_checked_def)
  have "i < 10 ^ 10" if "i \<in> set (fst (diff_replicas (srv_desired_replicas rec) ?h))" for i
    using that missing_from_bound [of i ?h "srv_desired_replicas rec - length ?h mod 2 ^ 32"] l v(2)
    by (auto simp: diff_replicas_def Let_def split: if_splits)
  moreover have "i < 10 ^ 10" if "i \<in> set (snd (diff_replicas (srv_desired_replicas rec) ?h))" for i
  proof -
    have "hm_wf (cp_placements st)" using assms(1) by (simp add: cp_inv_def)
    with mem_snd_diff [OF that] have "i \<le> u32_max" by (simp add: set_present)
    then show ?thesis by simp
  qed
  ultimately obtain i where "i < 10 ^ 10" "act_name act = replica_name s i"
    using s(2) by (auto simp: planned_def split: replica_action.splits)
  with plain_replica_name [OF v(1)] replica_not_ingress [of s i] assms(4) show ?thesis by (cases act) auto
qed

text \<open>C1: Whatever happens to its connections, a reconcile pass of the control plane leaves its table of
  placements in agreement with the agents. Where it has recorded a new placement, the node resolves and the
  agent at its address wants to run exactly the replica the plan asked for; where it has dropped one, the
  agent no longer wants the jail. No agent and no record is lost.\<close>

theorem pass_agrees_with_agents:
  assumes "driven_fleet F env D V" "fleet_ok F D V c" "ipnet_crate (env_api env)"
    and "cp_inv (env_api env) st" "services_checked st"
    and "\<And>a. Schedule a \<in> set (reconcile_services (env_api env) (env_now env c) st) \<Longrightarrow> readable F (action_spec a)"
  shows "\<exists>st' c'. reconcile_and_execute env (Some st, c) = (Some st', c') \<and> fleet_ok F D V c' \<and>
    (\<forall>n. placements_get (cp_placements st') n \<noteq> placements_get (cp_placements st) n \<longrightarrow>
       (\<exists>a. Schedule a \<in> set (reconcile_services (env_api env) (env_now env c) st) \<and> sa_replica_name a = n \<and>
          placements_get (cp_placements st') n = Some (sa_node_id a) \<and>
          resolve (cp_registry st) (sa_node_id a) (env_now env c) = Ok (sa_node_addr a) \<and>
          wants c' (sa_node_addr a) n = Some (action_spec a)) \<or>
       (\<exists>node addr. placements_get (cp_placements st) n = Some node \<and> placements_get (cp_placements st') n = None \<and>
          resolve (cp_registry st) node (env_now env c) = Ok addr \<and> wants c' addr n = None))"
proof -
  let ?acts = "reconcile_services (env_api env) (env_now env c) st"
  have "\<forall>act \<in> set ?acts. action_ok F act" using planned_ok [OF assms(4,5)] assms(6) by blast
  from driven_fleet.actions_effect [OF assms(1,2) this reconcile_names_distinct [OF assms(4)], of st] obtain st' c' where
    e: "execute_replica_actions env ?acts (Some st, c) = (Some st', c')" "fleet_ok F D V c'"
    "\<forall>n. n \<notin> act_name ` set ?acts \<longrightarrow> placements_get (cp_placements st') n = placements_get (cp_placements st) n"
    "\<forall>act \<in> set ?acts. placements_get (cp_placements st') (act_name act) = placements_get (cp_placements st) (act_name act) \<or> backed act c' st'"
    by (elim exE conjE) (rule that)
  have r: "reconcile_and_execute env (Some st, c) = (Some st', c')" using e(1) by (simp add: reconcile_and_execute_def send_def)
  show ?thesis
  proof (intro exI conjI allI impI, rule r, rule e(2))
    fix n assume n: "placements_get (cp_placements st') n \<noteq> placements_get (cp_placements st) n"
    then have "n \<in> act_name ` set ?acts" using e(3) by metis
    then obtain act where a: "act \<in> set ?acts" "act_name act = n" by (elim imageE) simp
    then have b: "backed act c' st'" using e(4) n by (metis (no_types))
    show "(\<exists>a. Schedule a \<in> set ?acts \<and> sa_replica_name a = n \<and> placements_get (cp_placements st') n = Some (sa_node_id a) \<and>
          resolve (cp_registry st) (sa_node_id a) (env_now env c) = Ok (sa_node_addr a) \<and>
          wants c' (sa_node_addr a) n = Some (action_spec a)) \<or>
       (\<exists>node addr. placements_get (cp_placements st) n = Some node \<and> placements_get (cp_placements st') n = None \<and>
          resolve (cp_registry st) node (env_now env c) = Ok addr \<and> wants c' addr n = None)"
    proof (cases act)
      case (Schedule x)
      from reconcile_planned [OF assms(4) a(1)] obtain s rec where "planned (env_now env c) st (s, rec) act" .
      with a b Schedule show ?thesis by (intro disjI1 exI [of _ x]) (auto simp: backed_def planned_def)
    next
      case (TearDown m node addr)
      from reconcile_planned [OF assms(4) a(1)] obtain s rec where "planned (env_now env c) st (s, rec) act" .
      with a(2) b TearDown show ?thesis by (auto simp: backed_def planned_def)
    qed
  qed
qed

section \<open>A pass that gets through\<close>

lemma apply_fresh:
  assumes "spec_ok ag spec" "hm_get (rc_records st) (md_name (js_metadata spec)) = None" "\<forall>t. fs_fault (rc_fs st) t = None"
  shows "\<exists>st'. apply_jail ag spec st = (Val (), st')"
proof -
  let ?r = "\<lparr>jrec_spec = spec, jrec_epair_ordinal = rc_next_epair_ordinal st\<rparr>"
  obtain x d where e: "store_save (jail_codec ag) (ag_state_dir ag) ?r (rc_fs st) = (x, d)" by (metis surj_pair)
  then have "x = Val ()"
    using assms(3) by (auto simp: store_save_def create_dir_all_def fs_write_def fs_rename_def fs_try_def fs_put_def act_defs)
  with e assms(1,2) show ?thesis by (simp add: apply_jail_valid save_jail_def on_fs_def act_defs)
qed

context driven_fleet
begin

lemma put_accepted:
  assumes "fleet_ok F D V c" "cl_agents c addr = Some w" "readable F spec" "plain_name (md_name (js_metadata spec))"
    and "spec_ok (fl_agent F addr) spec" "wants c addr (md_name (js_metadata spec)) = None" "\<forall>t. fs_fault (rc_fs (aw_rc w)) t = None"
    and "api_parse_ipnet (ag_api (fl_agent F addr)) (ns_address (sp_network (js_spec spec))) = Ok x"
    and "as_pod_cidr (fl_slots F addr) = Some cidr" "api_contains (ag_api (fl_agent F addr)) (V4 cidr) (ipnet_addr x)"
  shows "\<exists>w'. aroute (fl_agent F addr) (fl_yaml F) (fl_slots F addr) \<lparr>pr_method = ''PUT'',
      pr_path = Cp_Http.jails_path (md_name (js_metadata spec)), pr_body = fl_body F (QSpec spec)\<rparr> (Some w) = ((200, AbEmpty), Some w')"
proof -
  let ?ag = "fl_agent F addr" and ?n = "md_name (js_metadata spec)"
  have crate: "ipnet_crate (ag_api ?ag)" using hosts by (simp add: agent_host_def)
  have h: "harmless ?ag V (AApply spec)" using ipnet_crate.contains_v6 [OF crate] assms(8,10) by auto
  have "agent_inv ?ag D V (aw_rc w)" using assms(1,2) by (simp add: fleet_ok_def)
  from agent_host.handle_acommand_safe [OF hosts this h, of "()"] obtain r w' where
    r: "handle_acommand ?ag () (AApply spec) w = Some (r, w')" by blast
  have "hm_get (rc_records (aw_rc w)) ?n = None" using assms(2,6) by (simp add: wants_def desired_jails)
  from apply_fresh [OF assms(5) this assms(7)] r have "r = AResult (Ok ())"
    by (auto simp: run_rc_def bind_eq_Some_conv)
  with r have "on_worker ?ag (AApply spec) (answer_result AbEmpty) (Some w) = ((200, AbEmpty), Some w')"
    by (simp add: on_worker_def asend_def answer_result_def del: handle_acommand.simps)
  then show ?thesis
    using plain_path [OF assms(4)] assms(3,8-10) by (simp add: aroute_def handle_apply_def readable_def)
qed

lemma forward_answered:
  assumes "m \<in> {''GET'', ''PUT'', ''DELETE''}" "path_ok p" "length (request_text m p (fl_body F body)) \<le> MAX_MESSAGE_BYTES"
    and "aroute (fl_agent F addr) (fl_yaml F) (fl_slots F addr) \<lparr>pr_method = m, pr_path = p, pr_body = fl_body F body\<rparr> (cl_agents c addr) = ((st, b), worker)"
    and "100 \<le> st" "st \<le> 999" "next_fate c = Answered k" "length (awrite_response st (fl_render F b)) \<le> k" "length (fl_render F b) \<le> u64_max"
  shows "forward env addr m p body (wk, c) =
    (Ok (st, fl_render F b), (wk, c\<lparr>cl_fates := drop 1 (cl_fates c), cl_agents := (cl_agents c)(addr := worker)\<rparr>))"
proof -
  have "length (fl_body F body) < 2 ^ 62" "length p \<le> 2 ^ 62" using assms(3) by (simp_all add: request_text_def MAX_MESSAGE_BYTES_def)
  note rd = request_read [OF assms(1,2) this(2,1)]
  have "env_exchange env addr m p body c =
      (Ok (awrite_response st (fl_render F b)), c\<lparr>cl_fates := drop 1 (cl_fates c), cl_agents := (cl_agents c)(addr := worker)\<rparr>)"
    unfolding exchange fleet_exchange_def aconnection_def using rd assms(3,4,7,8) by simp
  moreover have "check_response (env_parse_response env) (awrite_response st (fl_render F b)) = Ok (st, fl_render F b)"
  proof -
    note p = answer_parsed [OF http.http_crate_axioms assms(5,6), of "fl_render F b"]
    obtain h where "awrite_response st (fl_render F b) = h @ fl_render F b" by (simp add: awrite_response_def)
    moreover have "sh_code (answer_head st (fl_render F b)) = Some st" by (simp add: answer_head_def)
    ultimately show ?thesis using p content_length_answer [OF assms(9), of st] by (simp add: check_response_def)
  qed
  ultimately show ?thesis by (simp add: forward_def)
qed

end

section \<open>The example cluster\<close>

text \<open>The control plane of three nodes over agents with the in-memory host; the first connection holds, the
  others are refused.\<close>

definition dex_action :: "nat \<Rightarrow> schedule_action" where
  "dex_action i = (case ex_acts ! i of Schedule a \<Rightarrow> a)"

definition dex_fleet :: "(fake_host, fake_host) fleet" where
  "dex_fleet = \<lparr>fl_agent = \<lambda>_. aex_agent ipnet_ref,
     fl_slots = \<lambda>_. aex_slots\<lparr>as_pod_cidr := Some \<lparr>net_addr = 0x0A002C00, net_prefix_len = 24\<rparr>\<rparr>,
     fl_yaml = aex_yaml\<lparr>ay_jail := \<lambda>b. Ok (action_spec (dex_action (if b = ''w-0'' then 0 else 1)))\<rparr>,
     fl_parse = ref_parse_request, fl_render = \<lambda>_. [], fl_chop = map (\<lambda>c. [c]),
     fl_body = \<lambda>b. case b of QRaw t \<Rightarrow> t | QSpec spec \<Rightarrow> md_name (js_metadata spec)\<rparr>"

definition dex_env :: "fake_host cluster env" where
  "dex_env = \<lparr>env_api = ipnet_ref, env_now = cl_now, env_exchange = fleet_exchange dex_fleet,
     env_parse_response = ref_parse_response, env_registration = Err, env_heartbeat = Err, env_service = Err\<rparr>"

definition dex_cluster :: "fake_host cluster" where
  "dex_cluster = \<lparr>cl_agents = \<lambda>_. Some aex_aw, cl_fates = [Answered 1000], cl_now = ex_now\<rparr>"

interpretation dex: driven_fleet dex_fleet dex_env fk_datasets "{volume_dataset_path ''p'' ''v''}"
proof -
  have "http_crate (fl_parse dex_fleet) (env_parse_response dex_env)"
    using ref_http.http_crate_axioms by (simp add: dex_fleet_def dex_env_def)
  then show "driven_fleet dex_fleet dex_env fk_datasets {volume_dataset_path ''p'' ''v''}"
    using exa.agent_host_axioms
    by (intro driven_fleet.intro driven_fleet_axioms.intro)
       (auto simp: dex_fleet_def dex_env_def chops_def concat_map_singleton aex_agent_def ipnet_ref_def split: result.splits)
qed

lemma dex_ok: "fleet_ok dex_fleet fk_datasets {volume_dataset_path ''p'' ''v''} dex_cluster"
  using aex_inv [of ipnet_ref] by (simp add: fleet_ok_def dex_cluster_def dex_fleet_def)

lemma dex_acts: "ex_acts = [Schedule (dex_action 0), Schedule (dex_action 1)]"
  by (simp add: ex_acts_def dex_action_def)

lemma dex_fields:
  "sa_replica_name (dex_action 0) = ''w-0''" "sa_replica_name (dex_action 1) = ''w-1''" "sa_node_id (dex_action 0) = ''a''" "sa_node_addr (dex_action 0) = ''a''"
  by (simp_all add: dex_action_def ex_acts_def)

lemma dex_readable: "a = dex_action 0 \<or> a = dex_action 1 \<Longrightarrow> readable dex_fleet (action_spec a)"
  by (auto simp: readable_def dex_fleet_def action_spec_name dex_fields dex_fields [simplified])

lemma dex_checked: "services_checked ex_start"
proof -
  have "validate_name ''w'' = Ok ()" by (simp add: validate_name_Ok_iff is_ascii_lowercase_def)
  then show ?thesis by (auto simp: services_checked_def ex_cp_def services_get_def ex_service_def split: if_splits)
qed

lemma dex_address: "ns_address (sp_network (js_spec (action_spec (dex_action 0)))) = ref_show \<lparr>net_addr = 0x0A002C02, net_prefix_len = 24\<rparr>"
  by (simp add: action_spec_def replica_spec_def to_jail_spec_def dex_action_def ex_acts_def ref_show_def Let_def)

lemma dex_spec_ok: "spec_ok (fl_agent dex_fleet addr) (action_spec (dex_action 0))"
  using ref_parse_show [of "\<lparr>net_addr = 0x0A002C02, net_prefix_len = 24\<rparr>"] aex_resources
  by (auto simp: spec_ok_def dex_fleet_def dex_address action_spec_name dex_fields aex_agent_def is_ok_iff validate_name_Ok_iff
      is_ascii_lowercase_def is_ascii_digit_def validate_address_def ipnet_ref_def)
     (auto simp: action_spec_def replica_spec_def to_jail_spec_def dex_action_def ex_acts_def ex_template_def Let_def)

lemma dex_put_accepted:
  "\<exists>w'. aroute (fl_agent dex_fleet ''a'') (fl_yaml dex_fleet) (fl_slots dex_fleet ''a'') \<lparr>pr_method = ''PUT'',
      pr_path = Cp_Http.jails_path ''w-0'', pr_body = fl_body dex_fleet (QSpec (action_spec (dex_action 0)))\<rparr> (Some aex_aw) = ((200, AbEmpty), Some w')"
proof -
  let ?x = "\<lparr>net_addr = 0x0A002C02, net_prefix_len = 24\<rparr>" and ?cidr = "\<lparr>net_addr = 0x0A002C00, net_prefix_len = 24\<rparr>"
  have n: "md_name (js_metadata (action_spec (dex_action 0))) = ''w-0''" by (simp add: action_spec_name dex_fields)
  have p: "plain_name ''w-0''" by (simp add: plain_name_def is_ascii_lowercase_def is_ascii_digit_def)
  have w: "cl_agents dex_cluster ''a'' = Some aex_aw" "wants dex_cluster ''a'' ''w-0'' = None" "\<forall>t. fs_fault (rc_fs (aw_rc aex_aw)) t = None"
    by (simp_all add: dex_cluster_def wants_def aex_aw_def aex_rc_def aex_fs_def desired_jails)
  have a: "api_parse_ipnet (ag_api (fl_agent dex_fleet ''a'')) (ns_address (sp_network (js_spec (action_spec (dex_action 0))))) = Ok (V4 ?x)"
    "as_pod_cidr (fl_slots dex_fleet ''a'') = Some ?cidr"
    using ref_parse_show [of ?x] unfolding dex_address by (simp_all add: dex_fleet_def aex_agent_def ipnet_ref_def)
  have "api_contains (ag_api (fl_agent dex_fleet ''a'')) (V4 ?cidr) (ipnet_addr (V4 ?x))"
    by (simp add: dex_fleet_def aex_agent_def ref.contains_v4 in_net_iff host_bits_def)
  from dex.put_accepted [OF dex_ok w(1) dex_readable _ dex_spec_ok _ w(3) a this] n p w(2) show ?thesis by simp
qed

theorem pass_agrees_with_agents_witness:
  "\<exists>st' c' a. reconcile_and_execute dex_env (Some ex_start, dex_cluster) = (Some st', c') \<and>
     placements_get (cp_placements st') ''w-0'' = Some ''a'' \<and> Schedule a \<in> set ex_acts \<and> sa_replica_name a = ''w-0'' \<and>
     wants c' ''a'' ''w-0'' = Some (action_spec a)"
proof -
  let ?n = "''w-0''" and ?F = dex_fleet
  have now: "env_now dex_env dex_cluster = ex_now" "env_api dex_env = ipnet_ref" by (simp_all add: dex_env_def dex_cluster_def)
  have p: "plain_name ?n" by (simp add: plain_name_def is_ascii_lowercase_def is_ascii_digit_def)
  obtain w' where r: "aroute (fl_agent ?F ''a'') (fl_yaml ?F) (fl_slots ?F ''a'') \<lparr>pr_method = ''PUT'', pr_path = Cp_Http.jails_path ?n,
      pr_body = fl_body ?F (QSpec (action_spec (dex_action 0)))\<rparr> (cl_agents dex_cluster ''a'') = ((200, AbEmpty), Some w')"
    using dex_put_accepted by (auto simp: dex_cluster_def)
  have fit: "length (request_text ''PUT'' (Cp_Http.jails_path ?n) (fl_body ?F (QSpec (action_spec (dex_action 0))))) \<le> MAX_MESSAGE_BYTES"
    "next_fate dex_cluster = Answered 1000" "length (awrite_response 200 (fl_render ?F AbEmpty)) \<le> 1000" "length (fl_render ?F AbEmpty) \<le> u64_max"
    using length_show_nat [of "Suc (Suc (Suc 0))" 2] length_show_nat [of 200 2]
    by (simp_all add: dex_fleet_def action_spec_name dex_fields request_text_def Cp_Http.jails_path_def MAX_MESSAGE_BYTES_def next_fate_def dex_cluster_def
        awrite_response_def areason_phrase_def)
  let ?c = "dex_cluster\<lparr>cl_fates := drop 1 (cl_fates dex_cluster), cl_agents := (cl_agents dex_cluster)(''a'' := Some w')\<rparr>"
  have m: "''PUT'' \<in> {''GET'', ''PUT'', ''DELETE''}" "100 \<le> (200 :: nat)" "200 \<le> (999 :: nat)" by simp_all
  from dex.forward_answered [OF m(1) conjunct1 [OF plain_path [OF p]] fit(1) r m(2,3) fit(2-4), of "Some ex_start"] obtain st1 where
    1: "execute_replica_action dex_env (Schedule (dex_action 0)) (Some ex_start, dex_cluster) = (Some st1, ?c)"
    "placements_get (cp_placements st1) ?n = Some ''a''"
    by (cases "sa_standby_node_id (dex_action 0)") (simp_all add: action_spec_def dex_fields Let_def table_defs success_def)
  have "execute_replica_action dex_env (Schedule (dex_action 1)) (Some st1, ?c) = (Some st1, ?c)"
    by (simp add: forward_def dex_env_def fleet_exchange_def next_fate_def dex_cluster_def)
  with 1(1) have run: "reconcile_and_execute dex_env (Some ex_start, dex_cluster) = (Some st1, ?c)"
    by (simp add: reconcile_and_execute_def send_def now ex_plan dex_acts execute_replica_actions_def)
  have inv: "cp_inv (env_api dex_env) ex_start" "ipnet_crate (env_api dex_env)"
    using ex_inv [of "[]" "[]" ex_now ua_new] ref.ipnet_crate_axioms by (simp_all add: now)
  have none: "placements_get (cp_placements ex_start) n = None" for n by (simp add: ex_cp_def table_defs)
  have "readable ?F (action_spec a)" if "Schedule a \<in> set (reconcile_services (env_api dex_env) (env_now dex_env dex_cluster) ex_start)" for a
    using that by (intro dex_readable) (simp add: now ex_plan dex_acts)
  from pass_agrees_with_agents [OF dex.driven_fleet_axioms dex_ok inv(2,1) dex_checked this] run 1(2)
  have "\<exists>a. Schedule a \<in> set ex_acts \<and> sa_replica_name a = ?n \<and> sa_node_id a = ''a'' \<and>
      resolve (cp_registry ex_start) (sa_node_id a) ex_now = Ok (sa_node_addr a) \<and> wants ?c (sa_node_addr a) ?n = Some (action_spec a)"
    by (auto simp: now ex_plan none dest!: spec [of _ ?n])
  then show ?thesis using run 1(2) ex_resolve(1) by auto
qed

end
