(* ===== verification/Sys_Failover.thy ===== *)
theory Sys_Failover
  imports Sys_Deploy
begin

text \<open>
  A failed node: the forced re-pin of a replica and the fence owed to the old node, as they arrive at the
  agents. After both, the replica is wanted on its former standby and no longer on the old node.
\<close>

section \<open>Fences\<close>

context driven_fleet
begin

lemma fence_effect:
  assumes "fleet_ok F D V c" "plain_name n" "n \<noteq> ''ingress''"
  obtains st' c' where "fence_one env addr n (Some st, c) = (Some st', c')" "fleet_ok F D V c'"
    "\<And>a m. m \<noteq> n \<Longrightarrow> m \<noteq> ''ingress'' \<Longrightarrow> wants c' a m = wants c a m"
    "st' = st \<or> st' = st\<lparr>cp_fences := fences_remove n (cp_fences st)\<rparr> \<and> wants c' addr n = None"
proof -
  obtain r hs where f: "forward env addr ''DELETE'' (Cp_Http.jails_path n) (QRaw []) (Some st, c) = (r, hs)" by (metis surj_pair)
  obtain c' where
    c': "hs = (Some st, c')" "fleet_ok F D V c'" and
    t: "cl_agents c' = cl_agents c \<and> (\<forall>x y. r = Ok (x, y) \<longrightarrow> \<not> success x \<and> x \<noteq> 404) \<or>
      (\<exists>res. told F addr (ADelete n) res c c' \<and>
        (\<forall>x y. r = Ok (x, y) \<longrightarrow> (success x \<longrightarrow> res = Ok ()) \<and> (x = 404 \<longrightarrow> (\<exists>e. res = Err e \<and> says_missing e))))"
    by (rule delete_told [OF assms(1,2) f]) (rule that)
  have w: "wants c' b m = wants c b m" if "m \<noteq> n" "m \<noteq> ''ingress''" for b m
    using t wants_same [of c' c] told_other [OF _ assms(1), of addr "ADelete n" _ c' m b] that by auto
  show thesis
  proof (cases "\<exists>x y. r = Ok (x, y) \<and> (success x \<or> x = 404)")
    case True
    then obtain x y where r: "r = Ok (x, y)" "success x \<or> x = 404" by blast
    with t obtain res where "told F addr (ADelete n) res c c'" "res = Ok () \<or> (\<exists>e. res = Err e \<and> says_missing e)" by auto
    from told_deleted [OF this(1) assms(1,3) this(2)] have g: "wants c' addr n = None" .
    have "fence_one env addr n (Some st, c) = (Some (st\<lparr>cp_fences := fences_remove n (cp_fences st)\<rparr>), c')"
      unfolding fence_one_def f c'(1) r(1) using r(2) by simp
    from that [OF this c'(2) w] g show thesis by simp
  next
    case False
    then have "fence_one env addr n (Some st, c) = (Some st, c')"
      unfolding fence_one_def f c'(1) by (auto split: result.splits)
    from that [OF this c'(2) w] show thesis by simp
  qed
qed

lemma fences_effect:
  assumes "fleet_ok F D V c" "\<forall>n \<in> set ns. plain_name n \<and> n \<noteq> ''ingress''" "distinct ns"
  shows "\<exists>st' c'. fold (fence_one env addr) ns (Some st, c) = (Some st', c') \<and> fleet_ok F D V c' \<and> st' = st\<lparr>cp_fences := cp_fences st'\<rparr> \<and>
    (\<forall>a n. n \<notin> set ns \<longrightarrow> n \<noteq> ''ingress'' \<longrightarrow> wants c' a n = wants c a n) \<and>
    (\<forall>n. hm_get (cp_fences st') n \<noteq> hm_get (cp_fences st) n \<longrightarrow> n \<in> set ns \<and> hm_get (cp_fences st') n = None \<and> wants c' addr n = None)"
  using assms
proof (induction ns arbitrary: st c)
  case (Cons n ns)
  then have n: "plain_name n" "n \<noteq> ''ingress''" "n \<notin> set ns" by auto
  obtain st1 c1 where 1: "fence_one env addr n (Some st, c) = (Some st1, c1)" "fleet_ok F D V c1"
    "\<And>a m. m \<noteq> n \<Longrightarrow> m \<noteq> ''ingress'' \<Longrightarrow> wants c1 a m = wants c a m"
    "st1 = st \<or> st1 = st\<lparr>cp_fences := fences_remove n (cp_fences st)\<rparr> \<and> wants c1 addr n = None"
    using fence_effect [OF Cons.prems(1) n(1,2), of addr st] by blast
  from Cons.IH [OF 1(2), of st1] Cons.prems(2,3) obtain st' c' where
    2: "fold (fence_one env addr) ns (Some st1, c1) = (Some st', c')" "fleet_ok F D V c'" "st' = st1\<lparr>cp_fences := cp_fences st'\<rparr>"
    "\<forall>a n. n \<notin> set ns \<longrightarrow> n \<noteq> ''ingress'' \<longrightarrow> wants c' a n = wants c1 a n"
    "\<forall>n. hm_get (cp_fences st') n \<noteq> hm_get (cp_fences st1) n \<longrightarrow> n \<in> set ns \<and> hm_get (cp_fences st') n = None \<and> wants c' addr n = None"
    by auto
  have "st' = st\<lparr>cp_fences := cp_fences st'\<rparr>" using 1(4) 2(3) by auto
  moreover have "m \<in> set (n # ns) \<and> hm_get (cp_fences st') m = None \<and> wants c' addr m = None"
    if m: "hm_get (cp_fences st') m \<noteq> hm_get (cp_fences st) m" for m
  proof (cases "hm_get (cp_fences st') m = hm_get (cp_fences st1) m")
    case True
    with m 1(4) have "m = n" "hm_get (cp_fences st') n = None" "wants c1 addr n = None" by (auto simp: table_defs split: if_splits)
    with 2(4) n show ?thesis by simp
  qed (use 2(5) in auto)
  ultimately show ?case using 1(1,3) 2(1,2,4) by (intro exI [of _ st'] exI [of _ c'] conjI) auto
qed auto

end

lemma distinct_fences: "hm_wf f \<Longrightarrow> distinct (fences_for_node f n)"
  by (auto simp: fences_for_node_def hm_wf_def distinct_map_filter)

text \<open>C18: When a node is told of the fences it owes, whatever happens to the connections, the fence of a replica is
  cleared only if the agent of that node no longer wants the replica; nothing else in the tables of the
  control plane changes.\<close>

theorem cleared_fence_means_gone:
  assumes "driven_fleet F env D V" "fleet_ok F D V c" "cp_inv (env_api env) st"
    and "\<forall>n \<in> dom (hm_get (cp_fences st)). plain_name n \<and> n \<noteq> ''ingress''"
  shows "\<exists>st' c'. check_and_execute_fencing env node (Some st, c) = (Some st', c') \<and> fleet_ok F D V c' \<and>
    st' = st\<lparr>cp_fences := cp_fences st'\<rparr> \<and>
    (\<forall>n. hm_get (cp_fences st') n \<noteq> hm_get (cp_fences st) n \<longrightarrow> hm_get (cp_fences st) n = Some node \<and> hm_get (cp_fences st') n = None \<and>
       (\<exists>addr. resolve (cp_registry st) node (env_now env c) = Ok addr \<and> wants c' addr n = None))"
proof -
  let ?ns = "fences_for_node (cp_fences st) node"
  have wf: "hm_wf (cp_fences st)" using assms(3) by (simp add: cp_inv_def)
  note iff = fences_for_node_iff [OF wf]
  have ns: "\<forall>n \<in> set ?ns. plain_name n \<and> n \<noteq> ''ingress''" using assms(4) iff by blast
  show ?thesis
  proof (cases "resolve (cp_registry st) node (env_now env c)")
    case (Ok addr)
    from driven_fleet.fences_effect [OF assms(1,2) ns distinct_fences [OF wf], of addr st] obtain st' c' where
      e: "fold (fence_one env addr) ?ns (Some st, c) = (Some st', c')" "fleet_ok F D V c'" "st' = st\<lparr>cp_fences := cp_fences st'\<rparr>"
      "\<forall>n. hm_get (cp_fences st') n \<noteq> hm_get (cp_fences st) n \<longrightarrow> n \<in> set ?ns \<and> hm_get (cp_fences st') n = None \<and> wants c' addr n = None"
      by (elim exE conjE) (rule that)
    have "check_and_execute_fencing env node (Some st, c) = (Some st', c')"
      using e(1) Ok by (auto simp: check_and_execute_fencing_def send_def)
    with e Ok iff show ?thesis by (intro exI [of _ st'] exI [of _ c'] conjI allI impI) auto
  next
    case (Err x)
    then have "check_and_execute_fencing env node (Some st, c) = (Some st, c)" by (simp add: check_and_execute_fencing_def send_def)
    with assms(2) show ?thesis by auto
  qed
qed

text \<open>The example: the old node has already lost the jail and says so.\<close>

lemma dex_delete_missing:
  "\<exists>w'. aroute (fl_agent dex_fleet ''a'') (fl_yaml dex_fleet) (fl_slots dex_fleet ''a'') \<lparr>pr_method = ''DELETE'', pr_path = Cp_Http.jails_path ''w-0'',
      pr_body = fl_body dex_fleet (QRaw [])\<rparr> (Some aex_aw) = ((404, AbError (AmReconcile (RNotFound ''w-0''))), Some w')"
proof -
  let ?ag = "fl_agent dex_fleet ''a''"
  have "agent_inv ?ag fk_datasets {volume_dataset_path ''p'' ''v''} (aw_rc aex_aw)" using dex_ok by (simp add: fleet_ok_def dex_cluster_def)
  from agent_host.handle_acommand_safe [OF dex.hosts this, of "ADelete ''w-0''" "()"] obtain r w' where
    h: "handle_acommand ?ag () (ADelete ''w-0'') aex_aw = Some (r, w')" by auto
  have "r = AResult (Err (RNotFound ''w-0''))"
    using h by (auto simp: then_tick_def bind_eq_Some_conv run_rc_def delete_jail_def act_defs aex_aw_def aex_rc_def)
  with h have "handle_delete ?ag ''w-0'' (Some aex_aw) = ((404, AbError (AmReconcile (RNotFound ''w-0''))), Some w')"
    by (simp add: handle_delete_def on_worker_def asend_def answer_result_def aerror_def status_for_error_def del: handle_acommand.simps)
  moreover have "path_segments (Cp_Http.jails_path ''w-0'') = [''jails'', ''w-0'']"
    by (intro conjunct2 [OF plain_path]) (simp add: plain_name_def is_ascii_lowercase_def is_ascii_digit_def)
  ultimately show ?thesis by (simp add: aroute_def)
qed

theorem cleared_fence_means_gone_witness:
  "\<exists>st' c'. check_and_execute_fencing dex_env ''a'' (Some (ex_start\<lparr>cp_fences := [(''w-0'', ''a'')]\<rparr>), dex_cluster) = (Some st', c') \<and>
     hm_get (cp_fences st') ''w-0'' = None \<and> wants c' ''a'' ''w-0'' = None"
proof -
  let ?st = "ex_start\<lparr>cp_fences := [(''w-0'', ''a'')]\<rparr>" and ?F = dex_fleet
  have p: "plain_name ''w-0''" by (simp add: plain_name_def is_ascii_lowercase_def is_ascii_digit_def)
  have now: "env_now dex_env dex_cluster = ex_now" "env_api dex_env = ipnet_ref" by (simp_all add: dex_env_def dex_cluster_def)
  have r: "resolve (cp_registry ?st) ''a'' ex_now = Ok ''a''" using ex_resolve(1) by simp
  obtain w' where rt: "aroute (fl_agent ?F ''a'') (fl_yaml ?F) (fl_slots ?F ''a'') \<lparr>pr_method = ''DELETE'', pr_path = Cp_Http.jails_path ''w-0'',
      pr_body = fl_body ?F (QRaw [])\<rparr> (cl_agents dex_cluster ''a'') = ((404, AbError (AmReconcile (RNotFound ''w-0''))), Some w')"
    using dex_delete_missing by (auto simp: dex_cluster_def)
  have m: "''DELETE'' \<in> {''GET'', ''PUT'', ''DELETE''}" "100 \<le> (404 :: nat)" "404 \<le> (999 :: nat)" by simp_all
  have fit: "length (request_text ''DELETE'' (Cp_Http.jails_path ''w-0'') (fl_body ?F (QRaw []))) \<le> MAX_MESSAGE_BYTES"
    "next_fate dex_cluster = Answered 1000" "length (awrite_response 404 (fl_render ?F b)) \<le> 1000" "length (fl_render ?F b) \<le> u64_max" for b
    using length_show_nat [of 404 2]
    by (simp_all add: dex_fleet_def request_text_def Cp_Http.jails_path_def MAX_MESSAGE_BYTES_def next_fate_def dex_cluster_def
        awrite_response_def areason_phrase_def)
  from dex.forward_answered [OF m(1) conjunct1 [OF plain_path [OF p]] fit(1) rt m(2,3) fit(2-4), of "Some ?st"] obtain c' where
    "fence_one dex_env ''a'' ''w-0'' (Some ?st, dex_cluster) = (Some (?st\<lparr>cp_fences := []\<rparr>), c')"
    by (simp add: fence_one_def table_defs)
  then have run: "check_and_execute_fencing dex_env ''a'' (Some ?st, dex_cluster) = (Some (?st\<lparr>cp_fences := []\<rparr>), c')"
    using r by (simp add: check_and_execute_fencing_def send_def fences_for_node_def now)
  have "cp_inv (env_api dex_env) ex_start" using ex_inv [of "[]" "[]" ex_now ua_new] by (simp add: now)
  then have "cp_inv (env_api dex_env) ?st" by (simp add: cp_inv_def hm_wf_def)
  moreover have "\<forall>n \<in> dom (hm_get (cp_fences ?st)). plain_name n \<and> n \<noteq> ''ingress''" using p by (auto split: if_splits)
  ultimately have "wants c' ''a'' ''w-0'' = None"
    using cleared_fence_means_gone [OF dex.driven_fleet_axioms dex_ok, of ?st "''a''"] run r now by (auto dest!: spec [of _ "''w-0''"])
  with run show ?thesis by auto
qed

section \<open>Re-pinning\<close>

lemma target_path:
  assumes "plain_name n"
  shows "path_ok (''/replica-targets/'' @ n) \<and> path_segments (''/replica-targets/'' @ n) = [''replica-targets'', n] \<and> length (''/replica-targets/'' @ n) \<le> 2 ^ 62"
proof -
  have "of_char c \<in> {0x21..0x7E :: nat}" "c \<noteq> CHR ''/''" if "c \<in> set n" for c
    using that assms unfolding plain_name_def list_all_iff by (fastforce simp: is_ascii_lowercase_def is_ascii_digit_def)+
  then have c: "list_all (\<lambda>c. of_char c \<in> {0x21..0x7E :: nat}) n" "CHR ''/'' \<notin> set n" by (auto simp: list_all_iff)
  have "split_char CHR ''/'' n = [n]" using c(2) by (induction n) auto
  with c assms show ?thesis by (simp add: path_ok_def path_segments_def trim_start_matches_def plain_name_def)
qed

definition repin_spec :: "string \<Rightarrow> force_repin_prep \<Rightarrow> jail_spec" where
  "repin_spec name p = replica_spec (fp_template p) name (fp_address p) (fp_prefix_len p) (Some (fp_fresh_standby_addr p))"

lemma repin_spec_v4: "v4_text (repin_spec name p)"
  unfolding repin_spec_def by (rule v4_text_replica)

lemma repin_spec_name: "md_name (js_metadata (repin_spec name p)) = name"
  by (simp add: repin_spec_def replica_spec_def to_jail_spec_def Let_def)

context driven_fleet
begin

text \<open>Asking for a replica target leaves the agents alone.\<close>

lemma target_asked:
  assumes "plain_name n" "forward env addr ''GET'' (''/replica-targets/'' @ n) (QRaw []) (wk, c) = (r, hs)"
  obtains c' where "hs = (wk, c')" "cl_agents c' = cl_agents c"
proof -
  note p = target_path [OF assms(1)]
  have m: "''GET'' \<in> {''GET'', ''PUT'', ''DELETE''}" "length (fl_body F (QRaw [])) < 2 ^ 62" by (simp_all add: raw)
  have rt: "aroute (fl_agent F addr) (fl_yaml F) (fl_slots F addr) \<lparr>pr_method = ''GET'', pr_path = ''/replica-targets/'' @ n, pr_body = fl_body F (QRaw [])\<rparr> w =
      (handle_get_replica_target n (as_targets (fl_slots F addr)), w)" for w
    using p unfolding aroute_def by simp
  have "fst (handle_get_replica_target n t) \<in> {100..999}" for t :: "'r standby"
    by (simp add: handle_get_replica_target_def aerror_def split: option.split)
  then have st: "fst (fst (aroute (fl_agent F addr) (fl_yaml F) (fl_slots F addr) \<lparr>pr_method = ''GET'', pr_path = ''/replica-targets/'' @ n,
      pr_body = fl_body F (QRaw [])\<rparr> (cl_agents c addr))) \<in> {100..999}" unfolding rt by simp
  from m(1) conjunct1 [OF p] conjunct2 [OF conjunct2 [OF p]] m(2) assms(2) st show thesis
  proof (cases rule: forward_served)
    case (unheard e c')
    then show thesis using that by blast
  next
    case (heard s b worker c')
    then have "worker = cl_agents c addr" unfolding rt by simp
    with heard(2,3) show thesis using that [of c'] by simp
  qed
qed

end

text \<open>C17: A forced re-pin that is answered with success is backed by the former standby: the control plane has
  placed the replica there, and the agent of that node wants it, under the address and with the fresh standby
  that the re-pin prepared.\<close>

theorem repin_backed_by_standby:
  assumes "driven_fleet F env D V" "fleet_ok F D V c" "plain_name name"
    and "\<And>p. prepare_force_repin (env_api env) (env_now env c) name st = Ok p \<Longrightarrow> readable F (repin_spec name p)"
    and "handle_force_repin env name (Some st, c) = ((status, b), (worker, c'))" "success status"
  shows "\<exists>p st'. worker = Some st' \<and> prepare_force_repin (env_api env) (env_now env c) name st = Ok p \<and>
    placements_get (cp_placements st') name = Some (fp_standby_node_id p) \<and>
    wants c' (fp_standby_addr p) name = Some (repin_spec name p) \<and> fleet_ok F D V c'"
proof -
  from handle_force_repin_cases [OF assms(5)] assms(6) obtain p where
    p: "prepare_force_repin (env_api env) (env_now env c) name st = Ok p" "worker = Some (repinned name p st)" by auto
  obtain r1 hs1 where f1: "forward env (fp_standby_addr p) ''GET'' (''/replica-targets/'' @ name) (QRaw []) (Some st, c) = (r1, hs1)"
    by (metis surj_pair)
  obtain c1 where c1: "hs1 = (Some st, c1)" "cl_agents c1 = cl_agents c" by (rule driven_fleet.target_asked [OF assms(1,3) f1])
  then have ok1: "fleet_ok F D V c1" using assms(2) by (simp add: fleet_ok_def)
  obtain r2 hs2 where f2: "forward env (fp_standby_addr p) ''PUT'' (Cp_Http.jails_path name) (QSpec (repin_spec name p)) (Some st, c1) = (r2, hs2)"
    by (metis surj_pair)
  obtain c2 where c2: "hs2 = (Some st, c2)" "fleet_ok F D V c2" and
    t: "cl_agents c2 = cl_agents c1 \<and> (\<forall>x y. r2 = Ok (x, y) \<longrightarrow> \<not> success x) \<or>
     (\<exists>res. told F (fp_standby_addr p) (AApply (repin_spec name p)) res c1 c2 \<and> (\<forall>x y. r2 = Ok (x, y) \<longrightarrow> success x \<longrightarrow> res = Ok ()))"
    by (rule driven_fleet.put_told [OF assms(1) ok1 assms(4) [OF p(1)] repin_spec_name [symmetric] assms(3) repin_spec_v4 f2]) (rule that)
  have "(\<exists>x y. r2 = Ok (x, y) \<and> success x) \<and> c' = c2"
    using assms(5,6) p(1) f1 f2 c1(1) c2(1) unfolding handle_force_repin_def provision_repin_def repin_spec_def
    by (auto simp: send_def error_response_def not_success record_repin_eq split: result.splits if_splits prod.splits)
  with t have "told F (fp_standby_addr p) (AApply (repin_spec name p)) (Ok ()) c1 c'" "c' = c2" by auto
  with told_applied [OF this(1) ok1] p c2(2) show ?thesis by (auto simp: repin_spec_name repinned_def table_defs)
qed

text \<open>The example: the node \<open>a\<close> is dead, its replica is complete on \<open>b\<close>.\<close>

definition fex_fleet :: "(fake_host, fake_host) fleet" where
  "fex_fleet = dex_fleet\<lparr>fl_yaml := aex_yaml\<lparr>ay_jail := \<lambda>_. Ok (repin_spec ''w-0'' ex_prep)\<rparr>,
     fl_slots := \<lambda>_. \<lparr>as_pod_cidr = Some \<lparr>net_addr = 0x0A00E500, net_prefix_len = 24\<rparr>, as_vips = [],
       as_targets = \<lparr>sb_host = aex_host, sb_fs = aex_fs, sb_by_name = [(''w-0'', \<lparr>tg_replica_name = ''w-0'', tg_volume_dataset = ''d'',
         tg_source_node_addr = ''a'', tg_last_snapshot = Some ''s''\<rparr>)]\<rparr>\<rparr>\<rparr>"

definition fex_env :: "fake_host cluster env" where
  "fex_env = dex_env\<lparr>env_exchange := fleet_exchange fex_fleet\<rparr>"

definition fex_cluster :: "fake_host cluster" where
  "fex_cluster = dex_cluster\<lparr>cl_fates := [Answered 1000, Answered 1000]\<rparr>"

interpretation fex: driven_fleet fex_fleet fex_env fk_datasets "{volume_dataset_path ''p'' ''v''}"
proof -
  have "http_crate (fl_parse fex_fleet) (env_parse_response fex_env)"
    using ref_http.http_crate_axioms by (simp add: fex_fleet_def fex_env_def dex_fleet_def dex_env_def)
  then show "driven_fleet fex_fleet fex_env fk_datasets {volume_dataset_path ''p'' ''v''}"
    using exa.agent_host_axioms
    by (intro driven_fleet.intro driven_fleet_axioms.intro)
       (auto simp: fex_fleet_def fex_env_def dex_fleet_def chops_def concat_map_singleton aex_agent_def ipnet_ref_def split: result.splits)
qed

lemma fex_ok: "fleet_ok fex_fleet fk_datasets {volume_dataset_path ''p'' ''v''} fex_cluster"
  using dex_ok by (simp add: fleet_ok_def fex_cluster_def fex_fleet_def)

lemma fex_address: "ns_address (sp_network (js_spec (repin_spec ''w-0'' ex_prep))) = ref_show \<lparr>net_addr = 0x0A00E502, net_prefix_len = 24\<rparr>"
  by (simp add: repin_spec_def replica_spec_def to_jail_spec_def ex_prep_def ref_show_def Let_def)

lemma fex_readable: "readable fex_fleet (repin_spec ''w-0'' ex_prep)"
  by (simp add: readable_def fex_fleet_def dex_fleet_def repin_spec_name)

lemma fex_put_accepted:
  "\<exists>w'. aroute (fl_agent fex_fleet ''b'') (fl_yaml fex_fleet) (fl_slots fex_fleet ''b'') \<lparr>pr_method = ''PUT'',
      pr_path = Cp_Http.jails_path ''w-0'', pr_body = fl_body fex_fleet (QSpec (repin_spec ''w-0'' ex_prep))\<rparr> (Some aex_aw) = ((200, AbEmpty), Some w')"
proof -
  let ?x = "\<lparr>net_addr = 0x0A00E502, net_prefix_len = 24\<rparr>" and ?cidr = "\<lparr>net_addr = 0x0A00E500, net_prefix_len = 24\<rparr>"
  have p: "plain_name ''w-0''" by (simp add: plain_name_def is_ascii_lowercase_def is_ascii_digit_def)
  have w: "cl_agents fex_cluster ''b'' = Some aex_aw" "wants fex_cluster ''b'' ''w-0'' = None" "\<forall>t. fs_fault (rc_fs (aw_rc aex_aw)) t = None"
    by (simp_all add: fex_cluster_def dex_cluster_def wants_def aex_aw_def aex_rc_def aex_fs_def desired_jails)
  have a: "api_parse_ipnet (ag_api (fl_agent fex_fleet ''b'')) (ns_address (sp_network (js_spec (repin_spec ''w-0'' ex_prep)))) = Ok (V4 ?x)"
    "as_pod_cidr (fl_slots fex_fleet ''b'') = Some ?cidr"
    using ref_parse_show [of ?x] unfolding fex_address by (simp_all add: fex_fleet_def dex_fleet_def aex_agent_def ipnet_ref_def)
  have k: "spec_ok (fl_agent fex_fleet ''b'') (repin_spec ''w-0'' ex_prep)"
    using ref_parse_show [of ?x] aex_resources
    by (auto simp: spec_ok_def fex_fleet_def dex_fleet_def fex_address repin_spec_name aex_agent_def is_ok_iff validate_name_Ok_iff
        is_ascii_lowercase_def is_ascii_digit_def validate_address_def ipnet_ref_def)
       (auto simp: repin_spec_def replica_spec_def to_jail_spec_def ex_prep_def ex_template_def Let_def)
  have "api_contains (ag_api (fl_agent fex_fleet ''b'')) (V4 ?cidr) (ipnet_addr (V4 ?x))"
    by (simp add: fex_fleet_def dex_fleet_def aex_agent_def ref.contains_v4 in_net_iff host_bits_def)
  from fex.put_accepted [OF fex_ok w(1) fex_readable _ k _ w(3) a this] p w(2) show ?thesis by (simp add: repin_spec_name)
qed

theorem repin_backed_by_standby_witness:
  "\<exists>st' c'. handle_force_repin fex_env ''w-0'' (Some ex_failed, fex_cluster) = ((200, BRaw []), (Some st', c')) \<and>
     placements_get (cp_placements st') ''w-0'' = Some ''b'' \<and> wants c' ''b'' ''w-0'' = Some (repin_spec ''w-0'' ex_prep)"
proof -
  let ?F = fex_fleet
  have p: "plain_name ''w-0''" by (simp add: plain_name_def is_ascii_lowercase_def is_ascii_digit_def)
  have now: "env_now fex_env fex_cluster = ex_now" "env_api fex_env = ipnet_ref" by (simp_all add: fex_env_def dex_env_def fex_cluster_def dex_cluster_def)
  have e: "fp_standby_addr ex_prep = ''b''" "fp_standby_node_id ex_prep = ''b''" by (simp_all add: ex_prep_def)
  have m: "''GET'' \<in> {''GET'', ''PUT'', ''DELETE''}" "''PUT'' \<in> {''GET'', ''PUT'', ''DELETE''}" "100 \<le> (200 :: nat)" "200 \<le> (999 :: nat)" by simp_all
  have ren: "fl_render ?F b = []" for b by (simp add: fex_fleet_def dex_fleet_def)
  have fit: "length (request_text ''GET'' (''/replica-targets/'' @ ''w-0'') (fl_body ?F (QRaw []))) \<le> MAX_MESSAGE_BYTES"
    "length (request_text ''PUT'' (Cp_Http.jails_path ''w-0'') (fl_body ?F (QSpec (repin_spec ''w-0'' ex_prep)))) \<le> MAX_MESSAGE_BYTES"
    "length (awrite_response 200 (fl_render ?F b)) \<le> 1000" "length (fl_render ?F b) \<le> u64_max" for b
    using length_show_nat [of 200 2] length_show_nat [of "Suc (Suc (Suc 0))" 2]
    by (simp_all add: fex_fleet_def dex_fleet_def repin_spec_name request_text_def Cp_Http.jails_path_def MAX_MESSAGE_BYTES_def
        awrite_response_def areason_phrase_def)
  have g: "aroute (fl_agent ?F ''b'') (fl_yaml ?F) (fl_slots ?F ''b'') \<lparr>pr_method = ''GET'', pr_path = ''/replica-targets/'' @ ''w-0'', pr_body = fl_body ?F (QRaw [])\<rparr>
      (cl_agents fex_cluster ''b'') = ((200, AbTargetReady ''w-0''), cl_agents fex_cluster ''b'')"
    using conjunct1 [OF conjunct2 [OF target_path [OF p]]]
    by (simp add: aroute_def handle_get_replica_target_def targets_get_def fex_fleet_def)
  have n1: "next_fate fex_cluster = Answered 1000" by (simp add: next_fate_def fex_cluster_def)
  let ?c1 = "fex_cluster\<lparr>cl_fates := drop 1 (cl_fates fex_cluster), cl_agents := (cl_agents fex_cluster)(''b'' := cl_agents fex_cluster ''b'')\<rparr>"
  note f1 = fex.forward_answered [OF m(1) conjunct1 [OF target_path [OF p]] fit(1) g m(3,4) n1 fit(3,4), of "Some ex_failed"]
  have n2: "next_fate ?c1 = Answered 1000" "cl_agents ?c1 = cl_agents fex_cluster" by (simp_all add: next_fate_def fex_cluster_def)
  obtain w' where r: "aroute (fl_agent ?F ''b'') (fl_yaml ?F) (fl_slots ?F ''b'') \<lparr>pr_method = ''PUT'', pr_path = Cp_Http.jails_path ''w-0'',
      pr_body = fl_body ?F (QSpec (repin_spec ''w-0'' ex_prep))\<rparr> (cl_agents ?c1 ''b'') = ((200, AbEmpty), Some w')"
    using fex_put_accepted by (auto simp: fex_cluster_def dex_cluster_def)
  note f2 = fex.forward_answered [OF m(2) conjunct1 [OF plain_path [OF p]] fit(2) r m(3,4) n2(1) fit(3,4), of "Some ex_failed"]
  obtain c' where run: "handle_force_repin fex_env ''w-0'' (Some ex_failed, fex_cluster) = ((200, BRaw []), (Some (repinned ''w-0'' ex_prep ex_failed), c'))"
    using f1 f2 ex_prepare
    by (simp add: handle_force_repin_def provision_repin_def send_def now e not_success record_repin_eq ren repin_spec_def)
  have "readable ?F (repin_spec ''w-0'' q)" if "prepare_force_repin (env_api fex_env) (env_now fex_env fex_cluster) ''w-0'' ex_failed = Ok q" for q
    using that ex_prepare fex_readable by (simp add: now)
  from repin_backed_by_standby [OF fex.driven_fleet_axioms fex_ok p this run not_success(6)] ex_prepare run show ?thesis
    by (auto simp: now e)
qed

end
