(* ===== verification/Spec2Isabelle.thy ===== *)
theory Spec2Isabelle
  imports Ag_Backoff Ag_Behaviour Ag_Calls Ag_Cli Ag_Desired Ag_Freebsd Ag_Host Ag_Http
    Ag_Invariant Ag_Limits Ag_Node Ag_Reconciler Ag_Registration Ag_Replicas Ag_Replication Ag_Service
    Ag_Start Ag_Store Ag_Worker Cp_Example Cp_Fencing Cp_Http Cp_Issued Cp_Plan Cp_Race Cp_Registry
    Cp_Services Cp_Start Cp_Subnet Cp_Worker Ctl_Agent Ctl_Main In_Acme Keel_Act Keel_F64 Keel_Http
    Keel_Httparse Keel_Ipnet Keel_Prelude Keel_Refine Keel_Spec Keel_Tls Sys_Cluster Sys_Deploy
    Sys_Failover
begin

text \<open>
  Keel: an orchestrator for FreeBSD jails.

  \<^bold>\<open>The program.\<close> A control plane (\<open>keel-controlplane\<close>) keeps the nodes, the services and where each replica runs,
  all in memory and all in one worker thread that takes commands from a channel; HTTP connections turn
  requests into commands and carry the resulting actions out against the agents. An agent (\<open>keel-agentd\<close>) runs on every node:
  its worker thread owns the reconciler, which brings the jails, volumes, networks and ingresses of the
  machine to the recorded state; other threads serve HTTP, register with the control plane, relay the traffic of services, send
  the volumes of a jail to its standby and receive those of others. \<open>keelctl\<close> is the command line of both.
  \<open>keel-spec\<close> holds the resources and their validation; \<open>keel-jail\<close>, \<open>keel-zfs\<close>, \<open>keel-net\<close> and \<open>keel-ingress\<close> hold
  traits over the machine, each with an implementation that runs commands and one in memory.

  \<^bold>\<open>Conventions.\<close> Names follow the source; a name that several files share gets a prefix (\<open>ag_\<close>, \<open>cp_\<close>, \<open>fake_\<close>,
  \<open>cli_\<close>). A Rust \<open>Result\<close> is \<^typ>\<open>('a, 'e) result\<close>. Pure code that can panic has an option type, where \<^const>\<open>None\<close> is the
  panic; stateful code is an action \<open>('s, 'a, 'e) act\<close> whose outcome is a value, an error or a panic, and which
  returns the state it leaves behind in every case, also on an early return. A \<open>HashMap\<close> is an association
  list \<open>hmap\<close>, whose order stands for the iteration order. Machine integers are words where they wrap
  and bounded numbers elsewhere; \<open>f64\<close> is rounded rational arithmetic with infinities and NaN. Times are
  arguments. Threads that share a worker are interleavings of its commands.

  \<^bold>\<open>Foundations.\<close>
  \<^item> Keel_Prelude: results, strings, decimal numbers, association lists, the locale of a server loop.
  \<^item> Keel_Act: actions with outcomes, and what it means that an action keeps a predicate and does not panic.
  \<^item> Keel_Refine: runs of an abstract transition system, and the locale of a server loop that refines one.
  \<^item> Keel_F64: \<open>f64\<close> as far as the scheduler and the resource parser use it, with the parser of decimals.
  \<^item> Keel_Ipnet: the crate \<open>ipnet\<close> as a record of functions, its documented behaviour as the locale \<open>ipnet_crate\<close>,
    and an instance.
  \<^item> Keel_Spec: \<open>keel-spec/src\<close>: types, validation, CPU and memory quantities, the choice by \<open>kind\<close>.
  \<^item> Keel_Http: reading of requests and heads, common to \<open>http.rs\<close> of both servers; the reading loop
    recurses on the pieces the socket delivers, and ends after at most 65536 of them.
  \<^item> Keel_Httparse: the crate \<open>httparse\<close> as the locale \<open>http_crate\<close>, what follows for messages that arrive in pieces
    or in part, and an instance.
  \<^item> Keel_Tls: \<open>tls.rs\<close>, loading and reloading.

  \<^bold>\<open>Control plane\<close> (\<open>keel-controlplane/src\<close>).
  \<^item> Cp_Subnet (\<open>subnet.rs\<close>, \<open>addresses.rs\<close>), Cp_Registry (\<open>registry.rs\<close>, \<open>scheduler.rs\<close>, \<open>placements.rs\<close>, \<open>standbys.rs\<close>,
    \<open>pending_fences.rs\<close>; the three tables interpret one table interface), Cp_Services (\<open>services.rs\<close>).
  \<^item> Cp_Worker (\<open>worker.rs\<close>): the state of the thread, one branch of \<open>handle_command\<close> for each command, the invariant
    and that every command keeps it. Cp_Plan: what a pass over the services schedules and removes, forced
    re-pinning, discovery. Cp_Example: a small cluster the witnesses are evaluated on.
  \<^item> Cp_Http (\<open>http.rs\<close>): routes, forwarding, execution of replica actions, over an environment that may fail
    at every exchange. Cp_Fencing: re-pinning and fencing as the handlers do them. Cp_Race: passes of
    different connections, step by step in any interleaving. Cp_Issued: the commands that requests are made of.
  \<^item> Cp_Start (\<open>main.rs\<close>): flags and start, and the worker of a process that has started.

  \<^bold>\<open>Agent\<close> (\<open>keel-agentd/src\<close> and the trait crates).
  \<^item> Ag_Store (\<open>store.rs\<close>, \<open>ingress_store.rs\<close>, \<open>replica_target_store.rs\<close>): a file system in which any operation may
    fail before or half way; saving is atomic. Ag_Backoff (\<open>backoff.rs\<close>).
  \<^item> Ag_Host: the traits as records of methods, the in-memory hosts, and the locale \<open>host_laws\<close> of what the
    reconciler relies on. Ag_Reconciler (\<open>reconciler.rs\<close>, \<open>record.rs\<close>), Ag_Invariant (no method panics or loses a
    volume, on any lawful host), Ag_Worker (\<open>worker.rs\<close>), Ag_Calls (the calls that building and taking down a jail
    consist of, as data), Ag_Behaviour (what a pass and a deletion do, on any host), Ag_Limits (where the agent fails). Ag_Desired: the agent as a store of wanted jails and ingresses; every run of its worker is a run of
    that store, on any lawful host.
  \<^item> Ag_Replication (\<open>replication.rs\<close>, \<open>replication_loop.rs\<close>, \<open>replica_target.rs\<close>), Ag_Replicas (sender and standby over a
    link that may break anywhere).
  \<^item> Ag_Http (\<open>http.rs\<close>), Ag_Service (a request from the bytes to the disk), Ag_Registration (\<open>registration.rs\<close>, \<open>proxy.rs\<close>,
    \<open>podcidr.rs\<close>, \<open>service_vips.rs\<close>), Ag_Node (the threads of a node together, one command of the
    worker at a time; the locale \<open>sends_closed\<close> carries what a thread does through its sends).
  \<^item> Ag_Cli (\<open>process.rs\<close>, \<open>cli.rs\<close>, \<open>mount_cli.rs\<close>, \<open>nginx.rs\<close>, \<open>pf.rs\<close>): the implementations that run commands, over programs
    that may print anything and exit anyhow. Ag_Freebsd: the locale \<open>host_programs\<close> says what these programs have to leave
    alone when they are run as the agent runs them, and gives \<open>host_laws\<close>; it is interpreted on programs of any
    behaviour, with a record of what has been run. What that record can hold is the statement.
  \<^item> Ag_Start (\<open>main.rs\<close>, \<open>capacity.rs\<close>): flags and start. In_Acme (\<open>keel-ingress/src/ovh.rs\<close>, \<open>instant_acme_client.rs\<close>).

  \<^bold>\<open>Client and cluster.\<close> Ctl_Main (\<open>keelctl/src/main.rs\<close>); Ctl_Agent puts it on the socket of an agent, where
  nobody may listen, the connection may break and the answer may be cut: a successful \<open>apply\<close> means that the record is on disk. Sys_Cluster connects the registration thread of an agent to the control plane.
  Sys_Deploy puts the control plane over the connections of a fleet of agents, each the model of the agent above: after a pass
  over the services its placements are what the agents have been told; one request to an agent is one step, and requests of
  other threads between those of a pass are not considered. Sys_Failover: what a re-pin and a
  cleared fence mean at the agents.

  \<^bold>\<open>What is shown.\<close> The worker of the control plane does not panic or break its invariant, except with a service network \<open>/0\<close>
  (Cp_Start, Cp_Http); the worker of an agent does not either, as long as no jail with an IPv6 address is applied, which is refused once the node
  knows its block (Ag_Freebsd, Ag_Node, Ag_Limits); services in
  the tables have passed validation (Cp_Issued); the plan of the control plane is sound (Cp_Plan); overlapping passes with one plan
  amount to one pass, but not when a heartbeat comes in between (Cp_Race); re-pinning is all or nothing and a fence is kept until it is confirmed (Cp_Fencing);
  on any host the reconciler makes exactly the calls that build or delete a jail, and rolls a failed attempt back (Ag_Behaviour); it
  recovers after a crash at any point (Ag_Store, Ag_Start); \<open>zfs destroy\<close> is repeated and judged as meant (Ag_Freebsd); between in-memory
  hosts, a standby that is ready holds what its sender took, and the first loop of a volume keeps its standby up to date over a working link (Ag_Replicas); on the in-memory
  host the routes follow the blocks of the live peers (Ag_Node);
  requests are read within their bounds (Keel_Http); the agent is a store (Ag_Desired), and what the
  control plane records of placements, fences and re-pins is true of the agents' stores (Sys_Deploy, Sys_Failover).
  Theorems of the kind that an error leaves something behind state where the code does less than its comments say.

  \<^bold>\<open>Bounds.\<close> Constants are those of the source: 15 seconds until a node counts as dead, 64 KiB for a message, 10 attempts at
  \<open>zfs destroy\<close>, 30 looks at the DNS, the delays of the backoff. Loops recurse on the data they consume, so
  there is no fuel; \<open>split_whitespace\<close> and the trimming loops recurse on the length of the text.

  \<^bold>\<open>Not modelled.\<close> The crates \<open>ipnet\<close>, \<open>httparse\<close>, \<open>serde_yaml\<close>, \<open>serde_json\<close>, \<open>toml\<close>, \<open>rustls\<close>, \<open>ureq\<close>, \<open>tokio\<close> and
  \<open>instant-acme\<close> and the programs of FreeBSD are arguments. The accept loops, which start a thread for each
  connection, the copying of bytes between two sockets in \<open>proxy.rs\<close>, log output and the panic messages of \<open>expect\<close> are left
  out: they have no state of their own. The TLS variants of the servers read and write as the plain ones
  do, and \<open>keel-agentd/src/tls.rs\<close> and \<open>keelctl/src/tls.rs\<close> repeat the control plane's.
\<close>

section \<open>The control plane as a whole\<close>

text \<open>A node is listed as alive exactly while requests can be routed to it, and that is so exactly
  for the fifteen seconds that follow its registration or its last heartbeat.\<close>

lemma alive_means_routable:
  assumes "cp_inv api st"
  shows "((\<exists>s \<in> set (registry_list api now (cp_registry st)). st_id s = n \<and> st_status s = Alive) \<longleftrightarrow>
      is_ok (resolve (cp_registry st) n now)) \<and>
    (is_ok (resolve (cp_registry st) n now) \<longleftrightarrow>
      (\<exists>r. hm_get (rg_nodes (cp_registry st)) n = Some r \<and> now < nr_last_heartbeat r + from_secs 15))"
proof
  have "hm_wf (rg_nodes (cp_registry st))" using assms by (simp add: cp_inv_def registry_inv_def)
  then show "(\<exists>s \<in> set (registry_list api now (cp_registry st)). st_id s = n \<and> st_status s = Alive) \<longleftrightarrow>
      is_ok (resolve (cp_registry st) n now)" by (rule alive_iff_resolve)
  have "now - t < DEAD_THRESHOLD \<longleftrightarrow> now < t + from_secs 15" for t
    by (auto simp: DEAD_THRESHOLD_def from_secs_def)
  then show "is_ok (resolve (cp_registry st) n now) \<longleftrightarrow>
      (\<exists>r. hm_get (rg_nodes (cp_registry st)) n = Some r \<and> now < nr_last_heartbeat r + from_secs 15)"
    by (auto simp: is_ok_iff resolve_Ok_iff)
qed

text \<open>C29: The scheduler picks a node whose headroom no other candidate exceeds, the least id among
  those that share it, whatever the order in which the candidates are listed.\<close>

theorem pick_node_optimal:
  assumes "ns \<noteq> []" "\<forall>n \<in> set ns. finite_resources n" "set ms = set ns"
  shows "\<exists>n \<in> set ns. pick_node ms = Ok (res_id n) \<and>
    (\<forall>m \<in> set ns. f64_le (headroom_score m) (headroom_score n) \<and>
      (headroom_score m = headroom_score n \<longrightarrow> res_id n \<le> res_id m))"
proof -
  obtain i where i: "pick_node ns = Ok i" using sched.pick_total [OF assms(1)] by blast
  moreover have "pick_node ms = pick_node ns" using assms by (intro pick_node_perm) auto
  ultimately show ?thesis using pick_node_best [OF i] assms(2) by auto
qed

theorem pick_node_optimal_witness:
  "\<exists>n \<in> {\<lparr>res_id = ''b'', res_capacity_cpu = Fin 4, res_capacity_memory = 8, res_committed_cpu = Fin 1, res_committed_memory = 0\<rparr>,
      \<lparr>res_id = ''a'', res_capacity_cpu = Fin 4, res_capacity_memory = 8, res_committed_cpu = Fin 1, res_committed_memory = 0\<rparr>}.
     pick_node [\<lparr>res_id = ''b'', res_capacity_cpu = Fin 4, res_capacity_memory = 8, res_committed_cpu = Fin 1, res_committed_memory = 0\<rparr>,
      \<lparr>res_id = ''a'', res_capacity_cpu = Fin 4, res_capacity_memory = 8, res_committed_cpu = Fin 1, res_committed_memory = 0\<rparr>] = Ok (res_id n)"
  using pick_node_optimal [of "[\<lparr>res_id = ''b'', res_capacity_cpu = Fin 4, res_capacity_memory = 8, res_committed_cpu = Fin 1, res_committed_memory = 0\<rparr>,
      \<lparr>res_id = ''a'', res_capacity_cpu = Fin 4, res_capacity_memory = 8, res_committed_cpu = Fin 1, res_committed_memory = 0\<rparr>]"]
  by (fastforce simp: finite_resources_def)

text \<open>Asking for a new service fails for want of a virtual address exactly when every address of
  the service network is taken by a service.\<close>

lemma vip_exhausted_only_when_full:
  assumes "ipnet_crate api" "cp_inv api st" "services_get (cp_services st) n = None"
  shows "services_apply api n d t p (cp_services st) = Some (Err (VipPoolExhausted n), cp_services st) \<longleftrightarrow>
    (\<forall>a. in_net (sv_service_cidr (cp_services st)) a \<longrightarrow>
      (\<exists>m q. services_get (cp_services st) m = Some q \<and> srv_vip q = a))"
  using assms services_apply_exhausted_iff [OF assms(1), of "cp_services st"] by (simp add: cp_inv_def)

text \<open>The replicas to add and to remove: after the difference is applied the service has exactly
  the wanted number; indices are reused from the lowest free one, never two copies of one, and the
  surplus is taken from the highest indices.\<close>

lemma diff_replicas_spec:
  assumes "diff_replicas d h = (add, rem)" "sorted_wrt (<) h" "d \<le> u32_max" "length h \<le> u32_max"
  shows "card (set h \<union> set add - set rem) = d \<and> set add \<inter> set h = {} \<and> set rem \<subseteq> set h \<and> distinct add \<and> distinct rem \<and>
    (\<forall>x \<in> set add. \<forall>y < x. y \<in> set h \<union> set add) \<and> (\<forall>x \<in> set rem. \<forall>y \<in> set h - set rem. y < x)"
proof -
  have dh: "distinct h" using assms(2) by (simp add: strict_sorted_iff)
  consider "length h < d" | "d < length h" | "length h = d" by linarith
  then show ?thesis
  proof cases
    case 1
    note a = diff_replicas_add [OF assms(1) 1 assms(3)]
    have da: "distinct add" using a(3) by (simp add: strict_sorted_iff)
    have "card (set h \<union> set add) = length h + length add"
      using a(4) dh da by (subst card_Un_disjoint) (auto simp: distinct_card)
    with a da 1 show ?thesis by auto
  next
    case 2
    note r = diff_replicas_remove [OF assms(1) 2 assms(4,2)]
    have dr: "distinct rem" using r(4) by (metis distinct_rev sorted_wrt_rev strict_sorted_iff)
    have "card (set h - set rem) = length h - length rem"
      using r(3) dh dr by (subst card_Diff_subset) (auto simp: distinct_card)
    with r dr 2 show ?thesis by auto
  next
    case 3
    then have "add = []" "rem = []" using assms(1,4) diff_replicas_done [of h d] by auto
    with 3 dh show ?thesis by (simp add: distinct_card)
  qed
qed

text \<open>A jail name belongs to at most one service, as at most one of its replicas, and the name a
  replica is given leads back to it.\<close>

lemma replica_names_unambiguous:
  "(\<forall>i j. replica_index s r = Some i \<and> replica_index t r = Some j \<longrightarrow> s = t \<and> i = j) \<and>
   (\<forall>k \<le> u32_max. replica_index s (replica_name s k) = Some k)"
  using replica_index_unique [of s r _ t] by auto

text \<open>A memory size written with a unit is read as the number of bytes it stands for, or refused
  when that number does not fit in 64 bits.\<close>

lemma memory_size_read_back:
  assumes "unit_value c = Some u" "0 < n" "n \<le> u64_max"
  shows "parse_memory_bytes (show_nat n @ [c]) =
    (if n * u \<le> u64_max then Ok (n * u) else Err (InvalidMemory (show_nat n @ [c])))"
  using assms by (rule parse_memory_bytes_unit)

end
